(* ===== verification/Kyber_Prelude.thy ===== *)
theory Kyber_Prelude
  imports Main "HOL-Library.Word" "HOL-Library.List_Lexorder" "HOL-Library.Char_ord"
begin

text \<open>
  The vocabulary that the component theories share.

  \<^item> the fixed-width integers of the C++ code as words, and the errors a run of the code can end
    in (a call of the macro \<^verbatim>\<open>KB_UNIMPLEMENTED\<close>, which logs and exits the process, and the accesses
    that the C++ standard leaves undefined: a read outside a vector, a null pointer, a shift by the
    width of the type or more);
  \<^item> little-endian byte sequences of a number, as \<^verbatim>\<open>memcpy\<close> of an integer gives them on the x86-64
    target, with the two inverse laws;
  \<^item> \<^verbatim>\<open>std::map\<close> and \<^verbatim>\<open>std::vector\<close> operations the sources use: an ordered map is its in-order list of
    entries, with \<^verbatim>\<open>emplace\<close> (the first value stays), assignment through \<^verbatim>\<open>operator[]\<close> (the last value
    stays) and \<^verbatim>\<open>erase\<close>; insertion at an index and the update of the first element that matches.

  The collection \<open>kyber_simps\<close> gathers the rewrite rules of the whole development.
\<close>

named_theorems kyber_simps \<open>rewrite rules shared by the component proofs\<close>

type_synonym u8 = "8 word"
type_synonym u16 = "16 word"
type_synonym u32 = "32 word"
type_synonym u64 = "64 word"
type_synonym bytes = "u8 list"

datatype kerror =
    Unimplemented
  | Out_Of_Bounds
  | Null_Deref
  | Shift_Too_Far
  | Bad_Format
  | Out_Of_Fuel
  | Freed_Access

type_synonym 'a result = "kerror + 'a"


section \<open>Little-endian integers\<close>

primrec le_bytes :: "nat \<Rightarrow> nat \<Rightarrow> bytes" where
  "le_bytes 0 v = []"
| "le_bytes (Suc k) v = word_of_nat v # le_bytes k (v div 256)"

primrec le_val :: "bytes \<Rightarrow> nat" where
  "le_val [] = 0"
| "le_val (b # bs) = unat b + 256 * le_val bs"

lemma length_le_bytes [simp]: "length (le_bytes k v) = k"
  by (induction k arbitrary: v) auto

lemma unat_u8_of_nat: "unat (word_of_nat v :: u8) = v mod 256"
  by (simp add: unat_of_nat take_bit_eq_mod)

lemma unat_small:
  "n < 2 ^ 16 \<Longrightarrow> unat (word_of_nat n :: u16) = n"
  "n < 2 ^ 32 \<Longrightarrow> unat (word_of_nat n :: u32) = n"
  "n < 2 ^ 64 \<Longrightarrow> unat (word_of_nat n :: u64) = n"
  by (simp_all add: unat_of_nat take_bit_eq_mod)

lemma sint_small: "n < 2 ^ 31 \<Longrightarrow> sint (word_of_nat n :: u32) = int n"
  by (simp add: signed_of_nat signed_take_bit_int_eq_self)

lemma le_val_le_bytes [simp]: "le_val (le_bytes k v) = v mod 256 ^ k"
proof (induction k arbitrary: v)
  case (Suc k)
  have "v mod 256 + 256 * (v div 256 mod 256 ^ k) = v mod (256 * 256 ^ k)"
    by (simp add: mod_mult2_eq)
  then show ?case using Suc by (simp add: unat_u8_of_nat)
qed simp

lemma u8_less_256: "unat (b :: u8) < 256"
  using unsigned_less [where ?'a = nat, of b] by simp

lemma le_bytes_le_val [simp]: "length bs = k \<Longrightarrow> le_bytes k (le_val bs) = bs"
proof (induction bs arbitrary: k)
  case (Cons b bs)
  have "unat (word_of_nat (unat b + 256 * le_val bs) :: u8) = unat b"
    by (simp only: unat_u8_of_nat) (simp add: u8_less_256)
  then have "word_of_nat (unat b + 256 * le_val bs) = b"
    by (simp only: word_unat_eq_iff)
  moreover have "(unat b + 256 * le_val bs) div 256 = le_val bs"
    using u8_less_256 [of b] by simp
  ultimately show ?case using Cons by auto
qed simp

lemma le_val_less: "le_val bs < 256 ^ length bs"
proof (induction bs)
  case (Cons b bs)
  then have "256 * Suc (le_val bs) \<le> 256 * 256 ^ length bs" by (intro mult_le_mono2) simp
  then show ?case using u8_less_256 [of b] by simp
qed simp

definition bytes16 :: "u16 \<Rightarrow> bytes" where "bytes16 w = le_bytes 2 (unat w)"
definition bytes32 :: "u32 \<Rightarrow> bytes" where "bytes32 w = le_bytes 4 (unat w)"
definition bytes64 :: "u64 \<Rightarrow> bytes" where "bytes64 w = le_bytes 8 (unat w)"
definition word16 :: "bytes \<Rightarrow> u16" where "word16 bs = word_of_nat (le_val bs)"
definition word32 :: "bytes \<Rightarrow> u32" where "word32 bs = word_of_nat (le_val bs)"
definition word64 :: "bytes \<Rightarrow> u64" where "word64 bs = word_of_nat (le_val bs)"

lemma length_bytesN [simp]:
  "length (bytes16 a) = 2" "length (bytes32 b) = 4" "length (bytes64 c) = 8"
  by (simp_all add: bytes16_def bytes32_def bytes64_def)

lemma length_concat_bytes32 [simp]: "length (concat (map bytes32 ws)) = 4 * length ws"
  by (induction ws) auto

lemma bytesN_nonempty [simp]: "bytes16 a \<noteq> []" "bytes32 b \<noteq> []" "bytes64 c \<noteq> []"
  by (metis length_bytesN(1) list.size(3) zero_neq_numeral,
      metis length_bytesN(2) list.size(3) zero_neq_numeral,
      metis length_bytesN(3) list.size(3) zero_neq_numeral)

lemma wordN_bytesN [simp]:
  "word16 (bytes16 a) = a" "word32 (bytes32 b) = b" "word64 (bytes64 c) = c"
proof -
  show "word16 (bytes16 a) = a"
    using unsigned_less [where ?'a = nat, of a] by (simp add: word16_def bytes16_def)
  show "word32 (bytes32 b) = b"
    using unsigned_less [where ?'a = nat, of b] by (simp add: word32_def bytes32_def)
  show "word64 (bytes64 c) = c"
    using unsigned_less [where ?'a = nat, of c] by (simp add: word64_def bytes64_def)
qed


lemma bytesN_wordN:
  "length bs = 2 \<Longrightarrow> bytes16 (word16 bs) = bs"
  "length cs = 4 \<Longrightarrow> bytes32 (word32 cs) = cs"
  "length ds = 8 \<Longrightarrow> bytes64 (word64 ds) = ds"
  using le_val_less [of bs] le_val_less [of cs] le_val_less [of ds]
  by (simp_all add: bytes16_def word16_def bytes32_def word32_def bytes64_def word64_def
      unat_of_nat take_bit_eq_mod)


section \<open>Strings\<close>

text \<open>
  A \<^verbatim>\<open>std::string\<close> is a list of characters and may hold the character 0; \<open>cstr\<close> is what a function that
  takes \<^verbatim>\<open>const char*\<close> sees of it.
\<close>

definition NUL :: char where "NUL = CHR 0x00"

definition cstr :: "string \<Rightarrow> string" where
  "cstr s = takeWhile (\<lambda>c. c \<noteq> NUL) s"

definition byte_of :: "char \<Rightarrow> u8" where "byte_of c = of_char c"
definition char_of_byte :: "u8 \<Rightarrow> char" where "char_of_byte b = char_of (unat b)"

definition str_bytes :: "string \<Rightarrow> bytes" where "str_bytes s = map byte_of s"
definition bytes_str :: "bytes \<Rightarrow> string" where "bytes_str bs = map char_of_byte bs"

lemma char_of_byte_of [simp]: "char_of_byte (byte_of c) = c"
proof -
  have "(of_char c :: nat) < 256" by (simp add: nat_of_char_less_256)
  then have "unat (of_nat (of_char c) :: u8) = (of_char c :: nat)" by (simp add: unat_u8_of_nat)
  then have "unat (of_char c :: u8) = (of_char c :: nat)" by (simp add: of_nat_of_char)
  then show ?thesis by (simp add: char_of_byte_def byte_of_def)
qed

lemma unat_byte_of: "unat (byte_of c) = of_char c"
proof -
  have "(of_char c :: nat) < 256" by (simp add: nat_of_char_less_256)
  then have "unat (of_nat (of_char c) :: u8) = (of_char c :: nat)" by (simp add: unat_u8_of_nat)
  then show ?thesis by (simp add: byte_of_def of_nat_of_char)
qed

lemma byte_of_char_of_byte [simp]: "byte_of (char_of_byte b) = b"
  by (rule word_unat_eq_iff [THEN iffD2])
    (simp add: unat_byte_of char_of_byte_def u8_less_256)

lemma byte_of_eq_0_iff [simp]: "byte_of c = 0 \<longleftrightarrow> c = NUL"
proof -
  have "byte_of NUL = 0" by (simp add: byte_of_def NUL_def)
  then show ?thesis by (metis char_of_byte_of)
qed

lemma bytes_str_str_bytes [simp]: "bytes_str (str_bytes s) = s"
  by (induction s) (simp_all add: bytes_str_def str_bytes_def)

lemma str_bytes_bytes_str [simp]: "str_bytes (bytes_str bs) = bs"
  by (induction bs) (simp_all add: bytes_str_def str_bytes_def)

lemma length_str_bytes [simp]: "length (str_bytes s) = length s"
  by (simp add: str_bytes_def)

lemma cstr_id: "NUL \<notin> set s \<Longrightarrow> cstr s = s"
  by (auto simp: cstr_def)

lemma NUL_notin_cstr [simp]: "NUL \<notin> set (cstr s)"
  by (auto simp: cstr_def dest: set_takeWhileD)


text \<open>Decimal output, as \<^verbatim>\<open>std::to_string\<close>.\<close>

fun dec_digits :: "nat \<Rightarrow> string" where
  "dec_digits n = (if n < 10 then [char_of (48 + n)] else dec_digits (n div 10) @ [char_of (48 + n mod 10)])"

definition dec_i32 :: "u32 \<Rightarrow> string" where
  "dec_i32 w = (if sint w < 0 then ''-'' @ dec_digits (nat (- sint w)) else dec_digits (unat w))"


section \<open>Vectors\<close>

text \<open>\<^verbatim>\<open>v.insert(v.begin() + i, x)\<close>, for \<open>i \<le> v.size()\<close>.\<close>

definition insert_at :: "nat \<Rightarrow> 'a \<Rightarrow> 'a list \<Rightarrow> 'a list" where
  "insert_at i x xs = take i xs @ x # drop i xs"

lemma length_insert_at [simp]: "length (insert_at i x xs) = Suc (length xs)"
  by (simp add: insert_at_def)

lemma set_insert_at [simp]: "set (insert_at i x xs) = insert x (set xs)"
  by (metis (no_types) append_take_drop_id insert_at_def list.simps(15) set_append Un_insert_right)

lemma nth_insert_at_same: "i \<le> length xs \<Longrightarrow> insert_at i x xs ! i = x"
  by (simp add: insert_at_def nth_append)

lemma insert_at_append: "insert_at (length xs) x (xs @ ys) = xs @ x # ys"
  by (simp add: insert_at_def)

text \<open>A loop over a vector that changes the first element with a property and leaves.\<close>

fun update_first :: "('a \<Rightarrow> bool) \<Rightarrow> ('a \<Rightarrow> 'a) \<Rightarrow> 'a list \<Rightarrow> 'a list" where
  "update_first P f [] = []"
| "update_first P f (x # xs) = (if P x then f x # xs else x # update_first P f xs)"

lemma length_update_first [simp]: "length (update_first P f xs) = length xs"
  by (induction xs) auto

lemma update_first_none: "find P xs = None \<Longrightarrow> update_first P f xs = xs"
  by (induction xs) (auto split: if_splits)

lemma find_update_first:
  "(\<And>x. P x \<Longrightarrow> P (f x)) \<Longrightarrow> find P (update_first P f xs) = map_option f (find P xs)"
  by (induction xs) auto

lemma find_update_first_other:
  "(\<And>x. P x \<Longrightarrow> \<not> Q x) \<Longrightarrow> (\<And>x. P x \<Longrightarrow> \<not> Q (f x)) \<Longrightarrow> find Q (update_first P f xs) = find Q xs"
  by (induction xs) auto

lemma find_append:
  "find P (xs @ ys) = (case find P xs of None \<Rightarrow> find P ys | Some x \<Rightarrow> Some x)"
  by (induction xs) auto

lemma map_update_first:
  "(\<And>x. P x \<Longrightarrow> g (f x) = g x) \<Longrightarrow> map g (update_first P f xs) = map g xs"
  by (induction xs) auto


text \<open>
  The contract of the operations that add an entry to a vector or replace the one that has its key: the
  key, the vector in the state, and the operation, which returns whether it replaced.
\<close>

locale upsert =
  fixes key :: "'e \<Rightarrow> 'k"
    and entries :: "'s \<Rightarrow> 'e list"
    and add :: "'e \<Rightarrow> 's \<Rightarrow> bool \<times> 's"
  assumes add_known: "key e \<in> key ` set (entries s) \<Longrightarrow>
      fst (add e s) \<and> entries (snd (add e s)) = update_first (\<lambda>x. key x = key e) (\<lambda>_. e) (entries s)"
    and add_fresh: "key e \<notin> key ` set (entries s) \<Longrightarrow> \<not> fst (add e s) \<and> entries (snd (add e s)) = entries s @ [e]"
begin

lemma keys_update: "map key (update_first (\<lambda>x. key x = key e) (\<lambda>_. e) xs) = map key xs"
  by (rule map_update_first) simp

lemma find_update: "find (\<lambda>x. key x = k) (update_first (\<lambda>x. key x = key e) (\<lambda>_. e) xs) =
    (if k = key e then map_option (\<lambda>_. e) (find (\<lambda>x. key x = k) xs) else find (\<lambda>x. key x = k) xs)"
  by (induction xs) auto

lemma keys_add: "map key (entries (snd (add e s))) =
    map key (entries s) @ (if key e \<in> key ` set (entries s) then [] else [key e])"
  using add_known [of e s] add_fresh [of e s] by (simp add: keys_update)

lemma distinct_add: "distinct (map key (entries s)) \<Longrightarrow> distinct (map key (entries (snd (add e s))))"
  by (simp add: keys_add)

lemma find_add: "find (\<lambda>x. key x = k) (entries (snd (add e s))) =
    (if k = key e then Some e else find (\<lambda>x. key x = k) (entries s))"
proof (cases "key e \<in> key ` set (entries s)")
  case True
  then have "find (\<lambda>x. key x = key e) (entries s) \<noteq> None" by (auto simp: find_None_iff image_iff)
  then show ?thesis
    using add_known [OF True] by (auto simp: find_update)
next
  case False
  then have "find (\<lambda>x. key x = key e) (entries s) = None" by (auto simp: find_None_iff image_iff)
  then show ?thesis
    using add_fresh [OF False] by (auto simp: find_append split: option.split)
qed

lemma replaced_iff: "fst (add e s) \<longleftrightarrow> key e \<in> key ` set (entries s)"
  using add_known add_fresh by blast

lemma add_idem: "entries (snd (add e (snd (add e s)))) = entries (snd (add e s))"
proof -
  have in_keys: "key e \<in> key ` set (entries (snd (add e s)))"
  proof -
    have "key e \<in> set (map key (entries (snd (add e s))))" by (simp add: keys_add del: set_map) simp
    then show ?thesis by simp
  qed
  let ?up = "update_first (\<lambda>x. key x = key e) (\<lambda>_. e)"
  have "?up (?up xs) = ?up xs" for xs by (induction xs) auto
  moreover have "?up (xs @ [e]) = xs @ [e]" if "key e \<notin> key ` set xs" for xs
    using that by (induction xs) auto
  ultimately show ?thesis
    using add_known [OF in_keys] add_known [of e s] add_fresh [of e s]
    by (cases "key e \<in> key ` set (entries s)") auto
qed

end


section \<open>Ordered maps\<close>

text \<open>
  A \<^verbatim>\<open>std::map\<close> as the list of its entries in key order. \<open>map_emplace\<close> keeps an existing entry,
  \<open>map_put\<close> overwrites it.
\<close>

fun map_emplace :: "'k::linorder \<Rightarrow> 'v \<Rightarrow> ('k \<times> 'v) list \<Rightarrow> ('k \<times> 'v) list" where
  "map_emplace k v [] = [(k, v)]"
| "map_emplace k v ((k', v') # m) =
    (if k < k' then (k, v) # (k', v') # m
     else if k = k' then (k', v') # m
     else (k', v') # map_emplace k v m)"

fun map_put :: "'k::linorder \<Rightarrow> 'v \<Rightarrow> ('k \<times> 'v) list \<Rightarrow> ('k \<times> 'v) list" where
  "map_put k v [] = [(k, v)]"
| "map_put k v ((k', v') # m) =
    (if k < k' then (k, v) # (k', v') # m
     else if k = k' then (k, v) # m
     else (k', v') # map_put k v m)"

definition map_erase :: "'k \<Rightarrow> ('k \<times> 'v) list \<Rightarrow> ('k \<times> 'v) list" where
  "map_erase k m = filter (\<lambda>e. fst e \<noteq> k) m"

abbreviation keys :: "('k \<times> 'v) list \<Rightarrow> 'k list" where "keys m \<equiv> map fst m"

abbreviation ordered :: "('k::linorder \<times> 'v) list \<Rightarrow> bool" where
  "ordered m \<equiv> sorted_wrt (<) (keys m)"

lemma set_keys_map_emplace [simp]: "set (keys (map_emplace k v m)) = insert k (set (keys m))"
  by (induction k v m rule: map_emplace.induct) auto

lemma set_keys_map_put [simp]: "set (keys (map_put k v m)) = insert k (set (keys m))"
  by (induction k v m rule: map_put.induct) auto

lemma ordered_map_emplace [simp]: "ordered m \<Longrightarrow> ordered (map_emplace k v m)"
  by (induction k v m rule: map_emplace.induct) (auto simp del: set_map)

lemma ordered_map_put [simp]: "ordered m \<Longrightarrow> ordered (map_put k v m)"
  by (induction k v m rule: map_put.induct) (auto simp del: set_map)

lemma ordered_map_erase [simp]: "ordered m \<Longrightarrow> ordered (map_erase k m)"
  by (induction m) (auto simp: map_erase_def)

lemma map_of_None_less: "\<forall>x \<in> set (keys m). (k :: 'k::linorder) < x \<Longrightarrow> map_of m k = None"
  by (induction m) auto

lemma map_of_map_emplace:
  "ordered m \<Longrightarrow> map_of (map_emplace k v m) =
    (case map_of m k of None \<Rightarrow> (map_of m)(k \<mapsto> v) | Some _ \<Rightarrow> map_of m)"
proof (induction k v m rule: map_emplace.induct)
  case (2 k v k' v' m)
  show ?case
  proof (cases "k < k'")
    case True
    then have "map_of ((k', v') # m) k = None"
      using 2 by (intro map_of_None_less) auto
    then show ?thesis using True by auto
  next
    case False
    then show ?thesis using 2 by (auto split: option.split)
  qed
qed auto

lemma map_of_map_put [simp]:
  "map_of (map_put k v m) = (map_of m)(k \<mapsto> v)"
  by (induction k v m rule: map_put.induct) auto

lemma map_of_map_erase [simp]: "map_of (map_erase k m) = (map_of m)(k := None)"
  by (induction m) (auto simp: map_erase_def)

lemma map_emplace_above:
  "\<forall>x \<in> set (keys m). x < k \<Longrightarrow> map_emplace k v m = m @ [(k, v)]"
  by (induction k v m rule: map_emplace.induct) auto

end
