(* ===== verification/Byte_Buffer.thy ===== *)
theory Byte_Buffer
  imports Kyber_Prelude "HOL-Library.Sublist"
begin

text \<open>
  The byte buffer (\<^verbatim>\<open>Module/ThirdParty/ByteBuffer\<close>) through which the module reads and writes every binary
  format: the contents and the two positions of class \<^verbatim>\<open>ByteBuffer\<close>. The positions are 32-bit
  unsigned, so their sums are taken modulo \<open>2 ^ 32\<close>; the bounds check of \<^verbatim>\<open>read<T>\<close> is made in 64 bits
  (\<^verbatim>\<open>index + sizeof(T)\<close> has type \<^verbatim>\<open>size_t\<close>). A typed read or write is a read or write of the bytes that
  represent the value.

  The locale \<open>codec\<close> is the contract between a writer of bytes and a reader of a buffer; a client that
  reads a counted sequence of items gets its round trip from the round trip of one item.
\<close>

record byte_buffer =
  buf :: bytes
  rpos :: nat
  wpos :: nat

definition pos_add :: "nat \<Rightarrow> nat \<Rightarrow> nat" where
  "pos_add p n = (p + n) mod 2 ^ 32"

definition bb_size :: "byte_buffer \<Rightarrow> nat" where
  "bb_size b = length (buf b) mod 2 ^ 32"

definition bb_clear :: "byte_buffer \<Rightarrow> byte_buffer" where
  "bb_clear b = b\<lparr>buf := [], rpos := 0, wpos := 0\<rparr>"

definition bb_new :: byte_buffer where
  "bb_new = \<lparr>buf = [], rpos = 0, wpos = 0\<rparr>"

definition vec_resize :: "nat \<Rightarrow> bytes \<Rightarrow> bytes" where
  "vec_resize n xs = take n xs @ replicate (n - length xs) 0"

definition overwrite :: "nat \<Rightarrow> bytes \<Rightarrow> bytes \<Rightarrow> bytes" where
  "overwrite i xs ys = take i ys @ xs @ drop (i + length xs) ys"

definition bb_resize :: "nat \<Rightarrow> byte_buffer \<Rightarrow> byte_buffer" where
  "bb_resize n b = b\<lparr>buf := vec_resize n (buf b), rpos := 0, wpos := 0\<rparr>"

definition putBytes :: "bytes \<Rightarrow> byte_buffer \<Rightarrow> byte_buffer" where
  "putBytes xs b =
    (let n = pos_add (wpos b) (length xs);
         b1 = (if bb_size b < n then b\<lparr>buf := vec_resize n (buf b)\<rparr> else b)
     in b1\<lparr>buf := overwrite (wpos b) xs (buf b1), wpos := n\<rparr>)"

definition bb_of_array :: "bytes \<Rightarrow> byte_buffer" where
  "bb_of_array arr = putBytes arr bb_new"

definition bb_put :: "u8 \<Rightarrow> byte_buffer \<Rightarrow> byte_buffer" where "bb_put x = putBytes [x]"
definition putShort :: "u16 \<Rightarrow> byte_buffer \<Rightarrow> byte_buffer" where "putShort x = putBytes (bytes16 x)"
definition putInt :: "u32 \<Rightarrow> byte_buffer \<Rightarrow> byte_buffer" where "putInt x = putBytes (bytes32 x)"
definition putLong :: "u64 \<Rightarrow> byte_buffer \<Rightarrow> byte_buffer" where "putLong x = putBytes (bytes64 x)"

definition putNullTerminatedString :: "string \<Rightarrow> byte_buffer \<Rightarrow> byte_buffer" where
  "putNullTerminatedString s b = bb_put 0 (fold bb_put (str_bytes (cstr s)) b)"

definition bb_peek :: "nat \<Rightarrow> nat \<Rightarrow> byte_buffer \<Rightarrow> bytes" where
  "bb_peek s i b = (if i + s \<le> length (buf b) then take s (drop i (buf b)) else replicate s 0)"

definition bb_read :: "nat \<Rightarrow> byte_buffer \<Rightarrow> bytes \<times> byte_buffer" where
  "bb_read s b = (bb_peek s (rpos b) b, b\<lparr>rpos := pos_add (rpos b) s\<rparr>)"

definition bb_get :: "byte_buffer \<Rightarrow> u8 \<times> byte_buffer" where
  "bb_get b = (case bb_read 1 b of (bs, b') \<Rightarrow> (hd bs, b'))"

definition getShort :: "byte_buffer \<Rightarrow> u16 \<times> byte_buffer" where
  "getShort b = (case bb_read 2 b of (bs, b') \<Rightarrow> (word16 bs, b'))"

definition getInt :: "byte_buffer \<Rightarrow> u32 \<times> byte_buffer" where
  "getInt b = (case bb_read 4 b of (bs, b') \<Rightarrow> (word32 bs, b'))"

definition getLong :: "byte_buffer \<Rightarrow> u64 \<times> byte_buffer" where
  "getLong b = (case bb_read 8 b of (bs, b') \<Rightarrow> (word64 bs, b'))"

primrec getBytes :: "nat \<Rightarrow> byte_buffer \<Rightarrow> bytes \<times> byte_buffer" where
  "getBytes 0 b = ([], b)"
| "getBytes (Suc n) b =
    (case bb_get b of (x, b1) \<Rightarrow> case getBytes n b1 of (xs, b2) \<Rightarrow> (x # xs, b2))"

text \<open>
  \<^verbatim>\<open>getNullTerminatedString\<close> reads with \<^verbatim>\<open>readUnsafe\<close>, which has no bounds check: a string with no
  terminator before the end of the vector is an access out of bounds.
\<close>

fun scan_string :: "bytes \<Rightarrow> (string \<times> nat) result" where
  "scan_string [] = Inl Out_Of_Bounds"
| "scan_string (x # xs) =
    (if x = 0 then Inr ([], 1)
     else case scan_string xs of
       Inl e \<Rightarrow> Inl e
     | Inr (s, n) \<Rightarrow> Inr (char_of_byte x # s, Suc n))"

definition getNullTerminatedString :: "byte_buffer \<Rightarrow> (string \<times> byte_buffer) result" where
  "getNullTerminatedString b =
    (case scan_string (drop (rpos b) (buf b)) of
       Inl e \<Rightarrow> Inl e
     | Inr (s, n) \<Rightarrow> Inr (s, b\<lparr>rpos := pos_add (rpos b) n\<rparr>))"

definition setReadPos :: "nat \<Rightarrow> byte_buffer \<Rightarrow> byte_buffer" where
  "setReadPos r b = b\<lparr>rpos := r\<rparr>"

definition setWritePos :: "nat \<Rightarrow> byte_buffer \<Rightarrow> byte_buffer" where
  "setWritePos w b = b\<lparr>wpos := w\<rparr>"

text \<open>A loop \<^verbatim>\<open>for (i = 0; i < n; i++) v.push_back(read(buf))\<close>.\<close>

primrec read_n :: "(byte_buffer \<Rightarrow> ('a \<times> byte_buffer) result) \<Rightarrow> nat \<Rightarrow> byte_buffer \<Rightarrow>
    ('a list \<times> byte_buffer) result" where
  "read_n dec 0 b = Inr ([], b)"
| "read_n dec (Suc n) b =
    (case dec b of
       Inl e \<Rightarrow> Inl e
     | Inr (x, b1) \<Rightarrow>
         (case read_n dec n b1 of Inl e \<Rightarrow> Inl e | Inr (xs, b2) \<Rightarrow> Inr (x # xs, b2)))"


text \<open>A read followed by what is done with the value, and the end of such a sequence.\<close>

definition then_read :: "(byte_buffer \<Rightarrow> ('a \<times> byte_buffer) result) \<Rightarrow>
    ('a \<Rightarrow> byte_buffer \<Rightarrow> ('b \<times> byte_buffer) result) \<Rightarrow> byte_buffer \<Rightarrow> ('b \<times> byte_buffer) result" where
  "then_read dec k b = (case dec b of Inl e \<Rightarrow> Inl e | Inr (x, b1) \<Rightarrow> k x b1)"

definition give :: "'a \<Rightarrow> byte_buffer \<Rightarrow> ('a \<times> byte_buffer) result" where
  "give x b = Inr (x, b)"


section \<open>Writing at the end\<close>

text \<open>A buffer that is only appended to has its write position at the end.\<close>

definition at_end :: "byte_buffer \<Rightarrow> bool" where
  "at_end b \<longleftrightarrow> wpos b = length (buf b)"

lemma at_end_new [simp]: "at_end bb_new" "buf bb_new = []" "rpos bb_new = 0" "wpos bb_new = 0"
  by (simp_all add: at_end_def bb_new_def)

lemma putBytes_at_end:
  assumes "at_end b" "length (buf b) + length xs < 2 ^ 32"
  shows "putBytes xs b = b\<lparr>buf := buf b @ xs, wpos := length (buf b) + length xs\<rparr>"
proof (cases "xs = []")
  case True
  then show ?thesis using assms
    by (simp add: putBytes_def at_end_def pos_add_def bb_size_def overwrite_def)
next
  case False
  then show ?thesis using assms
    by (simp add: putBytes_def at_end_def pos_add_def bb_size_def overwrite_def vec_resize_def Let_def)
qed

lemma at_end_putBytes [simp]:
  assumes "at_end b" "length (buf b) + length xs < 2 ^ 32"
  shows "at_end (putBytes xs b)" "buf (putBytes xs b) = buf b @ xs" "rpos (putBytes xs b) = rpos b"
  using assms by (simp_all add: putBytes_at_end at_end_def)

lemma fold_bb_put:
  assumes "at_end b" "length (buf b) + length xs < 2 ^ 32"
  shows "fold bb_put xs b = putBytes xs b"
  using assms
proof (induction xs arbitrary: b)
  case Nil
  then show ?case by (simp add: putBytes_at_end at_end_def)
next
  case (Cons x xs)
  then have "fold bb_put (x # xs) b = putBytes xs (putBytes [x] b)"
    using Cons.IH [of "putBytes [x] b"] by (simp add: bb_put_def [of x])
  also have "\<dots> = putBytes (x # xs) b"
    using Cons.prems by (simp add: putBytes_at_end at_end_def)
  finally show ?case .
qed

lemma putNullTerminatedString_at_end:
  assumes "at_end b" "length (buf b) + length (cstr s) + 1 < 2 ^ 32"
  shows "putNullTerminatedString s b = putBytes (str_bytes (cstr s) @ [0]) b"
  using assms
  by (simp add: putNullTerminatedString_def fold_bb_put bb_put_def putBytes_at_end at_end_def)


text \<open>A buffer that has been written from the start and holds exactly \<open>xs\<close>.\<close>

definition holds :: "byte_buffer \<Rightarrow> bytes \<Rightarrow> bool" where
  "holds b xs \<longleftrightarrow> at_end b \<and> buf b = xs"

lemma holds_new [simp]: "holds bb_new []"
  by (simp add: holds_def)

lemma holds_putBytes:
  "holds b xs \<Longrightarrow> length xs + length ys < 2 ^ 32 \<Longrightarrow> holds (putBytes ys b) (xs @ ys)"
  by (simp add: holds_def)

lemma holds_fold_put:
  "holds b xs \<Longrightarrow> length xs + length ys < 2 ^ 32 \<Longrightarrow> holds (fold bb_put ys b) (xs @ ys)"
  by (simp add: holds_def fold_bb_put)

lemma holds_put: "holds b xs \<Longrightarrow> length xs + 1 < 2 ^ 32 \<Longrightarrow> holds (bb_put x b) (xs @ [x])"
  by (simp add: bb_put_def holds_putBytes)

lemma holds_putShort: "holds b xs \<Longrightarrow> length xs + 2 < 2 ^ 32 \<Longrightarrow> holds (putShort w b) (xs @ bytes16 w)"
  by (simp add: putShort_def holds_putBytes)

lemma holds_putInt: "holds b xs \<Longrightarrow> length xs + 4 < 2 ^ 32 \<Longrightarrow> holds (putInt w b) (xs @ bytes32 w)"
  by (simp add: putInt_def holds_putBytes)

lemma holds_putLong: "holds b xs \<Longrightarrow> length xs + 8 < 2 ^ 32 \<Longrightarrow> holds (putLong w b) (xs @ bytes64 w)"
  by (simp add: putLong_def holds_putBytes)

lemma holds_putString:
  "holds b xs \<Longrightarrow> length xs + length (cstr s) + 1 < 2 ^ 32 \<Longrightarrow>
    holds (putNullTerminatedString s b) (xs @ str_bytes (cstr s) @ [0])"
  by (simp add: putNullTerminatedString_at_end holds_def)

lemma holds_buf: "holds b xs \<Longrightarrow> buf b = xs"
  by (simp add: holds_def)

section \<open>Reading\<close>

definition at_read :: "byte_buffer \<Rightarrow> bytes \<Rightarrow> bool" where
  "at_read b xs \<longleftrightarrow> length (buf b) < 2 ^ 32 \<and> prefix xs (drop (rpos b) (buf b))"

definition advance :: "nat \<Rightarrow> byte_buffer \<Rightarrow> byte_buffer" where
  "advance n b = b\<lparr>rpos := rpos b + n\<rparr>"

lemma advance_0 [simp]: "advance 0 b = b"
  by (simp add: advance_def)

lemma advance_advance [simp]: "advance m (advance n b) = advance (n + m) b"
  by (simp add: advance_def algebra_simps)

lemma advance_sel [simp]: "buf (advance n b) = buf b" "rpos (advance n b) = rpos b + n"
  "wpos (advance n b) = wpos b"
  by (simp_all add: advance_def)

lemma at_read_append:
  "at_read b (xs @ ys) \<longleftrightarrow> at_read b xs \<and> at_read (advance (length xs) b) ys"
proof -
  have "prefix (xs @ ys) zs \<longleftrightarrow> prefix xs zs \<and> prefix ys (drop (length xs) zs)" for zs :: bytes
    by (auto simp: prefix_def)
  then show ?thesis
    by (auto simp: at_read_def add.commute)
qed

lemma at_read_take: "at_read b xs \<Longrightarrow> take (length xs) (drop (rpos b) (buf b)) = xs"
  by (auto simp: at_read_def prefix_def)

lemma at_read_bound:
  assumes "at_read b xs" "xs \<noteq> []"
  shows "rpos b + length xs \<le> length (buf b)" "rpos b + length xs < 2 ^ 32"
proof -
  have "length xs \<le> length (drop (rpos b) (buf b))"
    using assms(1) prefix_length_le [of xs] by (simp only: at_read_def)
  then show "rpos b + length xs \<le> length (buf b)" using assms(2) by (cases xs) auto
  then show "rpos b + length xs < 2 ^ 32" using assms(1) by (simp add: at_read_def)
qed

lemma bb_read_at:
  assumes "at_read b xs" "xs \<noteq> []" "s = length xs"
  shows "bb_read s b = (xs, advance s b)"
  using at_read_bound [OF assms(1,2)] at_read_take [OF assms(1)] assms(3)
  by (simp add: bb_read_def bb_peek_def pos_add_def advance_def)

lemma bb_get_at: "at_read b [x] \<Longrightarrow> bb_get b = (x, advance 1 b)"
  using bb_read_at [of b "[x]" 1] by (simp add: bb_get_def)

lemma getShort_at: "at_read b (bytes16 w) \<Longrightarrow> getShort b = (w, advance 2 b)"
  using bb_read_at [of b "bytes16 w" 2] by (simp add: getShort_def)

lemma getInt_at: "at_read b (bytes32 w) \<Longrightarrow> getInt b = (w, advance 4 b)"
  using bb_read_at [of b "bytes32 w" 4] by (simp add: getInt_def)

lemma getLong_at: "at_read b (bytes64 w) \<Longrightarrow> getLong b = (w, advance 8 b)"
  using bb_read_at [of b "bytes64 w" 8] by (simp add: getLong_def)

lemma getBytes_at: "at_read b xs \<Longrightarrow> getBytes (length xs) b = (xs, advance (length xs) b)"
proof (induction xs arbitrary: b)
  case (Cons x xs)
  then have "at_read b [x]" "at_read (advance 1 b) xs"
    using at_read_append [of b "[x]" xs] by simp_all
  then show ?case using Cons.IH by (simp add: bb_get_at)
qed simp

lemma scan_string_prefix:
  "NUL \<notin> set s \<Longrightarrow> scan_string (str_bytes s @ 0 # ys) = Inr (s, Suc (length s))"
  by (induction s) (auto simp: str_bytes_def)

lemma getNullTerminatedString_at:
  assumes "at_read b (str_bytes s @ [0])" "NUL \<notin> set s"
  shows "getNullTerminatedString b = Inr (s, advance (Suc (length s)) b)"
proof -
  obtain ys where "drop (rpos b) (buf b) = str_bytes s @ 0 # ys"
    using assms(1) by (auto simp: at_read_def prefix_def)
  moreover have "rpos b + Suc (length s) < 2 ^ 32"
    using at_read_bound(2) [OF assms(1)] by simp
  ultimately show ?thesis
    using assms(2) by (simp add: getNullTerminatedString_def scan_string_prefix pos_add_def advance_def)
qed

lemma at_read_bb_of_array: "length xs < 2 ^ 32 \<Longrightarrow> at_read (bb_of_array xs) xs"
  by (simp add: at_read_def bb_of_array_def putBytes_at_end)

lemma bb_of_array_sel [simp]:
  assumes "length xs < 2 ^ 32"
  shows "buf (bb_of_array xs) = xs" "rpos (bb_of_array xs) = 0" "wpos (bb_of_array xs) = length xs"
  using assms by (simp_all add: bb_of_array_def putBytes_at_end)


section \<open>The contract between a writer and a reader\<close>

text \<open>
  \<open>ok\<close> may look at the whole contents of the buffer: a reader that follows an offset into another part of
  the file is correct only when that part is what the offset says.
\<close>

locale codec =
  fixes ok :: "bytes \<Rightarrow> 'a \<Rightarrow> bool"
    and enc :: "'a \<Rightarrow> bytes"
    and dec :: "byte_buffer \<Rightarrow> ('a \<times> byte_buffer) result"
  assumes dec_enc: "ok (buf b) x \<Longrightarrow> at_read b (enc x) \<Longrightarrow> dec b = Inr (x, advance (length (enc x)) b)"
begin

lemma read_n_enc:
  "list_all (ok (buf b)) xs \<Longrightarrow> at_read b (concat (map enc xs)) \<Longrightarrow>
    read_n dec (length xs) b = Inr (xs, advance (length (concat (map enc xs))) b)"
proof (induction xs arbitrary: b)
  case (Cons x xs)
  then have "at_read b (enc x)" "at_read (advance (length (enc x)) b) (concat (map enc xs))"
    by (simp_all add: at_read_append)
  then show ?case using Cons dec_enc [of b x] by simp
qed simp

lemma then_read_enc: "ok (buf b) x \<Longrightarrow> at_read b (enc x @ xs) \<Longrightarrow>
    then_read dec k b = k x (advance (length (enc x)) b) \<and> at_read (advance (length (enc x)) b) xs"
  by (simp add: then_read_def dec_enc at_read_append)

lemma then_read_n_enc: "list_all (ok (buf b)) ys \<Longrightarrow> n = length ys \<Longrightarrow> at_read b (concat (map enc ys) @ xs) \<Longrightarrow>
    then_read (read_n dec n) k b = k ys (advance (length (concat (map enc ys))) b) \<and>
    at_read (advance (length (concat (map enc ys))) b) xs"
  by (simp add: then_read_def read_n_enc at_read_append)

text \<open>Two values with the same encoding are equal.\<close>

lemma enc_inj:
  assumes "ok (enc x) x" "ok (enc y) y" "enc x = enc y" "length (enc x) < 2 ^ 32"
  shows "x = y"
proof -
  let ?b = "bb_of_array (enc x)"
  have b: "buf ?b = enc x" "at_read ?b (enc x)" "at_read ?b (enc y)"
    using assms(3,4) at_read_bb_of_array [of "enc x"] by (simp_all flip: assms(3))
  have "dec ?b = Inr (x, advance (length (enc x)) ?b)"
    using assms(1) b by (intro dec_enc) simp_all
  moreover have "dec ?b = Inr (y, advance (length (enc y)) ?b)"
    using assms(2) b assms(3) by (intro dec_enc) (simp_all only:)
  ultimately show ?thesis by simp
qed

end

interpretation u32_codec: codec "\<lambda>_ _. True" bytes32 "\<lambda>b. Inr (getInt b)"
  by unfold_locales (simp add: getInt_at)

interpretation u64_codec: codec "\<lambda>_ _. True" bytes64 "\<lambda>b. Inr (getLong b)"
  by unfold_locales (simp add: getLong_at)

interpretation str_codec: codec "\<lambda>_ s. NUL \<notin> set s" "\<lambda>s. str_bytes s @ [0]" getNullTerminatedString
  by unfold_locales (simp add: getNullTerminatedString_at)


section \<open>Positions past the end\<close>

text \<open>
  \<^verbatim>\<open>setWritePos\<close> may move past the end; the next write fills the gap with zeros. \<open>spans b xs\<close> says that
  after such a write the contents so far are \<open>xs\<close>.
\<close>

definition spans :: "byte_buffer \<Rightarrow> bytes \<Rightarrow> bool" where
  "spans b xs \<longleftrightarrow> wpos b = length xs \<and> length (buf b) \<le> length xs \<and>
    xs = buf b @ replicate (length xs - length (buf b)) 0"

lemma holds_spans: "holds b xs \<Longrightarrow> spans b xs"
  by (simp add: holds_def spans_def at_end_def)

lemma spans_skip: "spans b xs \<Longrightarrow> spans (setWritePos (wpos b + n) b) (xs @ replicate n 0)"
  by (simp add: spans_def setWritePos_def) (metis Nat.add_diff_assoc2 add.commute append_assoc replicate_add)

lemma spans_putBytes:
  assumes "spans b xs" "ys \<noteq> []" "length xs + length ys < 2 ^ 32"
  shows "holds (putBytes ys b) (xs @ ys)"
proof -
  let ?n = "length xs + length ys"
  have "length (buf b) < ?n" using assms(1,2) by (cases ys) (simp_all add: spans_def)
  then have "buf (putBytes ys b) = overwrite (length xs) ys (buf b @ replicate (?n - length (buf b)) 0)"
    using assms by (simp add: putBytes_def spans_def pos_add_def bb_size_def vec_resize_def Let_def)
  also have "buf b @ replicate (?n - length (buf b)) 0 = xs @ replicate (length ys) (0 :: u8)"
    using assms(1) unfolding spans_def
    by (metis (no_types) append_assoc le_add_diff_inverse2 add.commute diff_add_assoc2 replicate_add)
  finally have "buf (putBytes ys b) = xs @ ys" by (simp add: overwrite_def)
  moreover have "wpos (putBytes ys b) = ?n"
    using assms by (simp add: putBytes_def spans_def pos_add_def Let_def)
  ultimately show ?thesis by (simp add: holds_def at_end_def)
qed


section \<open>Unchecked reads\<close>

definition readUnsafe :: "nat \<Rightarrow> byte_buffer \<Rightarrow> (bytes \<times> byte_buffer) result" where
  "readUnsafe s b =
    (if rpos b + s \<le> length (buf b)
     then Inr (take s (drop (rpos b) (buf b)), b\<lparr>rpos := pos_add (rpos b) s\<rparr>)
     else Inl Out_Of_Bounds)"

lemma readUnsafe_at:
  assumes "at_read b xs" "xs \<noteq> []" "s = length xs"
  shows "readUnsafe s b = Inr (xs, advance s b)"
  using at_read_bound [OF assms(1,2)] at_read_take [OF assms(1)] assms(3)
  by (simp add: readUnsafe_def pos_add_def advance_def)

section \<open>Sequences of writes\<close>

text \<open>
  \<open>covers e b xs\<close>: the contents so far are \<open>xs\<close>, and when \<open>e\<close> holds the last operation was a write, so that
  the vector itself has them. A function on buffers \<open>writes\<close> a byte string when it appends it.
\<close>

definition covers :: "bool \<Rightarrow> byte_buffer \<Rightarrow> bytes \<Rightarrow> bool" where
  "covers e b xs \<longleftrightarrow> (if e then holds b xs else spans b xs)"

definition writes :: "(byte_buffer \<Rightarrow> byte_buffer) \<Rightarrow> bytes \<Rightarrow> bool" where
  "writes f ys \<longleftrightarrow> ys \<noteq> [] \<and>
    (\<forall>e b xs. covers e b xs \<longrightarrow> length xs + length ys < 2 ^ 32 \<longrightarrow> covers True (f b) (xs @ ys))"

lemma covers_new: "covers True bb_new []"
  by (simp add: covers_def)

lemma covers_True: "covers True b xs \<longleftrightarrow> holds b xs"
  by (simp add: covers_def)

lemma covers_spans: "covers e b xs \<Longrightarrow> spans b xs"
  by (simp add: covers_def holds_spans split: if_splits)

lemma writesD: "writes f ys \<Longrightarrow> covers e b xs \<Longrightarrow> length xs + length ys < 2 ^ 32 \<Longrightarrow> covers True (f b) (xs @ ys)"
  by (auto simp: writes_def)

lemma writes_putBytes: "ys \<noteq> [] \<Longrightarrow> writes (putBytes ys) ys"
  by (auto simp: writes_def covers_True intro: spans_putBytes dest: covers_spans)

lemma writes_ints: "writes (putInt w) (bytes32 w)" "writes (putLong v) (bytes64 v)" "writes (putShort u) (bytes16 u)"
  by (simp_all add: putInt_def putLong_def putShort_def writes_putBytes)

lemma writes_put: "writes (bb_put x) [x]"
  by (simp add: bb_put_def writes_putBytes)

lemma writes_comp:
  assumes "writes f xs" "writes g ys"
  shows "writes (\<lambda>b. g (f b)) (xs @ ys)"
  unfolding writes_def
proof (intro conjI allI impI)
  show "xs @ ys \<noteq> []" using assms by (simp add: writes_def)
  fix e b zs assume *: "covers e b zs" "length zs + length (xs @ ys) < 2 ^ 32"
  then have "covers True (f b) (zs @ xs)" using assms(1) by (intro writesD) auto
  then have "covers True (g (f b)) ((zs @ xs) @ ys)" using assms(2) * by (intro writesD) auto
  then show "covers True (g (f b)) (zs @ xs @ ys)" by simp
qed

lemma covers_fold:
  assumes "\<And>x. x \<in> set es \<Longrightarrow> writes (f x) (enc x)" "covers e b xs"
    "length xs + length (concat (map enc es)) < 2 ^ 32"
  shows "covers (e \<or> es \<noteq> []) (fold f es b) (xs @ concat (map enc es))"
  using assms
proof (induction es arbitrary: e b xs)
  case (Cons x es)
  then have "covers True (f x b) (xs @ enc x)" by (intro writesD) auto
  then have "covers (True \<or> es \<noteq> []) (fold f es (f x b)) ((xs @ enc x) @ concat (map enc es))"
    using Cons.prems by (intro Cons.IH) auto
  then show ?case by (simp add: covers_def)
qed simp

lemma covers_skip: "covers e b xs \<Longrightarrow> covers False (setWritePos (wpos b + n) b) (xs @ replicate n 0)"
  by (simp add: covers_def spans_skip covers_spans)

lemma writes_string:
  "writes (putNullTerminatedString s) (str_bytes (cstr s) @ [0])"
proof -
  have "covers True (fold bb_put zs b) (xs @ zs)" if "covers e b xs" "zs \<noteq> []" "length xs + length zs < 2 ^ 32"
    for e b xs zs
    using covers_fold [of zs bb_put "\<lambda>x. [x]" e b xs] that by (simp add: writes_put covers_def)
  moreover have "putNullTerminatedString s b = fold bb_put (str_bytes (cstr s) @ [0]) b" for b
    by (simp add: putNullTerminatedString_def)
  ultimately show ?thesis unfolding writes_def by (metis append_is_Nil_conv list.distinct(1))
qed

text \<open>Going back to overwrite bytes that are already there.\<close>

lemma putBytes_inside:
  assumes "i + length ys \<le> length (buf b)" "length (buf b) < 2 ^ 32"
  shows "putBytes ys (b\<lparr>wpos := i\<rparr>) = b\<lparr>buf := overwrite i ys (buf b), wpos := i + length ys\<rparr>"
  using assms by (simp add: putBytes_def pos_add_def bb_size_def)

lemma length_overwrite [simp]: "i + length ys \<le> length zs \<Longrightarrow> length (overwrite i ys zs) = length zs"
  by (simp add: overwrite_def)

lemma overwrite_overwrite:
  assumes "i + length ys + length zs \<le> length xs"
  shows "overwrite (i + length ys) zs (overwrite i ys xs) = overwrite i (ys @ zs) xs"
  using assms by (simp add: overwrite_def ac_simps)

section \<open>Readers built from readers\<close>

text \<open>A reader that turns the bytes \<open>xs\<close> into \<open>x\<close> wherever they stand. These rules derive the contract of a
  reader of records from its parts.\<close>

definition decodes :: "(byte_buffer \<Rightarrow> ('a \<times> byte_buffer) result) \<Rightarrow> 'a \<Rightarrow> bytes \<Rightarrow> bool" where
  "decodes dec x xs \<longleftrightarrow> (\<forall>b. at_read b xs \<longrightarrow> dec b = Inr (x, advance (length xs) b))"

named_theorems decodes_rules \<open>how readers decode\<close>

lemma decodes_then: "decodes dec x xs \<Longrightarrow> decodes (k x) y ys \<Longrightarrow> decodes (then_read dec k) y (xs @ ys)"
  by (simp add: decodes_def then_read_def at_read_append)

lemma decodes_give: "decodes (give x) x []"
  by (simp add: decodes_def give_def)

lemma decodes_cong: "decodes dec x xs \<Longrightarrow> x = y \<Longrightarrow> xs = ys \<Longrightarrow> decodes dec y ys"
  by simp

lemma decodes_last: "decodes dec x xs \<Longrightarrow> h x = y \<Longrightarrow> decodes (then_read dec (\<lambda>x. give (h x))) y xs"
  by (simp add: decodes_def then_read_def give_def)

lemma decodes_read_n:
  assumes "list_all (\<lambda>x. decodes dec x (enc x)) xs" "n = length xs"
  shows "decodes (read_n dec n) xs (concat (map enc xs))"
  unfolding decodes_def
proof (intro allI impI)
  fix b assume "at_read b (concat (map enc xs))"
  then show "read_n dec n b = Inr (xs, advance (length (concat (map enc xs))) b)"
    using assms
  proof (induction xs arbitrary: b n)
    case (Cons x xs)
    then have "dec b = Inr (x, advance (length (enc x)) b)" by (simp add: decodes_def at_read_append)
    then show ?case using Cons by (simp add: at_read_append)
  qed simp
qed

lemma decodes_string: "NUL \<notin> set s \<Longrightarrow> decodes getNullTerminatedString s (str_bytes s @ [0])"
  by (simp add: decodes_def getNullTerminatedString_at)

lemma decodes_ints [decodes_rules]:
  "decodes (\<lambda>b. Inr (getLong b)) w (bytes64 w)" "decodes (\<lambda>b. Inr (getInt b)) v (bytes32 v)"
  "decodes (\<lambda>b. Inr (getShort b)) u (bytes16 u)"
  by (simp_all add: decodes_def getLong_at getInt_at getShort_at)

lemma decodes_bytes [decodes_rules]: "n = length xs \<Longrightarrow> decodes (\<lambda>b. Inr (getBytes n b)) xs xs"
  by (simp add: decodes_def getBytes_at)

lemmas int_step = decodes_then [OF decodes_ints(1)] decodes_then [OF decodes_ints(2)] decodes_then [OF decodes_ints(3)]

lemma codecI: "(\<And>x. ok x \<Longrightarrow> decodes dec x (enc x)) \<Longrightarrow> codec (\<lambda>_. ok) enc dec"
  by unfold_locales (simp add: decodes_def)

end
