(* ===== verification/String_Utils.thy ===== *)
theory String_Utils
  imports Kyber_Prelude "HOL-Library.Sublist"
begin

text \<open>
  The string helpers of \<^verbatim>\<open>Module/Source/Utilities/StringUtils.cpp\<close>. The hash functions are the ones the
  engine keys its resources with (32-bit, wrapping). \<open>Split\<close> and \<open>Replace\<close> loop until \<^verbatim>\<open>find\<close> fails and
  do not end on an empty needle, so they are partial; the lemmas show that they return otherwise.
\<close>

unbundle bit_operations_syntax

section \<open>Searching\<close>

fun find_sub :: "string \<Rightarrow> string \<Rightarrow> nat option" where
  "find_sub d [] = (if d = [] then Some 0 else None)"
| "find_sub d (c # s) = (if prefix d (c # s) then Some 0 else map_option Suc (find_sub d s))"

definition str_find :: "string \<Rightarrow> nat \<Rightarrow> string \<Rightarrow> nat option" where
  "str_find d pos s = (if pos \<le> length s then map_option ((+) pos) (find_sub d (drop pos s)) else None)"

definition StartsWith :: "string \<Rightarrow> string \<Rightarrow> bool" where
  "StartsWith s start \<longleftrightarrow> prefix start s"

partial_function (option) split_loop :: "string \<Rightarrow> string \<Rightarrow> nat \<Rightarrow> string list option" where
  "split_loop s d prev =
    (case str_find d prev s of
       None \<Rightarrow> Some [drop prev s]
     | Some pos \<Rightarrow>
         Option.bind (split_loop s d (pos + length d))
           (\<lambda>r. Some (take (pos - prev) (drop prev s) # r)))"

definition Split :: "string \<Rightarrow> string \<Rightarrow> string list option" where
  "Split s d = split_loop s d 0"

partial_function (option) replace_loop :: "string \<Rightarrow> string \<Rightarrow> nat \<Rightarrow> string \<Rightarrow> string option" where
  "replace_loop d r pos s =
    (case str_find d pos s of
       None \<Rightarrow> Some s
     | Some p \<Rightarrow> replace_loop d r (p + length r) (take p s @ r @ drop (p + length d) s))"

definition Replace :: "string \<Rightarrow> string \<Rightarrow> string \<Rightarrow> string option" where
  "Replace src d r = replace_loop (cstr d) (cstr r) 0 (cstr src)"

definition IsValid :: "string option \<Rightarrow> bool" where
  "IsValid str =
    (case str of
       None \<Rightarrow> False
     | Some s \<Rightarrow> list_all (\<lambda>(i, c). \<not> (i > 10000 \<or> of_char c < (32 :: nat) \<or> of_char c > (126 :: nat)))
         (enumerate 0 (cstr s)))"


section \<open>Hexadecimal output\<close>

definition hex_digit :: "nat \<Rightarrow> char" where
  "hex_digit n = ''0123456789abcdef'' ! n"

definition hex2 :: "u8 \<Rightarrow> string" where
  "hex2 b = [hex_digit (unat b div 16), hex_digit (unat b mod 16)]"

definition HexStr :: "bytes \<Rightarrow> string" where
  "HexStr data = concat (map hex2 data)"


section \<open>Hashes\<close>

definition hash_step :: "u32 \<Rightarrow> u32 \<Rightarrow> u32" where
  "hash_step h c = (h * 33) XOR c"

definition HashQuick :: "string \<Rightarrow> u32" where
  "HashQuick s = fold (\<lambda>c h. hash_step h (ucast (byte_of c))) (cstr s) 5381"

definition lower_code :: "u32 \<Rightarrow> u32" where
  "lower_code c = c + 32 * (if c - 65 \<le> 25 then 1 else 0)"

definition HashQuickLower :: "string \<Rightarrow> u32" where
  "HashQuickLower s = fold (\<lambda>c h. hash_step h (lower_code (ucast (byte_of c)))) (cstr s) 5381"

definition hex_val :: "char \<Rightarrow> nat option" where
  "hex_val c =
    (if of_char c \<in> {48..57 :: nat} then Some (of_char c - 48)
     else if of_char c \<in> {97..102 :: nat} then Some (of_char c - 87)
     else if of_char c \<in> {65..70 :: nat} then Some (of_char c - 55)
     else None)"

definition stoul16 :: "string \<Rightarrow> u32 result" where
  "stoul16 digits =
    (let n = fold (\<lambda>c v. 16 * v + the (hex_val c)) (takeWhile (\<lambda>c. hex_val c \<noteq> None) digits) 0
     in if n < 2 ^ 32 then Inr (word_of_nat n) else Inl Bad_Format)"

definition HashHexCheck :: "string \<Rightarrow> u32 result" where
  "HashHexCheck str =
    (let s = cstr str
     in if length s > 2 \<and> s ! 0 = CHR ''0'' \<and> s ! 1 = CHR ''x'' then stoul16 (drop 2 s)
        else Inr (HashQuick s))"


section \<open>The encoder named Base64\<close>

definition signed_code :: "char \<Rightarrow> int" where
  "signed_code c = (if of_char c < (128 :: int) then of_char c else of_char c - 256)"

definition Base64EncodeChar :: "int \<Rightarrow> string" where
  "Base64EncodeChar e = (if e = 61 then ''A'' else if e = 62 then ''B'' else if e = 63 then ''C'' else '''')"

definition base64_round :: "nat \<Rightarrow> int \<Rightarrow> int" where
  "base64_round j e = drop_bit (2 * j) e OR push_bit (5 * j) (e AND 0x3f)"

definition Base64Encode :: "string \<Rightarrow> string" where
  "Base64Encode s = concat (map (\<lambda>c. Base64EncodeChar (fold base64_round [0, 1, 2] (signed_code c))) s)"


section \<open>Properties\<close>

lemma find_sub_SomeD:
  "find_sub d s = Some k \<Longrightarrow>
    k + length d \<le> length s \<and> prefix d (drop k s) \<and> (\<forall>j < k. \<not> prefix d (drop j s))"
proof (induction d s arbitrary: k rule: find_sub.induct)
  case (2 d c s)
  show ?case
  proof (cases "prefix d (c # s)")
    case True
    then show ?thesis using 2 prefix_length_le [OF True] by auto
  next
    case False
    then show ?thesis using 2 by (auto simp: less_Suc_eq_0_disj)
  qed
qed (auto split: if_splits)

lemma find_sub_NoneD: "find_sub d s = None \<Longrightarrow> \<not> prefix d (drop j s)"
proof (induction d s arbitrary: j rule: find_sub.induct)
  case (2 d c s)
  then show ?case by (cases j) (auto split: if_splits)
qed (auto split: if_splits)

lemma find_sub_NoneI: "(\<And>j. j \<le> length s \<Longrightarrow> \<not> prefix d (drop j s)) \<Longrightarrow> find_sub d s = None"
proof (induction d s rule: find_sub.induct)
  case (2 d c s)
  have "find_sub d s = None"
    using 2 by (metis Suc_le_mono drop_Suc_Cons length_Cons list.size(4) prefix_order.refl drop0 le0)
  moreover have "\<not> prefix d (c # s)" using 2(2) [of 0] by simp
  ultimately show ?case by simp
qed auto

lemma find_sub_take:
  assumes "find_sub d s = Some k" "d \<noteq> []"
  shows "find_sub d (take k s) = None"
proof (rule find_sub_NoneI)
  fix j assume "j \<le> length (take k s)"
  show "\<not> prefix d (drop j (take k s))"
  proof
    assume p: "prefix d (drop j (take k s))"
    then have "j < k" using assms(2) by (cases "j < k") auto
    moreover have "prefix (drop j (take k s)) (drop j s)"
      by (simp add: drop_take take_is_prefix)
    ultimately show False
      using p find_sub_SomeD [OF assms(1)] prefix_order.trans by blast
  qed
qed

text \<open>The pieces, joined again with the delimiter between them.\<close>

fun join :: "string \<Rightarrow> string list \<Rightarrow> string" where
  "join d [] = []"
| "join d [p] = p"
| "join d (p # q # ps) = p @ d @ join d (q # ps)"

lemma join_Cons: "ps \<noteq> [] \<Longrightarrow> join d (p # ps) = p @ d @ join d ps"
  by (cases ps) auto

lemma split_loop_correct:
  assumes "d \<noteq> []" "prev \<le> length s"
  shows "\<exists>r. split_loop s d prev = Some r \<and> r \<noteq> [] \<and> join d r = drop prev s \<and>
    list_all (\<lambda>p. find_sub d p = None) r"
  using assms(2)
proof (induction "length s - prev" arbitrary: prev rule: less_induct)
  case less
  show ?case
  proof (cases "find_sub d (drop prev s)")
    case None
    then show ?thesis using less.prems by (subst split_loop.simps) (simp add: str_find_def)
  next
    case (Some k)
    note k = find_sub_SomeD [OF Some]
    let ?next = "prev + k + length d"
    have le: "?next \<le> length s" using conjunct1 [OF k] less.prems by simp
    have "0 < length d" using assms(1) by simp
    then have "length s - ?next < length s - prev" using le by linarith
    then obtain r where r: "split_loop s d ?next = Some r" "r \<noteq> []" "join d r = drop ?next s"
      "list_all (\<lambda>p. find_sub d p = None) r"
      using less.hyps [of ?next] le by auto
    have "drop prev s = take k (drop prev s) @ d @ drop ?next s"
    proof -
      have "drop k (drop prev s) = d @ drop (length d) (drop k (drop prev s))"
        using k by (metis prefix_def append_eq_conv_conj)
      then show ?thesis
        by (metis append_take_drop_id drop_drop add.commute add.left_commute)
    qed
    moreover have "split_loop s d prev = Some (take k (drop prev s) # r)"
      using Some r(1) less.prems by (subst split_loop.simps) (simp add: str_find_def)
    ultimately show ?thesis
      using r find_sub_take [OF Some assms(1)] by (simp add: join_Cons)
  qed
qed

lemma replace_loop_join:
  assumes "d \<noteq> []"
  shows "prev \<le> length t \<Longrightarrow> pos \<le> length s \<Longrightarrow> drop pos s = drop prev t \<Longrightarrow>
    split_loop t d prev = Some ps \<Longrightarrow> replace_loop d r pos s = Some (take pos s @ join r ps)"
proof (induction "length t - prev" arbitrary: prev pos s ps rule: less_induct)
  case less
  show ?case
  proof (cases "find_sub d (drop prev t)")
    case None
    then have "ps = [drop prev t]"
      using less.prems(1,4) by (subst (asm) split_loop.simps) (simp add: str_find_def)
    moreover have "replace_loop d r pos s = Some s"
      using None less.prems(2,3) by (subst replace_loop.simps) (simp add: str_find_def)
    ultimately show ?thesis using less.prems(3) by (metis append_take_drop_id join.simps(2))
  next
    case (Some k)
    note k = find_sub_SomeD [OF Some]
    let ?next = "prev + k + length d" and ?s = "take (pos + k) s @ r @ drop (pos + k + length d) s"
    have len: "length s - pos = length t - prev" using less.prems(3) by (metis length_drop)
    have bound: "?next \<le> length t" "pos + k + length d \<le> length s"
      using conjunct1 [OF k] less.prems(1,2) len by simp_all
    obtain ps' where ps': "split_loop t d ?next = Some ps'" "ps = take k (drop prev t) # ps'"
      using Some less.prems(1,4)
      by (subst (asm) split_loop.simps) (auto simp: str_find_def split: Option.bind_splits)
    have "ps' \<noteq> []" using split_loop_correct [OF assms bound(1)] ps'(1) by auto
    have "0 < length d" using assms by simp
    then have lt: "length t - ?next < length t - prev" using bound(1) by linarith
    have "drop (pos + k + length d) s = drop (k + length d) (drop prev t)"
      using less.prems(3) by (metis add.assoc add.commute drop_drop)
    then have "drop (pos + k + length r) ?s = drop ?next t"
      using bound(2) by (simp add: algebra_simps)
    then have "replace_loop d r (pos + k + length r) ?s = Some (take (pos + k + length r) ?s @ join r ps')"
      using less.hyps [of ?next "pos + k + length r" ?s ps'] bound ps'(1) lt by simp
    moreover have "replace_loop d r pos s = replace_loop d r (pos + k + length r) ?s"
      using Some less.prems(2,3) by (subst replace_loop.simps) (simp add: str_find_def)
    moreover have "take (pos + k) s = take pos s @ take k (drop prev t)"
      using less.prems(3) by (metis take_add)
    ultimately show ?thesis
      using ps'(2) \<open>ps' \<noteq> []\<close> bound by (simp add: join_Cons)
  qed
qed

definition ascii_lower :: "char \<Rightarrow> char" where
  "ascii_lower c = (if of_char c \<in> {65..90 :: nat} then char_of (of_char c + 32 :: nat) else c)"

lemma lower_code_ascii: "lower_code (ucast (byte_of c)) = ucast (byte_of (ascii_lower c))"
proof -
  let ?n = "of_char c :: nat"
  have n: "?n < 256" by (rule nat_of_char_less_256)
  then have m: "?n mod 4294967296 = ?n" by (intro mod_less) linarith
  have u32: "(ucast (byte_of d) :: u32) = word_of_nat (of_char d)" for d
    by (metis unat_byte_of unsigned_of_nat of_nat_unat)
  have "(word_of_nat ?n - 65 \<le> (25 :: u32)) \<longleftrightarrow> 65 \<le> ?n \<and> ?n \<le> 90"
    using n by (auto simp: word_le_nat_alt unat_sub_if' unat_of_nat m)
  then show ?thesis using n by (auto simp: u32 lower_code_def ascii_lower_def)
qed

lemma signed_code_bit: "7 \<le> n \<Longrightarrow> bit (signed_code c) n \<longleftrightarrow> bit (signed_code c) 7"
proof -
  assume "7 \<le> n"
  have "(of_char c :: nat) < 256" by (rule nat_of_char_less_256)
  moreover have "(of_char c :: int) = int (of_char c)" by (simp add: of_nat_of_char)
  ultimately have "(of_char c :: int) < 256" "(0 :: int) \<le> of_char c" by linarith+
  then have "signed_take_bit 7 (signed_code c) = signed_code c"
    by (auto simp: signed_take_bit_int_eq_self_iff signed_code_def)
  then show ?thesis using \<open>7 \<le> n\<close> bit_signed_take_bit_iff [of 7 "signed_code c" n] by simp
qed

lemma bit_base64_round:
  "bit (base64_round j e) n \<longleftrightarrow> bit e (2 * j + n) \<or> 5 * j \<le> n \<and> n - 5 * j < 6 \<and> bit e (n - 5 * j)"
proof -
  have "base64_round j e = drop_bit (2 * j) e OR push_bit (5 * j) (take_bit 6 e)"
    by (simp add: base64_round_def take_bit_eq_mask mask_eq_exp_minus_1)
  then show ?thesis by (auto simp: bit_simps)
qed

lemma Base64EncodeChar_empty: "Base64EncodeChar (fold base64_round [0, 1, 2] (signed_code c)) = []"
proof -
  let ?z = "signed_code c" and ?r = "fold base64_round [0, 1, 2] (signed_code c)"
  have "\<not> bit ?r 6" "\<not> bit ?r 10" "bit ?r 3" if "?r \<in> {61, 62, 63}"
    using that by auto
  then have "?r \<notin> {61, 62, 63}"
    using signed_code_bit [of 9 c] signed_code_bit [of 12 c] by (auto simp: bit_base64_round)
  then show ?thesis by (auto simp: Base64EncodeChar_def)
qed

text \<open>\<open>Split\<close> with a non-empty delimiter returns; its pieces joined with the delimiter give the
  string back, and no piece contains the delimiter.\<close>

theorem Split_join:
  assumes "d \<noteq> []"
  shows "\<exists>ps. Split s d = Some ps \<and> join d ps = s \<and> list_all (\<lambda>p. find_sub d p = None) ps"
  using split_loop_correct [OF assms, of 0 s] by (auto simp: Split_def)

text \<open>\<open>Replace\<close> returns for a non-empty search string, and its result is what joining the pieces of
  \<open>Split\<close> with the replacement gives (so the replacement text is never searched again).\<close>

theorem Replace_split_join:
  assumes "cstr d \<noteq> []"
  shows "\<exists>ps. Split (cstr src) (cstr d) = Some ps \<and> Replace src d r = Some (join (cstr r) ps)"
proof -
  obtain ps where "split_loop (cstr src) (cstr d) 0 = Some ps"
    using split_loop_correct [OF assms, of 0 "cstr src"] by auto
  then show ?thesis
    using replace_loop_join [OF assms, of 0 "cstr src" 0 "cstr src" ps "cstr r"]
    by (simp add: Split_def Replace_def)
qed

lemma cstr_map_ascii_lower: "cstr (map ascii_lower s) = map ascii_lower (cstr s)"
proof -
  have "ascii_lower c = NUL \<longleftrightarrow> c = NUL" for c
  proof
    assume "ascii_lower c = NUL"
    then have "(of_char (ascii_lower c) :: nat) = 0" by (simp add: NUL_def)
    then have "\<not> of_char c \<in> {65..90 :: nat}" by (auto simp: ascii_lower_def)
    then show "c = NUL"
      using \<open>ascii_lower c = NUL\<close> by (auto simp: ascii_lower_def split: if_splits)
  qed (simp add: ascii_lower_def NUL_def)
  then show ?thesis by (simp add: cstr_def takeWhile_map comp_def)
qed

text \<open>\<open>HashQuickLower\<close> is \<open>HashQuick\<close> of the string with its ASCII capital letters lowered, so two
  names that differ only in the case of such letters have the same hash.\<close>

theorem HashQuickLower_eq: "HashQuickLower s = HashQuick (map ascii_lower s)"
  by (simp add: HashQuickLower_def HashQuick_def cstr_map_ascii_lower fold_map comp_def lower_code_ascii)

text \<open>The encoder named \<open>Base64Encode\<close> returns the empty string for every input: the value it
  computes for a character is never 61, 62 or 63, the only ones it has an output for.\<close>

theorem Base64Encode_empty: "Base64Encode s = []"
  unfolding Base64Encode_def by (simp only: Base64EncodeChar_empty) simp

end
