(* ===== verification/Guid_Model.thy ===== *)
theory Guid_Model
  imports Byte_Buffer String_Utils
begin

text \<open>
  The 16-byte identifiers of \<^verbatim>\<open>Module/Public/SDK/SDK.h\<close> (struct \<^verbatim>\<open>Guid\<close>): the union's byte view, with
  \<^verbatim>\<open>data1\<close>, \<^verbatim>\<open>data2\<close> and \<^verbatim>\<open>data3\<close> the little-endian integers over its first 8 bytes. \<open>operator<\<close> is \<^verbatim>\<open>memcmp\<close>,
  that is, the lexicographic order of the byte list. Two orders of the bytes occur in files: the one of
  memory (\<open>LE\<close>) and the one with the first three fields reversed (\<open>BE\<close>).
\<close>

type_synonym guid = bytes

definition guid_ok :: "guid \<Rightarrow> bool" where
  "guid_ok g \<longleftrightarrow> length g = 16"

definition guid_zero :: guid where
  "guid_zero = replicate 16 0"

definition Guid_Equals :: "guid \<Rightarrow> guid \<Rightarrow> bool" where
  "Guid_Equals a b \<longleftrightarrow> take 16 a = take 16 b"

fun all_zero :: "bytes \<Rightarrow> bool" where
  "all_zero [] = True"
| "all_zero (b # bs) = (if b = 0 then all_zero bs else False)"

definition Guid_IsZero :: "guid \<Rightarrow> bool" where
  "Guid_IsZero g = all_zero (take 16 g)"

definition Guid_less :: "guid \<Rightarrow> guid \<Rightarrow> bool" where
  "Guid_less a b \<longleftrightarrow> take 16 a < take 16 b"

definition Guid_ToString :: "guid \<Rightarrow> string" where
  "Guid_ToString g =
    hex2 (g ! 3) @ hex2 (g ! 2) @ hex2 (g ! 1) @ hex2 (g ! 0) @ ''-'' @
    hex2 (g ! 5) @ hex2 (g ! 4) @ ''-'' @
    hex2 (g ! 7) @ hex2 (g ! 6) @ ''-'' @
    hex2 (g ! 8) @ hex2 (g ! 9) @ ''-'' @
    concat (map (\<lambda>i. hex2 (g ! i)) [10..<16])"

definition FromFrostyLE :: "bytes \<Rightarrow> guid" where
  "FromFrostyLE b = take 16 b"

definition FromFrostyLE_buf :: "byte_buffer \<Rightarrow> guid \<times> byte_buffer" where
  "FromFrostyLE_buf b = (case getBytes 16 b of (bs, b') \<Rightarrow> (FromFrostyLE bs, b'))"

definition FromFrostyBE :: "bytes \<Rightarrow> guid" where
  "FromFrostyBE b =
    [b ! 3, b ! 2, b ! 1, b ! 0, b ! 5, b ! 4, b ! 7, b ! 6,
     b ! 8, b ! 9, b ! 10, b ! 11, b ! 12, b ! 13, b ! 14, b ! 15]"

definition FromFrostyBE_buf :: "byte_buffer \<Rightarrow> guid \<times> byte_buffer" where
  "FromFrostyBE_buf b = (case getBytes 16 b of (bs, b') \<Rightarrow> (FromFrostyBE bs, b'))"

definition ToFrostyLE :: "guid \<Rightarrow> bytes" where
  "ToFrostyLE g = take 16 g"

definition ToFrostyBE :: "guid \<Rightarrow> bytes" where
  "ToFrostyBE g =
    [g ! 3, g ! 2, g ! 1, g ! 0, g ! 5, g ! 4, g ! 7, g ! 6] @ map (\<lambda>i. g ! (8 + i)) [0..<8]"

lemma ToFrostyBE_FromFrostyBE: "ToFrostyBE = FromFrostyBE"
  by (rule ext) (simp add: ToFrostyBE_def FromFrostyBE_def upt_rec numeral_eq_Suc)

lemma length_FromFrostyBE [simp]: "length (FromFrostyBE b) = 16"
  by (simp add: FromFrostyBE_def)

lemma length_ToFrostyBE [simp]: "length (ToFrostyBE b) = 16"
  by (simp add: ToFrostyBE_def)

lemma list16_cases:
  assumes "length g = 16"
  obtains a0 a1 a2 a3 a4 a5 a6 a7 a8 a9 a10 a11 a12 a13 a14 a15
  where "g = [a0, a1, a2, a3, a4, a5, a6, a7, a8, a9, a10, a11, a12, a13, a14, a15]"
  using assms by (auto simp: numeral_eq_Suc length_Suc_conv)

lemma FromFrostyBE_involution: "guid_ok g \<Longrightarrow> FromFrostyBE (FromFrostyBE g) = g"
  by (unfold guid_ok_def, erule list16_cases) (simp add: FromFrostyBE_def)

lemma all_zero_iff: "all_zero bs \<longleftrightarrow> (\<forall>b \<in> set bs. b = 0)"
  by (induction bs) auto

lemma Guid_Equals_iff: "guid_ok a \<Longrightarrow> guid_ok b \<Longrightarrow> Guid_Equals a b \<longleftrightarrow> a = b"
  by (simp add: Guid_Equals_def guid_ok_def)

lemma Guid_IsZero_iff: "guid_ok g \<Longrightarrow> Guid_IsZero g \<longleftrightarrow> g = guid_zero"
  by (auto simp: Guid_IsZero_def guid_ok_def all_zero_iff guid_zero_def intro: replicate_eqI)

interpretation guid_le: codec "\<lambda>_. guid_ok" ToFrostyLE "\<lambda>b. Inr (FromFrostyLE_buf b)"
proof
  fix g b assume "guid_ok g" "at_read b (ToFrostyLE g)"
  then show "Inr (FromFrostyLE_buf b) = Inr (g, advance (length (ToFrostyLE g)) b)"
    using getBytes_at [of b g] by (simp add: ToFrostyLE_def FromFrostyLE_def FromFrostyLE_buf_def guid_ok_def)
qed

interpretation guid_be: codec "\<lambda>_. guid_ok" ToFrostyBE "\<lambda>b. Inr (FromFrostyBE_buf b)"
proof
  fix g b assume *: "guid_ok g" "at_read b (ToFrostyBE g)"
  then show "Inr (FromFrostyBE_buf b) = Inr (g, advance (length (ToFrostyBE g)) b)"
    using getBytes_at [OF *(2)]
    by (simp add: FromFrostyBE_buf_def ToFrostyBE_FromFrostyBE FromFrostyBE_involution)
qed

lemma hex_digit_inj: "m < 16 \<Longrightarrow> n < 16 \<Longrightarrow> hex_digit m = hex_digit n \<Longrightarrow> m = n"
proof -
  have "distinct ''0123456789abcdef''" "length ''0123456789abcdef'' = 16" by simp_all
  then show "m < 16 \<Longrightarrow> n < 16 \<Longrightarrow> hex_digit m = hex_digit n \<Longrightarrow> m = n"
    unfolding hex_digit_def by (metis nth_eq_iff_index_eq)
qed

lemma hex2_eq_iff [simp]: "hex2 a = hex2 b \<longleftrightarrow> a = b"
proof
  assume "hex2 a = hex2 b"
  then have "unat a div 16 = unat b div 16" "unat a mod 16 = unat b mod 16"
    using u8_less_256 [of a] u8_less_256 [of b]
    by (auto simp: hex2_def intro!: hex_digit_inj)
  then show "a = b" by (metis div_mult_mod_eq word_unat_eq_iff)
qed simp

lemma length_hex2 [simp]: "length (hex2 b) = 2"
  by (simp add: hex2_def)

text \<open>The textual form of an identifier determines it: two identifiers with the same \<open>ToString\<close> are
  equal, so tables keyed by the text cannot confuse two of them.\<close>

theorem Guid_ToString_inj:
  assumes "guid_ok a" "guid_ok b" "Guid_ToString a = Guid_ToString b"
  shows "a = b"
proof -
  obtain a0 a1 a2 a3 a4 a5 a6 a7 a8 a9 a10 a11 a12 a13 a14 a15
    where a: "a = [a0, a1, a2, a3, a4, a5, a6, a7, a8, a9, a10, a11, a12, a13, a14, a15]"
    using assms(1) unfolding guid_ok_def by (rule list16_cases)
  obtain b0 b1 b2 b3 b4 b5 b6 b7 b8 b9 b10 b11 b12 b13 b14 b15
    where b: "b = [b0, b1, b2, b3, b4, b5, b6, b7, b8, b9, b10, b11, b12, b13, b14, b15]"
    using assms(2) unfolding guid_ok_def by (rule list16_cases)
  show ?thesis
    using assms(3) by (simp add: Guid_ToString_def a b upt_rec numeral_eq_Suc append_eq_append_conv)
qed

section \<open>Reading the textual form\<close>

text \<open>
  \<^verbatim>\<open>sscanf\<close> with a conversion \<^verbatim>\<open>%Nx\<close>: leading white space is skipped; the field is the longest sequence of
  at most \<open>N\<close> characters made of an optional sign, an optional \<open>0x\<close> and hexadecimal digits; with no digit
  the conversion fails and the rest of the format is not processed. A failed \<open>FromString\<close> leaves the
  remaining fields zero.
\<close>

definition is_space :: "char \<Rightarrow> bool" where
  "is_space c \<longleftrightarrow> of_char c \<in> {9, 10, 11, 12, 13, 32 :: nat}"

definition hex_number :: "string \<Rightarrow> nat" where
  "hex_number ds = fold (\<lambda>c v. 16 * v + the (hex_val c)) ds 0"

definition scan_hex :: "nat \<Rightarrow> string \<Rightarrow> (int \<times> string) option" where
  "scan_hex w str =
    (let s = dropWhile is_space str;
         signed = (case s of [] \<Rightarrow> False | c # _ \<Rightarrow> 0 < w \<and> (c = CHR ''-'' \<or> c = CHR ''+''));
         neg = (signed \<and> hd s = CHR ''-'');
         (s, w) = (if signed then (tl s, w - 1) else (s, w));
         (s, w) = (if 2 \<le> w \<and> 2 \<le> length s \<and> s ! 0 = CHR ''0'' \<and> (s ! 1 = CHR ''x'' \<or> s ! 1 = CHR ''X'')
                   then (drop 2 s, w - 2) else (s, w));
         ds = takeWhile (\<lambda>c. hex_val c \<noteq> None) (take w s)
     in if ds = [] then None
        else Some (if neg then - int (hex_number ds) else int (hex_number ds), drop (length ds) s))"

datatype scan_item = Hex nat nat | Lit char

fun scan_guid :: "scan_item list \<Rightarrow> string \<Rightarrow> bytes" where
  "scan_guid [] s = []"
| "scan_guid (Hex w n # items) s =
    (case scan_hex w s of
       None \<Rightarrow> replicate n 0 @ scan_guid items []
     | Some (v, s') \<Rightarrow> le_bytes n (nat (v mod 2 ^ (8 * n))) @ scan_guid items s')"
| "scan_guid (Lit c # items) s =
    (case s of [] \<Rightarrow> scan_guid items [] | x # xs \<Rightarrow> if x = c then scan_guid items xs else scan_guid items [])"

definition guid_format :: "scan_item list" where
  "guid_format = [Hex 8 4, Lit (CHR ''-''), Hex 4 2, Lit (CHR ''-''), Hex 4 2, Lit (CHR ''-''), Hex 2 1, Hex 2 1,
    Lit (CHR ''-''), Hex 2 1, Hex 2 1, Hex 2 1, Hex 2 1, Hex 2 1, Hex 2 1]"

definition Guid_FromString :: "string \<Rightarrow> guid" where
  "Guid_FromString s = scan_guid guid_format (cstr s)"

lemma hex_digit_facts:
  assumes "n < 16"
  shows "hex_val (hex_digit n) = Some n" "\<not> is_space (hex_digit n)" "hex_digit n \<noteq> CHR ''-''" "hex_digit n \<noteq> CHR ''+''"
    "hex_digit n \<noteq> CHR ''x''" "hex_digit n \<noteq> CHR ''X''" "hex_digit n \<noteq> NUL"
proof -
  have "n \<in> {0, 1, 2, 3, 4, 5, 6, 7, 8, 9, 10, 11, 12, 13, 14, 15}" using assms by simp presburger
  then show "hex_val (hex_digit n) = Some n" "\<not> is_space (hex_digit n)" "hex_digit n \<noteq> CHR ''-''" "hex_digit n \<noteq> CHR ''+''"
    "hex_digit n \<noteq> CHR ''x''" "hex_digit n \<noteq> CHR ''X''" "hex_digit n \<noteq> NUL"
    by (elim insertE; simp add: hex_digit_def hex_val_def is_space_def NUL_def)+
qed

lemma hex2_cons: obtains h l where "hex2 b = [hex_digit h, hex_digit l]" "h < 16" "l < 16" "unat b = 16 * h + l"
  using u8_less_256 [of b] that [of "unat b div 16" "unat b mod 16"] by (simp add: hex2_def)

definition hex_pairs :: "bytes \<Rightarrow> string" where "hex_pairs bs = concat (map hex2 bs)"

lemma hex_pairs_digits: "\<forall>c \<in> set (hex_pairs bs). \<exists>n < 16. c = hex_digit n"
proof (induction bs)
  case (Cons b bs)
  obtain h l where "hex2 b = [hex_digit h, hex_digit l]" "h < 16" "l < 16" by (rule hex2_cons)
  then show ?case using Cons by (auto simp: hex_pairs_def)
qed (simp add: hex_pairs_def)

lemma length_hex_pairs [simp]: "length (hex_pairs bs) = 2 * length bs"
  by (induction bs) (simp_all add: hex_pairs_def)

lemma hex_number_pairs:
  "fold (\<lambda>c v. 16 * v + the (hex_val c)) (hex_pairs bs) acc = 256 ^ length bs * acc + le_val (rev bs)"
proof (induction bs arbitrary: acc)
  case (Cons b bs)
  obtain h l where b: "hex2 b = [hex_digit h, hex_digit l]" "h < 16" "l < 16" "unat b = 16 * h + l" by (rule hex2_cons)
  have app: "le_val (xs @ [y]) = le_val xs + 256 ^ length xs * unat y" for xs y
    by (induction xs) (simp_all add: algebra_simps)
  show ?case
    using Cons b by (simp add: hex_pairs_def hex_digit_facts app algebra_simps)
qed (simp add: hex_pairs_def)

lemma scan_hex_pairs:
  assumes "bs \<noteq> []" "w = 2 * length bs"
  shows "scan_hex w (hex_pairs bs @ rest) = Some (int (le_val (rev bs)), rest)"
proof -
  obtain b cs where bs: "bs = b # cs" using assms(1) by (cases bs) auto
  obtain h l where b: "hex2 b = [hex_digit h, hex_digit l]" "h < 16" "l < 16" by (rule hex2_cons)
  let ?s = "hex_pairs bs @ rest"
  have s: "?s = hex_digit h # hex_digit l # hex_pairs cs @ rest" by (simp add: bs hex_pairs_def b(1))
  have "takeWhile (\<lambda>c. hex_val c \<noteq> None) (hex_pairs bs) = hex_pairs bs"
    using hex_pairs_digits [of bs] hex_digit_facts(1) by (auto simp: takeWhile_eq_all_conv)
  then have "takeWhile (\<lambda>c. hex_val c \<noteq> None) (take w ?s) = hex_pairs bs" using assms(2) by simp
  moreover have "dropWhile is_space ?s = ?s" by (simp add: s hex_digit_facts b)
  moreover have "hex_number (hex_pairs bs) = le_val (rev bs)" by (simp add: hex_number_def hex_number_pairs)
  moreover have "hex_pairs bs \<noteq> []" by (simp add: bs hex_pairs_def b(1))
  moreover have "drop (length (hex_pairs bs)) ?s = rest" by simp
  ultimately show ?thesis
    unfolding scan_hex_def Let_def using s hex_digit_facts [OF b(2)] hex_digit_facts [OF b(3)]
    by (simp only: list.case list.sel) simp
qed

lemma le_bytes_field:
  assumes "length bs = n"
  shows "le_bytes n (nat (int (le_val (rev bs)) mod 2 ^ (8 * n))) = rev bs"
proof -
  have "(256 :: nat) ^ n = 2 ^ (8 * n)" by (simp add: power_mult)
  then have "le_val (rev bs) < 2 ^ (8 * n)" using le_val_less [of "rev bs"] assms by simp
  then have "nat (int (le_val (rev bs)) mod 2 ^ (8 * n)) = le_val (rev bs)"
    by (metis mod_less nat_int of_nat_numeral of_nat_power zmod_int)
  then show ?thesis using assms by simp
qed

text \<open>\<open>FromString\<close> reads back the identifier that \<open>ToString\<close> printed.\<close>

theorem Guid_FromString_ToString:
  assumes "guid_ok g"
  shows "Guid_FromString (Guid_ToString g) = g"
proof -
  obtain a0 a1 a2 a3 a4 a5 a6 a7 a8 a9 a10 a11 a12 a13 a14 a15
    where g: "g = [a0, a1, a2, a3, a4, a5, a6, a7, a8, a9, a10, a11, a12, a13, a14, a15]"
    using assms unfolding guid_ok_def by (rule list16_cases)
  have str: "Guid_ToString g = hex_pairs [a3, a2, a1, a0] @ ''-'' @ hex_pairs [a5, a4] @ ''-'' @ hex_pairs [a7, a6] @ ''-'' @
      hex_pairs [a8] @ hex_pairs [a9] @ ''-'' @ hex_pairs [a10] @ hex_pairs [a11] @ hex_pairs [a12] @ hex_pairs [a13] @
      hex_pairs [a14] @ hex_pairs [a15] @ []"
    by (simp add: Guid_ToString_def g hex_pairs_def upt_rec numeral_eq_Suc)
  have nn: "NUL \<notin> set (hex_pairs bs)" for bs
    using hex_pairs_digits [of bs] hex_digit_facts(7) by metis
  have "cstr (Guid_ToString g) = Guid_ToString g"
    by (rule cstr_id) (unfold str, simp add: nn, simp add: NUL_def)
  moreover have f1: "scan_hex 2 (hex_pairs [x] @ r) = Some (int (le_val (rev [x])), r)" for x r
    by (rule scan_hex_pairs) simp_all
  moreover have f0: "scan_hex 2 (hex_pairs [x]) = Some (int (le_val (rev [x])), [])" for x
    using f1 [of x "[]"] by simp
  moreover have f2: "scan_hex 4 (hex_pairs [x, y] @ r) = Some (int (le_val (rev [x, y])), r)" for x y r
    by (rule scan_hex_pairs) simp_all
  moreover have f4: "scan_hex 8 (hex_pairs [x, y, z, u] @ r) = Some (int (le_val (rev [x, y, z, u])), r)" for x y z u r
    by (rule scan_hex_pairs) simp_all
  ultimately have "Guid_FromString (Guid_ToString g) =
     le_bytes 4 (nat (int (le_val (rev [a3, a2, a1, a0])) mod 2 ^ (8 * 4))) @
     le_bytes 2 (nat (int (le_val (rev [a5, a4])) mod 2 ^ (8 * 2))) @
     le_bytes 2 (nat (int (le_val (rev [a7, a6])) mod 2 ^ (8 * 2))) @
     concat (map (\<lambda>a. le_bytes 1 (nat (int (le_val (rev [a])) mod 2 ^ (8 * 1)))) [a8, a9, a10, a11, a12, a13, a14, a15])"
    unfolding Guid_FromString_def str guid_format_def by (simp only: scan_guid.simps f0 f1 f2 f4 option.case prod.case
        append_Cons append_Nil list.case if_True simp_thms list.map concat.simps append_Nil2)
  then show ?thesis
    by (simp only: le_bytes_field list.size) (simp add: g)
qed

end
