(* ===== verification/Db_Object.thy ===== *)
theory Db_Object
  imports Guid_Model
begin

text \<open>
  The self-describing object format of \<^verbatim>\<open>Module/Source/ModLoader/DbObject.cpp\<close>: the value type
  (\<^verbatim>\<open>DbValue\<close>), the 7-bit variable-length integers, \<open>Load\<close>, \<open>Save\<close>, \<open>GetType\<close>.

  On the Windows target \<^verbatim>\<open>long\<close> has 32 bits, and both readers of variable-length integers shift an \<^verbatim>\<open>int\<close>:
  they are one loop over 32-bit words, in which a shift by 32 or more (a sixth byte) is undefined. A
  \<^verbatim>\<open>float\<close> or \<^verbatim>\<open>double\<close> is its bit pattern. A map is the list of its entries in key order. \<open>Load\<close> calls itself
  through its own loops, so its model has a fuel argument; the length of the encoding is enough.

  The specification is \<open>db_enc\<close>, the encoding as a plain concatenation: \<open>Save\<close> refines it, and \<open>Load\<close>
  reads it back.
\<close>

unbundle bit_operations_syntax

datatype db_type =
    DbType_Invalid | DbType_List | DbType_Object | DbType_Boolean | DbType_String | DbType_Int
  | DbType_Long | DbType_Float | DbType_Double | DbType_Guid | DbType_Sha1 | DbType_ByteArray

fun db_code :: "db_type \<Rightarrow> u8" where
  "db_code DbType_Invalid = 0"
| "db_code DbType_List = 1"
| "db_code DbType_Object = 2"
| "db_code DbType_Boolean = 6"
| "db_code DbType_String = 7"
| "db_code DbType_Int = 8"
| "db_code DbType_Long = 9"
| "db_code DbType_Float = 11"
| "db_code DbType_Double = 12"
| "db_code DbType_Guid = 15"
| "db_code DbType_Sha1 = 16"
| "db_code DbType_ByteArray = 19"

datatype db_object =
    DbNull
  | DbBool bool
  | DbInt u32
  | DbLong u64
  | DbFloat u32
  | DbDouble u64
  | DbString string
  | DbByteArray bytes
  | DbGuid guid
  | DbSha1 bytes
  | DbList "db_object list"
  | DbMap "(string \<times> db_object) list"

fun GetType :: "db_object \<Rightarrow> db_type" where
  "GetType DbNull = DbType_Invalid"
| "GetType (DbBool _) = DbType_Boolean"
| "GetType (DbInt _) = DbType_Int"
| "GetType (DbLong _) = DbType_Long"
| "GetType (DbFloat _) = DbType_Float"
| "GetType (DbDouble _) = DbType_Double"
| "GetType (DbString _) = DbType_String"
| "GetType (DbByteArray _) = DbType_ByteArray"
| "GetType (DbGuid _) = DbType_Guid"
| "GetType (DbSha1 _) = DbType_Sha1"
| "GetType (DbList _) = DbType_List"
| "GetType (DbMap _) = DbType_Object"


section \<open>Variable-length integers\<close>

function read7_loop :: "nat \<Rightarrow> u32 \<Rightarrow> byte_buffer \<Rightarrow> (u32 \<times> byte_buffer) result" where
  "read7_loop i result b =
    (if i \<ge> 32 then Inl Shift_Too_Far
     else case bb_get b of (x, b1) \<Rightarrow>
       let r = result OR push_bit i (ucast (x AND 127))
       in if drop_bit 7 x = 0 then Inr (r, b1) else read7_loop (i + 7) r b1)"
  by pat_completeness auto
termination by (relation "measure (\<lambda>(i, _). 32 - i)") auto

declare read7_loop.simps [simp del]

definition read7BitEncodedInt :: "byte_buffer \<Rightarrow> (u32 \<times> byte_buffer) result" where
  "read7BitEncodedInt b = read7_loop 0 0 b"

definition read7BitEncodedLong :: "byte_buffer \<Rightarrow> (u32 \<times> byte_buffer) result" where
  "read7BitEncodedLong b = read7_loop 0 0 b"

lemma unat_drop_bit_7: "unat (drop_bit 7 v) = unat (v :: 'a::len word) div 128"
proof -
  have "take_bit LENGTH('a) (unat v) = unat v"
    using unsigned_less [where ?'a = nat, of v] by (simp add: take_bit_nat_eq_self)
  then have "unat (drop_bit 7 v) = drop_bit 7 (unat v)"
    by (simp only: unsigned_drop_bit_eq)
  then show ?thesis by (simp add: drop_bit_eq_div)
qed

lemma shift7_less:
  fixes v :: "'a::len word"
  assumes "0 < unat v"
  shows "unat (drop_bit 7 v) < unat v"
  using assms by (simp only: unat_drop_bit_7)

lemma not_less_u32: "\<not> v < (0x80 :: u32) \<Longrightarrow> 0 < unat v"
  by (simp add: word_less_nat_alt)

lemma not_less_u64: "\<not> v < (0x80 :: u64) \<Longrightarrow> 0 < unat v"
  by (simp add: word_less_nat_alt)

function write7BitEncodedInt :: "u32 \<Rightarrow> byte_buffer \<Rightarrow> byte_buffer" where
  "write7BitEncodedInt v b =
    (if v < 0x80 then bb_put (ucast v) b
     else write7BitEncodedInt (drop_bit 7 v) (bb_put (ucast (v OR 0x80)) b))"
  by pat_completeness auto
termination by (relation "measure (\<lambda>(v, _). unat v)") (auto intro: shift7_less not_less_u32)

function write7BitEncodedLong :: "u64 \<Rightarrow> byte_buffer \<Rightarrow> byte_buffer" where
  "write7BitEncodedLong v b =
    (if v < 0x80 then bb_put (ucast v) b
     else write7BitEncodedLong (drop_bit 7 v) (bb_put (ucast (v OR 0x80)) b))"
  by pat_completeness auto
termination by (relation "measure (\<lambda>(v, _). unat v)") (auto intro: shift7_less not_less_u64)

declare write7BitEncodedInt.simps [simp del] write7BitEncodedLong.simps [simp del]


section \<open>Load\<close>

fun db_load :: "nat \<Rightarrow> byte_buffer \<Rightarrow> string \<Rightarrow> (db_object option \<times> string \<times> byte_buffer) result"
  and db_load_list :: "nat \<Rightarrow> u32 \<Rightarrow> u32 \<Rightarrow> db_object list \<Rightarrow> byte_buffer \<Rightarrow>
    (db_object list \<times> byte_buffer) result"
  and db_load_map :: "nat \<Rightarrow> u32 \<Rightarrow> u32 \<Rightarrow> (string \<times> db_object) list \<Rightarrow> byte_buffer \<Rightarrow>
    ((string \<times> db_object) list \<times> byte_buffer) result"
where
  "db_load 0 b outputName = Inl Out_Of_Fuel"
| "db_load (Suc f) b outputName =
    (case bb_get b of (flags, b1) \<Rightarrow>
     let type = flags AND 0x1F in
     if type = db_code DbType_Invalid then Inr (None, outputName, b1)
     else case (if flags AND 0x80 = 0 then getNullTerminatedString b1 else Inr (outputName, b1)) of
       Inl e \<Rightarrow> Inl e
     | Inr (name, b2) \<Rightarrow>
       if type = db_code DbType_List then
         (case read7BitEncodedLong b2 of
            Inl e \<Rightarrow> Inl e
          | Inr (sz, b3) \<Rightarrow>
              (case db_load_list f (word_of_nat (rpos b3)) sz [] b3 of
                 Inl e \<Rightarrow> Inl e
               | Inr (values, b4) \<Rightarrow> Inr (Some (DbList values), name, b4)))
       else if type = db_code DbType_Object then
         (case read7BitEncodedLong b2 of
            Inl e \<Rightarrow> Inl e
          | Inr (sz, b3) \<Rightarrow>
              (case db_load_map f (word_of_nat (rpos b3)) sz [] b3 of
                 Inl e \<Rightarrow> Inl e
               | Inr (values, b4) \<Rightarrow> Inr (Some (DbMap values), name, b4)))
       else if type = db_code DbType_Boolean then
         (case bb_get b2 of (x, b3) \<Rightarrow> Inr (Some (DbBool (x = 1)), name, b3))
       else if type = db_code DbType_String then
         (case read7BitEncodedInt b2 of
            Inl e \<Rightarrow> Inl e
          | Inr (sz, b3) \<Rightarrow>
              if 2 ^ 31 \<le> unat sz then Inl Out_Of_Bounds
              else case getBytes (unat sz) b3 of
                (data, b4) \<Rightarrow> Inr (Some (DbString (cstr (bytes_str data))), name, b4))
       else if type = db_code DbType_Int then
         (case getInt b2 of (x, b3) \<Rightarrow> Inr (Some (DbInt x), name, b3))
       else if type = db_code DbType_Long then
         (case getLong b2 of (x, b3) \<Rightarrow> Inr (Some (DbLong x), name, b3))
       else if type = db_code DbType_Float then
         (case getInt b2 of (x, b3) \<Rightarrow> Inr (Some (DbFloat x), name, b3))
       else if type = db_code DbType_Double then
         (case getLong b2 of (x, b3) \<Rightarrow> Inr (Some (DbDouble x), name, b3))
       else if type = db_code DbType_Guid \<or> type = db_code DbType_Sha1 \<or> type = db_code DbType_ByteArray
       then Inl Unimplemented
       else Inr (None, name, b2))"
| "db_load_list 0 offset sz values b = Inl Out_Of_Fuel"
| "db_load_list (Suc f) offset sz values b =
    (if word_of_nat (rpos b) - offset < sz then
       (case db_load f b [] of
          Inl e \<Rightarrow> Inl e
        | Inr (None, name, b1) \<Rightarrow> Inr (values, b1)
        | Inr (Some v, name, b1) \<Rightarrow> db_load_list f offset sz (values @ [v]) b1)
     else Inr (values, b))"
| "db_load_map 0 offset sz values b = Inl Out_Of_Fuel"
| "db_load_map (Suc f) offset sz values b =
    (if word_of_nat (rpos b) - offset < sz then
       (case db_load f b [] of
          Inl e \<Rightarrow> Inl e
        | Inr (None, name, b1) \<Rightarrow> Inr (values, b1)
        | Inr (Some v, name, b1) \<Rightarrow> db_load_map f offset sz (map_emplace name v values) b1)
     else Inr (values, b))"


section \<open>Save\<close>

definition db_header :: "db_type \<Rightarrow> string \<Rightarrow> byte_buffer" where
  "db_header t name =
    (let flags = (if name = [] then 0x80 else 0x00);
         b = bb_put (flags OR db_code t) bb_new
     in if flags AND 0x80 = 0 then putNullTerminatedString name b else b)"

definition db_block :: "byte_buffer \<Rightarrow> byte_buffer \<Rightarrow> bytes" where
  "db_block header sub =
    (let b = write7BitEncodedLong (word_of_nat (length (buf sub) + 1)) header
     in buf (bb_put 0 (putBytes (buf sub) b)))"

fun db_save :: "db_object \<Rightarrow> string \<Rightarrow> bytes result"
  and save_items :: "db_object list \<Rightarrow> byte_buffer \<Rightarrow> byte_buffer result"
  and save_entries :: "(string \<times> db_object) list \<Rightarrow> byte_buffer \<Rightarrow> byte_buffer result"
where
  "db_save (DbBool v) name = Inr (buf (bb_put (if v then 0x01 else 0x00) (db_header DbType_Boolean name)))"
| "db_save (DbString s) name =
    Inr (buf (putBytes (str_bytes s) (write7BitEncodedInt (word_of_nat (length s)) (db_header DbType_String name))))"
| "db_save (DbInt v) name = Inr (buf (putInt v (db_header DbType_Int name)))"
| "db_save (DbList xs) name =
    (case save_items xs bb_new of
       Inl e \<Rightarrow> Inl e
     | Inr sub \<Rightarrow> Inr (db_block (db_header DbType_List name) sub))"
| "db_save (DbMap m) name =
    (case save_entries m bb_new of
       Inl e \<Rightarrow> Inl e
     | Inr sub \<Rightarrow> Inr (db_block (db_header DbType_Object name) sub))"
| "db_save _ name = Inl Unimplemented"
| "save_items [] sub = Inr sub"
| "save_items (x # xs) sub =
    (case db_save x [] of Inl e \<Rightarrow> Inl e | Inr bs \<Rightarrow> save_items xs (putBytes bs sub))"
| "save_entries [] sub = Inr sub"
| "save_entries ((k, v) # m) sub =
    (case db_save v k of Inl e \<Rightarrow> Inl e | Inr bs \<Rightarrow> save_entries m (putBytes bs sub))"

section \<open>The encoding as a specification\<close>

fun enc7 :: "nat \<Rightarrow> bytes" where
  "enc7 n = (if n < 128 then [word_of_nat n] else word_of_nat (n mod 128 + 128) # enc7 (n div 128))"

declare enc7.simps [simp del]

definition name_enc :: "db_type \<Rightarrow> string \<Rightarrow> bytes" where
  "name_enc t name = (if name = [] then [0x80 OR db_code t] else db_code t # str_bytes name @ [0])"

definition block_enc :: "bytes \<Rightarrow> bytes" where
  "block_enc body = enc7 (length body + 1) @ body @ [0]"

fun db_enc :: "db_object \<Rightarrow> string \<Rightarrow> bytes" where
  "db_enc (DbBool v) name = name_enc DbType_Boolean name @ [if v then 1 else 0]"
| "db_enc (DbString s) name = name_enc DbType_String name @ enc7 (length s) @ str_bytes s"
| "db_enc (DbInt v) name = name_enc DbType_Int name @ bytes32 v"
| "db_enc (DbList xs) name =
    name_enc DbType_List name @ block_enc (concat (map (\<lambda>x. db_enc x []) xs))"
| "db_enc (DbMap m) name =
    name_enc DbType_Object name @ block_enc (concat (map (\<lambda>(k, v). db_enc v k) m))"
| "db_enc _ name = []"

text \<open>The objects \<open>Save\<close> can write and \<open>Load\<close> can tell apart: no value of the types \<open>Save\<close> does not
  implement, and no character 0 inside a string or a name.\<close>

fun savable :: "db_object \<Rightarrow> bool" where
  "savable (DbBool _) = True"
| "savable (DbString s) = (NUL \<notin> set s)"
| "savable (DbInt _) = True"
| "savable (DbList xs) = list_all savable xs"
| "savable (DbMap m) = (ordered m \<and> list_all (\<lambda>(k, v). NUL \<notin> set k \<and> savable v) m)"
| "savable _ = False"

lemma enc7_nonempty [simp]: "enc7 n \<noteq> []"
  by (subst enc7.simps) simp

lemma length_enc7_pos [simp]: "0 < length (enc7 n)" "Suc 0 \<le> length (enc7 n)"
  by (simp_all add: Suc_le_eq)

lemma bit_128: "bit (128 :: nat) n \<longleftrightarrow> n = 7" "bit (128 :: int) n \<longleftrightarrow> n = 7"
proof -
  have "(128 :: nat) = 2 ^ 7" "(128 :: int) = 2 ^ 7" by simp_all
  then show "bit (128 :: nat) n \<longleftrightarrow> n = 7" "bit (128 :: int) n \<longleftrightarrow> n = 7"
    by (simp_all only: bit_exp_iff) auto
qed

lemma take7_plus_128: "take_bit 7 x + (128 :: u8) = take_bit 7 x OR 128"
  by (rule disjunctive_add) (simp add: bit_take_bit_iff bit_128)

lemma low7_or_128: "word_of_nat (n mod 128) + 128 = (word_of_nat n OR 128 :: u8)"
proof -
  have take: "(word_of_nat (take_bit 7 n) :: u8) = take_bit 7 (word_of_nat n)"
    by (rule bit_word_eqI) (auto simp: bit_simps)
  have "n mod 128 = take_bit 7 n" by (simp add: take_bit_eq_mod)
  then have "word_of_nat (n mod 128) + 128 = (take_bit 7 (word_of_nat n) OR 128 :: u8)"
    by (simp only: take take7_plus_128)
  also have "\<dots> = word_of_nat n OR 128"
    by (rule bit_word_eqI) (auto simp: bit_simps bit_128)
  finally show ?thesis .
qed

lemma ucast_or_128:
  "(ucast (v OR 128) :: u8) = word_of_nat (unat v mod 128) + 128"
  "(ucast (w OR 128) :: u8) = word_of_nat (unat w mod 128) + 128"
  for v :: u32 and w :: u64
  by (simp_all only: low7_or_128)
    (rule bit_word_eqI; auto simp: bit_simps bit_128)+

lemma write7BitEncodedInt_enc7:
  "write7BitEncodedInt v b = fold bb_put (enc7 (unat v)) b"
proof (induction v b rule: write7BitEncodedInt.induct)
  case (1 v b)
  have "(v < 0x80) = (unat v < 128)" by (simp add: word_less_nat_alt)
  then show ?case
    using 1 by (subst write7BitEncodedInt.simps, subst enc7.simps)
      (auto simp: ucast_or_128 unat_drop_bit_7 simp del: drop_bit_eq_div)
qed

lemma write7BitEncodedLong_enc7:
  "write7BitEncodedLong v b = fold bb_put (enc7 (unat v)) b"
proof (induction v b rule: write7BitEncodedLong.induct)
  case (1 v b)
  have "(v < 0x80) = (unat v < 128)" by (simp add: word_less_nat_alt)
  then show ?case
    using 1 by (subst write7BitEncodedLong.simps, subst enc7.simps)
      (auto simp: ucast_or_128 unat_drop_bit_7 simp del: drop_bit_eq_div)
qed

section \<open>Save refines the specification\<close>

lemma holds_db_header:
  assumes "NUL \<notin> set name" "length (name_enc t name) < 2 ^ 32"
  shows "holds (db_header t name) (name_enc t name)"
proof (cases "name = []")
  case True
  then show ?thesis using holds_put [of bb_new "[]"] by (simp add: db_header_def name_enc_def)
next
  case False
  have "holds (bb_put (db_code t) bb_new) [db_code t]" using holds_put [of bb_new "[]"] by simp
  then show ?thesis
    using False assms holds_putString [of _ "[db_code t]" name]
    by (simp add: db_header_def name_enc_def cstr_id)
qed

lemma db_block_enc:
  assumes "holds h xs" "holds sub ys" "length (xs @ block_enc ys) < 2 ^ 32"
  shows "db_block h sub = xs @ block_enc ys"
proof -
  have len: "length ys + 1 < 2 ^ 32" "length xs + length (enc7 (length ys + 1)) + length ys + 1 < 2 ^ 32"
    using assms(3) by (simp_all add: block_enc_def)
  then have "unat (word_of_nat (length ys + 1) :: u64) = length ys + 1"
    by (intro unat_small) simp
  then have "holds (write7BitEncodedLong (word_of_nat (length ys + 1)) h) (xs @ enc7 (length ys + 1))"
    using holds_fold_put [OF assms(1), of "enc7 (length ys + 1)"] len
    by (simp only: write7BitEncodedLong_enc7)
  then have "holds (putBytes ys (write7BitEncodedLong (word_of_nat (length ys + 1)) h))
      ((xs @ enc7 (length ys + 1)) @ ys)"
    using len by (intro holds_putBytes) simp_all
  then have "holds (bb_put 0 (putBytes ys (write7BitEncodedLong (word_of_nat (length ys + 1)) h)))
      (((xs @ enc7 (length ys + 1)) @ ys) @ [0])"
    using len by (intro holds_put) simp_all
  then show ?thesis
    using assms(2) by (simp add: db_block_def block_enc_def holds_def Let_def)
qed

definition items_enc :: "db_object list \<Rightarrow> bytes" where
  "items_enc xs = concat (map (\<lambda>x. db_enc x []) xs)"

definition entries_enc :: "(string \<times> db_object) list \<Rightarrow> bytes" where
  "entries_enc m = concat (map (\<lambda>(k, v). db_enc v k) m)"

lemma items_enc_simps [simp]:
  "items_enc [] = []" "items_enc (x # xs) = db_enc x [] @ items_enc xs"
  by (simp_all add: items_enc_def)

lemma entries_enc_simps [simp]:
  "entries_enc [] = []" "entries_enc ((k, v) # m) = db_enc v k @ entries_enc m"
  by (simp_all add: entries_enc_def)

lemma db_enc_containers:
  "db_enc (DbList xs) name = name_enc DbType_List name @ block_enc (items_enc xs)"
  "db_enc (DbMap m) name = name_enc DbType_Object name @ block_enc (entries_enc m)"
  by (simp_all add: items_enc_def entries_enc_def)

declare db_enc.simps(4,5) [simp del]
declare db_enc_containers [simp]

lemma db_save_enc:
  shows "savable x \<Longrightarrow> NUL \<notin> set name \<Longrightarrow> length (db_enc x name) < 2 ^ 32 \<Longrightarrow> db_save x name = Inr (db_enc x name)"
    and "list_all savable xs \<Longrightarrow> holds sub ys \<Longrightarrow> length (ys @ items_enc xs) < 2 ^ 32 \<Longrightarrow>
      \<exists>b. save_items xs sub = Inr b \<and> holds b (ys @ items_enc xs)"
    and "list_all (\<lambda>(k, v). NUL \<notin> set k \<and> savable v) m \<Longrightarrow> holds sub ys \<Longrightarrow>
      length (ys @ entries_enc m) < 2 ^ 32 \<Longrightarrow>
      \<exists>b. save_entries m sub = Inr b \<and> holds b (ys @ entries_enc m)"
proof (induction x name and xs sub and m sub arbitrary: and ys and ys
    rule: db_save_save_items_save_entries.induct)
  case (1 v name)
  then show ?case using holds_put [OF holds_db_header] by (simp add: holds_def)
next
  case (2 s name)
  have "unat (word_of_nat (length s) :: u32) = length s"
    using 2 by (intro unat_small) simp
  then have "holds (write7BitEncodedInt (word_of_nat (length s)) (db_header DbType_String name))
      (name_enc DbType_String name @ enc7 (length s))"
    using 2 by (simp add: write7BitEncodedInt_enc7 holds_fold_put holds_db_header)
  then show ?case using 2 holds_putBytes by (fastforce simp: holds_def)
next
  case (3 v name)
  then show ?case using holds_putInt [OF holds_db_header] by (simp add: holds_def)
next
  case (4 xs name)
  then obtain b where "save_items xs bb_new = Inr b" "holds b (items_enc xs)"
    using "4.IH" [of "[]"] by (auto simp: block_enc_def)
  then show ?case using 4 db_block_enc [OF holds_db_header] by simp
next
  case (5 m name)
  then obtain b where "save_entries m bb_new = Inr b" "holds b (entries_enc m)"
    using "5.IH" [of "[]"] by (auto simp: block_enc_def)
  then show ?case using 5 db_block_enc [OF holds_db_header] by simp
next
  case (8 x xs sub)
  then have "holds (putBytes (db_enc x []) sub) (ys @ db_enc x [])"
    by (intro holds_putBytes) simp_all
  then show ?case using 8 "8.IH"(2) [of _ "ys @ db_enc x []"] by simp
next
  case (10 k v m sub)
  then have "holds (putBytes (db_enc v k) sub) (ys @ db_enc v k)"
    by (intro holds_putBytes) simp_all
  then show ?case using 10 "10.IH"(2) [of _ "ys @ db_enc v k"] by simp
qed simp_all

section \<open>Load reads the specification back\<close>

lemma low7: "(ucast (word_of_nat n AND 127 :: u8) :: u32) = word_of_nat (n mod 128)"
proof -
  have "(word_of_nat n AND 127 :: u8) = take_bit 7 (word_of_nat n)"
    by (simp add: take_bit_eq_mask mask_eq_exp_minus_1)
  moreover have "n mod 128 = take_bit 7 n" by (simp add: take_bit_eq_mod)
  ultimately show ?thesis
    by (simp only:) (rule bit_word_eqI, auto simp: bit_simps)
qed

lemma high_bit: "drop_bit 7 (word_of_nat n :: u8) = 0 \<longleftrightarrow> n mod 256 < 128"
proof -
  have "drop_bit 7 (word_of_nat n :: u8) = 0 \<longleftrightarrow> unat (drop_bit 7 (word_of_nat n :: u8)) = 0"
    by (simp only: unat_eq_0)
  then show ?thesis by (simp only: unat_drop_bit_7 unat_u8_of_nat) (simp add: div_eq_0_iff)
qed

lemma or_push_bit:
  fixes acc :: u32
  assumes "unat acc < 2 ^ i"
  shows "acc OR push_bit i (word_of_nat m) = word_of_nat (unat acc + m * 2 ^ i)"
proof -
  have "take_bit i acc = acc"
    using assms by (simp add: word_unat_eq_iff unsigned_take_bit_eq take_bit_nat_eq_self)
  then have "\<not> bit acc k" if "i \<le> k" for k
    using that bit_take_bit_iff [of i acc k] by simp
  then have "acc + push_bit i (word_of_nat m) = acc OR push_bit i (word_of_nat m)"
    by (intro disjunctive_add) (metis bit_push_bit_iff linorder_not_le)
  then show ?thesis by (simp add: push_bit_eq_mult)
qed

lemma read7_loop_enc7:
  "i < 32 \<Longrightarrow> unat acc < 2 ^ i \<Longrightarrow> n * 2 ^ i < 2 ^ 32 \<Longrightarrow> at_read b (enc7 n) \<Longrightarrow>
    read7_loop i acc b = Inr (word_of_nat (unat acc + n * 2 ^ i), advance (length (enc7 n)) b)"
proof (induction n arbitrary: i acc b rule: enc7.induct)
  case (1 n)
  show ?case
  proof (cases "n < 128")
    case True
    then have e: "enc7 n = [word_of_nat n]" by (simp add: enc7.simps)
    have "drop_bit 7 (word_of_nat n :: u8) = 0" using True by (simp only: high_bit)
    then show ?thesis
      using 1(2-) True e
      by (subst read7_loop.simps) (simp add: bb_get_at low7 or_push_bit Let_def del: drop_bit_eq_div)
  next
    case False
    let ?x = "word_of_nat (n mod 128 + 128) :: u8" and ?m = "n div 128"
    have e: "enc7 n = ?x # enc7 ?m" using False by (subst enc7.simps) simp
    then have r: "at_read b [?x]" "at_read (advance 1 b) (enc7 ?m)"
      using 1(5) at_read_append [of b "[?x]" "enc7 ?m"] by simp_all
    have "n * 2 ^ i = (n mod 128 + ?m * 128) * 2 ^ i" by simp
    also have "\<dots> = n mod 128 * 2 ^ i + ?m * 2 ^ (i + 7)"
      by (simp only: power_add distrib_right) simp
    finally have parts: "n mod 128 * 2 ^ i + ?m * 2 ^ (i + 7) = n * 2 ^ i" by (rule sym)
    have "2 ^ (i + 7) \<le> ?m * 2 ^ (i + 7)" using False by (simp add: div_greater_zero_iff)
    then have "(2 :: nat) ^ (i + 7) < 2 ^ 32" and m: "?m * 2 ^ (i + 7) < 2 ^ 32"
      using parts 1(4) by linarith+
    then have i: "i + 7 < 32" by (simp only: power_strict_increasing_iff)
    let ?a = "unat acc + n mod 128 * 2 ^ i"
    have "?a < (Suc (n mod 128)) * 2 ^ i" using 1(3) by simp
    also have "\<dots> \<le> 128 * 2 ^ i" by (intro mult_le_mono1) (simp add: Suc_le_eq)
    finally have a: "?a < 2 ^ (i + 7)" by (simp add: power_add)
    then have ua: "unat (word_of_nat ?a :: u32) = ?a"
      using \<open>2 ^ (i + 7) < 2 ^ 32\<close> by (intro unat_small) linarith
    have "(n mod 128 + 128) mod 256 = n mod 128 + 128" by (simp add: mod_less)
    then have hb: "drop_bit 7 ?x \<noteq> 0" by (simp only: high_bit)
    have "read7_loop i acc b = read7_loop (i + 7) (word_of_nat ?a) (advance 1 b)"
      using 1(2,3) hb by (subst read7_loop.simps) (simp add: bb_get_at [OF r(1)] low7 or_push_bit del: of_nat_add)
    also have "\<dots> = Inr (word_of_nat (unat (word_of_nat ?a :: u32) + ?m * 2 ^ (i + 7)),
        advance (length (enc7 ?m)) (advance 1 b))"
      using 1(1) [OF False i _ m r(2)] a ua by (simp only:)
    finally show ?thesis
      using parts by (simp only: ua e) (simp add: add.assoc)
  qed
qed

lemma code_flags [simp]:
  "(0x80 OR db_code t) AND 0x1F = db_code t" "db_code t AND 0x1F = db_code t"
  "(0x80 OR db_code t) AND 0x80 \<noteq> 0" "db_code t AND 0x80 = 0"
  by (cases t; simp)+

lemma read7_enc7:
  assumes "at_read b (enc7 n)" "n < 2 ^ 32"
  shows "read7BitEncodedInt b = Inr (word_of_nat n, advance (length (enc7 n)) b)"
    "read7BitEncodedLong b = Inr (word_of_nat n, advance (length (enc7 n)) b)"
  using read7_loop_enc7 [of 0 0 n b] assms
  by (simp_all add: read7BitEncodedInt_def read7BitEncodedLong_def)

text \<open>What the first lines of \<open>Load\<close> do on an encoded header.\<close>

lemma load_header:
  assumes "at_read b (name_enc t name)" "NUL \<notin> set name"
  shows "\<exists>flags. bb_get b = (flags, advance 1 b) \<and> flags AND 0x1F = db_code t \<and>
    (if flags AND 0x80 = 0 then getNullTerminatedString (advance 1 b) else Inr ([], advance 1 b)) =
      Inr (name, advance (length (name_enc t name)) b)"
proof (cases "name = []")
  case True
  then show ?thesis using assms bb_get_at [of b "0x80 OR db_code t"] by (simp add: name_enc_def)
next
  case False
  then have "at_read b [db_code t]" "at_read (advance 1 b) (str_bytes name @ [0])"
    using assms(1) at_read_append [of b "[db_code t]" "str_bytes name @ [0]"] by (simp_all add: name_enc_def)
  then show ?thesis
    using False assms(2) by (simp add: name_enc_def bb_get_at getNullTerminatedString_at)
qed

definition loads_back :: "db_object \<Rightarrow> bool" where
  "loads_back x \<longleftrightarrow> (\<forall>name b f. savable x \<longrightarrow> NUL \<notin> set name \<longrightarrow> length (db_enc x name) < 2 ^ 31 \<longrightarrow>
    at_read b (db_enc x name) \<longrightarrow> length (db_enc x name) \<le> f \<longrightarrow>
    db_load f b [] = Inr (Some x, name, advance (length (db_enc x name)) b))"

lemma loads_backD:
  assumes "loads_back x" "savable x" "NUL \<notin> set name" "length (db_enc x name) < 2 ^ 31"
    "at_read b (db_enc x name)" "length (db_enc x name) \<le> f"
  shows "db_load f b [] = Inr (Some x, name, advance (length (db_enc x name)) b)"
  using assms by (simp add: loads_back_def)

lemma length_name_enc [simp]: "Suc 0 \<le> length (name_enc t name)" "0 < length (name_enc t name)"
  by (simp_all add: name_enc_def)

lemma name_enc_nonempty [simp]: "name_enc t name \<noteq> []"
  by (simp add: name_enc_def)

lemma savable_enc_pos: "savable x \<Longrightarrow> 1 \<le> length (db_enc x name)"
  by (cases x) (simp_all add: Suc_le_eq)

lemma load_terminator: "at_read b [0] \<Longrightarrow> db_load (Suc f) b [] = Inr (None, [], advance 1 b)"
  by (simp add: bb_get_at)

lemma loop_step:
  fixes offset sz :: u32
  assumes "unat (word_of_nat (rpos b) - offset) + (k + n) + 1 = unat sz"
  shows "word_of_nat (rpos b) - offset < sz"
    "unat (word_of_nat (rpos (advance k b)) - offset) + n + 1 = unat sz"
proof -
  let ?p = "word_of_nat (rpos b) - offset"
  show "?p < sz" using assms by (simp add: word_less_nat_alt)
  have "unat ?p + k < 2 ^ 32"
    using assms unsigned_less [where ?'a = nat, of sz] by simp
  then have "unat (word_of_nat (unat ?p + k) :: u32) = unat ?p + k" by (rule unat_small)
  moreover have "word_of_nat (rpos (advance k b)) - offset = (word_of_nat (unat ?p + k) :: u32)"
    by simp
  ultimately show "unat (word_of_nat (rpos (advance k b)) - offset) + n + 1 = unat sz"
    using assms by (simp only:)
qed

declare db_load.simps [simp del] db_load_list.simps(2) [simp del] db_load_map.simps(2) [simp del]

lemma load_list_back:
  assumes "\<And>x. x \<in> set xs \<Longrightarrow> loads_back x" "list_all savable xs" "length (items_enc xs) < 2 ^ 31"
    "at_read b (items_enc xs @ [0])" "length (items_enc xs) + 2 \<le> f"
    "unat (word_of_nat (rpos b) - offset) + length (items_enc xs) + 1 = unat sz"
  shows "db_load_list f offset sz acc b = Inr (acc @ xs, advance (length (items_enc xs) + 1) b)"
  using assms
proof (induction xs arbitrary: acc b f)
  case Nil
  then have "f = Suc (Suc (f - 2))" by simp
  then show ?case
    using Nil load_terminator [of b "f - 2"] loop_step(1) [of b offset 0 0 sz]
    by (metis (no_types, lifting) add_0 append_Nil2 append_Nil db_load_list.simps(2) items_enc_simps(1)
        list.size(3) option.simps(4) prod.simps(2) sum.case(2))
next
  case (Cons x xs)
  let ?k = "length (db_enc x [])"
  obtain g where g: "f = Suc g" using Cons.prems(5) by (cases f) auto
  have "1 \<le> ?k" using Cons.prems(2) savable_enc_pos [of x] by simp
  have r: "at_read b (db_enc x [])" "at_read (advance ?k b) (items_enc xs @ [0])"
    using Cons.prems(4) by (simp_all add: at_read_append)
  have step: "unat (word_of_nat (rpos b) - offset) + (?k + length (items_enc xs)) + 1 = unat sz"
    using Cons.prems(6) by simp
  have "db_load g b [] = Inr (Some x, [], advance ?k b)"
    using Cons.prems g r(1) by (intro loads_backD) simp_all
  moreover have "db_load_list g offset sz (acc @ [x]) (advance ?k b) =
      Inr ((acc @ [x]) @ xs, advance (length (items_enc xs) + 1) (advance ?k b))"
    using Cons.prems g r(2) loop_step(2) [OF step] \<open>1 \<le> ?k\<close> by (intro Cons.IH) simp_all
  ultimately show ?case
    using loop_step(1) [OF step] by (simp add: g db_load_list.simps)
qed

lemma load_map_back:
  assumes "\<And>k x. (k, x) \<in> set m \<Longrightarrow> loads_back x" "list_all (\<lambda>(k, v). NUL \<notin> set k \<and> savable v) m"
    "ordered (acc @ m)" "length (entries_enc m) < 2 ^ 31"
    "at_read b (entries_enc m @ [0])" "length (entries_enc m) + 2 \<le> f"
    "unat (word_of_nat (rpos b) - offset) + length (entries_enc m) + 1 = unat sz"
  shows "db_load_map f offset sz acc b = Inr (acc @ m, advance (length (entries_enc m) + 1) b)"
  using assms
proof (induction m arbitrary: acc b f)
  case Nil
  then have "f = Suc (Suc (f - 2))" by simp
  then show ?case
    using Nil load_terminator [of b "f - 2"] loop_step(1) [of b offset 0 0 sz]
    by (metis (no_types, lifting) add_0 append_Nil2 append_Nil db_load_map.simps(2) entries_enc_simps(1)
        list.size(3) option.simps(4) prod.simps(2) sum.case(2))
next
  case (Cons e m)
  obtain n x where e: "e = (n, x)" by (cases e)
  let ?k = "length (db_enc x n)"
  obtain g where g: "f = Suc g" using Cons.prems(6) by (cases f) auto
  have "1 \<le> ?k" using Cons.prems(2) savable_enc_pos [of x] by (simp add: e)
  have r: "at_read b (db_enc x n)" "at_read (advance ?k b) (entries_enc m @ [0])"
    using Cons.prems(5) by (simp_all add: at_read_append e)
  have step: "unat (word_of_nat (rpos b) - offset) + (?k + length (entries_enc m)) + 1 = unat sz"
    using Cons.prems(7) by (simp add: e)
  have ins: "map_emplace n x acc = acc @ [(n, x)]"
    using Cons.prems(3) by (intro map_emplace_above) (auto simp: e sorted_wrt_append)
  have "db_load g b [] = Inr (Some x, n, advance ?k b)"
    using Cons.prems g r(1) by (intro loads_backD) (auto simp: e)
  moreover have "db_load_map g offset sz (acc @ [(n, x)]) (advance ?k b) =
      Inr ((acc @ [(n, x)]) @ m, advance (length (entries_enc m) + 1) (advance ?k b))"
    using Cons.prems g r(2) loop_step(2) [OF step] \<open>1 \<le> ?k\<close> by (intro Cons.IH) (auto simp: e)
  ultimately show ?case
    using loop_step(1) [OF step] by (simp add: g db_load_map.simps ins e)
qed

lemma block_offset:
  assumes "at_read b (block_enc body)" "length body + 1 < 2 ^ 31"
  defines "k \<equiv> length (enc7 (length body + 1))"
  shows "read7BitEncodedLong b = Inr (word_of_nat (length body + 1), advance k b)"
    and "at_read (advance k b) (body @ [0])"
    and "unat (word_of_nat (rpos (advance k b)) - word_of_nat (rpos (advance k b)) :: u32) + length body + 1 =
      unat (word_of_nat (length body + 1) :: u32)"
proof -
  show "read7BitEncodedLong b = Inr (word_of_nat (length body + 1), advance k b)"
    using assms(1,2) unfolding k_def by (intro read7_enc7(2)) (simp_all add: block_enc_def at_read_append)
  show "at_read (advance k b) (body @ [0])"
    using assms(1) unfolding block_enc_def at_read_append k_def by simp
  have "unat (word_of_nat (length body + 1) :: u32) = length body + 1"
    using assms(2) by (intro unat_small) simp
  then show "unat (word_of_nat (rpos (advance k b)) - word_of_nat (rpos (advance k b)) :: u32) + length body + 1 =
      unat (word_of_nat (length body + 1) :: u32)" by (simp only:) simp
qed

text \<open>A call of \<open>Load\<close> at the encoding of a header followed by a payload: what the first lines compute, in
  the form in which they rewrite the body.\<close>

lemma load_start:
  assumes "at_read b (name_enc t name @ payload)" "NUL \<notin> set name" "0 < f"
  obtains g flags where "f = Suc g" "bb_get b = (flags, advance 1 b)" "flags AND 0x1F = db_code t"
    "(if flags AND 0x80 = 0 then getNullTerminatedString (advance 1 b) else Inr ([], advance 1 b)) =
      Inr (name, advance (length (name_enc t name)) b)"
    "at_read (advance (length (name_enc t name)) b) payload"
  using load_header [of b t name] assms by (cases f) (auto simp: at_read_append)

lemma loads_back_bool: "loads_back (DbBool v)"
  unfolding loads_back_def
proof (intro allI impI)
  fix name b f
  assume *: "NUL \<notin> set name" "at_read b (db_enc (DbBool v) name)" "length (db_enc (DbBool v) name) \<le> f"
  then have "at_read b (name_enc DbType_Boolean name @ [if v then 1 else 0])" "0 < f"
    by (simp, cases f) simp_all
  from this(1) *(1) this(2) obtain g flags where h: "f = Suc g" "bb_get b = (flags, advance 1 b)"
    "flags AND 0x1F = db_code DbType_Boolean"
    "(if flags AND 0x80 = 0 then getNullTerminatedString (advance 1 b) else Inr ([], advance 1 b)) =
      Inr (name, advance (length (name_enc DbType_Boolean name)) b)"
    "at_read (advance (length (name_enc DbType_Boolean name)) b) [if v then 1 else 0]"
    by (rule load_start)
  show "db_load f b [] = Inr (Some (DbBool v), name, advance (length (db_enc (DbBool v) name)) b)"
    unfolding h(1) db_load.simps h(2) prod.case Let_def h(3) h(4)
    by (simp add: bb_get_at [OF h(5)])
qed

lemma loads_back_int: "loads_back (DbInt v)"
  unfolding loads_back_def
proof (intro allI impI)
  fix name b f
  assume *: "NUL \<notin> set name" "at_read b (db_enc (DbInt v) name)" "length (db_enc (DbInt v) name) \<le> f"
  then have "at_read b (name_enc DbType_Int name @ bytes32 v)" "0 < f"
    by (simp, cases f) simp_all
  from this(1) *(1) this(2) obtain g flags where h: "f = Suc g" "bb_get b = (flags, advance 1 b)"
    "flags AND 0x1F = db_code DbType_Int"
    "(if flags AND 0x80 = 0 then getNullTerminatedString (advance 1 b) else Inr ([], advance 1 b)) =
      Inr (name, advance (length (name_enc DbType_Int name)) b)"
    "at_read (advance (length (name_enc DbType_Int name)) b) (bytes32 v)"
    by (rule load_start)
  show "db_load f b [] = Inr (Some (DbInt v), name, advance (length (db_enc (DbInt v) name)) b)"
    unfolding h(1) db_load.simps h(2) prod.case Let_def h(3) h(4)
    by (simp add: getInt_at [OF h(5)])
qed

lemma loads_back_string: "loads_back (DbString s)"
  unfolding loads_back_def
proof (intro allI impI)
  fix name b f
  assume *: "savable (DbString s)" "NUL \<notin> set name" "at_read b (db_enc (DbString s) name)"
    "length (db_enc (DbString s) name) \<le> f" "length (db_enc (DbString s) name) < 2 ^ 31"
  then have "at_read b (name_enc DbType_String name @ (enc7 (length s) @ str_bytes s))" "0 < f"
    by (simp, cases f) simp_all
  from this(1) *(2) this(2) obtain g flags where h: "f = Suc g" "bb_get b = (flags, advance 1 b)"
    "flags AND 0x1F = db_code DbType_String"
    "(if flags AND 0x80 = 0 then getNullTerminatedString (advance 1 b) else Inr ([], advance 1 b)) =
      Inr (name, advance (length (name_enc DbType_String name)) b)"
    "at_read (advance (length (name_enc DbType_String name)) b) (enc7 (length s) @ str_bytes s)"
    by (rule load_start)
  have len: "length s < 2 ^ 31" using *(5) by simp
  then have u: "unat (word_of_nat (length s) :: u32) = length s" by (intro unat_small) simp
  have r: "at_read (advance (length (name_enc DbType_String name)) b) (enc7 (length s))"
    "at_read (advance (length (name_enc DbType_String name) + length (enc7 (length s))) b) (str_bytes s)"
    using h(5) by (simp_all add: at_read_append)
  have i: "read7BitEncodedInt (advance (length (name_enc DbType_String name)) b) =
      Inr (word_of_nat (length s), advance (length (enc7 (length s))) (advance (length (name_enc DbType_String name)) b))"
    using r(1) len by (intro read7_enc7) simp_all
  show "db_load f b [] = Inr (Some (DbString s), name, advance (length (db_enc (DbString s) name)) b)"
    unfolding h(1) db_load.simps h(2) prod.case Let_def h(3) h(4)
    using getBytes_at [OF r(2)] len *(1) by (simp add: i u cstr_id add.assoc)
qed

lemma loads_back_list:
  assumes "\<And>x. x \<in> set xs \<Longrightarrow> loads_back x"
  shows "loads_back (DbList xs)"
  unfolding loads_back_def
proof (intro allI impI)
  fix name b f
  let ?body = "items_enc xs" and ?n = "length (name_enc DbType_List name)"
  assume *: "savable (DbList xs)" "NUL \<notin> set name" "at_read b (db_enc (DbList xs) name)"
    "length (db_enc (DbList xs) name) \<le> f" "length (db_enc (DbList xs) name) < 2 ^ 31"
  then have "at_read b (name_enc DbType_List name @ block_enc ?body)" "0 < f"
    by (simp, cases f) simp_all
  from this(1) *(2) this(2) obtain g flags where h: "f = Suc g" "bb_get b = (flags, advance 1 b)"
    "flags AND 0x1F = db_code DbType_List"
    "(if flags AND 0x80 = 0 then getNullTerminatedString (advance 1 b) else Inr ([], advance 1 b)) =
      Inr (name, advance ?n b)" "at_read (advance ?n b) (block_enc ?body)"
    by (rule load_start)
  let ?k = "length (enc7 (length ?body + 1))"
  have "length ?body + 1 < 2 ^ 31" using *(5) by (simp add: block_enc_def)
  note off = block_offset [OF h(5) this]
  have "1 \<le> ?k" "1 \<le> ?n" by simp_all
  then have "length ?body + 2 \<le> g" using *(4) h(1) unfolding db_enc_containers block_enc_def length_append list.size
    by linarith
  then have "db_load_list g (word_of_nat (rpos (advance ?k (advance ?n b)))) (word_of_nat (length ?body + 1)) []
      (advance ?k (advance ?n b)) = Inr ([] @ xs, advance (length ?body + 1) (advance ?k (advance ?n b)))"
    using assms *(1,5) off(2,3) by (intro load_list_back) (simp_all add: block_enc_def)
  then show "db_load f b [] = Inr (Some (DbList xs), name, advance (length (db_enc (DbList xs) name)) b)"
    unfolding h(1) db_load.simps h(2) prod.case Let_def h(3) h(4) off(1) sum.case
    by (simp add: block_enc_def add.assoc)
qed

lemma loads_back_map:
  assumes "\<And>k x. (k, x) \<in> set m \<Longrightarrow> loads_back x"
  shows "loads_back (DbMap m)"
  unfolding loads_back_def
proof (intro allI impI)
  fix name b f
  let ?body = "entries_enc m" and ?n = "length (name_enc DbType_Object name)"
  assume *: "savable (DbMap m)" "NUL \<notin> set name" "at_read b (db_enc (DbMap m) name)"
    "length (db_enc (DbMap m) name) \<le> f" "length (db_enc (DbMap m) name) < 2 ^ 31"
  then have "at_read b (name_enc DbType_Object name @ block_enc ?body)" "0 < f"
    by (simp, cases f) simp_all
  from this(1) *(2) this(2) obtain g flags where h: "f = Suc g" "bb_get b = (flags, advance 1 b)"
    "flags AND 0x1F = db_code DbType_Object"
    "(if flags AND 0x80 = 0 then getNullTerminatedString (advance 1 b) else Inr ([], advance 1 b)) =
      Inr (name, advance ?n b)" "at_read (advance ?n b) (block_enc ?body)"
    by (rule load_start)
  let ?k = "length (enc7 (length ?body + 1))"
  have "length ?body + 1 < 2 ^ 31" using *(5) by (simp add: block_enc_def)
  note off = block_offset [OF h(5) this]
  have "1 \<le> ?k" "1 \<le> ?n" by simp_all
  then have "length ?body + 2 \<le> g" using *(4) h(1) unfolding db_enc_containers block_enc_def length_append list.size
    by linarith
  then have "db_load_map g (word_of_nat (rpos (advance ?k (advance ?n b)))) (word_of_nat (length ?body + 1)) []
      (advance ?k (advance ?n b)) = Inr ([] @ m, advance (length ?body + 1) (advance ?k (advance ?n b)))"
    using assms *(1,5) off(2,3) by (intro load_map_back) (simp_all add: block_enc_def)
  then show "db_load f b [] = Inr (Some (DbMap m), name, advance (length (db_enc (DbMap m) name)) b)"
    unfolding h(1) db_load.simps h(2) prod.case Let_def h(3) h(4) off(1) sum.case
    by (simp add: block_enc_def add.assoc)
qed

lemma loads_back_all: "loads_back x"
proof (induction x)
  case (DbMap m)
  then show ?case by (intro loads_back_map) (metis prod.exhaust_sel snd_conv snds.intros)
qed (auto intro: loads_back_bool loads_back_int loads_back_string loads_back_list simp: loads_back_def [of DbNull]
    loads_back_def [of "DbLong _"] loads_back_def [of "DbFloat _"] loads_back_def [of "DbDouble _"]
    loads_back_def [of "DbByteArray _"] loads_back_def [of "DbGuid _"] loads_back_def [of "DbSha1 _"])

interpretation db_codec: codec "\<lambda>_ (x, name). savable x \<and> NUL \<notin> set name \<and> length (db_enc x name) < 2 ^ 31"
  "\<lambda>(x, name). db_enc x name"
  "\<lambda>b. case db_load (length (buf b)) b [] of
     Inl e \<Rightarrow> Inl e | Inr (None, _, _) \<Rightarrow> Inl Bad_Format | Inr (Some x, name, b') \<Rightarrow> Inr ((x, name), b')"
proof
  fix p b
  assume *: "case p of (x, name) \<Rightarrow> savable x \<and> NUL \<notin> set name \<and> length (db_enc x name) < 2 ^ 31"
    "at_read b (case p of (x, name) \<Rightarrow> db_enc x name)"
  obtain x name where p: "p = (x, name)" by (cases p)
  have "rpos b + length (db_enc x name) \<le> length (buf b)"
    using at_read_bound(1) [of b "db_enc x name"] savable_enc_pos [of x name] * p
    by (cases "db_enc x name = []") auto
  then have "db_load (length (buf b)) b [] = Inr (Some x, name, advance (length (db_enc x name)) b)"
    using * p by (intro loads_backD loads_back_all) auto
  then show "(case db_load (length (buf b)) b [] of
       Inl e \<Rightarrow> Inl e | Inr (None, _, _) \<Rightarrow> Inl Bad_Format | Inr (Some x, name, b') \<Rightarrow> Inr ((x, name), b')) =
    Inr (p, advance (length (case p of (x, name) \<Rightarrow> db_enc x name)) b)"
    by (simp add: p)
qed


section \<open>Claims\<close>

text \<open>C9: what \<open>Save\<close> writes, \<open>Load\<close> reads back. For an object built from the types \<open>Save\<close> implements,
  with strings and names free of the character 0 and an encoding below 2 GiB, \<open>Save\<close> succeeds and \<open>Load\<close>
  on its output returns the same object under the same name, with the read position at the end. Fuel
  equal to the length of the output is enough.\<close>

theorem db_save_load:
  assumes "savable x" "NUL \<notin> set name" "length (db_enc x name) < 2 ^ 31"
  shows "\<exists>bs. db_save x name = Inr bs \<and>
    (\<forall>f \<ge> length bs. db_load f (bb_of_array bs) [] = Inr (Some x, name, advance (length bs) (bb_of_array bs)))"
proof -
  have "db_save x name = Inr (db_enc x name)" using assms by (intro db_save_enc) simp_all
  moreover have "at_read (bb_of_array (db_enc x name)) (db_enc x name)"
    using assms(3) by (intro at_read_bb_of_array) simp
  ultimately show ?thesis using loads_backD [OF loads_back_all assms] by auto
qed

theorem db_save_load_witness:
  "\<exists>bs. db_save (DbMap [(''a'', DbList [DbBool True, DbInt 5]), (''b'', DbString ''x'')]) [] = Inr bs \<and>
    (\<forall>f \<ge> length bs. db_load f (bb_of_array bs) [] =
      Inr (Some (DbMap [(''a'', DbList [DbBool True, DbInt 5]), (''b'', DbString ''x'')]), [],
        advance (length bs) (bb_of_array bs)))"
  by (rule db_save_load)
    (simp_all add: NUL_def name_enc_def block_enc_def enc7.simps items_enc_def entries_enc_def)

text \<open>A number below \<open>2 ^ 32\<close> written with \<open>write7BitEncodedInt\<close> at the end of a buffer is read back by
  \<open>read7BitEncodedInt\<close> from where it was written.\<close>

theorem read7_write7:
  assumes "holds b xs" "length xs + length (enc7 (unat v)) < 2 ^ 32"
  shows "read7BitEncodedInt (setReadPos (length xs) (write7BitEncodedInt v b)) =
    Inr (v, setReadPos (length xs + length (enc7 (unat v))) (write7BitEncodedInt v b))"
proof -
  have "holds (write7BitEncodedInt v b) (xs @ enc7 (unat v))"
    using assms by (simp add: write7BitEncodedInt_enc7 holds_fold_put)
  then have "at_read (setReadPos (length xs) (write7BitEncodedInt v b)) (enc7 (unat v))"
    using assms(2) by (simp add: at_read_def setReadPos_def holds_def)
  moreover have "unat v < 2 ^ 32" using unsigned_less [where ?'a = nat, of v] by simp
  ultimately show ?thesis
    using read7_enc7(1) by (simp add: setReadPos_def advance_def)
qed

text \<open>A varint whose first five bytes all carry the continuation bit is never decoded: the reader
  shifts a 32-bit integer by 35, which is undefined, so a 64-bit length that \<open>write7BitEncodedLong\<close> writes
  in more than five bytes cannot be read back.\<close>

theorem read7_six_bytes:
  assumes "at_read b [x0, x1, x2, x3, x4]"
    and "drop_bit 7 x0 \<noteq> 0" "drop_bit 7 x1 \<noteq> 0" "drop_bit 7 x2 \<noteq> 0" "drop_bit 7 x3 \<noteq> 0" "drop_bit 7 x4 \<noteq> 0"
  shows "read7BitEncodedLong b = Inl Shift_Too_Far"
proof -
  have "at_read b [x0]" "at_read (advance 1 b) [x1]" "at_read (advance (Suc (Suc 0)) b) [x2]"
    "at_read (advance (Suc (Suc (Suc 0))) b) [x3]" "at_read (advance (Suc (Suc (Suc (Suc 0)))) b) [x4]"
    using assms(1) at_read_append [of b "[x0]" "[x1, x2, x3, x4]"]
      at_read_append [of "advance 1 b" "[x1]" "[x2, x3, x4]"]
      at_read_append [of "advance 2 b" "[x2]" "[x3, x4]"]
      at_read_append [of "advance 3 b" "[x3]" "[x4]"] by (simp_all add: numeral_eq_Suc)
  then show ?thesis
    using assms(2-) by (simp add: read7BitEncodedLong_def read7_loop.simps bb_get_at Let_def)
qed

text \<open>\<open>Save\<close> ends the process on every value of the types 64-bit integer, float and double, although
  \<open>Load\<close> accepts them: an object that was loaded from a file cannot always be saved.\<close>

theorem load_accepts_unsavable:
  "(\<exists>b b'. db_load 1 b [] = Inr (Some (DbLong 7), [], b')) \<and> db_save (DbLong v) name = Inl Unimplemented \<and>
    db_save (DbFloat w) name = Inl Unimplemented \<and> db_save (DbDouble d) name = Inl Unimplemented"
proof -
  have "db_load 1 (bb_of_array [0x89, 7, 0, 0, 0, 0, 0, 0, 0]) [] =
      Inr (Some (DbLong 7), [], advance 9 (bb_of_array [0x89, 7, 0, 0, 0, 0, 0, 0, 0]))"
    by (simp add: db_load.simps(2) bb_get_def bb_read_def bb_peek_def pos_add_def getLong_def advance_def
        word64_def)
  then show ?thesis by auto
qed

end
