(* ===== verification/Bundle_Manifest.thy ===== *)
theory Bundle_Manifest
  imports Db_Object
begin

text \<open>
  The bundle manifest of \<^verbatim>\<open>Module/Source/ModLoader/BundleMerger.cpp\<close>: the list of partitions (ebx),
  resources (res) and chunks of a bundle, with its binary form. \<open>bm_load\<close> and \<open>bm_save\<close> are
  \<^verbatim>\<open>BundleManifest::Load\<close> and \<^verbatim>\<open>BundleManifest::Save\<close>; the counts that \<^verbatim>\<open>Load\<close> also stores in the object are
  read by nothing else and are locals here. Numbers are stored big-endian, by swapping before writing.

  \<open>Save\<close> keeps one copy of each name in a string table that it indexes by the 32-bit hash of the name:
  two names with the same hash share the first one's entry. The round trip is stated with that effect.

  \<^verbatim>\<open>int32_t\<close> values (\<^verbatim>\<open>h32\<close>, \<^verbatim>\<open>firstMip\<close>) are kept as their 32-bit patterns; \<open>-1\<close> is the all-ones word.
\<close>

unbundle bit_operations_syntax

section \<open>Byte order\<close>

definition SwapEndiannessU32 :: "u32 \<Rightarrow> u32" where
  "SwapEndiannessU32 v = (drop_bit 24 v AND 0xff) OR (push_bit 8 v AND 0xff0000) OR
    (drop_bit 8 v AND 0xff00) OR (push_bit 24 v AND 0xff000000)"

definition swap_halves :: "u64 \<Rightarrow> u64" where
  "swap_halves x = push_bit 32 (x AND 0x00000000FFFFFFFF) OR drop_bit 32 (x AND 0xFFFFFFFF00000000)"

definition swap_words :: "u64 \<Rightarrow> u64" where
  "swap_words x = push_bit 16 (x AND 0x0000FFFF0000FFFF) OR drop_bit 16 (x AND 0xFFFF0000FFFF0000)"

definition swap_bytes :: "u64 \<Rightarrow> u64" where
  "swap_bytes x = push_bit 8 (x AND 0x00FF00FF00FF00FF) OR drop_bit 8 (x AND 0xFF00FF00FF00FF00)"

definition SwapEndiannessU64 :: "u64 \<Rightarrow> u64" where
  "SwapEndiannessU64 x = swap_bytes (swap_words (swap_halves x))"

definition read_be32 :: "byte_buffer \<Rightarrow> (u32 \<times> byte_buffer) result" where
  "read_be32 b = (case readUnsafe 4 b of
     Inl e \<Rightarrow> Inl e | Inr (bs, b') \<Rightarrow> Inr (SwapEndiannessU32 (word32 bs), b'))"

definition read_be64 :: "byte_buffer \<Rightarrow> (u64 \<times> byte_buffer) result" where
  "read_be64 b = (case readUnsafe 8 b of
     Inl e \<Rightarrow> Inl e | Inr (bs, b') \<Rightarrow> Inr (SwapEndiannessU64 (word64 bs), b'))"

definition put_be32 :: "u32 \<Rightarrow> byte_buffer \<Rightarrow> byte_buffer" where
  "put_be32 v = putInt (SwapEndiannessU32 v)"

definition put_be64 :: "u64 \<Rightarrow> byte_buffer \<Rightarrow> byte_buffer" where
  "put_be64 v = putLong (SwapEndiannessU64 v)"


section \<open>The manifest\<close>

record ebx_entry =
  ename :: string
  originalSize :: u32

record res_entry = ebx_entry +
  resType :: u32
  resMeta :: bytes
  resRid :: u64

record chunk_entry =
  cguid :: guid
  logicalOffset :: u32
  logicalSize :: u32

datatype bm_result = Rt_Nop | Rt_Modified | Rt_Added

record bundle_manifest =
  m_ebxEntries :: "ebx_entry list"
  m_resEntries :: "res_entry list"
  m_chunkEntries :: "chunk_entry list"
  m_meta :: "db_object option"
  m_auditLog :: "string list"

definition bm_new :: bundle_manifest where
  "bm_new = \<lparr>m_ebxEntries = [], m_resEntries = [], m_chunkEntries = [], m_meta = None, m_auditLog = []\<rparr>"


section \<open>Load\<close>

definition read_name_at :: "u32 \<Rightarrow> byte_buffer \<Rightarrow> ((string \<times> u32) \<times> byte_buffer) result" where
  "read_name_at stringsOffset b =
    (case read_be32 b of
       Inl e \<Rightarrow> Inl e
     | Inr (nameOffset, b1) \<Rightarrow>
         (case read_be32 b1 of
            Inl e \<Rightarrow> Inl e
          | Inr (osize, b2) \<Rightarrow>
              (case getNullTerminatedString (setReadPos (unat (stringsOffset + nameOffset)) b2) of
                 Inl e \<Rightarrow> Inl e
               | Inr (name, b3) \<Rightarrow> Inr ((name, osize), setReadPos (rpos b2) b3))))"

definition read_meta16 :: "byte_buffer \<Rightarrow> (bytes \<times> byte_buffer) result" where
  "read_meta16 b = Inr (getBytes 16 b)"

definition read_chunk :: "byte_buffer \<Rightarrow> (chunk_entry \<times> byte_buffer) result" where
  "read_chunk b =
    (case FromFrostyBE_buf b of (g, b1) \<Rightarrow>
     (case read_be32 b1 of
        Inl e \<Rightarrow> Inl e
      | Inr (off, b2) \<Rightarrow>
          (case read_be32 b2 of
             Inl e \<Rightarrow> Inl e
           | Inr (sz, b3) \<Rightarrow> Inr (\<lparr>cguid = g, logicalOffset = off, logicalSize = sz\<rparr>, b3))))"

definition skip_sha1 :: "nat \<Rightarrow> byte_buffer \<Rightarrow> byte_buffer" where
  "skip_sha1 n b = ((\<lambda>b. setReadPos (pos_add (rpos b) 20) b) ^^ n) b"

fun fill_res :: "res_entry list \<Rightarrow> u32 list \<Rightarrow> bytes list \<Rightarrow> u64 list \<Rightarrow> res_entry list" where
  "fill_res (e # es) (t # ts) (m # ms) (r # rs) = e\<lparr>resType := t, resMeta := m, resRid := r\<rparr> # fill_res es ts ms rs"
| "fill_res es _ _ _ = es"

definition bm_load_header :: "byte_buffer \<Rightarrow> (u32 list \<times> byte_buffer) result" where
  "bm_load_header b = read_n read_be32 7 b"

definition bm_load_meta :: "bytes \<Rightarrow> db_object option result" where
  "bm_load_meta data =
    (case db_load (length data) (bb_of_array data) [] of
       Inl e \<Rightarrow> Inl e
     | Inr (obj, _, _) \<Rightarrow> Inr obj)"

text \<open>The entries of the three kinds, in the order of the file.\<close>

definition bm_load_ebx :: "u32 \<Rightarrow> u32 \<Rightarrow> byte_buffer \<Rightarrow> (ebx_entry list \<times> byte_buffer) result" where
  "bm_load_ebx stringsOffset n b =
    (case read_n (read_name_at stringsOffset) (unat n) b of
       Inl e \<Rightarrow> Inl e
     | Inr (xs, b') \<Rightarrow> Inr (map (\<lambda>(nm, sz). \<lparr>ename = nm, originalSize = sz\<rparr>) xs, b'))"

definition bm_load_res :: "u32 \<Rightarrow> u32 \<Rightarrow> res_entry list \<Rightarrow> byte_buffer \<Rightarrow> (res_entry list \<times> byte_buffer) result" where
  "bm_load_res stringsOffset n old b =
    (case read_n (read_name_at stringsOffset) (unat n) b of
       Inl e \<Rightarrow> Inl e
     | Inr (xs, b1) \<Rightarrow>
       (let es = old @ map (\<lambda>(nm, sz). \<lparr>ename = nm, originalSize = sz, resType = 0, resMeta = replicate 16 0, resRid = 0\<rparr>) xs
        in case read_n read_be32 (length es) b1 of
             Inl e \<Rightarrow> Inl e
           | Inr (ts, b2) \<Rightarrow>
             (case read_n read_meta16 (length es) b2 of
                Inl e \<Rightarrow> Inl e
              | Inr (ms, b3) \<Rightarrow>
                (case read_n read_be64 (length es) b3 of
                   Inl e \<Rightarrow> Inl e
                 | Inr (rs, b4) \<Rightarrow> Inr (fill_res es ts ms rs, b4)))))"

definition bm_load_chunks :: "u32 \<Rightarrow> byte_buffer \<Rightarrow> (chunk_entry list \<times> byte_buffer) result" where
  "bm_load_chunks n b = read_n read_chunk (unat n) b"

definition bm_load_body :: "u32 list \<Rightarrow> byte_buffer \<Rightarrow> bundle_manifest \<Rightarrow> bundle_manifest result" where
  "bm_load_body hdr b m =
    (case bm_load_ebx (hdr ! 4) (hdr ! 1) (skip_sha1 (unat (hdr ! 0)) b) of
       Inl e \<Rightarrow> Inl e
     | Inr (ebx, b1) \<Rightarrow>
       (case bm_load_res (hdr ! 4) (hdr ! 2) (m_resEntries m) b1 of
          Inl e \<Rightarrow> Inl e
        | Inr (res, b2) \<Rightarrow>
          (case bm_load_chunks (hdr ! 3) b2 of
             Inl e \<Rightarrow> Inl e
           | Inr (chunks, b3) \<Rightarrow>
             (let m' = m\<lparr>m_ebxEntries := m_ebxEntries m @ ebx, m_resEntries := res,
                         m_chunkEntries := m_chunkEntries m @ chunks\<rparr>
              in if 0 < hdr ! 6 then
                   (case bm_load_meta (fst (getBytes (unat (hdr ! 6)) (setReadPos (unat (hdr ! 5)) b3))) of
                      Inl e \<Rightarrow> Inl e
                    | Inr obj \<Rightarrow> Inr (m'\<lparr>m_meta := obj\<rparr>))
                 else Inr m'))))"

definition bm_load :: "bytes \<Rightarrow> bundle_manifest \<Rightarrow> bundle_manifest result" where
  "bm_load data m =
    (case read_be32 (bb_of_array data) of
       Inl e \<Rightarrow> Inl e
     | Inr (x, b) \<Rightarrow>
         if x XOR 0x7065636D \<noteq> 0xED1CEDB8 then Inr m
         else (case bm_load_header b of Inl e \<Rightarrow> Inl e | Inr (hdr, b1) \<Rightarrow> bm_load_body hdr b1 m))"


section \<open>Save\<close>

record string_table =
  st_next :: u32
  st_offsets :: "(u32 \<times> u32) list"
  st_strings :: "string list"

definition st_empty :: string_table where
  "st_empty = \<lparr>st_next = 0, st_offsets = [], st_strings = []\<rparr>"

definition intern :: "string \<Rightarrow> string_table \<Rightarrow> u32 \<times> string_table" where
  "intern name st =
    (let h = HashQuick name
     in case map_of (st_offsets st) h of
          Some off \<Rightarrow> (off, st)
        | None \<Rightarrow> (st_next st,
            st\<lparr>st_strings := st_strings st @ [cstr name],
               st_offsets := map_put h (st_next st) (st_offsets st),
               st_next := st_next st + word_of_nat (length name + 1)\<rparr>))"

fun save_refs :: "(string \<times> u32) list \<Rightarrow> string_table \<times> byte_buffer \<Rightarrow> string_table \<times> byte_buffer" where
  "save_refs [] (st, b) = (st, b)"
| "save_refs ((name, osize) # es) (st, b) =
    (case intern name st of (off, st') \<Rightarrow> save_refs es (st', put_be32 osize (put_be32 off b)))"

definition put_chunk :: "chunk_entry \<Rightarrow> byte_buffer \<Rightarrow> byte_buffer" where
  "put_chunk c b = put_be32 (logicalSize c) (put_be32 (logicalOffset c) (putBytes (ToFrostyBE (cguid c)) b))"

fun pad16 :: "nat \<Rightarrow> byte_buffer \<Rightarrow> byte_buffer" where
  "pad16 0 b = b"
| "pad16 (Suc f) b = (if wpos b mod 16 \<noteq> 0 then pad16 f (bb_put 0 b) else b)"

definition ebx_ref :: "('a) ebx_entry_scheme \<Rightarrow> string \<times> u32" where
  "ebx_ref e = (ename e, originalSize e)"

definition bm_save_tables :: "bundle_manifest \<Rightarrow> string_table \<times> byte_buffer" where
  "bm_save_tables m =
    (let total = length (m_ebxEntries m) + length (m_resEntries m) + length (m_chunkEntries m);
         b = fold put_be32
           [0x9D798ED5, word_of_nat total, word_of_nat (length (m_ebxEntries m)),
            word_of_nat (length (m_resEntries m)), word_of_nat (length (m_chunkEntries m)), 0, 0, 0] bb_new;
         b = ((\<lambda>b. setWritePos (pos_add (wpos b) 20) b) ^^ total) b;
         (st, b) = save_refs (map ebx_ref (m_ebxEntries m)) (st_empty, b);
         (st, b) = save_refs (map ebx_ref (m_resEntries m)) (st, b);
         b = fold (\<lambda>e. put_be32 (resType e)) (m_resEntries m) b;
         b = fold (\<lambda>e. putBytes (take 16 (resMeta e))) (m_resEntries m) b;
         b = fold (\<lambda>e. put_be64 (resRid e)) (m_resEntries m) b
     in (st, fold put_chunk (m_chunkEntries m) b))"

definition bm_save :: "bundle_manifest \<Rightarrow> bytes result" where
  "bm_save m =
    (let (st, b) = bm_save_tables m
     in case (case m_meta m of None \<Rightarrow> Inr (0, 0, b) | Some obj \<Rightarrow>
                (case db_save obj ''chunkMeta'' of
                   Inl e \<Rightarrow> Inl e
                 | Inr data \<Rightarrow> Inr (word_of_nat (wpos b), word_of_nat (length data), putBytes data b))) of
          Inl e \<Rightarrow> Inl e
        | Inr (metaOffset, metaSize, b) \<Rightarrow>
          (let stringsOffset = word_of_nat (wpos b);
               b = fold putNullTerminatedString (st_strings st) b;
               b = pad16 16 b;
               b = setWritePos 20 b
           in Inr (buf (put_be32 metaSize (put_be32 metaOffset (put_be32 stringsOffset b))))))"


section \<open>Changing a manifest\<close>

text \<open>A name that the code takes as \<^verbatim>\<open>eastl::string\<close> is used through \<^verbatim>\<open>c_str()\<close> only; the argument \<open>name\<close> is
  that C string.\<close>

definition bm_clear :: "bundle_manifest \<Rightarrow> bundle_manifest" where
  "bm_clear m = m\<lparr>m_ebxEntries := [], m_resEntries := [], m_chunkEntries := [], m_meta := Some (DbList [])\<rparr>"

definition ModifyEbxEntry :: "string \<Rightarrow> u32 \<Rightarrow> bundle_manifest \<Rightarrow> bundle_manifest" where
  "ModifyEbxEntry name osize m =
    m\<lparr>m_ebxEntries := update_first (\<lambda>e. ename e = name) (\<lambda>e. e\<lparr>originalSize := osize\<rparr>) (m_ebxEntries m)\<rparr>"

definition ModifyResEntry :: "res_entry \<Rightarrow> bundle_manifest \<Rightarrow> bundle_manifest" where
  "ModifyResEntry entry m =
    m\<lparr>m_resEntries := update_first (\<lambda>e. ename e = ename entry) (\<lambda>_. entry) (m_resEntries m)\<rparr>"

definition AddEbxEntry :: "string \<Rightarrow> u32 \<Rightarrow> bool \<Rightarrow> bundle_manifest \<Rightarrow> bm_result \<times> bundle_manifest" where
  "AddEbxEntry name osize allowModify m =
    (if allowModify \<and> (\<exists>e \<in> set (m_ebxEntries m). ename e = name)
     then (Rt_Modified, m\<lparr>m_ebxEntries :=
            update_first (\<lambda>e. ename e = name) (\<lambda>e. e\<lparr>originalSize := osize\<rparr>) (m_ebxEntries m)\<rparr>)
     else (Rt_Added, m\<lparr>m_ebxEntries := m_ebxEntries m @ [\<lparr>ename = name, originalSize = osize\<rparr>]\<rparr>))"

definition AddResEntry :: "res_entry \<Rightarrow> bool \<Rightarrow> bundle_manifest \<Rightarrow> bm_result \<times> bundle_manifest" where
  "AddResEntry entry allowModify m =
    (if allowModify \<and> (\<exists>e \<in> set (m_resEntries m). resRid e = resRid entry)
     then (Rt_Modified, m\<lparr>m_resEntries :=
            update_first (\<lambda>e. resRid e = resRid entry) (\<lambda>_. entry) (m_resEntries m)\<rparr>)
     else (Rt_Added, m\<lparr>m_resEntries := m_resEntries m @ [entry]\<rparr>))"

fun h32_of :: "db_object \<Rightarrow> u32 result" where
  "h32_of (DbMap m) = (case map_of m ''h32'' of Some (DbInt v) \<Rightarrow> Inr v | _ \<Rightarrow> Inl Null_Deref)"
| "h32_of _ = Inl Null_Deref"

fun find_meta :: "u32 \<Rightarrow> nat \<Rightarrow> db_object list \<Rightarrow> nat option result" where
  "find_meta h32 i [] = Inr None"
| "find_meta h32 i (x # xs) =
    (case h32_of x of
       Inl e \<Rightarrow> Inl e
     | Inr v \<Rightarrow> if v \<noteq> h32 then find_meta h32 (Suc i) xs else Inr (Some i))"

definition GetMetaIndex :: "u32 \<Rightarrow> bundle_manifest \<Rightarrow> nat option result" where
  "GetMetaIndex h32 m =
    (case m_meta m of
       None \<Rightarrow> Inr None
     | Some (DbList list) \<Rightarrow> find_meta h32 0 list
     | Some _ \<Rightarrow> Inl Null_Deref)"

definition PushAudit :: "string \<Rightarrow> bundle_manifest \<Rightarrow> bundle_manifest" where
  "PushAudit log m = m\<lparr>m_auditLog := m_auditLog m @ [log]\<rparr>"

definition chunk_meta :: "u32 \<Rightarrow> u32 \<Rightarrow> db_object" where
  "chunk_meta h32 firstMip =
    DbMap [(''h32'', DbInt h32),
           (''meta'', DbMap (if firstMip \<noteq> -1 then [(''firstMip'', DbInt firstMip)] else []))]"

fun find_index :: "('a \<Rightarrow> bool) \<Rightarrow> 'a list \<Rightarrow> nat option" where
  "find_index P [] = None"
| "find_index P (x # xs) = (if P x then Some 0 else map_option Suc (find_index P xs))"

definition AddChunkEntry :: "chunk_entry \<Rightarrow> u32 \<Rightarrow> u32 \<Rightarrow> bool \<Rightarrow> bool \<Rightarrow> bundle_manifest \<Rightarrow>
    (bm_result \<times> bundle_manifest) result" where
  "AddChunkEntry entry h32 firstMip allowNew allowModify m =
    (let existing = (if allowModify
           then find_index (\<lambda>e. Guid_Equals (cguid e) (cguid entry)) (m_chunkEntries m) else None)
     in if \<not> allowNew \<and> existing = None then Inr (Rt_Nop, m)
        else
          (let res = (if existing = None then Rt_Added else Rt_Modified);
               m = m\<lparr>m_chunkEntries := (case existing of
                      Some i \<Rightarrow> (m_chunkEntries m)[i := entry] | None \<Rightarrow> m_chunkEntries m @ [entry])\<rparr>
           in if h32 = 0 then Inr (res, m)
              else
                (let m = (if m_meta m = None then m\<lparr>m_meta := Some (DbList [])\<rparr> else m)
                 in case m_meta m of
                      Some (DbList list) \<Rightarrow>
                        (case existing of
                           None \<Rightarrow> Inr (res, m\<lparr>m_meta := Some (DbList (list @ [chunk_meta h32 firstMip]))\<rparr>)
                         | Some _ \<Rightarrow>
                             (case GetMetaIndex h32 m of
                                Inl e \<Rightarrow> Inl e
                              | Inr (Some i) \<Rightarrow>
                                  Inr (res, m\<lparr>m_meta := Some (DbList (list[i := chunk_meta h32 firstMip]))\<rparr>)
                              | Inr None \<Rightarrow> Inr (res, PushAudit (''No existing meta index for H32 '' @ dec_i32 h32) m)))
                    | _ \<Rightarrow> Inl Null_Deref)))"

section \<open>Byte order, proved\<close>

lemma below32: "n < 32 \<Longrightarrow> n \<in> {0, 1, 2, 3, 4, 5, 6, 7, 8, 9, 10, 11, 12, 13, 14, 15,
    16, 17, 18, 19, 20, 21, 22, 23, 24, 25, 26, 27, 28, 29, 30, 31}" for n :: nat
  by simp presburger

lemma below64: "n < 64 \<Longrightarrow> n \<in> {0, 1, 2, 3, 4, 5, 6, 7, 8, 9, 10, 11, 12, 13, 14, 15,
    16, 17, 18, 19, 20, 21, 22, 23, 24, 25, 26, 27, 28, 29, 30, 31,
    32, 33, 34, 35, 36, 37, 38, 39, 40, 41, 42, 43, 44, 45, 46, 47,
    48, 49, 50, 51, 52, 53, 54, 55, 56, 57, 58, 59, 60, 61, 62, 63}" for n :: nat
  by simp presburger

lemma swap32_swap32 [simp]: "SwapEndiannessU32 (SwapEndiannessU32 v) = v"
proof (rule bit_word_eqI)
  fix n assume "n < LENGTH(32)"
  then have "n < 32" by simp
  from below32 [OF this] show "bit (SwapEndiannessU32 (SwapEndiannessU32 v)) n = bit v n"
    by (elim insertE) (simp_all add: SwapEndiannessU32_def bit_simps)
qed

lemma bit_swap_stages:
  assumes "n < 64"
  shows "bit (swap_halves v) n = bit v (if n div 32 mod 2 = 0 then n + 32 else n - 32)"
    "bit (swap_words v) n = bit v (if n div 16 mod 2 = 0 then n + 16 else n - 16)"
    "bit (swap_bytes v) n = bit v (if n div 8 mod 2 = 0 then n + 8 else n - 8)"
  using below64 [OF assms]
  by (elim insertE; simp add: swap_halves_def swap_words_def swap_bytes_def bit_simps)+

lemma swap64_swap64 [simp]: "SwapEndiannessU64 (SwapEndiannessU64 v) = v"
proof (rule bit_word_eqI)
  fix n assume "n < LENGTH(64)"
  then have "n < 64" by simp
  from below64 [OF this] show "bit (SwapEndiannessU64 (SwapEndiannessU64 v)) n = bit v n"
    by (elim insertE) (simp_all add: SwapEndiannessU64_def bit_swap_stages)
qed

definition be32 :: "u32 \<Rightarrow> bytes" where "be32 v = bytes32 (SwapEndiannessU32 v)"
definition be64 :: "u64 \<Rightarrow> bytes" where "be64 v = bytes64 (SwapEndiannessU64 v)"

lemma length_be [simp]: "length (be32 v) = 4" "length (be64 w) = 8"
  by (simp_all add: be32_def be64_def)

lemma be_nonempty [simp]: "be32 v \<noteq> []" "be64 w \<noteq> []"
  by (simp_all add: be32_def be64_def)

lemma writes_be: "writes (put_be32 v) (be32 v)" "writes (put_be64 w) (be64 w)"
  by (simp_all add: put_be32_def put_be64_def be32_def be64_def writes_ints)

lemma read_be32_at: "at_read b (be32 v) \<Longrightarrow> read_be32 b = Inr (v, advance 4 b)"
  using readUnsafe_at [of b "be32 v" 4] by (simp add: read_be32_def be32_def)

lemma read_be64_at: "at_read b (be64 v) \<Longrightarrow> read_be64 b = Inr (v, advance 8 b)"
  using readUnsafe_at [of b "be64 v" 8] by (simp add: read_be64_def be64_def)

interpretation be32_codec: codec "\<lambda>_ _. True" be32 read_be32
  by unfold_locales (simp add: read_be32_at)

interpretation be64_codec: codec "\<lambda>_ _. True" be64 read_be64
  by unfold_locales (simp add: read_be64_at)

interpretation meta16_codec: codec "\<lambda>_ m. length m = 16" "\<lambda>m. m" read_meta16
  by unfold_locales (use getBytes_at in \<open>fastforce simp: read_meta16_def\<close>)

definition chunk_enc :: "chunk_entry \<Rightarrow> bytes" where
  "chunk_enc c = ToFrostyBE (cguid c) @ be32 (logicalOffset c) @ be32 (logicalSize c)"

interpretation chunk_codec: codec "\<lambda>_ c. guid_ok (cguid c)" chunk_enc read_chunk
proof
  fix b c assume *: "guid_ok (cguid c)" "at_read b (chunk_enc c)"
  then have r: "at_read b (ToFrostyBE (cguid c))" "at_read (advance 16 b) (be32 (logicalOffset c))"
    "at_read (advance 20 b) (be32 (logicalSize c))"
    by (simp_all add: chunk_enc_def at_read_append)
  have "FromFrostyBE_buf b = (cguid c, advance 16 b)"
    using guid_be.dec_enc [OF *(1) r(1)] by simp
  then show "read_chunk b = Inr (c, advance (length (chunk_enc c)) b)"
    by (simp add: read_chunk_def read_be32_at [OF r(2)] read_be32_at [OF r(3), simplified] chunk_enc_def)
qed

lemma ToFrostyBE_nonempty [simp]: "ToFrostyBE g \<noteq> []"
  by (simp add: ToFrostyBE_def)

lemma writes_chunk: "writes (put_chunk c) (chunk_enc c)"
  using writes_comp [OF writes_comp [OF writes_putBytes writes_be(1)] writes_be(1), of "ToFrostyBE (cguid c)"]
  by (simp add: put_chunk_def [abs_def] chunk_enc_def)

text \<open>An entry that refers to a name by its offset in the string table.\<close>

definition ref_enc :: "(string \<Rightarrow> u32) \<Rightarrow> string \<times> u32 \<Rightarrow> bytes" where
  "ref_enc off r = be32 (off (fst r)) @ be32 (snd r)"

definition name_at :: "bytes \<Rightarrow> u32 \<Rightarrow> string \<Rightarrow> bool" where
  "name_at B pos n \<longleftrightarrow> NUL \<notin> set n \<and> prefix (str_bytes n @ [0]) (drop (unat pos) B)"

interpretation ref_codec: codec "\<lambda>B r. name_at B (so + off (fst r)) (fst r)" "ref_enc off" "read_name_at so"
  for so :: u32 and off :: "string \<Rightarrow> u32"
proof
  fix b and r :: "string \<times> u32"
  assume *: "name_at (buf b) (so + off (fst r)) (fst r)" "at_read b (ref_enc off r)"
  then have r: "at_read b (be32 (off (fst r)))" "at_read (advance 4 b) (be32 (snd r))"
    by (simp_all add: ref_enc_def at_read_append)
  let ?b = "setReadPos (unat (so + off (fst r))) (advance 8 b)"
  have "at_read ?b (str_bytes (fst r) @ [0])"
    using * by (simp add: at_read_def name_at_def setReadPos_def)
  then have "getNullTerminatedString ?b = Inr (fst r, advance (Suc (length (fst r))) ?b)"
    using *(1) by (intro getNullTerminatedString_at) (simp_all add: name_at_def)
  then show "read_name_at so b = Inr (r, advance (length (ref_enc off r)) b)"
    using read_be32_at [OF r(1)] read_be32_at [OF r(2)]
    by (simp add: read_name_at_def ref_enc_def setReadPos_def advance_def)
qed

section \<open>The string table\<close>

text \<open>The name that stands for \<open>n\<close> in a table built from \<open>ns\<close>: the first one with the same hash.\<close>

definition canon :: "string list \<Rightarrow> string \<Rightarrow> string" where
  "canon ns n = (case find (\<lambda>x. HashQuick x = HashQuick n) ns of Some x \<Rightarrow> x | None \<Rightarrow> n)"

definition strs_image :: "string list \<Rightarrow> bytes" where
  "strs_image ss = concat (map (\<lambda>s. str_bytes s @ [0]) ss)"

definition st_off :: "string_table \<Rightarrow> string \<Rightarrow> u32" where
  "st_off st n = the (map_of (st_offsets st) (HashQuick n))"

definition st_table :: "string list \<Rightarrow> string_table \<Rightarrow> string_table" where
  "st_table ns st = fold (\<lambda>n st. snd (intern n st)) ns st"

definition st_ok :: "string list \<Rightarrow> string_table \<Rightarrow> bool" where
  "st_ok ns st \<longleftrightarrow>
    st_next st = word_of_nat (length (strs_image (st_strings st))) \<and>
    length (strs_image (st_strings st)) \<le> (\<Sum>n\<leftarrow>ns. length n + 1) \<and>
    (\<forall>h. map_of (st_offsets st) h = None \<longleftrightarrow> h \<notin> HashQuick ` set ns) \<and>
    (\<forall>n \<in> set ns. prefix (str_bytes (canon ns n) @ [0]) (drop (unat (st_off st n)) (strs_image (st_strings st))))"

lemma canon_hash [simp]: "HashQuick (canon ns n) = HashQuick n"
  by (auto simp: canon_def find_Some_iff split: option.split)

lemma canon_in: "HashQuick n \<in> HashQuick ` set ns \<Longrightarrow> canon ns n \<in> set ns"
  by (auto simp: canon_def find_None_iff find_Some_iff split: option.split)

lemma canon_cong: "HashQuick y = HashQuick n \<Longrightarrow> y \<in> set ns \<Longrightarrow> canon ns y = canon ns n"
  by (auto simp: canon_def find_None_iff split: option.split)

lemma canon_append:
  "canon (ns @ [m]) n =
    (if HashQuick n \<in> HashQuick ` set ns then canon ns n else if HashQuick m = HashQuick n then m else n)"
proof -
  have "HashQuick n \<in> HashQuick ` set ns \<longleftrightarrow> find (\<lambda>x. HashQuick x = HashQuick n) ns \<noteq> None"
    by (metis (mono_tags, lifting) find_None_iff image_iff)
  then show ?thesis by (auto simp: canon_def find_append split: option.split)
qed

lemma canon_inj: "inj_on HashQuick (set ns) \<Longrightarrow> n \<in> set ns \<Longrightarrow> canon ns n = n"
  by (meson canon_hash canon_in imageI inj_onD)

lemma strs_image_append [simp]: "strs_image (ss @ ts) = strs_image ss @ strs_image ts"
  by (simp add: strs_image_def)

lemma strs_image_Cons [simp]: "strs_image (s # ss) = str_bytes s @ 0 # strs_image ss" "strs_image [] = []"
  by (simp_all add: strs_image_def)

lemma st_ok_empty: "st_ok [] st_empty"
  by (simp add: st_ok_def st_empty_def)

lemma prefix_drop_append: "prefix xs (drop i ys) \<Longrightarrow> xs \<noteq> [] \<Longrightarrow> prefix xs (drop i (ys @ zs))"
  by (cases "i \<le> length ys") (auto simp: prefix_def)

lemma intern_ok:
  assumes ok: "st_ok ns st" and n: "NUL \<notin> set n" and small: "(\<Sum>n\<leftarrow>ns @ [n]. length n + 1) < 2 ^ 32"
  shows "st_ok (ns @ [n]) (snd (intern n st))" "fst (intern n st) = st_off (snd (intern n st)) n"
    "\<And>x. x \<in> set ns \<Longrightarrow> st_off (snd (intern n st)) x = st_off st x"
proof -
  let ?I = "strs_image (st_strings st)"
  have nm: "prefix (str_bytes (canon ns x) @ [0]) (drop (unat (st_off st x)) ?I)" if "x \<in> set ns" for x
    using ok that by (simp add: st_ok_def)
  have dom: "map_of (st_offsets st) h = None \<longleftrightarrow> h \<notin> HashQuick ` set ns" for h
    using ok unfolding st_ok_def by blast
  have all: "st_ok (ns @ [n]) (snd (intern n st)) \<and> fst (intern n st) = st_off (snd (intern n st)) n \<and>
    (\<forall>x \<in> set ns. st_off (snd (intern n st)) x = st_off st x)"
  proof (cases "map_of (st_offsets st) (HashQuick n)")
    case (Some off)
    then have known: "HashQuick n \<in> HashQuick ` set ns" using dom [of "HashQuick n"] by simp
    then obtain y where y: "y \<in> set ns" "HashQuick y = HashQuick n" by auto
    then have "canon ns y = canon ns n" "st_off st y = st_off st n"
      using canon_cong [of y n ns] by (simp_all add: st_off_def)
    then have "prefix (str_bytes (canon ns n) @ [0]) (drop (unat (st_off st n)) ?I)"
      using nm [OF y(1)] by simp
    then have "st_ok (ns @ [n]) st"
      using ok known by (auto simp: st_ok_def canon_append)
    then show ?thesis using Some by (simp add: intern_def st_off_def)
  next
    case None
    then have new: "HashQuick n \<notin> HashQuick ` set ns" using dom [of "HashQuick n"] by simp
    let ?st = "snd (intern n st)"
    have st: "st_strings ?st = st_strings st @ [n]"
      "st_offsets ?st = map_put (HashQuick n) (st_next st) (st_offsets st)"
      "st_next ?st = st_next st + word_of_nat (length n + 1)"
      using None n by (simp_all add: intern_def cstr_id)
    have "unat (st_next st) = length ?I"
      using ok small by (auto simp: st_ok_def intro!: unat_small)
    then have here: "prefix (str_bytes n @ [0]) (drop (unat (st_off ?st n)) (?I @ str_bytes n @ [0]))"
      by (simp add: st st_off_def)
    have off: "st_off ?st x = st_off st x" if "x \<in> set ns" for x
    proof -
      have "HashQuick x \<noteq> HashQuick n" using new that by (metis imageI)
      then show ?thesis by (simp add: st st_off_def)
    qed
    have old: "prefix (str_bytes (canon ns x) @ [0]) (drop (unat (st_off ?st x)) (?I @ str_bytes n @ [0]))"
      if "x \<in> set ns" for x
      using prefix_drop_append [OF nm [OF that], of "str_bytes n @ [0]"] off [OF that] by (simp del: drop_append)
    have "prefix (str_bytes (canon (ns @ [n]) x) @ [0]) (drop (unat (st_off ?st x)) (?I @ str_bytes n @ [0]))"
      if "x \<in> set (ns @ [n])" for x
      using that here old new by (cases "x \<in> set ns") (auto simp: canon_append simp del: drop_append)
    moreover have "st_next ?st = word_of_nat (length (?I @ str_bytes n @ [0]))"
      "length (?I @ str_bytes n @ [0]) \<le> (\<Sum>x\<leftarrow>ns @ [n]. length x + 1)"
      using ok by (simp_all add: st st_ok_def)
    moreover have "map_of (st_offsets ?st) h = None \<longleftrightarrow> h \<notin> HashQuick ` set (ns @ [n])" for h
      by (auto simp: st dom)
    moreover have "strs_image (st_strings ?st) = ?I @ str_bytes n @ [0]" by (simp add: st)
    ultimately have "st_ok (ns @ [n]) ?st" unfolding st_ok_def by metis
    moreover have "fst (intern n st) = st_off ?st n" using None by (simp add: intern_def st st_off_def)
    ultimately show ?thesis using off by blast
  qed
  show "st_ok (ns @ [n]) (snd (intern n st))" "fst (intern n st) = st_off (snd (intern n st)) n"
    "\<And>x. x \<in> set ns \<Longrightarrow> st_off (snd (intern n st)) x = st_off st x"
    using all by auto
qed

lemma st_table_simps [simp]:
  "st_table [] st = st" "st_table (n # ns) st = st_table ns (snd (intern n st))"
  by (simp_all add: st_table_def)

lemma st_table_ok:
  assumes "st_ok ns st" "\<forall>n \<in> set ms. NUL \<notin> set n" "(\<Sum>n\<leftarrow>ns @ ms. length n + 1) < 2 ^ 32"
  shows "st_ok (ns @ ms) (st_table ms st) \<and> (\<forall>x \<in> set ns. st_off (st_table ms st) x = st_off st x)"
  using assms
proof (induction ms arbitrary: ns st)
  case (Cons m ms)
  have small: "(\<Sum>n\<leftarrow>ns @ [m]. length n + 1) < 2 ^ 32" using Cons.prems(3) by simp
  note i = intern_ok [OF Cons.prems(1) _ small]
  have "st_ok ((ns @ [m]) @ ms) (st_table ms (snd (intern m st))) \<and>
      (\<forall>x \<in> set (ns @ [m]). st_off (st_table ms (snd (intern m st))) x = st_off (snd (intern m st)) x)"
    using Cons.prems i(1) by (intro Cons.IH) auto
  then show ?case using Cons.prems i(3) by simp
qed simp

section \<open>The file that Save writes\<close>

definition bm_names :: "bundle_manifest \<Rightarrow> string list" where
  "bm_names m = map ename (m_ebxEntries m) @ map ename (m_resEntries m)"

definition bm_strings :: "bundle_manifest \<Rightarrow> string_table" where
  "bm_strings m = st_table (bm_names m) st_empty"

definition bm_wf :: "bundle_manifest \<Rightarrow> bool" where
  "bm_wf m \<longleftrightarrow> (\<forall>n \<in> set (bm_names m). NUL \<notin> set n) \<and> (\<forall>e \<in> set (m_resEntries m). length (resMeta e) = 16) \<and>
    (\<forall>c \<in> set (m_chunkEntries m). guid_ok (cguid c)) \<and> (case m_meta m of None \<Rightarrow> True | Some x \<Rightarrow> savable x)"

definition bm_total :: "bundle_manifest \<Rightarrow> nat" where
  "bm_total m = length (m_ebxEntries m) + length (m_resEntries m) + length (m_chunkEntries m)"

definition bm_counts :: "bundle_manifest \<Rightarrow> bytes" where
  "bm_counts m = be32 0x9D798ED5 @ be32 (word_of_nat (bm_total m)) @ be32 (word_of_nat (length (m_ebxEntries m))) @
    be32 (word_of_nat (length (m_resEntries m))) @ be32 (word_of_nat (length (m_chunkEntries m)))"

definition bm_refs_image :: "bundle_manifest \<Rightarrow> bytes" where
  "bm_refs_image m =
    concat (map (ref_enc (st_off (bm_strings m))) (map ebx_ref (m_ebxEntries m))) @
    concat (map (ref_enc (st_off (bm_strings m))) (map ebx_ref (m_resEntries m)))"

definition bm_res_image :: "bundle_manifest \<Rightarrow> bytes" where
  "bm_res_image m = concat (map be32 (map resType (m_resEntries m))) @ concat (map resMeta (m_resEntries m)) @
    concat (map be64 (map resRid (m_resEntries m)))"

definition bm_tables_image :: "bundle_manifest \<Rightarrow> bytes" where
  "bm_tables_image m = replicate (20 * bm_total m) 0 @ bm_refs_image m @ bm_res_image m @
    concat (map chunk_enc (m_chunkEntries m))"

definition bm_meta_image :: "bundle_manifest \<Rightarrow> bytes" where
  "bm_meta_image m = (case m_meta m of None \<Rightarrow> [] | Some x \<Rightarrow> db_enc x ''chunkMeta'')"

definition bm_meta_pos :: "bundle_manifest \<Rightarrow> nat" where
  "bm_meta_pos m = 32 + length (bm_tables_image m)"

definition bm_strings_pos :: "bundle_manifest \<Rightarrow> nat" where
  "bm_strings_pos m = bm_meta_pos m + length (bm_meta_image m)"

definition bm_offsets :: "bundle_manifest \<Rightarrow> bytes" where
  "bm_offsets m = be32 (word_of_nat (bm_strings_pos m)) @
    be32 (if m_meta m = None then 0 else word_of_nat (bm_meta_pos m)) @
    be32 (word_of_nat (length (bm_meta_image m)))"

definition bm_payload :: "bundle_manifest \<Rightarrow> bytes" where
  "bm_payload m = bm_tables_image m @ bm_meta_image m @ strs_image (st_strings (bm_strings m))"

definition pad_len :: "nat \<Rightarrow> nat" where
  "pad_len n = (16 - n mod 16) mod 16"

definition bm_image :: "bundle_manifest \<Rightarrow> bytes" where
  "bm_image m = bm_counts m @ bm_offsets m @ bm_payload m @ replicate (pad_len (32 + length (bm_payload m))) 0"

definition bm_small :: "bundle_manifest \<Rightarrow> bool" where
  "bm_small m \<longleftrightarrow> length (bm_image m) < 2 ^ 31 \<and> (\<Sum>n\<leftarrow>bm_names m. length n + 1) < 2 ^ 31"

lemma length_headers [simp]: "length (bm_counts m) = 20" "length (bm_offsets m) = 12"
  by (simp_all add: bm_counts_def bm_offsets_def)

lemma save_refs_image:
  assumes "st_ok ns st" "\<forall>r \<in> set es. NUL \<notin> set (fst r)" "(\<Sum>n\<leftarrow>ns @ map fst es. length n + 1) < 2 ^ 32"
    "covers e b xs" "length xs + 8 * length es < 2 ^ 32"
  shows "\<exists>b'. save_refs es (st, b) = (st_table (map fst es) st, b') \<and>
    covers (e \<or> es \<noteq> []) b' (xs @ concat (map (ref_enc (st_off (st_table (map fst es) st))) es))"
  using assms
proof (induction es arbitrary: ns st e b xs)
  case (Cons r es)
  obtain n sz where r: "r = (n, sz)" by (cases r)
  let ?st = "snd (intern n st)" and ?ST = "st_table (map fst es) (snd (intern n st))"
  have small: "(\<Sum>n\<leftarrow>ns @ [n]. length n + 1) < 2 ^ 32" using Cons.prems(3) by (simp add: r)
  note i = intern_ok [OF Cons.prems(1) _ small]
  have ok: "st_ok (ns @ [n]) ?st" using i(1) Cons.prems(2) by (simp add: r)
  have stable: "st_off ?ST n = fst (intern n st)"
    using st_table_ok [OF ok, of "map fst es"] i(2) Cons.prems(2,3) by (simp add: r)
  let ?b = "put_be32 sz (put_be32 (fst (intern n st)) b)"
  have "writes (\<lambda>b. put_be32 sz (put_be32 (fst (intern n st)) b)) (be32 (fst (intern n st)) @ be32 sz)"
    by (intro writes_comp writes_be)
  then have "covers True ?b (xs @ be32 (fst (intern n st)) @ be32 sz)"
    using Cons.prems(4,5) writesD by fastforce
  then obtain b' where "save_refs es (?st, ?b) = (?ST, b')"
    "covers (True \<or> es \<noteq> []) b' ((xs @ be32 (fst (intern n st)) @ be32 sz) @ concat (map (ref_enc (st_off ?ST)) es))"
    using Cons.IH [OF ok, of True ?b "xs @ be32 (fst (intern n st)) @ be32 sz"] Cons.prems(2,3,5)
    by (auto simp: r)
  then show ?case
    using stable by (auto simp: r ref_enc_def [of _ "(n, sz)"] split: prod.split)
qed simp

lemma skip_words_image:
  "covers e b xs \<Longrightarrow> length xs + 20 * n < 2 ^ 32 \<Longrightarrow>
    covers (e \<and> n = 0) (((\<lambda>b. setWritePos (pos_add (wpos b) 20) b) ^^ n) b) (xs @ replicate (20 * n) 0)"
proof (induction n)
  case (Suc n)
  let ?b = "((\<lambda>b. setWritePos (pos_add (wpos b) 20) b) ^^ n) b"
  have c: "covers (e \<and> n = 0) ?b (xs @ replicate (20 * n) 0)" using Suc by simp
  then have "wpos ?b = length xs + 20 * n" using covers_spans by (fastforce simp: spans_def)
  then have "setWritePos (pos_add (wpos ?b) 20) ?b = setWritePos (wpos ?b + 20) ?b"
    using Suc.prems(2) by (simp add: pos_add_def)
  moreover have "replicate (20 * Suc n) (0 :: u8) = replicate (20 * n) 0 @ replicate 20 0"
    by (simp only: mult_Suc_right replicate_add [symmetric] add.commute)
  ultimately show ?case
    using covers_skip [OF c, of 20] by simp
qed simp

lemma pad_len_0: "n mod 16 = 0 \<Longrightarrow> pad_len n = 0"
  by (simp add: pad_len_def)

lemma pad_len_Suc: "n mod 16 \<noteq> 0 \<Longrightarrow> pad_len n = Suc (pad_len (Suc n))"
  using mod_less_divisor [of 16 n] by (auto simp: pad_len_def mod_Suc)

lemma pad16_image:
  "holds b xs \<Longrightarrow> length xs + pad_len (length xs) < 2 ^ 32 \<Longrightarrow> pad_len (length xs) \<le> f \<Longrightarrow>
    holds (pad16 f b) (xs @ replicate (pad_len (length xs)) 0)"
proof (induction f arbitrary: b xs)
  case (Suc f)
  have w: "wpos b = length xs" using Suc.prems(1) by (simp add: holds_def at_end_def)
  show ?case
  proof (cases "length xs mod 16 = 0")
    case True
    then show ?thesis using Suc.prems(1) w by (simp add: pad_len_0)
  next
    case False
    note eq = pad_len_Suc [OF False]
    have "holds (bb_put 0 b) (xs @ [0])" using Suc.prems eq by (intro holds_put) simp_all
    then have "holds (pad16 f (bb_put 0 b)) ((xs @ [0]) @ replicate (pad_len (length (xs @ [0]))) 0)"
      using Suc.prems eq by (intro Suc.IH) simp_all
    then show ?thesis using False w eq by simp
  qed
qed simp

lemma backpatch:
  assumes "holds b (xs @ replicate 12 0 @ ys)" "length xs = 20" "length ys + 32 < 2 ^ 32"
  shows "buf (put_be32 u (put_be32 v (put_be32 w (setWritePos 20 b)))) = xs @ (be32 w @ be32 v @ be32 u) @ ys"
proof -
  let ?z = "xs @ replicate 12 0 @ ys"
  let ?o = "\<lambda>i p q. b\<lparr>buf := q, wpos := i + length p\<rparr>"
  have b: "buf b = ?z" "length (buf b) < 2 ^ 32" using assms by (simp_all add: holds_def)
  have 1: "put_be32 w (setWritePos 20 b) = b\<lparr>buf := overwrite 20 (be32 w) ?z, wpos := 24\<rparr>"
    using putBytes_inside [of 20 "be32 w" b] b assms(2)
    by (simp add: put_be32_def putInt_def setWritePos_def flip: be32_def)
  have 2: "put_be32 v (b\<lparr>buf := overwrite 20 (be32 w) ?z, wpos := 24\<rparr>) =
      b\<lparr>buf := overwrite 20 (be32 w @ be32 v) ?z, wpos := 28\<rparr>"
    using putBytes_inside [of 24 "be32 v" "b\<lparr>buf := overwrite 20 (be32 w) ?z\<rparr>"] b assms(2,3)
      overwrite_overwrite [of 20 "be32 w" "be32 v" ?z]
    by (simp add: put_be32_def putInt_def flip: be32_def)
  have 3: "put_be32 u (b\<lparr>buf := overwrite 20 (be32 w @ be32 v) ?z, wpos := 28\<rparr>) =
      b\<lparr>buf := overwrite 20 (be32 w @ be32 v @ be32 u) ?z, wpos := 32\<rparr>"
    using putBytes_inside [of 28 "be32 u" "b\<lparr>buf := overwrite 20 (be32 w @ be32 v) ?z\<rparr>"] b assms(2,3)
      overwrite_overwrite [of 20 "be32 w @ be32 v" "be32 u" ?z]
    by (simp add: put_be32_def putInt_def flip: be32_def)
  show ?thesis unfolding 1 2 3 using assms(2) by (simp add: overwrite_def)
qed

lemma bm_strings_split:
  "bm_strings m = st_table (map ename (m_resEntries m)) (st_table (map ename (m_ebxEntries m)) st_empty)"
  by (simp add: bm_strings_def bm_names_def st_table_def)

lemma map_fst_ebx_ref [simp]: "map fst (map ebx_ref es) = map ename es"
  by (simp add: ebx_ref_def)

lemma fst_ebx_ref [simp]: "fst (ebx_ref e) = ename e"
  by (simp add: ebx_ref_def)

lemma ref_enc_cong:
  "(\<And>r. r \<in> set es \<Longrightarrow> f (fst r) = g (fst r)) \<Longrightarrow> concat (map (ref_enc f) es) = concat (map (ref_enc g) es)"
  by (induction es) (simp_all add: ref_enc_def)

lemma save_refs_both:
  assumes wf: "bm_wf m" and small: "bm_small m" and c: "covers e b xs"
    and len: "length xs + length (bm_refs_image m) < 2 ^ 32"
  shows "\<exists>b1 b2. save_refs (map ebx_ref (m_ebxEntries m)) (st_empty, b) =
        (st_table (map ename (m_ebxEntries m)) st_empty, b1) \<and>
      save_refs (map ebx_ref (m_resEntries m)) (st_table (map ename (m_ebxEntries m)) st_empty, b1) =
        (bm_strings m, b2) \<and>
      covers (e \<or> m_ebxEntries m \<noteq> [] \<or> m_resEntries m \<noteq> []) b2 (xs @ bm_refs_image m)"
proof -
  let ?E = "map ebx_ref (m_ebxEntries m)" and ?R = "map ebx_ref (m_resEntries m)"
  let ?s1 = "st_table (map ename (m_ebxEntries m)) st_empty" and ?n1 = "map ename (m_ebxEntries m)"
  have lens: "length (concat (map (ref_enc f) es)) = 8 * length es" for f es
    by (induction es) (simp_all add: ref_enc_def)
  have nul: "NUL \<notin> set (fst r)" if "r \<in> set ?E \<union> set ?R" for r
    using wf that by (auto simp: bm_wf_def bm_names_def ebx_ref_def)
  have sum: "(\<Sum>n\<leftarrow>?n1 @ map ename (m_resEntries m). length n + 1) < 2 ^ 32"
    using small by (simp add: bm_small_def bm_names_def)
  have names: "\<forall>n \<in> set ?n1. NUL \<notin> set n" "\<forall>n \<in> set (map ename (m_resEntries m)). NUL \<notin> set n"
    using wf by (auto simp: bm_wf_def bm_names_def)
  have ok1: "st_ok ?n1 ?s1" using st_table_ok [OF st_ok_empty names(1)] sum by simp
  obtain b1 where b1: "save_refs ?E (st_empty, b) = (?s1, b1)"
    "covers (e \<or> ?E \<noteq> []) b1 (xs @ concat (map (ref_enc (st_off ?s1)) ?E))"
    using save_refs_image [OF st_ok_empty, of ?E e b xs] nul sum c len
    by (auto simp: lens bm_refs_image_def simp del: map_map)
  obtain b2 where b2: "save_refs ?R (?s1, b1) = (bm_strings m, b2)"
    "covers ((e \<or> ?E \<noteq> []) \<or> ?R \<noteq> []) b2
      ((xs @ concat (map (ref_enc (st_off ?s1)) ?E)) @ concat (map (ref_enc (st_off (bm_strings m))) ?R))"
    using save_refs_image [OF ok1 _ _ b1(2), of ?R] nul sum len
    by (auto simp: lens bm_refs_image_def bm_strings_split simp del: map_map)
  have "st_off (bm_strings m) x = st_off ?s1 x" if "x \<in> set ?n1" for x
    using st_table_ok [OF ok1 names(2)] sum that by (auto simp: bm_strings_split)
  then have "concat (map (ref_enc (st_off ?s1)) ?E) = concat (map (ref_enc (st_off (bm_strings m))) ?E)"
    by (intro ref_enc_cong) (auto simp: ebx_ref_def)
  then show ?thesis using b1(1) b2 by (auto simp: bm_refs_image_def)
qed

lemma be32_0: "be32 0 = replicate 4 0"
proof -
  have "SwapEndiannessU32 0 = 0" by (simp add: SwapEndiannessU32_def)
  moreover have "le_bytes k 0 = replicate k 0" for k by (induction k) simp_all
  then have "bytes32 0 = replicate 4 0" by (simp add: bytes32_def)
  ultimately show ?thesis by (simp add: be32_def)
qed

lemma zeros12: "replicate 12 (0 :: u8) = be32 0 @ be32 0 @ be32 0"
  unfolding be32_0 by (simp flip: replicate_add)

lemma length_bm_image: "length (bm_image m) = 32 + length (bm_payload m) + pad_len (32 + length (bm_payload m))"
  by (simp add: bm_image_def)

lemma covers_foldI:
  assumes "covers e b xs" "\<And>x. x \<in> set es \<Longrightarrow> writes (f x) (enc x)" "length (xs @ concat (map enc es)) < 2 ^ 32"
    "ys = xs @ concat (map enc es)"
  shows "covers (e \<or> es \<noteq> []) (fold f es b) ys"
  using covers_fold [OF assms(2,1)] assms(3,4) by simp

lemma bm_save_tables_image:
  assumes wf: "bm_wf m" and small: "bm_small m"
  shows "\<exists>b. bm_save_tables m = (bm_strings m, b) \<and> holds b (bm_counts m @ replicate 12 0 @ bm_tables_image m)"
proof -
  let ?H = "bm_counts m @ replicate 12 (0 :: u8)" and ?Z = "replicate (20 * bm_total m) (0 :: u8)"
  have len: "32 + length (bm_tables_image m) < 2 ^ 32"
    using small by (simp add: bm_small_def length_bm_image bm_payload_def)
  let ?L = "[0x9D798ED5, word_of_nat (bm_total m), word_of_nat (length (m_ebxEntries m)),
      word_of_nat (length (m_resEntries m)), word_of_nat (length (m_chunkEntries m)), 0, 0, 0] :: u32 list"
  have H: "concat (map be32 ?L) = ?H"
    by (simp add: bm_counts_def zeros12)
  have 1: "covers (True \<or> ?L \<noteq> []) (fold put_be32 ?L bb_new) ?H" (is "covers _ ?b1 _")
    by (rule covers_foldI [OF covers_new, of _ _ be32]) (simp_all only: H writes_be append_Nil, simp)
  let ?b2 = "((\<lambda>b. setWritePos (pos_add (wpos b) 20) b) ^^ bm_total m) ?b1"
  have 2: "covers ((True \<or> ?L \<noteq> []) \<and> bm_total m = 0) ?b2 (?H @ ?Z)"
    using len by (intro skip_words_image [OF 1]) (simp add: bm_tables_image_def)
  obtain b3 b4 where refs: "save_refs (map ebx_ref (m_ebxEntries m)) (st_empty, ?b2) =
      (st_table (map ename (m_ebxEntries m)) st_empty, b3)"
    "save_refs (map ebx_ref (m_resEntries m)) (st_table (map ename (m_ebxEntries m)) st_empty, b3) = (bm_strings m, b4)"
    "covers (((True \<or> ?L \<noteq> []) \<and> bm_total m = 0) \<or> m_ebxEntries m \<noteq> [] \<or> m_resEntries m \<noteq> []) b4
      ((?H @ ?Z) @ bm_refs_image m)"
    using save_refs_both [OF wf small 2] len by (auto simp: bm_tables_image_def)
  let ?R = "m_resEntries m" and ?C = "m_chunkEntries m"
  let ?b5 = "fold (\<lambda>e. put_be32 (resType e)) ?R b4"
  let ?b6 = "fold (\<lambda>e. putBytes (take 16 (resMeta e))) ?R ?b5"
  let ?b7 = "fold (\<lambda>e. put_be64 (resRid e)) ?R ?b6"
  let ?b8 = "fold put_chunk ?C ?b7"
  let ?T = "concat (map (\<lambda>e. be32 (resType e)) ?R)" and ?M = "concat (map resMeta ?R)"
    and ?I = "concat (map (\<lambda>e. be64 (resRid e)) ?R)" and ?K = "concat (map chunk_enc ?C)"
  let ?X = "(?H @ ?Z) @ bm_refs_image m"
  have total: "length (((?X @ ?T) @ ?M) @ ?I) + length ?K < 2 ^ 32"
    using len by (simp add: bm_tables_image_def bm_res_image_def comp_def)
  obtain e5 where 5: "covers e5 ?b5 (?X @ ?T)"
    using covers_fold [OF _ refs(3), of ?R "\<lambda>e. put_be32 (resType e)" "\<lambda>e. be32 (resType e)"] writes_be total
    by auto
  have meta: "writes (putBytes (take 16 (resMeta e))) (resMeta e)" if "e \<in> set ?R" for e
  proof -
    have "length (resMeta e) = 16" using wf that by (simp add: bm_wf_def)
    then show ?thesis using writes_putBytes [of "resMeta e"] by (cases "resMeta e") auto
  qed
  obtain e6 where 6: "covers e6 ?b6 ((?X @ ?T) @ ?M)"
    using covers_fold [OF _ 5, of ?R "\<lambda>e. putBytes (take 16 (resMeta e))" resMeta] meta total by auto
  have 7: "covers (e6 \<or> ?R \<noteq> []) ?b7 (((?X @ ?T) @ ?M) @ ?I)"
    using covers_fold [OF _ 6, of ?R "\<lambda>e. put_be64 (resRid e)" "\<lambda>e. be64 (resRid e)"] writes_be total by auto
  have 8: "covers ((e6 \<or> ?R \<noteq> []) \<or> ?C \<noteq> []) ?b8 ((((?X @ ?T) @ ?M) @ ?I) @ ?K)"
    using covers_fold [OF _ 7, of ?C put_chunk chunk_enc] writes_chunk total by auto
  have "holds ?b8 ((((?X @ ?T) @ ?M) @ ?I) @ ?K)"
  proof (cases "?R = [] \<and> ?C = []")
    case True
    then show ?thesis using refs(3) by (auto simp: covers_True bm_total_def)
  next
    case False
    then show ?thesis using 8 by (auto simp: covers_True)
  qed
  moreover have "bm_save_tables m = (bm_strings m, ?b8)"
    using refs(1,2) by (simp add: bm_save_tables_def Let_def bm_total_def del: fold.simps)
  moreover have "((((?X @ ?T) @ ?M) @ ?I) @ ?K) = bm_counts m @ replicate 12 0 @ bm_tables_image m"
    by (simp add: bm_tables_image_def bm_res_image_def comp_def)
  ultimately show ?thesis by metis
qed

lemma st_strings_cstr: "\<forall>s \<in> set (st_strings st). NUL \<notin> set s \<Longrightarrow> \<forall>s \<in> set (st_strings (st_table ns st)). NUL \<notin> set s"
proof (induction ns arbitrary: st)
  case (Cons n ns)
  then have "\<forall>s \<in> set (st_strings (snd (intern n st))). NUL \<notin> set s"
    by (auto simp: intern_def Let_def split: option.split)
  then show ?case using Cons.IH by simp
qed simp

lemma strings_image: "concat (map (\<lambda>s. str_bytes (cstr s) @ [0]) (st_strings (bm_strings m))) =
    strs_image (st_strings (bm_strings m))"
proof -
  have "\<forall>s \<in> set (st_strings (bm_strings m)). NUL \<notin> set s"
    unfolding bm_strings_def by (rule st_strings_cstr) (simp add: st_empty_def)
  then have "map (\<lambda>s. str_bytes (cstr s) @ [0]) (st_strings (bm_strings m)) =
      map (\<lambda>s. str_bytes s @ [0]) (st_strings (bm_strings m))" by (simp add: cstr_id)
  then show ?thesis by (simp only: strs_image_def)
qed

lemma bm_save_finish:
  assumes "holds b (bm_counts m @ replicate 12 0 @ bm_tables_image m @ bm_meta_image m)" "bm_small m"
  shows "buf (put_be32 u (put_be32 v (put_be32 w (setWritePos 20
      (pad16 16 (fold putNullTerminatedString (st_strings (bm_strings m)) b)))))) =
    bm_counts m @ (be32 w @ be32 v @ be32 u) @ bm_payload m @ replicate (pad_len (32 + length (bm_payload m))) 0"
proof -
  let ?b = "fold putNullTerminatedString (st_strings (bm_strings m)) b"
  let ?S = "strs_image (st_strings (bm_strings m))"
  have len: "32 + length (bm_payload m) + pad_len (32 + length (bm_payload m)) < 2 ^ 31"
    using assms(2) by (simp add: bm_small_def length_bm_image)
  let ?X = "bm_counts m @ replicate 12 0 @ bm_tables_image m @ bm_meta_image m"
  have "length ?X + length (concat (map (\<lambda>s. str_bytes (cstr s) @ [0]) (st_strings (bm_strings m)))) < 2 ^ 32"
    unfolding strings_image using len by (simp add: bm_payload_def)
  then have "covers (True \<or> st_strings (bm_strings m) \<noteq> []) ?b (?X @ ?S)"
    using covers_fold [of "st_strings (bm_strings m)" putNullTerminatedString
        "\<lambda>s. str_bytes (cstr s) @ [0]" True b ?X] assms(1) writes_string
    unfolding strings_image by (simp add: covers_True)
  then have "holds ?b (?X @ ?S)" by (simp add: covers_True)
  then have "holds (pad16 16 ?b) ((?X @ ?S) @ replicate (pad_len (length (?X @ ?S))) 0)"
    using len by (intro pad16_image) (simp_all add: bm_payload_def pad_len_def)
  moreover have "(?X @ ?S) @ replicate (pad_len (length (?X @ ?S))) 0 =
      bm_counts m @ replicate 12 0 @ bm_payload m @ replicate (pad_len (32 + length (bm_payload m))) 0"
    by (simp add: bm_payload_def)
  ultimately have "holds (pad16 16 ?b)
      (bm_counts m @ replicate 12 0 @ bm_payload m @ replicate (pad_len (32 + length (bm_payload m))) 0)"
    by (simp only:)
  then show ?thesis using len by (intro backpatch) simp_all
qed

lemma bm_save_image:
  assumes wf: "bm_wf m" and small: "bm_small m"
  shows "bm_save m = Inr (bm_image m)"
proof -
  obtain b where b: "bm_save_tables m = (bm_strings m, b)"
    "holds b (bm_counts m @ replicate 12 0 @ bm_tables_image m)" (is "holds _ ?T")
    using bm_save_tables_image [OF assms] by blast
  have len: "32 + length (bm_tables_image m) + length (bm_meta_image m) < 2 ^ 31"
    using small by (simp add: bm_small_def length_bm_image bm_payload_def)
  have pos: "wpos b = bm_meta_pos m" using b(2) by (simp add: holds_def at_end_def bm_meta_pos_def)
  show ?thesis
  proof (cases "m_meta m")
    case None
    then have "holds b (bm_counts m @ replicate 12 0 @ bm_tables_image m @ bm_meta_image m)"
      "wpos b = bm_strings_pos m"
      using b(2) pos by (simp_all add: bm_meta_image_def bm_strings_pos_def)
    then show ?thesis
      using None b(1) bm_save_finish [OF _ small] by (simp add: bm_save_def bm_image_def bm_offsets_def bm_meta_image_def)
  next
    case (Some x)
    let ?D = "db_enc x ''chunkMeta''"
    have D: "bm_meta_image m = ?D" using Some by (simp add: bm_meta_image_def)
    have "savable x" using wf Some by (simp add: bm_wf_def)
    then have save: "db_save x ''chunkMeta'' = Inr ?D"
      using len D by (intro db_save_enc) (simp_all add: NUL_def)
    have h: "holds (putBytes ?D b) (?T @ ?D)" using b(2) len D by (intro holds_putBytes) simp_all
    then have w: "wpos (putBytes ?D b) = bm_strings_pos m"
      by (simp add: holds_def at_end_def bm_strings_pos_def bm_meta_pos_def D)
    have "holds (putBytes ?D b) (bm_counts m @ replicate 12 0 @ bm_tables_image m @ bm_meta_image m)"
      using h D by simp
    then show ?thesis
      using Some b(1) save w pos bm_save_finish [OF _ small] D
      by (simp add: bm_save_def bm_image_def bm_offsets_def)
  qed
qed

section \<open>Load reads the file back\<close>

definition canon_ref :: "string list \<Rightarrow> 'a ebx_entry_scheme \<Rightarrow> 'a ebx_entry_scheme" where
  "canon_ref ns e = e\<lparr>ename := canon ns (ename e)\<rparr>"

definition bm_canon :: "bundle_manifest \<Rightarrow> bundle_manifest" where
  "bm_canon m = m\<lparr>m_ebxEntries := map (canon_ref (bm_names m)) (m_ebxEntries m),
                  m_resEntries := map (canon_ref (bm_names m)) (m_resEntries m), m_auditLog := []\<rparr>"

lemma bm_strings_ok:
  assumes "bm_wf m" "bm_small m"
  shows "st_ok (bm_names m) (bm_strings m)"
  using st_table_ok [OF st_ok_empty, of "bm_names m"] assms
  by (simp add: bm_wf_def bm_small_def bm_strings_def)

text \<open>Every name the entries refer to is found where its offset points.\<close>

lemma name_at_image:
  assumes wf: "bm_wf m" and small: "bm_small m" and n: "n \<in> set (bm_names m)"
  shows "name_at (bm_image m) (word_of_nat (bm_strings_pos m) + st_off (bm_strings m) n) (canon (bm_names m) n)"
proof -
  let ?S = "strs_image (st_strings (bm_strings m))" and ?o = "unat (st_off (bm_strings m) n)"
  let ?c = "canon (bm_names m) n"
  have p: "prefix (str_bytes ?c @ [0]) (drop ?o ?S)"
    using bm_strings_ok [OF wf small] n by (simp add: st_ok_def)
  then have o: "?o < length ?S" by (cases "?o < length ?S") auto
  obtain post where B: "bm_image m = (bm_counts m @ bm_offsets m @ bm_tables_image m @ bm_meta_image m) @ ?S @ post"
    (is "_ = ?pre @ _ @ _")
    by (simp add: bm_image_def bm_payload_def)
  have pre: "length ?pre = bm_strings_pos m" by (simp add: bm_strings_pos_def bm_meta_pos_def)
  have "bm_strings_pos m + length ?S \<le> length (bm_image m)" unfolding B using pre by simp
  then have bound: "bm_strings_pos m + ?o < 2 ^ 32" using small o by (simp add: bm_small_def)
  have "word_of_nat (bm_strings_pos m) + st_off (bm_strings m) n = (word_of_nat (bm_strings_pos m + ?o) :: u32)"
    by simp
  then have pos: "unat (word_of_nat (bm_strings_pos m) + st_off (bm_strings m) n) = bm_strings_pos m + ?o"
    using bound by (simp only: unat_small)
  have "drop (bm_strings_pos m + ?o) (bm_image m) = drop ?o (?S @ post)"
    unfolding B by (simp flip: pre)
  then have "prefix (str_bytes ?c @ [0]) (drop (bm_strings_pos m + ?o) (bm_image m))"
    using p prefix_drop_append [OF p] by simp
  moreover have "NUL \<notin> set ?c"
    using canon_in [of n "bm_names m"] n wf by (simp add: bm_wf_def)
  ultimately show ?thesis by (simp add: name_at_def pos)
qed

lemma ref_enc_canon:
  "concat (map (ref_enc (st_off st)) (map (\<lambda>r. (canon ns (fst r), snd r)) es)) = concat (map (ref_enc (st_off st)) es)"
  by (induction es) (simp_all add: ref_enc_def st_off_def)

lemma read_refs:
  assumes wf: "bm_wf m" and small: "bm_small m" and b: "buf b = bm_image m"
    and es: "map fst es = ns" "set ns \<subseteq> set (bm_names m)"
    and at: "at_read b (concat (map (ref_enc (st_off (bm_strings m))) es))"
  shows "read_n (read_name_at (word_of_nat (bm_strings_pos m))) (length es) b =
    Inr (map (\<lambda>r. (canon (bm_names m) (fst r), snd r)) es,
      advance (length (concat (map (ref_enc (st_off (bm_strings m))) es))) b)"
proof -
  let ?c = "\<lambda>r. (canon (bm_names m) (fst r), snd r)" and ?so = "word_of_nat (bm_strings_pos m) :: u32"
  have off: "st_off (bm_strings m) (canon (bm_names m) n) = st_off (bm_strings m) n" for n
    by (simp add: st_off_def)
  have ok: "list_all (\<lambda>r. name_at (buf b) (?so + st_off (bm_strings m) (fst r)) (fst r)) (map ?c es)"
  proof -
    have "fst r \<in> set (bm_names m)" if "r \<in> set es" for r using es that by auto
    then show ?thesis using name_at_image [OF wf small] by (simp add: list_all_iff b off)
  qed
  show ?thesis
    using ref_codec.read_n_enc [OF ok, unfolded ref_enc_canon] at by simp
qed

lemma fill_res_map:
  "length ts = length es \<Longrightarrow> fill_res es (map resType ts) (map resMeta ts) (map resRid ts) =
    map2 (\<lambda>e t. e\<lparr>resType := resType t, resMeta := resMeta t, resRid := resRid t\<rparr>) es ts"
  by (induction es ts rule: list_induct2') auto

lemma skip_sha1_advance: "rpos b + 20 * n < 2 ^ 32 \<Longrightarrow> skip_sha1 n b = advance (20 * n) b"
proof (induction n)
  case (Suc n)
  then have "skip_sha1 (Suc n) b = setReadPos (pos_add (rpos (advance (20 * n) b)) 20) (advance (20 * n) b)"
    by (simp add: skip_sha1_def)
  also have "\<dots> = advance (20 * Suc n) b"
    using Suc.prems by (simp add: setReadPos_def pos_add_def advance_def)
  finally show ?case .
qed (simp add: skip_sha1_def)

lemma entries_small:
  assumes "bm_small m"
  shows "unat (word_of_nat (bm_total m) :: u32) = bm_total m"
    "unat (word_of_nat (length (m_ebxEntries m)) :: u32) = length (m_ebxEntries m)"
    "unat (word_of_nat (length (m_resEntries m)) :: u32) = length (m_resEntries m)"
    "unat (word_of_nat (length (m_chunkEntries m)) :: u32) = length (m_chunkEntries m)"
    "32 + 20 * bm_total m < 2 ^ 31"
proof -
  show "32 + 20 * bm_total m < 2 ^ 31"
    using assms by (simp add: bm_small_def length_bm_image bm_payload_def bm_tables_image_def)
  then have "bm_total m < 2 ^ 32" "length (m_ebxEntries m) < 2 ^ 32" "length (m_resEntries m) < 2 ^ 32"
    "length (m_chunkEntries m) < 2 ^ 32" by (simp_all add: bm_total_def)
  then show "unat (word_of_nat (bm_total m) :: u32) = bm_total m"
    "unat (word_of_nat (length (m_ebxEntries m)) :: u32) = length (m_ebxEntries m)"
    "unat (word_of_nat (length (m_resEntries m)) :: u32) = length (m_resEntries m)"
    "unat (word_of_nat (length (m_chunkEntries m)) :: u32) = length (m_chunkEntries m)"
    by (simp_all only: unat_small)
qed

lemma load_ebx_image:
  assumes "bm_wf m" "bm_small m" "buf b = bm_image m"
    "at_read b (concat (map (ref_enc (st_off (bm_strings m))) (map ebx_ref (m_ebxEntries m))) @ xs)"
  shows "\<exists>b'. bm_load_ebx (word_of_nat (bm_strings_pos m)) (word_of_nat (length (m_ebxEntries m))) b =
    Inr (map (canon_ref (bm_names m)) (m_ebxEntries m), b') \<and> buf b' = bm_image m \<and> at_read b' xs"
proof -
  let ?es = "map ebx_ref (m_ebxEntries m)"
  have "read_n (read_name_at (word_of_nat (bm_strings_pos m))) (length ?es) b =
      Inr (map (\<lambda>r. (canon (bm_names m) (fst r), snd r)) ?es,
        advance (length (concat (map (ref_enc (st_off (bm_strings m))) ?es))) b)"
    using assms by (intro read_refs) (auto simp: at_read_append bm_names_def)
  then show ?thesis
    using assms(3,4) entries_small [OF assms(2)]
    by (auto simp: bm_load_ebx_def at_read_append ebx_ref_def canon_ref_def)
qed

lemma load_res_image:
  assumes "bm_wf m" "bm_small m" "buf b = bm_image m"
    "at_read b (concat (map (ref_enc (st_off (bm_strings m))) (map ebx_ref (m_resEntries m))) @ bm_res_image m @ xs)"
  shows "\<exists>b'. bm_load_res (word_of_nat (bm_strings_pos m)) (word_of_nat (length (m_resEntries m))) [] b =
    Inr (map (canon_ref (bm_names m)) (m_resEntries m), b') \<and> buf b' = bm_image m \<and> at_read b' xs"
proof -
  let ?R = "m_resEntries m" and ?es = "map ebx_ref (m_resEntries m)"
  let ?b1 = "advance (length (concat (map (ref_enc (st_off (bm_strings m))) ?es))) b"
  have 1: "read_n (read_name_at (word_of_nat (bm_strings_pos m))) (length ?es) b =
      Inr (map (\<lambda>r. (canon (bm_names m) (fst r), snd r)) ?es, ?b1)"
    using assms by (intro read_refs) (auto simp: at_read_append bm_names_def)
  let ?b2 = "advance (length (concat (map be32 (map resType ?R)))) ?b1"
  let ?b3 = "advance (length (concat (map (\<lambda>m. m) (map resMeta ?R)))) ?b2"
  let ?b4 = "advance (length (concat (map be64 (map resRid ?R)))) ?b3"
  have at: "at_read ?b1 (concat (map be32 (map resType ?R)))" "at_read ?b2 (concat (map (\<lambda>m. m) (map resMeta ?R)))"
    "at_read ?b3 (concat (map be64 (map resRid ?R)))" "at_read ?b4 xs"
    using assms(4) by (simp_all add: bm_res_image_def at_read_append add.assoc del: map_map)
  have 2: "read_n read_be32 (length ?R) ?b1 = Inr (map resType ?R, ?b2)"
    using be32_codec.read_n_enc [OF _ at(1)] by (simp add: list_all_iff)
  have 3: "read_n read_meta16 (length ?R) ?b2 = Inr (map resMeta ?R, ?b3)"
    using meta16_codec.read_n_enc [OF _ at(2)] assms(1) by (simp add: list_all_iff bm_wf_def)
  have 4: "read_n read_be64 (length ?R) ?b3 = Inr (map resRid ?R, ?b4)"
    using be64_codec.read_n_enc [OF _ at(3)] by (simp add: list_all_iff)
  let ?blank = "\<lambda>(nm, sz). \<lparr>ename = nm, originalSize = sz, resType = 0, resMeta = replicate 16 0, resRid = 0\<rparr>"
  have "fill_res (map ?blank (map (\<lambda>r. (canon (bm_names m) (fst r), snd r)) ?es))
      (map resType ?R) (map resMeta ?R) (map resRid ?R) = map (canon_ref (bm_names m)) ?R"
    by (subst fill_res_map) (auto simp: ebx_ref_def canon_ref_def list_eq_iff_nth_eq)
  then have "bm_load_res (word_of_nat (bm_strings_pos m)) (word_of_nat (length ?R)) [] b =
      Inr (map (canon_ref (bm_names m)) ?R, ?b4)"
    using 1 2 3 4 entries_small(3) [OF assms(2)]
    by (simp only: bm_load_res_def length_map Let_def append_Nil sum.case prod.case)
  then show ?thesis using assms(3) at(4) by auto
qed

lemma load_meta_image:
  assumes "m_meta m = Some x" "savable x" "bm_small m" "buf b = bm_image m"
  shows "bm_load_meta (fst (getBytes (unat (word_of_nat (length (bm_meta_image m)) :: u32))
      (setReadPos (unat (word_of_nat (bm_meta_pos m) :: u32)) b))) = Inr (Some x)"
    "(0 :: u32) < word_of_nat (length (bm_meta_image m))"
proof -
  have D: "bm_meta_image m = db_enc x ''chunkMeta''" (is "_ = ?D") using assms(1) by (simp add: bm_meta_image_def)
  have len: "bm_meta_pos m + length ?D < 2 ^ 31" "length (bm_image m) < 2 ^ 32"
    using assms(3) by (simp_all add: bm_small_def length_bm_image bm_payload_def bm_meta_pos_def D)
  have u: "unat (word_of_nat (length ?D) :: u32) = length ?D" "unat (word_of_nat (bm_meta_pos m) :: u32) = bm_meta_pos m"
    using len(1) by (auto intro!: unat_small)
  have "prefix ?D (drop (bm_meta_pos m) (bm_image m))"
    by (simp add: bm_image_def bm_payload_def bm_meta_pos_def D)
  then have "at_read (setReadPos (bm_meta_pos m) b) ?D"
    using len(2) assms(4) by (simp add: at_read_def setReadPos_def)
  then have "fst (getBytes (length ?D) (setReadPos (bm_meta_pos m) b)) = ?D"
    by (simp add: getBytes_at)
  moreover have "db_load (length ?D) (bb_of_array ?D) [] =
      Inr (Some x, ''chunkMeta'', advance (length ?D) (bb_of_array ?D))"
    using assms(2) len by (intro loads_backD loads_back_all at_read_bb_of_array) (simp_all add: NUL_def)
  ultimately show "bm_load_meta (fst (getBytes (unat (word_of_nat (length (bm_meta_image m)) :: u32))
      (setReadPos (unat (word_of_nat (bm_meta_pos m) :: u32)) b))) = Inr (Some x)"
    by (simp add: bm_load_meta_def D u)
  show "(0 :: u32) < word_of_nat (length (bm_meta_image m))"
    using u(1) savable_enc_pos [OF assms(2), of "''chunkMeta''"] by (auto simp: D word_less_nat_alt)
qed

lemma bm_load_image:
  assumes wf: "bm_wf m" and small: "bm_small m"
  shows "bm_load (bm_image m) bm_new = Inr (bm_canon m)"
proof -
  let ?B = "bm_image m" and ?b0 = "bb_of_array (bm_image m)"
  let ?hd = "[word_of_nat (bm_total m), word_of_nat (length (m_ebxEntries m)), word_of_nat (length (m_resEntries m)),
    word_of_nat (length (m_chunkEntries m)), word_of_nat (bm_strings_pos m),
    (if m_meta m = None then 0 else word_of_nat (bm_meta_pos m)), word_of_nat (length (bm_meta_image m))] :: u32 list"
  let ?refs = "\<lambda>es. concat (map (ref_enc (st_off (bm_strings m))) (map ebx_ref es))"
  have len: "length ?B < 2 ^ 32" using small by (simp add: bm_small_def)
  obtain rest where "?B = be32 0x9D798ED5 @ concat (map be32 ?hd) @ replicate (20 * bm_total m) 0 @
      ?refs (m_ebxEntries m) @ ?refs (m_resEntries m) @ bm_res_image m @ concat (map chunk_enc (m_chunkEntries m)) @ rest"
    by (simp add: bm_image_def bm_counts_def bm_offsets_def bm_payload_def bm_tables_image_def bm_refs_image_def del: map_map)
  then have at: "at_read ?b0 (be32 0x9D798ED5)" "at_read (advance 4 ?b0) (concat (map be32 ?hd))"
    "at_read (advance (20 * bm_total m) (advance 32 ?b0)) (?refs (m_ebxEntries m) @ ?refs (m_resEntries m) @
      bm_res_image m @ concat (map chunk_enc (m_chunkEntries m)) @ rest)"
    using at_read_bb_of_array [OF len] by (simp_all add: at_read_append add.assoc del: map_map)
  have hdr: "bm_load_header (advance 4 ?b0) = Inr (?hd, advance 32 ?b0)"
  proof -
    have l: "length ?hd = 7" "length (concat (map be32 ?hd)) = 28" and t: "list_all (\<lambda>_. True) ?hd"
      by (simp_all add: list_all_iff)
    have "advance 28 (advance 4 ?b0) = advance 32 ?b0" by simp
    then show ?thesis
      using be32_codec.read_n_enc [OF t at(2)] unfolding bm_load_header_def l by (simp only:)
  qed
  have skip: "skip_sha1 (unat (word_of_nat (bm_total m) :: u32)) (advance 32 ?b0) =
      advance (20 * bm_total m) (advance 32 ?b0)"
    using entries_small [OF small] len by (simp only: ) (intro skip_sha1_advance, simp)
  obtain b1 where 1: "bm_load_ebx (word_of_nat (bm_strings_pos m)) (word_of_nat (length (m_ebxEntries m)))
      (advance (20 * bm_total m) (advance 32 ?b0)) = Inr (map (canon_ref (bm_names m)) (m_ebxEntries m), b1)"
    "buf b1 = ?B" "at_read b1 (?refs (m_resEntries m) @ bm_res_image m @ concat (map chunk_enc (m_chunkEntries m)) @ rest)"
    using load_ebx_image [OF wf small _ at(3)] len by auto
  obtain b2 where 2: "bm_load_res (word_of_nat (bm_strings_pos m)) (word_of_nat (length (m_resEntries m))) [] b1 =
      Inr (map (canon_ref (bm_names m)) (m_resEntries m), b2)" "buf b2 = ?B"
    "at_read b2 (concat (map chunk_enc (m_chunkEntries m)) @ rest)"
    using load_res_image [OF wf small 1(2,3)] by auto
  have c: "at_read b2 (concat (map chunk_enc (m_chunkEntries m)))" using 2(3) by (simp add: at_read_append)
  have 3: "bm_load_chunks (word_of_nat (length (m_chunkEntries m))) b2 =
      Inr (m_chunkEntries m, advance (length (concat (map chunk_enc (m_chunkEntries m)))) b2)" (is "_ = Inr (_, ?b3)")
    using chunk_codec.read_n_enc [OF _ c] wf entries_small(4) [OF small]
    by (simp add: bm_load_chunks_def list_all_iff bm_wf_def)
  have hd: "?hd ! 0 = word_of_nat (bm_total m)" "?hd ! 1 = word_of_nat (length (m_ebxEntries m))"
    "?hd ! 2 = word_of_nat (length (m_resEntries m))" "?hd ! 3 = word_of_nat (length (m_chunkEntries m))"
    "?hd ! 4 = word_of_nat (bm_strings_pos m)" "?hd ! 5 = (if m_meta m = None then 0 else word_of_nat (bm_meta_pos m))"
    "?hd ! 6 = word_of_nat (length (bm_meta_image m))"
    by simp_all
  have "bm_load_body ?hd (advance 32 ?b0) bm_new = Inr (bm_canon m)"
  proof (cases "m_meta m")
    case None
    then have "bm_meta_image m = []" by (simp add: bm_meta_image_def)
    then show ?thesis
      using None unfolding bm_load_body_def hd skip 1 by (simp add: bm_new_def 2 3 bm_canon_def)
  next
    case (Some x)
    then have "savable x" "buf ?b3 = ?B" using wf 2(2) by (simp_all add: bm_wf_def)
    note meta = load_meta_image [OF Some this(1) small this(2)]
    show ?thesis
      using Some meta unfolding bm_load_body_def hd skip 1 by (simp add: bm_new_def 2 3 bm_canon_def)
  qed
  moreover have "(0x9D798ED5 XOR 0x7065636D :: u32) = 0xED1CEDB8" by simp
  ultimately show ?thesis
    using read_be32_at [OF at(1)] hdr unfolding bm_load_def by simp
qed

section \<open>Adding entries\<close>

lemma find_index_Some:
  "find_index P xs = Some i \<Longrightarrow> xs[i := v] = update_first P (\<lambda>_. v) xs \<and> i < length xs"
  by (induction xs arbitrary: i) (auto split: if_splits)

lemma find_index_None: "find_index P xs = None \<longleftrightarrow> (\<forall>x \<in> set xs. \<not> P x)"
  by (induction xs) auto

definition is_modified :: "bm_result \<Rightarrow> bool" where "is_modified r \<longleftrightarrow> r = Rt_Modified"

interpretation ebx_add: upsert ename m_ebxEntries
  "\<lambda>e m. case AddEbxEntry (ename e) (originalSize e) True m of (r, m') \<Rightarrow> (is_modified r, m')"
proof
  fix e :: ebx_entry and m
  let ?add = "case AddEbxEntry (ename e) (originalSize e) True m of (r, m') \<Rightarrow> (is_modified r, m')"
  have eq: "update_first (\<lambda>x. ename x = ename e) (\<lambda>x. x\<lparr>originalSize := originalSize e\<rparr>) xs =
      update_first (\<lambda>x. ename x = ename e) (\<lambda>_. e) xs" for xs
    by (induction xs) auto
  show "ename e \<in> ename ` set (m_ebxEntries m) \<Longrightarrow> fst ?add \<and>
      m_ebxEntries (snd ?add) = update_first (\<lambda>x. ename x = ename e) (\<lambda>_. e) (m_ebxEntries m)"
    by (auto simp: AddEbxEntry_def is_modified_def eq)
  show "ename e \<notin> ename ` set (m_ebxEntries m) \<Longrightarrow> \<not> fst ?add \<and> m_ebxEntries (snd ?add) = m_ebxEntries m @ [e]"
    by (auto simp: AddEbxEntry_def is_modified_def image_iff)
qed

interpretation res_add: upsert resRid m_resEntries
  "\<lambda>e m. case AddResEntry e True m of (r, m') \<Rightarrow> (is_modified r, m')"
  by unfold_locales (auto simp: AddResEntry_def is_modified_def image_iff eq_commute)

definition chunk_key :: "chunk_entry \<Rightarrow> bytes" where "chunk_key c = take 16 (cguid c)"

lemma AddChunkEntry_no_meta:
  "AddChunkEntry entry 0 firstMip True True m =
    (case find_index (\<lambda>e. chunk_key e = chunk_key entry) (m_chunkEntries m) of
       None \<Rightarrow> Inr (Rt_Added, m\<lparr>m_chunkEntries := m_chunkEntries m @ [entry]\<rparr>)
     | Some i \<Rightarrow> Inr (Rt_Modified, m\<lparr>m_chunkEntries := (m_chunkEntries m)[i := entry]\<rparr>))"
  by (simp add: AddChunkEntry_def Guid_Equals_def chunk_key_def Let_def split: option.split)

interpretation chunk_add: upsert chunk_key m_chunkEntries
  "\<lambda>e m. case AddChunkEntry e 0 (-1) True True m of Inl _ \<Rightarrow> (False, m) | Inr (r, m') \<Rightarrow> (is_modified r, m')"
proof
  fix e m
  let ?add = "case AddChunkEntry e 0 (-1) True True m of Inl _ \<Rightarrow> (False, m) | Inr (r, m') \<Rightarrow> (is_modified r, m')"
  let ?f = "find_index (\<lambda>x. chunk_key x = chunk_key e) (m_chunkEntries m)"
  show "chunk_key e \<in> chunk_key ` set (m_chunkEntries m) \<Longrightarrow> fst ?add \<and>
      m_chunkEntries (snd ?add) = update_first (\<lambda>x. chunk_key x = chunk_key e) (\<lambda>_. e) (m_chunkEntries m)"
    using find_index_None [of "\<lambda>x. chunk_key x = chunk_key e" "m_chunkEntries m"]
      find_index_Some [of "\<lambda>x. chunk_key x = chunk_key e" "m_chunkEntries m" _ e]
    by (cases ?f) (auto simp: AddChunkEntry_no_meta is_modified_def)
  show "chunk_key e \<notin> chunk_key ` set (m_chunkEntries m) \<Longrightarrow>
      \<not> fst ?add \<and> m_chunkEntries (snd ?add) = m_chunkEntries m @ [e]"
    using find_index_None [of "\<lambda>x. chunk_key x = chunk_key e" "m_chunkEntries m"]
    by (cases ?f) (auto simp: AddChunkEntry_no_meta is_modified_def image_iff)
qed

lemma find_meta_append:
  "find_meta h i xs = Inr None \<Longrightarrow> find_meta h i (xs @ ys) = find_meta h (i + length xs) ys"
  by (induction h i xs rule: find_meta.induct) (auto split: sum.splits if_splits)

lemma h32_of_chunk_meta [simp]: "h32_of (chunk_meta h mip) = Inr h"
  by (simp add: chunk_meta_def)

lemma bm_canon_id:
  assumes "inj_on HashQuick (set (bm_names m))"
  shows "bm_canon m = m\<lparr>m_auditLog := []\<rparr>"
proof -
  have "map (canon_ref (bm_names m)) (m_ebxEntries m) = m_ebxEntries m"
    "map (canon_ref (bm_names m)) (m_resEntries m) = m_resEntries m"
    using canon_inj [OF assms] by (auto simp: canon_ref_def bm_names_def intro!: map_idI)
  then show ?thesis by (simp add: bm_canon_def)
qed


section \<open>Claims\<close>

text \<open>C3: a manifest that \<open>Save\<close> writes is read back unchanged by \<open>Load\<close> (only the in-memory audit log is
  not stored): the counts, offsets, string table, resource tables, chunk table and chunk meta object all
  agree, for names without the character 0 whose 32-bit hashes are distinct and a file below 2 GiB.\<close>

theorem bm_save_load:
  assumes "bm_wf m" "bm_small m" "inj_on HashQuick (set (bm_names m))"
  shows "\<exists>bs. bm_save m = Inr bs \<and> bm_load bs bm_new = Inr (m\<lparr>m_auditLog := []\<rparr>)"
  using bm_save_image [OF assms(1,2)] bm_load_image [OF assms(1,2)] bm_canon_id [OF assms(3)] by simp

definition bm_sample :: bundle_manifest where
  "bm_sample = bm_new\<lparr>m_ebxEntries := [\<lparr>ename = ''bC'', originalSize = 1\<rparr>, \<lparr>ename = ''cb'', originalSize = 2\<rparr>]\<rparr>"

definition bm_sample1 :: bundle_manifest where
  "bm_sample1 = bm_new\<lparr>m_ebxEntries := [\<lparr>ename = ''bC'', originalSize = 1\<rparr>]\<rparr>"

lemma bm_sample_ok: "bm_wf bm_sample" "bm_small bm_sample" "bm_wf bm_sample1" "bm_small bm_sample1"
  by (simp_all add: bm_sample_def bm_sample1_def bm_new_def bm_wf_def bm_names_def NUL_def bm_small_def
      length_bm_image bm_payload_def bm_tables_image_def bm_refs_image_def bm_res_image_def bm_total_def bm_meta_image_def
      bm_strings_def st_empty_def intern_def HashQuick_def hash_step_def cstr_def byte_of_def ref_enc_def pad_len_def)

theorem bm_save_load_witness:
  "\<exists>bs. bm_save bm_sample1 = Inr bs \<and> bm_load bs bm_new = Inr (bm_sample1\<lparr>m_auditLog := []\<rparr>)"
  by (rule bm_save_load [OF bm_sample_ok(3,4)]) (simp add: bm_names_def bm_sample1_def bm_new_def)

text \<open>Names are deduplicated by their hash alone. The partitions \<open>bC\<close> and \<open>cb\<close> have the same hash; a
  manifest that lists both is saved with one string, and after loading both entries are named \<open>bC\<close>.\<close>

theorem bm_name_collision:
  "HashQuick ''bC'' = HashQuick ''cb'' \<and>
   (\<exists>bs. bm_save bm_sample = Inr bs \<and> (\<exists>m. bm_load bs bm_new = Inr m \<and>
      map ename (m_ebxEntries bm_sample) = [''bC'', ''cb''] \<and> map ename (m_ebxEntries m) = [''bC'', ''bC'']))"
proof -
  have h: "HashQuick ''bC'' = HashQuick ''cb''"
    by (simp add: HashQuick_def hash_step_def cstr_def byte_of_def NUL_def)
  then have "map ename (m_ebxEntries (bm_canon bm_sample)) = [''bC'', ''bC'']"
    by (simp add: bm_canon_def bm_sample_def bm_names_def canon_ref_def canon_def bm_new_def)
  moreover have "map ename (m_ebxEntries bm_sample) = [''bC'', ''cb'']" by (simp add: bm_sample_def)
  ultimately show ?thesis
    using h bm_save_image [OF bm_sample_ok(1,2)] bm_load_image [OF bm_sample_ok(1,2)] by simp
qed

text \<open>After \<open>AddEbxEntry\<close> the entry with the given name has the given size and every other lookup is
  unchanged; names stay distinct exactly when they were; the result says whether the name was known.\<close>

theorem AddEbxEntry_lookup:
  "find (\<lambda>x. ename x = k) (m_ebxEntries (snd (AddEbxEntry n sz True m))) =
     (if k = n then Some \<lparr>ename = n, originalSize = sz\<rparr> else find (\<lambda>x. ename x = k) (m_ebxEntries m)) \<and>
   distinct (map ename (m_ebxEntries (snd (AddEbxEntry n sz True m)))) = distinct (map ename (m_ebxEntries m)) \<and>
   (fst (AddEbxEntry n sz True m) = Rt_Modified) = (n \<in> set (map ename (m_ebxEntries m)))"
proof -
  let ?e = "\<lparr>ename = n, originalSize = sz\<rparr>"
  show ?thesis
    using ebx_add.find_add [of k ?e m] ebx_add.keys_add [of ?e m] ebx_add.replaced_iff [of ?e m]
    by (simp add: case_prod_beta is_modified_def)
qed

text \<open>Resources are keyed by their 64-bit identifier: \<open>AddResEntry\<close> replaces the entry with the same
  identifier, whatever its name was, or appends one, and leaves every other identifier alone.\<close>

theorem AddResEntry_lookup:
  "find (\<lambda>x. resRid x = k) (m_resEntries (snd (AddResEntry e True m))) =
     (if k = resRid e then Some e else find (\<lambda>x. resRid x = k) (m_resEntries m)) \<and>
   distinct (map resRid (m_resEntries (snd (AddResEntry e True m)))) = distinct (map resRid (m_resEntries m)) \<and>
   length (m_resEntries (snd (AddResEntry e True m))) =
     length (m_resEntries m) + (if fst (AddResEntry e True m) = Rt_Added then 1 else 0)"
  using res_add.find_add [of k e m] res_add.keys_add [of e m]
  by (auto simp: case_prod_beta AddResEntry_def)

text \<open>A chunk with a new identifier and a non-zero \<open>h32\<close> is appended together with one meta object, and
  that object is the one \<open>GetMetaIndex\<close> finds for the \<open>h32\<close> when no earlier object had it.\<close>

theorem AddChunkEntry_adds_meta:
  assumes "h32 \<noteq> 0" "\<forall>c \<in> set (m_chunkEntries m). \<not> Guid_Equals (cguid c) (cguid e)"
    "m_meta m = Some (DbList metas)" "find_meta h32 0 metas = Inr None"
  shows "\<exists>m'. AddChunkEntry e h32 mip True True m = Inr (Rt_Added, m') \<and> m_chunkEntries m' = m_chunkEntries m @ [e] \<and>
    m_meta m' = Some (DbList (metas @ [chunk_meta h32 mip])) \<and> GetMetaIndex h32 m' = Inr (Some (length metas))"
proof -
  have "find_index (\<lambda>c. Guid_Equals (cguid c) (cguid e)) (m_chunkEntries m) = None"
    using assms(2) by (simp add: find_index_None)
  then show ?thesis
    using assms(1,3,4) find_meta_append [OF assms(4), of "[chunk_meta h32 mip]"]
    by (simp add: AddChunkEntry_def GetMetaIndex_def)
qed

end
