(* ===== verification/Vanilla_Entries.thy ===== *)
theory Vanilla_Entries
  imports Bundle_Manifest
begin

text \<open>
  The table of the game's own bundles and assets that the merger loads from the file
  \<^verbatim>\<open>VanillaBundleAggregation.kb\<close> (\<^verbatim>\<open>BundleMerger::LoadVanillaEntries\<close> and the three lookups). The file access
  (\<^verbatim>\<open>RT_LoadFile\<close>) is a parameter: its result, or \<open>None\<close> on an error. Numbers stored in 64 bits are truncated
  to the 32-bit fields they are assigned to. \<open>agg_enc\<close> specifies the file format; the reader inverts it.
\<close>

record file_info =
  fi_file :: u32
  fi_offset :: u32
  fi_size :: u64

record bundle_entry =
  be_hash :: u32
  be_ebxCount :: u32
  be_resCount :: u32
  be_chunkCount :: u32
  be_files :: "file_info list"

record 'e vanilla_entry =
  ve_entry :: 'e
  ve_file :: file_info
  ve_offsets :: "(u32 \<times> u32) list"

record vanilla_chunk = "chunk_entry vanilla_entry" +
  vc_h32 :: u32
  vc_firstMip :: u32

record bundle_merger =
  m_catalogs :: "string list"
  m_bundleEntries :: "u32 \<Rightarrow> bundle_entry option"
  m_vanillaEbx :: "(string \<times> ebx_entry vanilla_entry) list"
  m_vanillaRes :: "(string \<times> res_entry vanilla_entry) list"
  m_vanillaChunk :: "(string \<times> vanilla_chunk) list"

definition read_file_info :: "byte_buffer \<Rightarrow> (file_info \<times> byte_buffer) result" where
  "read_file_info =
    then_read read_be64 (\<lambda>f. then_read read_be64 (\<lambda>off. then_read read_be64 (\<lambda>sz.
      give \<lparr>fi_file = ucast f, fi_offset = ucast off, fi_size = sz\<rparr>)))"

definition read_bundle_entry :: "byte_buffer \<Rightarrow> (bundle_entry \<times> byte_buffer) result" where
  "read_bundle_entry =
    then_read read_be32 (\<lambda>h. then_read read_be32 (\<lambda>e. then_read read_be32 (\<lambda>r. then_read read_be32 (\<lambda>c.
    then_read read_be32 (\<lambda>fileCount.
      if sint fileCount < 0 then (\<lambda>_. Inl Bad_Format)
      else then_read (read_n read_file_info (unat fileCount)) (\<lambda>fs.
        give \<lparr>be_hash = h, be_ebxCount = e, be_resCount = r, be_chunkCount = c, be_files = fs\<rparr>))))))"

definition read_pair :: "byte_buffer \<Rightarrow> ((u32 \<times> u32) \<times> byte_buffer) result" where
  "read_pair = then_read read_be32 (\<lambda>h. then_read read_be32 (\<lambda>i. give (h, i)))"

definition read_offsets :: "byte_buffer \<Rightarrow> ((u32 \<times> u32) list \<times> byte_buffer) result" where
  "read_offsets = then_read read_be32 (\<lambda>n. then_read (read_n read_pair (unat n)) (\<lambda>ps.
    give (fold (\<lambda>(h, i). map_put h i) ps [])))"

definition file32 :: "u64 \<Rightarrow> u64 \<Rightarrow> u64 \<Rightarrow> file_info" where
  "file32 ref off sz = \<lparr>fi_file = ucast ref, fi_offset = ucast off, fi_size = ucast (ucast sz :: u32)\<rparr>"

definition read_ebx_entry :: "byte_buffer \<Rightarrow> ((string \<times> ebx_entry vanilla_entry) \<times> byte_buffer) result" where
  "read_ebx_entry =
    then_read getNullTerminatedString (\<lambda>name. then_read read_be64 (\<lambda>osize. then_read read_be64 (\<lambda>ref.
    then_read read_be64 (\<lambda>off. then_read read_be64 (\<lambda>sz. then_read read_offsets (\<lambda>offs.
      give (name, \<lparr>ve_entry = \<lparr>ename = name, originalSize = ucast osize\<rparr>, ve_file = file32 ref off sz,
                   ve_offsets = offs\<rparr>)))))))"

definition read_res_entry :: "byte_buffer \<Rightarrow> ((string \<times> res_entry vanilla_entry) \<times> byte_buffer) result" where
  "read_res_entry =
    then_read getNullTerminatedString (\<lambda>name. then_read read_be64 (\<lambda>osize. then_read read_be64 (\<lambda>type.
    then_read read_meta16 (\<lambda>meta. then_read read_be64 (\<lambda>rid. then_read read_be64 (\<lambda>ref.
    then_read read_be64 (\<lambda>off. then_read read_be64 (\<lambda>sz. then_read read_offsets (\<lambda>offs.
      give (name, \<lparr>ve_entry = \<lparr>ename = name, originalSize = ucast osize, resType = ucast type, resMeta = meta, resRid = rid\<rparr>,
                   ve_file = file32 ref off sz, ve_offsets = offs\<rparr>))))))))))"

definition read_chunk_entry :: "byte_buffer \<Rightarrow> ((string \<times> vanilla_chunk) \<times> byte_buffer) result" where
  "read_chunk_entry =
    then_read getNullTerminatedString (\<lambda>name. then_read read_be64 (\<lambda>ref. then_read read_be64 (\<lambda>off.
    then_read read_be64 (\<lambda>sz. then_read read_be64 (\<lambda>loff. then_read read_be64 (\<lambda>lsize. then_read read_be64 (\<lambda>_.
    then_read read_be32 (\<lambda>h32. then_read read_be64 (\<lambda>mip. then_read read_offsets (\<lambda>offs.
      give (name, \<lparr>ve_entry = \<lparr>cguid = Guid_FromString name, logicalOffset = ucast loff, logicalSize = ucast lsize\<rparr>,
                   ve_file = file32 ref off sz, ve_offsets = offs, vc_h32 = h32, vc_firstMip = ucast mip\<rparr>)))))))))))"

definition counted :: "(byte_buffer \<Rightarrow> ('a \<times> byte_buffer) result) \<Rightarrow> byte_buffer \<Rightarrow> ('a list \<times> byte_buffer) result" where
  "counted dec = then_read read_be32 (\<lambda>n. read_n dec (unat n))"

definition store_bundles :: "bundle_entry list \<Rightarrow> bundle_merger \<Rightarrow> bundle_merger" where
  "store_bundles es g = g\<lparr>m_bundleEntries := fold (\<lambda>e f. f(be_hash e \<mapsto> e)) es (m_bundleEntries g)\<rparr>"

definition read_aggregation :: "bundle_merger \<Rightarrow> byte_buffer \<Rightarrow> (bundle_merger \<times> byte_buffer) result" where
  "read_aggregation g =
    then_read (counted getNullTerminatedString) (\<lambda>cats. then_read (counted read_bundle_entry) (\<lambda>bs.
    then_read (counted read_ebx_entry) (\<lambda>es. then_read (counted read_res_entry) (\<lambda>rs.
    then_read (counted read_chunk_entry) (\<lambda>cs.
      give ((store_bundles bs g)\<lparr>m_catalogs := m_catalogs g @ cats,
        m_vanillaEbx := fold (\<lambda>(n, e). map_put n e) es (m_vanillaEbx g),
        m_vanillaRes := fold (\<lambda>(n, e). map_put n e) rs (m_vanillaRes g),
        m_vanillaChunk := fold (\<lambda>(n, e). map_put n e) cs (m_vanillaChunk g)\<rparr>))))))"

definition LoadVanillaEntries :: "bytes option \<Rightarrow> bundle_merger \<Rightarrow> bundle_merger result" where
  "LoadVanillaEntries file g =
    (case file of
       None \<Rightarrow> Inr g
     | Some data \<Rightarrow>
         (case read_be32 (bb_of_array data) of
            Inl e \<Rightarrow> Inl e
          | Inr (magic, b) \<Rightarrow>
              if magic \<noteq> 0x77778888 then Inr g
              else (case read_aggregation g b of Inl e \<Rightarrow> Inl e | Inr (g', _) \<Rightarrow> Inr g')))"

definition GetVanillaEbxEntry :: "string \<Rightarrow> bundle_merger \<Rightarrow> ebx_entry vanilla_entry option" where
  "GetVanillaEbxEntry name g = map_of (m_vanillaEbx g) name"

definition GetVanillaResEntry :: "string \<Rightarrow> bundle_merger \<Rightarrow> res_entry vanilla_entry option" where
  "GetVanillaResEntry name g = map_of (m_vanillaRes g) name"

definition GetVanillaChunkEntry :: "string \<Rightarrow> bundle_merger \<Rightarrow> vanilla_chunk option" where
  "GetVanillaChunkEntry name g = map_of (m_vanillaChunk g) name"

section \<open>The file format\<close>

lemma decodes_be: "decodes read_be32 v (be32 v)" "decodes read_be64 w (be64 w)"
  by (simp_all add: decodes_def read_be32_at read_be64_at)

lemma decodes_meta16: "length m = 16 \<Longrightarrow> decodes read_meta16 m m"
  using getBytes_at by (fastforce simp: decodes_def read_meta16_def)

lemma ucast32_64 [simp]: "(ucast (ucast (x :: u32) :: u64) :: u32) = x"
  by (rule bit_word_eqI) (simp add: bit_simps)

definition fi_enc :: "file_info \<Rightarrow> bytes" where
  "fi_enc f = be64 (ucast (fi_file f)) @ be64 (ucast (fi_offset f)) @ be64 (fi_size f)"

definition fi_small :: "file_info \<Rightarrow> bool" where
  "fi_small f \<longleftrightarrow> ucast (ucast (fi_size f) :: u32) = fi_size f"

definition bundle_enc :: "bundle_entry \<Rightarrow> bytes" where
  "bundle_enc e = be32 (be_hash e) @ be32 (be_ebxCount e) @ be32 (be_resCount e) @ be32 (be_chunkCount e) @
    be32 (word_of_nat (length (be_files e))) @ concat (map fi_enc (be_files e))"

definition bundle_ok :: "bundle_entry \<Rightarrow> bool" where
  "bundle_ok e \<longleftrightarrow> length (be_files e) < 2 ^ 31"

definition pair_enc :: "u32 \<times> u32 \<Rightarrow> bytes" where "pair_enc p = be32 (fst p) @ be32 (snd p)"

definition offsets_enc :: "(u32 \<times> u32) list \<Rightarrow> bytes" where
  "offsets_enc ps = be32 (word_of_nat (length ps)) @ concat (map pair_enc ps)"

definition offsets_ok :: "(u32 \<times> u32) list \<Rightarrow> bool" where
  "offsets_ok ps \<longleftrightarrow> ordered ps \<and> length ps < 2 ^ 32"

definition vebx_enc :: "string \<times> ebx_entry vanilla_entry \<Rightarrow> bytes" where
  "vebx_enc p = (case p of (n, v) \<Rightarrow> (str_bytes n @ [0]) @ be64 (ucast (originalSize (ve_entry v))) @ fi_enc (ve_file v) @
    offsets_enc (ve_offsets v))"

definition vebx_ok :: "string \<times> ebx_entry vanilla_entry \<Rightarrow> bool" where
  "vebx_ok p \<longleftrightarrow> (case p of (n, v) \<Rightarrow> NUL \<notin> set n \<and> ename (ve_entry v) = n \<and> fi_small (ve_file v) \<and> offsets_ok (ve_offsets v))"

definition vres_enc :: "string \<times> res_entry vanilla_entry \<Rightarrow> bytes" where
  "vres_enc p = (case p of (n, v) \<Rightarrow> (str_bytes n @ [0]) @ be64 (ucast (originalSize (ve_entry v))) @
    be64 (ucast (resType (ve_entry v))) @ resMeta (ve_entry v) @ be64 (resRid (ve_entry v)) @ fi_enc (ve_file v) @
    offsets_enc (ve_offsets v))"

definition vres_ok :: "string \<times> res_entry vanilla_entry \<Rightarrow> bool" where
  "vres_ok p \<longleftrightarrow> (case p of (n, v) \<Rightarrow> NUL \<notin> set n \<and> ename (ve_entry v) = n \<and> length (resMeta (ve_entry v)) = 16 \<and>
    fi_small (ve_file v) \<and> offsets_ok (ve_offsets v))"

definition vchunk_enc :: "string \<times> vanilla_chunk \<Rightarrow> bytes" where
  "vchunk_enc p = (case p of (n, v) \<Rightarrow> (str_bytes n @ [0]) @ fi_enc (ve_file v) @ be64 (ucast (logicalOffset (ve_entry v))) @
    be64 (ucast (logicalSize (ve_entry v))) @ be64 0 @ be32 (vc_h32 v) @ be64 (ucast (vc_firstMip v)) @ offsets_enc (ve_offsets v))"

definition vchunk_ok :: "string \<times> vanilla_chunk \<Rightarrow> bool" where
  "vchunk_ok p \<longleftrightarrow> (case p of (n, v) \<Rightarrow> NUL \<notin> set n \<and> cguid (ve_entry v) = Guid_FromString n \<and>
    fi_small (ve_file v) \<and> offsets_ok (ve_offsets v))"

lemma decodes_file_info: "decodes read_file_info f (fi_enc f)"
  unfolding read_file_info_def fi_enc_def
  by (rule decodes_cong, (rule decodes_then decodes_be decodes_give)+) simp_all

lemma map_put_above: "\<forall>x \<in> set (keys m). x < k \<Longrightarrow> map_put k v m = m @ [(k, v)]"
  by (induction k v m rule: map_put.induct) auto

lemma fold_map_put_ordered: "ordered (acc @ ps) \<Longrightarrow> fold (\<lambda>(h, i). map_put h i) ps acc = acc @ ps"
proof (induction ps arbitrary: acc)
  case (Cons p ps)
  obtain h i where p: "p = (h, i)" by (cases p)
  have "map_put h i acc = acc @ [(h, i)]"
    using Cons.prems by (intro map_put_above) (auto simp: p sorted_wrt_append)
  then show ?case using Cons.IH [of "acc @ [(h, i)]"] Cons.prems by (simp add: p)
qed simp

lemma decodes_pair: "decodes read_pair p (pair_enc p)"
  unfolding read_pair_def pair_enc_def
  by (rule decodes_cong, (rule decodes_then decodes_be decodes_give)+) simp_all

lemma decodes_offsets:
  assumes "offsets_ok ps"
  shows "decodes read_offsets ps (offsets_enc ps)"
  unfolding read_offsets_def offsets_enc_def
proof (rule decodes_cong, rule decodes_then, rule decodes_be, rule decodes_then, rule decodes_read_n [where enc = pair_enc])
  show "list_all (\<lambda>p. decodes read_pair p (pair_enc p)) ps" by (simp add: list_all_iff decodes_pair)
  show "unat (word_of_nat (length ps) :: u32) = length ps" using assms by (auto simp: offsets_ok_def intro: unat_small)
  show "decodes (give (fold (\<lambda>(h, i). map_put h i) ps [])) ps []"
    using assms decodes_give [of ps] fold_map_put_ordered [of "[]" ps] by (simp add: offsets_ok_def)
qed simp_all

lemmas decodes_step = decodes_then [OF decodes_be(1)] decodes_then [OF decodes_be(2)]

lemma decodes_bundle:
  assumes "bundle_ok e"
  shows "decodes read_bundle_entry e (bundle_enc e)"
proof -
  let ?n = "word_of_nat (length (be_files e)) :: u32"
  have u: "unat ?n = length (be_files e)" using assms by (intro unat_small) (simp add: bundle_ok_def)
  then have "\<not> sint ?n < 0"
    using assms by (simp add: bundle_ok_def sint_small)
  then have main: "decodes (if sint ?n < 0 then (\<lambda>_. Inl Bad_Format)
      else then_read (read_n read_file_info (unat ?n)) (\<lambda>fs.
        give \<lparr>be_hash = be_hash e, be_ebxCount = be_ebxCount e, be_resCount = be_resCount e,
              be_chunkCount = be_chunkCount e, be_files = fs\<rparr>)) e (concat (map fi_enc (be_files e)))"
    using u by (simp only: if_False) (rule decodes_last, rule decodes_read_n, simp_all add: list_all_iff decodes_file_info)
  show ?thesis
    unfolding read_bundle_entry_def bundle_enc_def by ((rule decodes_step)+, rule main)
qed

lemma decodes_vebx: "vebx_ok p \<Longrightarrow> decodes read_ebx_entry p (vebx_enc p)"
  unfolding read_ebx_entry_def vebx_enc_def fi_enc_def
  by (cases p, simp only: prod.case append_assoc [of "be64 _"],
      rule decodes_then [OF decodes_string], simp add: vebx_ok_def, (rule decodes_step)+,
      rule decodes_last [OF decodes_offsets]) (auto simp: vebx_ok_def file32_def fi_small_def)

lemma decodes_vres: "vres_ok p \<Longrightarrow> decodes read_res_entry p (vres_enc p)"
  unfolding read_res_entry_def vres_enc_def fi_enc_def
  by (cases p, simp only: prod.case append_assoc [of "be64 _"],
      rule decodes_then [OF decodes_string], simp add: vres_ok_def, (rule decodes_step)+,
      rule decodes_then [OF decodes_meta16], simp add: vres_ok_def, (rule decodes_step)+,
      rule decodes_last [OF decodes_offsets]) (auto simp: vres_ok_def file32_def fi_small_def)

lemma decodes_vchunk: "vchunk_ok p \<Longrightarrow> decodes read_chunk_entry p (vchunk_enc p)"
  unfolding read_chunk_entry_def vchunk_enc_def fi_enc_def
  by (cases p, simp only: prod.case append_assoc [of "be64 _"],
      rule decodes_then [OF decodes_string], simp add: vchunk_ok_def, (rule decodes_step)+,
      rule decodes_last [OF decodes_offsets]) (auto simp: vchunk_ok_def file32_def fi_small_def)

text \<open>The whole file.\<close>

record aggregation =
  ag_catalogs :: "string list"
  ag_bundles :: "bundle_entry list"
  ag_ebx :: "(string \<times> ebx_entry vanilla_entry) list"
  ag_res :: "(string \<times> res_entry vanilla_entry) list"
  ag_chunks :: "(string \<times> vanilla_chunk) list"

definition counted_enc :: "('a \<Rightarrow> bytes) \<Rightarrow> 'a list \<Rightarrow> bytes" where
  "counted_enc enc xs = be32 (word_of_nat (length xs)) @ concat (map enc xs)"

definition agg_enc :: "aggregation \<Rightarrow> bytes" where
  "agg_enc a = be32 0x77778888 @ counted_enc (\<lambda>s. str_bytes s @ [0]) (ag_catalogs a) @ counted_enc bundle_enc (ag_bundles a) @
    counted_enc vebx_enc (ag_ebx a) @ counted_enc vres_enc (ag_res a) @ counted_enc vchunk_enc (ag_chunks a)"

definition agg_ok :: "aggregation \<Rightarrow> bool" where
  "agg_ok a \<longleftrightarrow> (\<forall>s \<in> set (ag_catalogs a). NUL \<notin> set s) \<and> list_all bundle_ok (ag_bundles a) \<and> list_all vebx_ok (ag_ebx a) \<and>
    list_all vres_ok (ag_res a) \<and> list_all vchunk_ok (ag_chunks a) \<and> length (ag_catalogs a) < 2 ^ 32 \<and>
    length (ag_bundles a) < 2 ^ 32 \<and> length (ag_ebx a) < 2 ^ 32 \<and> length (ag_res a) < 2 ^ 32 \<and> length (ag_chunks a) < 2 ^ 32"

lemma decodes_counted:
  assumes "list_all (\<lambda>x. decodes dec x (enc x)) xs" "length xs < 2 ^ 32"
  shows "decodes (counted dec) xs (counted_enc enc xs)"
  unfolding counted_def counted_enc_def
  using assms by (intro decodes_step decodes_read_n) (simp_all add: unat_small)

lemma decodes_aggregation:
  assumes "agg_ok a"
  shows "decodes (read_aggregation g) ((store_bundles (ag_bundles a) g)\<lparr>m_catalogs := m_catalogs g @ ag_catalogs a,
        m_vanillaEbx := fold (\<lambda>(n, e). map_put n e) (ag_ebx a) (m_vanillaEbx g),
        m_vanillaRes := fold (\<lambda>(n, e). map_put n e) (ag_res a) (m_vanillaRes g),
        m_vanillaChunk := fold (\<lambda>(n, e). map_put n e) (ag_chunks a) (m_vanillaChunk g)\<rparr>)
    (counted_enc (\<lambda>s. str_bytes s @ [0]) (ag_catalogs a) @ counted_enc bundle_enc (ag_bundles a) @
      counted_enc vebx_enc (ag_ebx a) @ counted_enc vres_enc (ag_res a) @ counted_enc vchunk_enc (ag_chunks a))"
proof -
  have 1: "decodes (counted getNullTerminatedString) (ag_catalogs a) (counted_enc (\<lambda>s. str_bytes s @ [0]) (ag_catalogs a))"
    using assms by (intro decodes_counted) (simp_all add: agg_ok_def list_all_iff decodes_string)
  have 2: "decodes (counted read_bundle_entry) (ag_bundles a) (counted_enc bundle_enc (ag_bundles a))"
    using assms by (intro decodes_counted) (simp_all add: agg_ok_def list_all_iff decodes_bundle)
  have 3: "decodes (counted read_ebx_entry) (ag_ebx a) (counted_enc vebx_enc (ag_ebx a))"
    using assms by (intro decodes_counted) (simp_all add: agg_ok_def list_all_iff decodes_vebx)
  have 4: "decodes (counted read_res_entry) (ag_res a) (counted_enc vres_enc (ag_res a))"
    using assms by (intro decodes_counted) (simp_all add: agg_ok_def list_all_iff decodes_vres)
  have 5: "decodes (counted read_chunk_entry) (ag_chunks a) (counted_enc vchunk_enc (ag_chunks a))"
    using assms by (intro decodes_counted) (simp_all add: agg_ok_def list_all_iff decodes_vchunk)
  show ?thesis
    unfolding read_aggregation_def
    by (rule decodes_then [OF 1], rule decodes_then [OF 2], rule decodes_then [OF 3], rule decodes_then [OF 4],
        rule decodes_last [OF 5]) simp
qed

lemma map_of_fold_put_other: "n \<notin> fst ` set es \<Longrightarrow> map_of (fold (\<lambda>(n, e). map_put n e) es m) n = map_of m n"
  by (induction es arbitrary: m) auto

lemma map_of_fold_put: "distinct (map fst es) \<Longrightarrow> (n, e) \<in> set es \<Longrightarrow> map_of (fold (\<lambda>(n, e). map_put n e) es m) n = Some e"
  by (induction es arbitrary: m) (auto simp: map_of_fold_put_other rev_image_eqI)

text \<open>An aggregation file in the documented format is loaded completely: after
  \<open>LoadVanillaEntries\<close> every partition, resource and chunk of the file is found under its name with exactly
  the entry of the file, and the catalogs are those of the file in order.\<close>

theorem LoadVanillaEntries_lookup:
  assumes "agg_ok a" "length (agg_enc a) < 2 ^ 32"
    "distinct (map fst (ag_ebx a))" "distinct (map fst (ag_res a))" "distinct (map fst (ag_chunks a))"
  shows "\<exists>g'. LoadVanillaEntries (Some (agg_enc a)) g = Inr g' \<and> m_catalogs g' = m_catalogs g @ ag_catalogs a \<and>
    (\<forall>(n, e) \<in> set (ag_ebx a). GetVanillaEbxEntry n g' = Some e) \<and>
    (\<forall>(n, e) \<in> set (ag_res a). GetVanillaResEntry n g' = Some e) \<and>
    (\<forall>(n, e) \<in> set (ag_chunks a). GetVanillaChunkEntry n g' = Some e)"
proof -
  let ?b = "bb_of_array (agg_enc a)"
  have "at_read ?b (agg_enc a)" using assms(2) by (rule at_read_bb_of_array)
  then have r: "at_read ?b (be32 0x77778888)" "at_read (advance 4 ?b) (counted_enc (\<lambda>s. str_bytes s @ [0]) (ag_catalogs a) @
      counted_enc bundle_enc (ag_bundles a) @ counted_enc vebx_enc (ag_ebx a) @ counted_enc vres_enc (ag_res a) @
      counted_enc vchunk_enc (ag_chunks a))"
    by (simp_all add: agg_enc_def at_read_append)
  show ?thesis
    using decodes_aggregation [OF assms(1), of g, unfolded decodes_def, rule_format, OF r(2)] read_be32_at [OF r(1)]
      map_of_fold_put [OF assms(3)] map_of_fold_put [OF assms(4)] map_of_fold_put [OF assms(5)]
    by (auto simp: LoadVanillaEntries_def GetVanillaEbxEntry_def GetVanillaResEntry_def GetVanillaChunkEntry_def)
qed

definition agg_sample :: aggregation where
  "agg_sample = \<lparr>ag_catalogs = [''c''], ag_bundles = [], ag_ebx =
    [(''a'', \<lparr>ve_entry = \<lparr>ename = ''a'', originalSize = 3\<rparr>, ve_file = \<lparr>fi_file = 1, fi_offset = 2, fi_size = 3\<rparr>, ve_offsets = []\<rparr>)],
    ag_res = [], ag_chunks = []\<rparr>"

end
