(* ===== verification/Layout_Manifest.thy ===== *)
theory Layout_Manifest
  imports Vanilla_Entries
begin

text \<open>
  The layout manifest of \<^verbatim>\<open>Module/Source/ModLoader/ManifestMerger.cpp\<close>: for every bundle the list of the files
  its contents are read from (the bundle header, then the files of its partitions, of its resources and
  of its chunks, in that order), and for every chunk its file. \<open>AddFileToBundle\<close> also counts the new file in
  the merger's table of vanilla bundles, so the state is the pair of manifest and \<open>bundle_merger\<close>.

  The native manifest that \<^verbatim>\<open>Load\<close> casts the game's buffer to is the record \<open>native_layout\<close>, its three arrays
  as lists; an index outside an array, which the code does not check, is an error.
\<close>

unbundle bit_operations_syntax

datatype asset_type = Ebx_Asset | Res_Asset | Chunk_Asset

record bundle_info =
  bi_hash :: u32
  bi_files :: "file_info list"
  bi_unk1 :: u32
  bi_unk2 :: u32

record chunk_info =
  ci_guid :: guid
  ci_fileIndex :: u32
  ci_file :: file_info

record layout_manifest =
  m_fileInfo :: "file_info list"
  m_bundleInfo :: "(u32 \<times> bundle_info) list"
  m_chunkGuids :: "(guid \<times> chunk_info) list"
  m_layoutAudit :: "(u32 \<times> string list) list"

definition lm_new :: layout_manifest where
  "lm_new = \<lparr>m_fileInfo = [], m_bundleInfo = [], m_chunkGuids = [], m_layoutAudit = []\<rparr>"

text \<open>\<^verbatim>\<open>GetBundleEntries()[hash]\<close>: an absent entry is created, with every field zero.\<close>

definition empty_bundle :: bundle_entry where
  "empty_bundle = \<lparr>be_hash = 0, be_ebxCount = 0, be_resCount = 0, be_chunkCount = 0, be_files = []\<rparr>"

definition bundle_at :: "u32 \<Rightarrow> bundle_merger \<Rightarrow> bundle_entry" where
  "bundle_at h g = (case m_bundleEntries g h of Some e \<Rightarrow> e | None \<Rightarrow> empty_bundle)"

definition bundle_put :: "u32 \<Rightarrow> bundle_entry \<Rightarrow> bundle_merger \<Rightarrow> bundle_merger" where
  "bundle_put h e g = g\<lparr>m_bundleEntries := (m_bundleEntries g)(h \<mapsto> e)\<rparr>"


section \<open>Load\<close>

record native_bundle =
  nb_hash :: u32
  nb_startIndex :: u32
  nb_count :: u32
  nb_unk1 :: u32
  nb_unk2 :: u32

record native_layout =
  nl_fileCount :: u32
  nl_bundleCount :: u32
  nl_chunksCount :: u32
  nl_fileInfo :: "file_info list"
  nl_bundleInfo :: "native_bundle list"
  nl_chunkInfo :: "(guid \<times> u32) list"

definition load_bundle :: "native_bundle \<Rightarrow> layout_manifest \<times> bundle_merger \<Rightarrow> layout_manifest \<times> bundle_merger" where
  "load_bundle nb s =
    (case s of (m, g) \<Rightarrow>
     let v = bundle_at (nb_hash nb) g;
         info = \<lparr>bi_hash = nb_hash nb, bi_files = be_files v, bi_unk1 = 0, bi_unk2 = 0\<rparr>
     in (m\<lparr>m_bundleInfo := map_put (nb_hash nb) info (m_bundleInfo m)\<rparr>, bundle_put (nb_hash nb) v g))"

fun load_chunks :: "(guid \<times> u32) list \<Rightarrow> layout_manifest \<Rightarrow> layout_manifest result" where
  "load_chunks [] m = Inr m"
| "load_chunks ((guid, idx) # cs) m =
    (if unat idx < length (m_fileInfo m)
     then load_chunks cs (m\<lparr>m_chunkGuids := map_put guid
       \<lparr>ci_guid = guid, ci_fileIndex = idx, ci_file = m_fileInfo m ! unat idx\<rparr> (m_chunkGuids m)\<rparr>)
     else Inl Out_Of_Bounds)"

definition lm_load :: "native_layout \<Rightarrow> layout_manifest \<times> bundle_merger \<Rightarrow> (layout_manifest \<times> bundle_merger) result" where
  "lm_load n s =
    (if unat (nl_fileCount n) \<le> length (nl_fileInfo n) \<and> unat (nl_bundleCount n) \<le> length (nl_bundleInfo n) \<and>
        unat (nl_chunksCount n) \<le> length (nl_chunkInfo n)
     then
       (let (m, g) = s;
            m = m\<lparr>m_fileInfo := m_fileInfo m @ take (unat (nl_fileCount n)) (nl_fileInfo n)\<rparr>;
            (m, g) = fold load_bundle (take (unat (nl_bundleCount n)) (nl_bundleInfo n)) (m, g)
        in case load_chunks (take (unat (nl_chunksCount n)) (nl_chunkInfo n)) m of
             Inl e \<Rightarrow> Inl e
           | Inr m \<Rightarrow> Inr (m, g))
     else Inl Out_Of_Bounds)"


section \<open>Save\<close>

fun place_bundles :: "(u32 \<times> bundle_info) list \<Rightarrow> file_info list \<times> (u32 \<times> u32) list \<Rightarrow>
    file_info list \<times> (u32 \<times> u32) list" where
  "place_bundles [] (files, idx) = (files, idx)"
| "place_bundles ((h, bi) # bs) (files, idx) =
    place_bundles bs (files @ bi_files bi, map_put h (word_of_nat (length files)) idx)"

fun place_chunks :: "chunk_info list \<Rightarrow> file_info list \<Rightarrow> chunk_info list \<times> file_info list" where
  "place_chunks [] files = ([], files)"
| "place_chunks (c # cs) files =
    (let files = files @ [ci_file c];
         (cs', files') = place_chunks cs files
     in (c\<lparr>ci_fileIndex := word_of_nat (length files - 1)\<rparr> # cs', files'))"

definition put_file_info :: "file_info \<Rightarrow> byte_buffer \<Rightarrow> byte_buffer" where
  "put_file_info f b = putLong (fi_size f) (putInt (fi_offset f) (putInt (fi_file f) b))"

definition put_bundle_info :: "(u32 \<times> u32) list \<Rightarrow> u32 \<times> bundle_info \<Rightarrow> byte_buffer \<Rightarrow> byte_buffer" where
  "put_bundle_info idx hb b =
    (let b = putInt (fst hb) b
     in case map_of idx (fst hb) of
          None \<Rightarrow> b
        | Some start \<Rightarrow> putInt 0 (putInt 0 (putInt (word_of_nat (length (bi_files (snd hb)))) (putInt start b))))"

definition put_chunk_info :: "chunk_info \<Rightarrow> byte_buffer \<Rightarrow> byte_buffer" where
  "put_chunk_info c b = putInt (ci_fileIndex c) (putBytes (ToFrostyLE (ci_guid c)) b)"

definition lm_save :: "layout_manifest \<Rightarrow> bytes" where
  "lm_save m =
    (let (files, idx) = place_bundles (m_bundleInfo m) ([], []);
         (chunks, files) = place_chunks (map snd (m_chunkGuids m)) files;
         b = putInt (word_of_nat (length files)) bb_new;
         b = putInt (word_of_nat (length (m_bundleInfo m))) b;
         b = putInt (word_of_nat (length chunks)) b;
         b = fold put_file_info files b;
         b = fold (put_bundle_info idx) (m_bundleInfo m) b;
         b = fold put_chunk_info chunks b
     in buf b)"


section \<open>Changing the manifest\<close>

definition lm_insert_pos :: "bundle_entry \<Rightarrow> asset_type \<Rightarrow> nat" where
  "lm_insert_pos v t =
    (case t of
       Ebx_Asset \<Rightarrow> 1 + unat (be_ebxCount v)
     | Res_Asset \<Rightarrow> 1 + unat (be_ebxCount v) + unat (be_resCount v)
     | Chunk_Asset \<Rightarrow> 1 + unat (be_ebxCount v) + unat (be_resCount v) + unat (be_chunkCount v))"

definition count_asset :: "asset_type \<Rightarrow> bundle_entry \<Rightarrow> bundle_entry" where
  "count_asset t v =
    (case t of
       Ebx_Asset \<Rightarrow> v\<lparr>be_ebxCount := be_ebxCount v + 1\<rparr>
     | Res_Asset \<Rightarrow> v\<lparr>be_resCount := be_resCount v + 1\<rparr>
     | Chunk_Asset \<Rightarrow> v\<lparr>be_chunkCount := be_chunkCount v + 1\<rparr>)"

definition AddFileToBundle :: "u32 set \<Rightarrow> u32 \<Rightarrow> file_info \<Rightarrow> asset_type \<Rightarrow> layout_manifest \<times> bundle_merger \<Rightarrow>
    (layout_manifest \<times> bundle_merger) result" where
  "AddFileToBundle addedBundles h f t s =
    (case s of (m, g) \<Rightarrow>
     case map_of (m_bundleInfo m) h of
       None \<Rightarrow> Inr (m, g)
     | Some bi \<Rightarrow>
       if bi_hash bi \<noteq> h then Inr (m, g)
       else
         let customBundle = (h \<in> addedBundles);
             v = bundle_at (bi_hash bi) g;
             g = bundle_put (bi_hash bi) v g
         in if \<not> customBundle \<and> be_hash v \<noteq> bi_hash bi then Inr (m, g)
            else if \<not> customBundle \<and> be_ebxCount v > 200000 then Inr (m, g)
            else if \<not> customBundle \<and> be_resCount v > 2000000 then Inr (m, g)
            else if \<not> customBundle \<and> be_chunkCount v > 2000000 then Inr (m, g)
            else
              let i = lm_insert_pos v t
              in if i \<le> length (bi_files bi)
                 then Inr (m\<lparr>m_bundleInfo := map_put h (bi\<lparr>bi_files := insert_at i f (bi_files bi)\<rparr>) (m_bundleInfo m)\<rparr>,
                           bundle_put (bi_hash bi) (count_asset t v) g)
                 else Inl Out_Of_Bounds)"

definition SetFileInfo :: "u32 \<Rightarrow> int \<Rightarrow> file_info \<Rightarrow> layout_manifest \<Rightarrow> layout_manifest result" where
  "SetFileInfo h index f m =
    (case map_of (m_bundleInfo m) h of
       None \<Rightarrow> Inr m
     | Some bi \<Rightarrow>
         if 0 \<le> index \<and> nat index < length (bi_files bi)
         then Inr (m\<lparr>m_bundleInfo := map_put h (bi\<lparr>bi_files := (bi_files bi)[nat index := f]\<rparr>) (m_bundleInfo m)\<rparr>)
         else Inl Out_Of_Bounds)"

definition GetChunk :: "guid \<Rightarrow> layout_manifest \<Rightarrow> file_info option" where
  "GetChunk guid m = map_option ci_file (map_of (m_chunkGuids m) guid)"

definition AddChunk :: "guid \<Rightarrow> file_info \<Rightarrow> layout_manifest \<Rightarrow> layout_manifest" where
  "AddChunk guid f m =
    m\<lparr>m_chunkGuids := map_put guid \<lparr>ci_guid = guid, ci_fileIndex = 0, ci_file = f\<rparr> (m_chunkGuids m)\<rparr>"

definition AddBundle :: "u32 \<Rightarrow> layout_manifest \<Rightarrow> layout_manifest result" where
  "AddBundle h m =
    (if map_of (m_bundleInfo m) h \<noteq> None then Inr m
     else case m_bundleInfo m of
       [] \<Rightarrow> Inl Null_Deref
     | (_, first) # _ \<Rightarrow>
         (case bi_files first of
            [] \<Rightarrow> Inl Out_Of_Bounds
          | f # _ \<Rightarrow> Inr (m\<lparr>m_bundleInfo :=
              map_put h \<lparr>bi_hash = h, bi_files = [f], bi_unk1 = 0, bi_unk2 = 0\<rparr> (m_bundleInfo m)\<rparr>)))"

definition PushLayoutAudit :: "u32 \<Rightarrow> string \<Rightarrow> layout_manifest \<Rightarrow> layout_manifest" where
  "PushLayoutAudit h log m =
    m\<lparr>m_layoutAudit := map_put h ((case map_of (m_layoutAudit m) h of None \<Rightarrow> [] | Some ls \<Rightarrow> ls) @ [log]) (m_layoutAudit m)\<rparr>"


section \<open>Files of the catalogs\<close>

definition GetCatalogIndex :: "u32 \<Rightarrow> int" where
  "GetCatalogIndex v = drop_bit 12 (sint v) - 1"

text \<open>The path of the archive a file number stands for, as the hook on the catalog loader builds it.\<close>

definition cas_path :: "string list \<Rightarrow> u32 \<Rightarrow> string result" where
  "cas_path catalogs file =
    (let catalogIndex = GetCatalogIndex file;
         isInPatch = (file AND 0x100 \<noteq> 0);
         casIndex = unat (file AND 0xFF) + 1
     in if 0 \<le> catalogIndex \<and> nat catalogIndex < length catalogs
        then Inr (''/native_data/'' @ (if isInPatch then ''Patch/'' else ''Data/'') @ catalogs ! nat catalogIndex @ ''/cas_'' @
          (if casIndex < 10 then ''0'' else []) @ dec_digits casIndex @ ''.cas'')
        else Inl Out_Of_Bounds)"

fun cat_files :: "string list \<Rightarrow> u32 list \<Rightarrow> (u32 \<times> string) list result" where
  "cat_files catalogs [] = Inr []"
| "cat_files catalogs (f # fs) =
    (case cas_path catalogs f of
       Inl e \<Rightarrow> Inl e
     | Inr p \<Rightarrow> (case cat_files catalogs fs of Inl e \<Rightarrow> Inl e | Inr ps \<Rightarrow> Inr ((f, p) # ps)))"

definition LoadCatEntries :: "string list \<Rightarrow> u32 list \<Rightarrow> (u32 \<times> string) list \<Rightarrow> (u32 \<times> string) list result" where
  "LoadCatEntries catalogs required mods =
    (case cat_files catalogs required of Inl e \<Rightarrow> Inl e | Inr ps \<Rightarrow> Inr (ps @ mods))"

text \<open>The hook on the game's manifest processing: the bytes the game then reads. \<open>merge\<close> is the merger that
  was set, or \<open>None\<close>.\<close>

definition ProcessManifest :: "(layout_manifest \<times> bundle_merger \<Rightarrow> (layout_manifest \<times> bundle_merger) result) option \<Rightarrow>
    native_layout \<Rightarrow> bytes \<Rightarrow> bundle_merger \<Rightarrow> (bytes \<times> bundle_merger) result" where
  "ProcessManifest merge native raw g =
    (case merge of
       None \<Rightarrow> Inr (raw, g)
     | Some f \<Rightarrow>
         (case lm_load native (lm_new, g) of
            Inl e \<Rightarrow> Inl e
          | Inr s \<Rightarrow> (case f s of Inl e \<Rightarrow> Inl e | Inr (m, g') \<Rightarrow> Inr (lm_save m, g'))))"

section \<open>What Save writes\<close>

definition fi_bytes :: "file_info \<Rightarrow> bytes" where
  "fi_bytes f = bytes32 (fi_file f) @ bytes32 (fi_offset f) @ bytes64 (fi_size f)"

definition bundle_rec :: "u32 \<times> u32 \<times> u32 \<Rightarrow> bytes" where
  "bundle_rec r = (case r of (h, start, n) \<Rightarrow> bytes32 h @ bytes32 start @ bytes32 n @ bytes32 0 @ bytes32 0)"

definition chunk_rec :: "chunk_info \<Rightarrow> bytes" where
  "chunk_rec c = ToFrostyLE (ci_guid c) @ bytes32 (ci_fileIndex c)"

lemma writes_file_info: "writes (put_file_info f) (fi_bytes f)"
  using writes_comp [OF writes_ints(1) [of "fi_file f"] writes_comp [OF writes_ints(1) [of "fi_offset f"]
      writes_ints(2) [of "fi_size f"]]]
  by (simp add: put_file_info_def [abs_def] fi_bytes_def)

lemma writes_bundle_info:
  assumes "map_of idx (fst hb) = Some start"
  shows "writes (put_bundle_info idx hb) (bundle_rec (fst hb, start, word_of_nat (length (bi_files (snd hb)))))"
proof -
  have "writes (\<lambda>b. putInt 0 (putInt 0 (putInt n (putInt start (putInt h b)))))
      (bytes32 h @ bytes32 start @ bytes32 n @ bytes32 0 @ bytes32 0)" for h n
    using writes_comp [OF writes_ints(1) [of h] writes_comp [OF writes_ints(1) [of start]
        writes_comp [OF writes_ints(1) [of n] writes_comp [OF writes_ints(1) [of 0] writes_ints(1) [of 0]]]]] by simp
  then show ?thesis using assms by (simp add: put_bundle_info_def [abs_def] bundle_rec_def Let_def)
qed

lemma writes_chunk_info: "guid_ok (ci_guid c) \<Longrightarrow> writes (put_chunk_info c) (chunk_rec c)"
  using writes_comp [OF writes_putBytes writes_ints(1), of "ToFrostyLE (ci_guid c)" "ci_fileIndex c"]
  by (cases "ci_guid c") (simp_all add: put_chunk_info_def [abs_def] chunk_rec_def ToFrostyLE_def guid_ok_def)

lemma place_bundles_files: "fst (place_bundles bs (fs, idx)) = fs @ concat (map (bi_files \<circ> snd) bs)"
  by (induction bs arbitrary: fs idx) auto

lemma place_bundles_other: "h \<notin> fst ` set bs \<Longrightarrow> map_of (snd (place_bundles bs (fs, idx))) h = map_of idx h"
  by (induction bs arbitrary: fs idx) auto

lemma place_bundles_start:
  "distinct (keys bs) \<Longrightarrow> (h, bi) \<in> set bs \<Longrightarrow>
    \<exists>n. map_of (snd (place_bundles bs (fs, idx))) h = Some (word_of_nat n) \<and>
      n + length (bi_files bi) \<le> length (fst (place_bundles bs (fs, idx))) \<and>
      take (length (bi_files bi)) (drop n (fst (place_bundles bs (fs, idx)))) = bi_files bi"
proof (induction bs arbitrary: fs idx)
  case (Cons p bs)
  obtain h' bi' where p: "p = (h', bi')" by (cases p)
  show ?case
  proof (cases "h = h'")
    case True
    then have "h \<notin> fst ` set bs" "bi = bi'" using Cons.prems by (auto simp: p rev_image_eqI)
    then show ?thesis
      by (intro exI [of _ "length fs"]) (simp add: p True place_bundles_other place_bundles_files)
  next
    case False
    then show ?thesis using Cons by (simp add: p)
  qed
qed simp

lemma place_chunks_files: "snd (place_chunks cs fs) = fs @ map ci_file cs"
  by (induction cs arbitrary: fs) (simp_all add: case_prod_beta Let_def)

lemma length_place_chunks [simp]: "length (fst (place_chunks cs fs)) = length cs"
  by (induction cs arbitrary: fs) (simp_all add: case_prod_beta Let_def)

lemma place_chunks_nth:
  "i < length cs \<Longrightarrow> fst (place_chunks cs fs) ! i = (cs ! i)\<lparr>ci_fileIndex := word_of_nat (length fs + i)\<rparr>"
proof (induction cs arbitrary: fs i)
  case (Cons c cs)
  then show ?case by (cases i) (simp_all add: case_prod_beta Let_def)
qed simp

definition lm_wf :: "layout_manifest \<Rightarrow> bool" where
  "lm_wf m \<longleftrightarrow> distinct (keys (m_bundleInfo m)) \<and> (\<forall>(g, c) \<in> set (m_chunkGuids m). ci_guid c = g \<and> guid_ok g)"

definition lm_files :: "layout_manifest \<Rightarrow> file_info list" where
  "lm_files m = concat (map (bi_files \<circ> snd) (m_bundleInfo m)) @ map ci_file (map snd (m_chunkGuids m))"

definition lm_length :: "layout_manifest \<Rightarrow> nat" where
  "lm_length m = 12 + 16 * length (lm_files m) + 20 * length (m_bundleInfo m) + 20 * length (m_chunkGuids m)"

definition lm_bundle_recs :: "layout_manifest \<Rightarrow> (u32 \<times> u32 \<times> u32) list" where
  "lm_bundle_recs m = map (\<lambda>(h, bi). (h, the (map_of (snd (place_bundles (m_bundleInfo m) ([], []))) h),
    word_of_nat (length (bi_files bi)))) (m_bundleInfo m)"

definition lm_chunk_recs :: "layout_manifest \<Rightarrow> chunk_info list" where
  "lm_chunk_recs m = fst (place_chunks (map snd (m_chunkGuids m)) (fst (place_bundles (m_bundleInfo m) ([], []))))"

lemma lm_save_bytes:
  assumes wf: "lm_wf m" and small: "lm_length m < 2 ^ 32"
  shows "lm_save m = bytes32 (word_of_nat (length (lm_files m))) @ bytes32 (word_of_nat (length (m_bundleInfo m))) @
    bytes32 (word_of_nat (length (m_chunkGuids m))) @ concat (map fi_bytes (lm_files m)) @
    concat (map bundle_rec (lm_bundle_recs m)) @ concat (map chunk_rec (lm_chunk_recs m))"
proof -
  let ?idx = "snd (place_bundles (m_bundleInfo m) ([], []))" and ?fs = "fst (place_bundles (m_bundleInfo m) ([], []))"
  let ?rec = "\<lambda>hb. bundle_rec (fst hb, the (map_of ?idx (fst hb)), word_of_nat (length (bi_files (snd hb))))"
  let ?H = "bytes32 (word_of_nat (length (lm_files m))) @ bytes32 (word_of_nat (length (m_bundleInfo m))) @
    bytes32 (word_of_nat (length (m_chunkGuids m)))"
  let ?F = "concat (map fi_bytes (lm_files m))" and ?B = "concat (map ?rec (m_bundleInfo m))"
    and ?C = "concat (map chunk_rec (lm_chunk_recs m))"
  have files: "lm_files m = snd (place_chunks (map snd (m_chunkGuids m)) ?fs)"
    by (simp add: lm_files_def place_chunks_files place_bundles_files)
  have guids: "guid_ok (ci_guid c)" if "c \<in> set (lm_chunk_recs m)" for c
  proof -
    have "length (lm_chunk_recs m) = length (m_chunkGuids m)" by (simp add: lm_chunk_recs_def)
    moreover from that obtain i where "i < length (lm_chunk_recs m)" "c = lm_chunk_recs m ! i"
      unfolding in_set_conv_nth by auto
    ultimately have "i < length (m_chunkGuids m)" "c = lm_chunk_recs m ! i" by simp_all
    then have "ci_guid c = ci_guid (snd (m_chunkGuids m ! i))" "m_chunkGuids m ! i \<in> set (m_chunkGuids m)"
      by (simp_all add: lm_chunk_recs_def place_chunks_nth)
    then show ?thesis using wf by (auto simp: lm_wf_def)
  qed
  have lens: "length ?F = 16 * length (lm_files m)" "length ?B = 20 * length (m_bundleInfo m)"
    "length ?C = 20 * length (m_chunkGuids m)"
  proof -
    have "length (concat (map fi_bytes xs)) = 16 * length xs" for xs by (induction xs) (simp_all add: fi_bytes_def)
    then show "length ?F = 16 * length (lm_files m)" .
    have "length (concat (map ?rec xs)) = 20 * length xs" for xs by (induction xs) (simp_all add: bundle_rec_def)
    then show "length ?B = 20 * length (m_bundleInfo m)" .
    have "list_all (\<lambda>c. guid_ok (ci_guid c)) xs \<Longrightarrow> length (concat (map chunk_rec xs)) = 20 * length xs" for xs
      by (induction xs) (simp_all add: chunk_rec_def ToFrostyLE_def guid_ok_def)
    then show "length ?C = 20 * length (m_chunkGuids m)"
      using guids by (simp add: list_all_iff lm_chunk_recs_def)
  qed
  have "writes (\<lambda>b. putInt u (putInt v (putInt w b))) (bytes32 w @ bytes32 v @ bytes32 u)" for u v w
    using writes_comp [OF writes_ints(1) [of w] writes_comp [OF writes_ints(1) [of v] writes_ints(1) [of u]]] by simp
  then have 0: "covers True (putInt (word_of_nat (length (m_chunkGuids m))) (putInt (word_of_nat (length (m_bundleInfo m)))
      (putInt (word_of_nat (length (lm_files m))) bb_new))) ?H" (is "covers _ ?b0 _")
    using writesD [OF _ covers_new] by fastforce
  have 1: "covers (True \<or> lm_files m \<noteq> []) (fold put_file_info (lm_files m) ?b0) (?H @ ?F)" (is "covers _ ?b1 _")
    using small lens by (intro covers_fold writes_file_info 0) (simp add: lm_length_def)
  have "map_of ?idx (fst hb) \<noteq> None" if "hb \<in> set (m_bundleInfo m)" for hb
    using place_bundles_start [of "m_bundleInfo m" "fst hb" "snd hb"] wf that by (fastforce simp: lm_wf_def)
  then have wb: "writes (put_bundle_info ?idx hb) (?rec hb)" if "hb \<in> set (m_bundleInfo m)" for hb
    using that by (intro writes_bundle_info) fastforce
  have 2: "covers ((True \<or> lm_files m \<noteq> []) \<or> m_bundleInfo m \<noteq> []) (fold (put_bundle_info ?idx) (m_bundleInfo m) ?b1)
      ((?H @ ?F) @ ?B)" (is "covers _ ?b2 _")
    using small lens by (intro covers_fold [OF wb 1]) (simp_all add: lm_length_def)
  have 3: "covers (((True \<or> lm_files m \<noteq> []) \<or> m_bundleInfo m \<noteq> []) \<or> lm_chunk_recs m \<noteq> [])
      (fold put_chunk_info (lm_chunk_recs m) ?b2) (((?H @ ?F) @ ?B) @ ?C)" (is "covers _ ?b3 _")
    using small lens guids by (intro covers_fold [OF writes_chunk_info 2]) (simp_all add: lm_length_def)
  have "lm_save m = buf ?b3"
    by (simp add: lm_save_def files lm_chunk_recs_def case_prod_beta Let_def)
  moreover have "concat (map bundle_rec (lm_bundle_recs m)) = ?B"
    by (simp add: lm_bundle_recs_def case_prod_beta comp_def)
  ultimately show ?thesis using 3 by (simp add: covers_True holds_def)
qed

section \<open>The segments of a bundle\<close>

definition ebx_files :: "bundle_entry \<Rightarrow> file_info list \<Rightarrow> file_info list" where
  "ebx_files v fs = take (unat (be_ebxCount v)) (drop 1 fs)"

definition res_files :: "bundle_entry \<Rightarrow> file_info list \<Rightarrow> file_info list" where
  "res_files v fs = take (unat (be_resCount v)) (drop (1 + unat (be_ebxCount v)) fs)"

definition chunk_files :: "bundle_entry \<Rightarrow> file_info list \<Rightarrow> file_info list" where
  "chunk_files v fs = take (unat (be_chunkCount v)) (drop (1 + unat (be_ebxCount v) + unat (be_resCount v)) fs)"

text \<open>A bundle's file list is its header file followed by exactly the counted files.\<close>

definition segments_ok :: "bundle_entry \<Rightarrow> file_info list \<Rightarrow> bool" where
  "segments_ok v fs \<longleftrightarrow>
    length fs = 1 + unat (be_ebxCount v) + unat (be_resCount v) + unat (be_chunkCount v) \<and> length fs < 2 ^ 31"

lemma segments_append:
  assumes "segments_ok v fs"
  obtains f0 where "fs = f0 # ebx_files v fs @ res_files v fs @ chunk_files v fs"
    "length (ebx_files v fs) = unat (be_ebxCount v)" "length (res_files v fs) = unat (be_resCount v)"
    "length (chunk_files v fs) = unat (be_chunkCount v)"
proof -
  obtain f0 fs' where fs: "fs = f0 # fs'" using assms by (cases fs) (auto simp: segments_ok_def)
  have "fs' = take e fs' @ take r (drop e fs') @ take c (drop (e + r) fs')" if "length fs' = e + r + c" for e r c
    using that by (metis append_take_drop_id drop_drop length_drop add.commute add_diff_cancel_left' take_all le_refl add.assoc)
  then show ?thesis
    using that [of f0] assms by (auto simp: fs segments_ok_def ebx_files_def res_files_def chunk_files_def)
qed

lemma unat_Suc_small: "unat (w :: u32) < 2 ^ 31 \<Longrightarrow> unat (w + 1) = Suc (unat w)"
proof -
  assume "unat w < 2 ^ 31"
  then have "unat (word_of_nat (Suc (unat w)) :: u32) = Suc (unat w)" by (intro unat_small) simp
  then show ?thesis by (simp add: add.commute)
qed

lemma insert_segment:
  fixes f :: file_info and t :: asset_type
  assumes ok: "segments_ok v fs" and small: "length fs < 2 ^ 31 - 1"
  defines "fs' \<equiv> insert_at (lm_insert_pos v t) f fs" and "v' \<equiv> count_asset t v"
  shows "lm_insert_pos v t \<le> length fs" "segments_ok v' fs'" "hd fs' = hd fs"
    "ebx_files v' fs' = ebx_files v fs @ (if t = Ebx_Asset then [f] else [])"
    "res_files v' fs' = res_files v fs @ (if t = Res_Asset then [f] else [])"
    "chunk_files v' fs' = chunk_files v fs @ (if t = Chunk_Asset then [f] else [])"
proof -
  let ?E = "ebx_files v fs" and ?R = "res_files v fs" and ?C = "chunk_files v fs"
  obtain f0 where fs: "fs = f0 # ?E @ ?R @ ?C" and len: "length ?E = unat (be_ebxCount v)"
    "length ?R = unat (be_resCount v)" "length ?C = unat (be_chunkCount v)"
    using ok by (rule segments_append)
  have bounds: "unat (be_ebxCount v) < 2 ^ 31" "unat (be_resCount v) < 2 ^ 31" "unat (be_chunkCount v) < 2 ^ 31"
    using ok by (simp_all add: segments_ok_def)
  note suc = unat_Suc_small [OF bounds(1)] unat_Suc_small [OF bounds(2)] unat_Suc_small [OF bounds(3)]
  show "lm_insert_pos v t \<le> length fs"
    using ok by (cases t) (simp_all add: segments_ok_def lm_insert_pos_def)
  have fs': "fs' = f0 # (?E @ (if t = Ebx_Asset then [f] else [])) @ (?R @ (if t = Res_Asset then [f] else [])) @
      (?C @ (if t = Chunk_Asset then [f] else []))"
    unfolding fs'_def by (subst fs) (cases t; simp add: lm_insert_pos_def insert_at_def flip: len)
  have cnt: "unat (be_ebxCount v') = length ?E + (if t = Ebx_Asset then 1 else 0)"
    "unat (be_resCount v') = length ?R + (if t = Res_Asset then 1 else 0)"
    "unat (be_chunkCount v') = length ?C + (if t = Chunk_Asset then 1 else 0)"
    unfolding v'_def by (cases t; simp add: count_asset_def suc len)+
  have "length fs' = Suc (length fs)" by (simp add: fs'_def)
  then show "segments_ok v' fs'"
    using small ok unfolding segments_ok_def cnt len by (cases t) simp_all
  show "hd fs' = hd fs" by (subst fs) (simp add: fs')
  show "ebx_files v' fs' = ?E @ (if t = Ebx_Asset then [f] else [])"
    unfolding ebx_files_def [of v'] cnt fs' by simp
  show "res_files v' fs' = ?R @ (if t = Res_Asset then [f] else [])"
    unfolding res_files_def [of v'] cnt fs' by simp
  show "chunk_files v' fs' = ?C @ (if t = Chunk_Asset then [f] else [])"
    unfolding chunk_files_def [of v'] cnt fs' by (simp add: drop_append)
qed

lemma AddFileToBundle_at:
  assumes "map_of (m_bundleInfo m) h = Some bi" "bi_hash bi = h"
    and "h \<in> added \<or> be_hash (bundle_at h g) = h \<and> be_ebxCount (bundle_at h g) \<le> 200000 \<and>
      be_resCount (bundle_at h g) \<le> 2000000 \<and> be_chunkCount (bundle_at h g) \<le> 2000000"
    and "segments_ok (bundle_at h g) (bi_files bi)" "length (bi_files bi) < 2 ^ 31 - 1"
  shows "\<exists>m' g' bi'. AddFileToBundle added h f t (m, g) = Inr (m', g') \<and>
    map_of (m_bundleInfo m') = (map_of (m_bundleInfo m))(h \<mapsto> bi') \<and> bi_hash bi' = h \<and> bundle_at h g' = count_asset t (bundle_at h g) \<and>
    length (bi_files bi') = Suc (length (bi_files bi)) \<and> segments_ok (bundle_at h g') (bi_files bi') \<and> hd (bi_files bi') = hd (bi_files bi) \<and>
    ebx_files (bundle_at h g') (bi_files bi') =
      ebx_files (bundle_at h g) (bi_files bi) @ (if t = Ebx_Asset then [f] else []) \<and>
    res_files (bundle_at h g') (bi_files bi') =
      res_files (bundle_at h g) (bi_files bi) @ (if t = Res_Asset then [f] else []) \<and>
    chunk_files (bundle_at h g') (bi_files bi') =
      chunk_files (bundle_at h g) (bi_files bi) @ (if t = Chunk_Asset then [f] else [])"
proof -
  let ?v = "bundle_at h g" and ?fs = "insert_at (lm_insert_pos (bundle_at h g) t) f (bi_files bi)"
  let ?g = "bundle_put h (count_asset t ?v) (bundle_put h ?v g)"
  have at: "bundle_at h ?g = count_asset t ?v" by (simp add: bundle_at_def bundle_put_def)
  note seg = insert_segment(1) [OF assms(4,5), where t = t] insert_segment(2-6) [OF assms(4,5), where t = t and f = f]
  have "AddFileToBundle added h f t (m, g) =
      Inr (m\<lparr>m_bundleInfo := map_put h (bi\<lparr>bi_files := ?fs\<rparr>) (m_bundleInfo m)\<rparr>, ?g)"
    using assms(1-3) seg(1) by (auto simp: AddFileToBundle_def Let_def not_less)
  then show ?thesis
    using assms(2) seg(2-6) at by (intro exI [of _ "bi\<lparr>bi_files := ?fs\<rparr>"] exI conjI) (assumption | simp)+
qed

text \<open>\<open>AddFileToBundle\<close> puts the file at the end of the segment of its kind and counts it, and leaves the
  header file and the other two segments as they were, so the file list and the counts stay in step.
  A vanilla bundle must be known to the merger and within the code's limits; a bundle the mods added
  needs neither.\<close>

theorem AddFileToBundle_segments:
  assumes "map_of (m_bundleInfo m) h = Some bi" "bi_hash bi = h"
    and "h \<in> added \<or> be_hash (bundle_at h g) = h \<and> be_ebxCount (bundle_at h g) \<le> 200000 \<and>
      be_resCount (bundle_at h g) \<le> 2000000 \<and> be_chunkCount (bundle_at h g) \<le> 2000000"
    and "segments_ok (bundle_at h g) (bi_files bi)" "length (bi_files bi) < 2 ^ 31 - 1"
  shows "\<exists>m' g' bi'. AddFileToBundle added h f t (m, g) = Inr (m', g') \<and>
    map_of (m_bundleInfo m') = (map_of (m_bundleInfo m))(h \<mapsto> bi') \<and> bi_hash bi' = h \<and>
    segments_ok (bundle_at h g') (bi_files bi') \<and> hd (bi_files bi') = hd (bi_files bi) \<and>
    ebx_files (bundle_at h g') (bi_files bi') =
      ebx_files (bundle_at h g) (bi_files bi) @ (if t = Ebx_Asset then [f] else []) \<and>
    res_files (bundle_at h g') (bi_files bi') =
      res_files (bundle_at h g) (bi_files bi) @ (if t = Res_Asset then [f] else []) \<and>
    chunk_files (bundle_at h g') (bi_files bi') =
      chunk_files (bundle_at h g) (bi_files bi) @ (if t = Chunk_Asset then [f] else [])"
  using AddFileToBundle_at [OF assms, of f t] by blast

definition lm_sample :: layout_manifest where
  "lm_sample = lm_new\<lparr>m_bundleInfo := [(7, \<lparr>bi_hash = 7, bi_files =
    [\<lparr>fi_file = 1, fi_offset = 0, fi_size = 9\<rparr>, \<lparr>fi_file = 2, fi_offset = 0, fi_size = 8\<rparr>], bi_unk1 = 0, bi_unk2 = 0\<rparr>)],
    m_chunkGuids := [(guid_zero, \<lparr>ci_guid = guid_zero, ci_fileIndex = 0, ci_file = \<lparr>fi_file = 3, fi_offset = 4, fi_size = 5\<rparr>\<rparr>)]\<rparr>"

definition bg_sample :: bundle_merger where
  "bg_sample = \<lparr>m_catalogs = [], m_bundleEntries = [7 \<mapsto> \<lparr>be_hash = 7, be_ebxCount = 1, be_resCount = 0,
    be_chunkCount = 0, be_files = []\<rparr>], m_vanillaEbx = [], m_vanillaRes = [], m_vanillaChunk = []\<rparr>"

text \<open>C29: in the manifest that \<open>Save\<close> writes, the record of every bundle delimits exactly that bundle's files
  in the file table, and the index stored for every chunk points at that chunk's file; the three counts
  at the start are the numbers of records that follow.\<close>

theorem lm_save_consistent:
  assumes "lm_wf m" "lm_length m < 2 ^ 32"
  shows "\<exists>files bundles chunks.
    lm_save m = bytes32 (word_of_nat (length files)) @ bytes32 (word_of_nat (length bundles)) @
      bytes32 (word_of_nat (length chunks)) @ concat (map fi_bytes files) @ concat (map bundle_rec bundles) @
      concat (map chunk_rec chunks) \<and>
    length bundles = length (m_bundleInfo m) \<and> length chunks = length (m_chunkGuids m) \<and>
    (\<forall>i < length bundles. \<exists>start n. bundles ! i = (fst (m_bundleInfo m ! i), start, n) \<and>
      take (unat n) (drop (unat start) files) = bi_files (snd (m_bundleInfo m ! i))) \<and>
    (\<forall>i < length chunks. ci_guid (chunks ! i) = fst (m_chunkGuids m ! i) \<and>
      unat (ci_fileIndex (chunks ! i)) < length files \<and>
      files ! unat (ci_fileIndex (chunks ! i)) = ci_file (snd (m_chunkGuids m ! i)))"
proof (intro exI conjI)
  let ?P = "place_bundles (m_bundleInfo m) ([], [])"
  let ?cs = "map snd (m_chunkGuids m)"
  have files: "lm_files m = fst ?P @ map ci_file ?cs" by (simp add: lm_files_def place_bundles_files)
  have small: "length (lm_files m) < 2 ^ 32" using assms(2) by (simp add: lm_length_def)
  show len: "length (lm_bundle_recs m) = length (m_bundleInfo m)" "length (lm_chunk_recs m) = length (m_chunkGuids m)"
    by (simp_all add: lm_bundle_recs_def lm_chunk_recs_def)
  show "lm_save m = bytes32 (word_of_nat (length (lm_files m))) @ bytes32 (word_of_nat (length (lm_bundle_recs m))) @
      bytes32 (word_of_nat (length (lm_chunk_recs m))) @ concat (map fi_bytes (lm_files m)) @
      concat (map bundle_rec (lm_bundle_recs m)) @ concat (map chunk_rec (lm_chunk_recs m))"
    using lm_save_bytes [OF assms] len by simp
  show "\<forall>i < length (lm_bundle_recs m). \<exists>start n. lm_bundle_recs m ! i = (fst (m_bundleInfo m ! i), start, n) \<and>
      take (unat n) (drop (unat start) (lm_files m)) = bi_files (snd (m_bundleInfo m ! i))"
  proof (intro allI impI)
    fix i assume i: "i < length (lm_bundle_recs m)"
    obtain h bi where hb: "m_bundleInfo m ! i = (h, bi)" by fastforce
    then have "(h, bi) \<in> set (m_bundleInfo m)" using i len(1) by (metis nth_mem)
    then obtain n where n: "map_of (snd ?P) h = Some (word_of_nat n)" "n + length (bi_files bi) \<le> length (fst ?P)"
      "take (length (bi_files bi)) (drop n (fst ?P)) = bi_files bi"
      using place_bundles_start [of "m_bundleInfo m" h bi "[]" "[]"] assms(1) by (auto simp: lm_wf_def)
    then have "unat (word_of_nat n :: u32) = n" "unat (word_of_nat (length (bi_files bi)) :: u32) = length (bi_files bi)"
      using small by (auto simp: files intro!: unat_small)
    then show "\<exists>start n. lm_bundle_recs m ! i = (fst (m_bundleInfo m ! i), start, n) \<and>
        take (unat n) (drop (unat start) (lm_files m)) = bi_files (snd (m_bundleInfo m ! i))"
      using n i len(1) by (simp add: hb lm_bundle_recs_def files)
  qed
  show "\<forall>i < length (lm_chunk_recs m). ci_guid (lm_chunk_recs m ! i) = fst (m_chunkGuids m ! i) \<and>
      unat (ci_fileIndex (lm_chunk_recs m ! i)) < length (lm_files m) \<and>
      lm_files m ! unat (ci_fileIndex (lm_chunk_recs m ! i)) = ci_file (snd (m_chunkGuids m ! i))"
  proof (intro allI impI)
    fix i assume i: "i < length (lm_chunk_recs m)"
    then have c: "lm_chunk_recs m ! i = (?cs ! i)\<lparr>ci_fileIndex := word_of_nat (length (fst ?P) + i)\<rparr>"
      by (simp add: lm_chunk_recs_def place_chunks_nth)
    have "m_chunkGuids m ! i \<in> set (m_chunkGuids m)" using i len(2) by simp
    then have g: "ci_guid (snd (m_chunkGuids m ! i)) = fst (m_chunkGuids m ! i)"
      using assms(1) by (auto simp: lm_wf_def case_prod_beta)
    have u: "unat (word_of_nat (length (fst ?P) + i) :: u32) = length (fst ?P) + i"
      using small i len(2) by (intro unat_small) (simp add: files)
    show "ci_guid (lm_chunk_recs m ! i) = fst (m_chunkGuids m ! i) \<and>
        unat (ci_fileIndex (lm_chunk_recs m ! i)) < length (lm_files m) \<and>
        lm_files m ! unat (ci_fileIndex (lm_chunk_recs m ! i)) = ci_file (snd (m_chunkGuids m ! i))"
      using i len(2) g by (simp add: c u files nth_append del: of_nat_add)
  qed
qed

theorem lm_save_consistent_witness:
  "\<exists>files bundles chunks.
    lm_save lm_sample = bytes32 (word_of_nat (length files)) @ bytes32 (word_of_nat (length bundles)) @
      bytes32 (word_of_nat (length chunks)) @ concat (map fi_bytes files) @ concat (map bundle_rec bundles) @
      concat (map chunk_rec chunks) \<and>
    length bundles = length (m_bundleInfo lm_sample) \<and> length chunks = length (m_chunkGuids lm_sample) \<and>
    (\<forall>i < length bundles. \<exists>start n. bundles ! i = (fst (m_bundleInfo lm_sample ! i), start, n) \<and>
      take (unat n) (drop (unat start) files) = bi_files (snd (m_bundleInfo lm_sample ! i))) \<and>
    (\<forall>i < length chunks. ci_guid (chunks ! i) = fst (m_chunkGuids lm_sample ! i) \<and>
      unat (ci_fileIndex (chunks ! i)) < length files \<and>
      files ! unat (ci_fileIndex (chunks ! i)) = ci_file (snd (m_chunkGuids lm_sample ! i)))"
  by (rule lm_save_consistent)
    (simp_all add: lm_sample_def lm_new_def lm_wf_def lm_length_def lm_files_def guid_ok_def guid_zero_def)

text \<open>\<open>AddChunk\<close> makes \<open>GetChunk\<close> return the new file for that chunk and leaves every other chunk alone; it
  keeps the well-formedness that \<open>Save\<close> relies on.\<close>

theorem AddChunk_GetChunk:
  "GetChunk k (AddChunk guid f m) = (if k = guid then Some f else GetChunk k m) \<and>
   (lm_wf m \<and> guid_ok guid \<longrightarrow> lm_wf (AddChunk guid f m))"
proof -
  have "set (map_put k v xs) \<subseteq> insert (k, v) (set xs)" for k :: guid and v and xs :: "(guid \<times> chunk_info) list"
    by (induction k v xs rule: map_put.induct) auto
  then show ?thesis
    by (fastforce simp: GetChunk_def AddChunk_def lm_wf_def)
qed

end
