(* ===== verification/Frosty_Mod.thy ===== *)
theory Frosty_Mod
  imports Bundle_Manifest
begin

text \<open>
  The reader of Frosty mod files the module links
  (\<^verbatim>\<open>Module/ThirdParty/FBRuntimeTweaker/FBRuntimeTweaker/source/frosty_mod.c\<close>, \<^verbatim>\<open>frosty_resource.c\<close>,
  \<^verbatim>\<open>parse_common.c\<close>): the mod header, the details and the list of resources, from a \<^verbatim>\<open>FILE\<close>.

  A \<^verbatim>\<open>FILE\<close> is its contents and its position. \<^verbatim>\<open>fread\<close> of one item at the end of the file leaves the
  destination as it was, which the code does not check; an item cut short has an indeterminate value in C and
  is an error of the model. Every destination starts zeroed, so the value it keeps is an argument of the read.

  The macro \<^verbatim>\<open>RT_SAFE_RET(e)\<close> expands to \<^verbatim>\<open>if (e != RT_SUCCESS) return e\<close>: the call that failed is made a second
  time, on the state the first one left, and the second result is what the function returns. \<open>SAFE_RET\<close>
  models that. Memory allocation is assumed to succeed.
\<close>

type_synonym rt_code = int

abbreviation RT_SUCCESS :: rt_code where "RT_SUCCESS \<equiv> 0"
abbreviation RT_ERROR_READ_FAILED :: rt_code where "RT_ERROR_READ_FAILED \<equiv> 1"
abbreviation RT_ERROR_INVALID_ARGUMENT :: rt_code where "RT_ERROR_INVALID_ARGUMENT \<equiv> 2"
abbreviation RT_ERROR_INVALID_MOD_HEADER :: rt_code where "RT_ERROR_INVALID_MOD_HEADER \<equiv> 65536"

abbreviation FrostyResourceType_Embedded :: u32 where "FrostyResourceType_Embedded \<equiv> 1"
abbreviation FrostyResourceType_Ebx :: u32 where "FrostyResourceType_Ebx \<equiv> 2"
abbreviation FrostyResourceType_Res :: u32 where "FrostyResourceType_Res \<equiv> 3"
abbreviation FrostyResourceType_Chunk :: u32 where "FrostyResourceType_Chunk \<equiv> 4"
abbreviation FrostyResourceType_Bundle :: u32 where "FrostyResourceType_Bundle \<equiv> 5"


section \<open>Files\<close>

record rt_file =
  f_data :: bytes
  f_pos :: nat

definition f_rest :: "rt_file \<Rightarrow> bytes" where
  "f_rest f = drop (f_pos f) (f_data f)"

definition fwd :: "nat \<Rightarrow> rt_file \<Rightarrow> rt_file" where
  "fwd n f = f\<lparr>f_pos := f_pos f + n\<rparr>"

definition fseek :: "int \<Rightarrow> rt_file \<Rightarrow> rt_file" where
  "fseek off f = (if 0 \<le> off then f\<lparr>f_pos := nat off\<rparr> else f)"

definition fread :: "bytes \<Rightarrow> rt_file \<Rightarrow> (bytes \<times> rt_file) result" where
  "fread old f =
    (if length old \<le> length (f_rest f) then Inr (take (length old) (f_rest f), fwd (length old) f)
     else if f_rest f = [] then Inr (old, f)
     else Inl Bad_Format)"

definition fread_u8 :: "u8 \<Rightarrow> rt_file \<Rightarrow> (u8 \<times> rt_file) result" where
  "fread_u8 old f = (case fread [old] f of Inl e \<Rightarrow> Inl e | Inr (bs, f') \<Rightarrow> Inr (hd bs, f'))"

definition fread_u32 :: "u32 \<Rightarrow> rt_file \<Rightarrow> (u32 \<times> rt_file) result" where
  "fread_u32 old f = (case fread (bytes32 old) f of Inl e \<Rightarrow> Inl e | Inr (bs, f') \<Rightarrow> Inr (word32 bs, f'))"

definition fread_u64 :: "u64 \<Rightarrow> rt_file \<Rightarrow> (u64 \<times> rt_file) result" where
  "fread_u64 old f = (case fread (bytes64 old) f of Inl e \<Rightarrow> Inl e | Inr (bs, f') \<Rightarrow> Inr (word64 bs, f'))"

definition RT_ReadSizedString :: "rt_file \<Rightarrow> (string \<times> rt_file) result" where
  "RT_ReadSizedString f =
    (case fread_u8 0 f of
       Inl e \<Rightarrow> Inl e
     | Inr (n, f1) \<Rightarrow>
         if unat n \<le> length (f_rest f1) then Inr (bytes_str (take (unat n) (f_rest f1)), fwd (unat n) f1)
         else Inl Bad_Format)"

definition RT_ReadTerminatedString :: "rt_file \<Rightarrow> rt_code \<times> string \<times> rt_file" where
  "RT_ReadTerminatedString f =
    (let s = takeWhile (\<lambda>b. b \<noteq> 0) (f_rest f)
     in if length s < length (f_rest f) then (RT_SUCCESS, bytes_str s, fwd (length s + 1) f)
        else (RT_ERROR_READ_FAILED, bytes_str s, fwd (length s) f))"

text \<open>\<^verbatim>\<open>fread(resource->resMeta, metaSize, 1, fp)\<close>: the size is not checked against the 16 bytes of the destination.\<close>

definition fread_meta :: "u32 \<Rightarrow> bytes \<Rightarrow> rt_file \<Rightarrow> (bytes \<times> rt_file) result" where
  "fread_meta metaSize old f =
    (if metaSize > 16 then (if f_rest f = [] then Inr (old, f) else Inl Out_Of_Bounds)
     else case fread (take (unat metaSize) old) f of
            Inl e \<Rightarrow> Inl e
          | Inr (bs, f') \<Rightarrow> Inr (bs @ drop (unat metaSize) old, f'))"


section \<open>Functions that return an error code\<close>

type_synonym 's act = "'s \<Rightarrow> (rt_code \<times> 's) result"

definition RETURN :: "rt_code \<Rightarrow> 's act" where
  "RETURN c s = Inr (c, s)"

definition SAFE_RET :: "'s act \<Rightarrow> 's act \<Rightarrow> 's act" where
  "SAFE_RET a k s =
    (case a s of
       Inl e \<Rightarrow> Inl e
     | Inr (c, s1) \<Rightarrow> if c \<noteq> RT_SUCCESS then a s1 else k s1)"

definition READ :: "('s \<Rightarrow> 's result) \<Rightarrow> 's act \<Rightarrow> 's act" where
  "READ r k s = (case r s of Inl e \<Rightarrow> Inl e | Inr s1 \<Rightarrow> k s1)"

definition WHEN :: "('s \<Rightarrow> bool) \<Rightarrow> 's act \<Rightarrow> 's act" where
  "WHEN P a s = (if P s then a s else Inr (RT_SUCCESS, s))"


section \<open>Resources\<close>

record rt_resource =
  r_type :: u32
  r_resourceIndex :: u32
  r_name :: "string option"
  r_sha1 :: bytes
  r_size :: u64
  r_flags :: u8
  r_handlerHash :: u32
  r_userData :: "string option"
  r_addedBundles :: "u32 list"
  r_resType :: u32
  r_resRid :: u64
  r_resMeta :: bytes
  r_rangeStart :: u32
  r_rangeEnd :: u32
  r_logicalOffset :: u32
  r_logicalSize :: u32
  r_h32 :: u32
  r_firstMip :: u32

definition rt_zero :: rt_resource where
  "rt_zero = \<lparr>r_type = 0, r_resourceIndex = 0, r_name = None, r_sha1 = replicate 20 0, r_size = 0, r_flags = 0,
    r_handlerHash = 0, r_userData = None, r_addedBundles = [], r_resType = 0, r_resRid = 0, r_resMeta = replicate 16 0,
    r_rangeStart = 0, r_rangeEnd = 0, r_logicalOffset = 0, r_logicalSize = 0, r_h32 = 0, r_firstMip = 0\<rparr>"

type_synonym parse_state = "rt_resource \<times> rt_file"

text \<open>One read into a field of the resource.\<close>

definition field :: "('v \<Rightarrow> rt_file \<Rightarrow> ('v \<times> rt_file) result) \<Rightarrow> (rt_resource \<Rightarrow> 'v) \<Rightarrow> (('v \<Rightarrow> 'v) \<Rightarrow> rt_resource \<Rightarrow> rt_resource) \<Rightarrow>
    parse_state \<Rightarrow> parse_state result" where
  "field rd get upd s =
    (case s of (r, f) \<Rightarrow> (case rd (get r) f of Inl e \<Rightarrow> Inl e | Inr (v, f') \<Rightarrow> Inr (upd (\<lambda>_. v) r, f')))"

definition read_type :: "u32 \<Rightarrow> rt_file \<Rightarrow> (u32 \<times> rt_file) result" where
  "read_type old f = (case fread_u8 (ucast old) f of
     Inl e \<Rightarrow> Inl e | Inr (b, f') \<Rightarrow> Inr (word32 (b # tl (bytes32 old)), f'))"

definition read_name :: "parse_state act" where
  "read_name s = (case s of (r, f) \<Rightarrow> (case RT_ReadTerminatedString f of (c, n, f') \<Rightarrow> Inr (c, (r\<lparr>r_name := Some n\<rparr>, f'))))"

definition read_userData :: "parse_state act" where
  "read_userData s = (case s of (r, f) \<Rightarrow> (case RT_ReadTerminatedString f of (c, n, f') \<Rightarrow> Inr (c, (r\<lparr>r_userData := Some n\<rparr>, f'))))"

primrec skip_ints :: "nat \<Rightarrow> rt_file \<Rightarrow> rt_file result" where
  "skip_ints 0 f = Inr f"
| "skip_ints (Suc n) f = (case fread_u32 0 f of Inl e \<Rightarrow> Inl e | Inr (_, f') \<Rightarrow> skip_ints n f')"

primrec read_hashes :: "nat \<Rightarrow> rt_file \<Rightarrow> (u32 list \<times> rt_file) result" where
  "read_hashes 0 f = Inr ([], f)"
| "read_hashes (Suc n) f =
    (case fread_u32 0 f of
       Inl e \<Rightarrow> Inl e
     | Inr (h, f') \<Rightarrow> (case read_hashes n f' of Inl e \<Rightarrow> Inl e | Inr (hs, f'') \<Rightarrow> Inr (h # hs, f'')))"

text \<open>A loop that counts up to a signed 32-bit number.\<close>

definition times :: "u32 \<Rightarrow> nat" where
  "times n = nat (sint n)"

definition read_bundles :: "u32 \<Rightarrow> parse_state \<Rightarrow> parse_state result" where
  "read_bundles version s =
    (case s of (r, f) \<Rightarrow>
     let r = r\<lparr>r_addedBundles := []\<rparr> in
     if version \<le> 3 \<and> r_resourceIndex r \<noteq> -1 then
       (case fread_u32 0 f of
          Inl e \<Rightarrow> Inl e
        | Inr (n, f1) \<Rightarrow>
            (case skip_ints (times n) f1 of
               Inl e \<Rightarrow> Inl e
             | Inr f2 \<Rightarrow>
                 (case fread_u32 n f2 of
                    Inl e \<Rightarrow> Inl e
                  | Inr (n, f3) \<Rightarrow>
                      (case read_hashes (times n) f3 of
                         Inl e \<Rightarrow> Inl e
                       | Inr (hs, f4) \<Rightarrow> Inr (r\<lparr>r_addedBundles := hs\<rparr>, f4)))))
     else if version > 3 then
       (case fread_u32 0 f of
          Inl e \<Rightarrow> Inl e
        | Inr (n, f1) \<Rightarrow>
            (case read_hashes (times n) f1 of
               Inl e \<Rightarrow> Inl e
             | Inr (hs, f2) \<Rightarrow> Inr (r\<lparr>r_addedBundles := hs\<rparr>, f2)))
     else Inr (r, f))"

definition skip_count :: "parse_state \<Rightarrow> parse_state result" where
  "skip_count s = (case s of (r, f) \<Rightarrow> (case fread_u32 0 f of Inl e \<Rightarrow> Inl e | Inr (_, f') \<Rightarrow> Inr (r, f')))"

definition read_resMeta :: "parse_state \<Rightarrow> parse_state result" where
  "read_resMeta s =
    (case s of (r, f) \<Rightarrow>
     (case fread_u32 0 f of
        Inl e \<Rightarrow> Inl e
      | Inr (n, f1) \<Rightarrow>
          (case fread_meta n (r_resMeta r) f1 of Inl e \<Rightarrow> Inl e | Inr (m, f2) \<Rightarrow> Inr (r\<lparr>r_resMeta := m\<rparr>, f2))))"

definition fix_firstMip :: "rt_resource \<Rightarrow> rt_resource" where
  "fix_firstMip r = (if r_firstMip r = -1 \<and> r_rangeStart r \<noteq> 0 then r\<lparr>r_firstMip := 0\<rparr> else r)"

text \<open>The last step of every path: a resource without a name is called \<^verbatim>\<open>Empty\<close>.\<close>

definition finish :: "parse_state act" where
  "finish s = (case s of (r, f) \<Rightarrow>
     Inr (RT_SUCCESS, (if r_name r = None then r\<lparr>r_name := Some ''Empty''\<rparr> else r, f)))"

definition parse_special :: "parse_state act" where
  "parse_special s =
    (if r_type (fst s) = FrostyResourceType_Bundle then SAFE_RET read_name (READ skip_count finish) s
     else if r_type (fst s) = FrostyResourceType_Res then
       READ (field fread_u32 r_resType r_resType_update)
       (READ (field fread_u64 r_resRid r_resRid_update)
       (READ read_resMeta finish)) s
     else if r_type (fst s) = FrostyResourceType_Chunk then
       READ (field fread_u32 r_rangeStart r_rangeStart_update)
       (READ (field fread_u32 r_rangeEnd r_rangeEnd_update)
       (READ (field fread_u32 r_logicalOffset r_logicalOffset_update)
       (READ (field fread_u32 r_logicalSize r_logicalSize_update)
       (READ (field fread_u32 r_h32 r_h32_update)
       (READ (field fread_u32 r_firstMip r_firstMip_update)
       (READ (\<lambda>(r, f). Inr (fix_firstMip r, f)) finish)))))) s
     else finish s)"

definition parse_bundles :: "u32 \<Rightarrow> parse_state act" where
  "parse_bundles version = READ (read_bundles version) parse_special"

definition parse_data :: "u32 \<Rightarrow> parse_state act" where
  "parse_data version s =
    (if r_resourceIndex (fst s) \<noteq> -1 then
       READ (field fread r_sha1 r_sha1_update)
       (READ (field fread_u64 r_size r_size_update)
       (READ (field fread_u8 r_flags r_flags_update)
       (READ (field fread_u32 r_handlerHash r_handlerHash_update)
       (if version \<ge> 3 then SAFE_RET read_userData (parse_bundles version)
        else READ (\<lambda>(r, f). Inr (r\<lparr>r_userData := None\<rparr>, f)) (parse_bundles version))))) s
     else parse_bundles version s)"

definition RT_FrostyParseResource :: "u32 \<Rightarrow> parse_state act" where
  "RT_FrostyParseResource version =
    READ (field read_type r_type r_type_update)
    (READ (\<lambda>(r, f). Inr (r\<lparr>r_type := r_type r + 1\<rparr>, f))
    (READ (field fread_u32 r_resourceIndex r_resourceIndex_update)
    (\<lambda>s. if version \<le> 3 \<and> r_resourceIndex (fst s) \<noteq> -1 \<or> version > 3
         then SAFE_RET read_name (parse_data version) s
         else READ (\<lambda>(r, f). Inr (r\<lparr>r_name := None\<rparr>, f)) (parse_data version) s)))"

text \<open>The list is stored only when the loop ends: \<open>None\<close> is the null pointer the mod keeps otherwise.\<close>

fun parse_loop :: "nat \<Rightarrow> u32 \<Rightarrow> rt_resource list \<Rightarrow> rt_file \<Rightarrow> (rt_code \<times> rt_resource list option \<times> rt_file) result" where
  "parse_loop 0 version arr f = Inr (RT_SUCCESS, Some arr, f)"
| "parse_loop (Suc n) version arr f =
    (case RT_FrostyParseResource version (rt_zero, f) of
       Inl e \<Rightarrow> Inl e
     | Inr (c, (r, f1)) \<Rightarrow>
         if c \<noteq> RT_SUCCESS
         then (case RT_FrostyParseResource version (r, f1) of
                 Inl e \<Rightarrow> Inl e | Inr (c', (_, f2)) \<Rightarrow> Inr (c', None, f2))
         else parse_loop n version (arr @ [r]) f1)"

definition RT_FrostyParseResources :: "u32 \<Rightarrow> rt_file \<Rightarrow> (rt_code \<times> rt_resource list option \<times> rt_file) result" where
  "RT_FrostyParseResources version f =
    (case fread_u32 0 f of Inl e \<Rightarrow> Inl e | Inr (count, f1) \<Rightarrow> parse_loop (times count) version [] f1)"


section \<open>Mods\<close>

record rt_mod =
  rm_magic :: u64
  rm_version :: u32
  rm_dataOffset :: u64
  rm_dataCount :: u32
  rm_gameVersion :: u32
  rm_profile :: string
  rm_title :: string
  rm_author :: string
  rm_category :: string
  rm_modVersion :: string
  rm_description :: string
  rm_link :: string
  rm_resources :: "rt_resource list option"
  rm_file :: rt_file

definition kFrostyMagic :: u64 where "kFrostyMagic = 0x01005954534F5246"

definition rt_mod_zero :: "rt_file \<Rightarrow> rt_mod" where
  "rt_mod_zero f = \<lparr>rm_magic = 0, rm_version = 0, rm_dataOffset = 0, rm_dataCount = 0, rm_gameVersion = 0, rm_profile = [],
    rm_title = [], rm_author = [], rm_category = [], rm_modVersion = [], rm_description = [], rm_link = [],
    rm_resources = None, rm_file = f\<rparr>"

definition ParseModHeader :: "rt_mod act" where
  "ParseModHeader m =
    (case fread_u64 0 (rm_file m) of
       Inl e \<Rightarrow> Inl e
     | Inr (magic, f1) \<Rightarrow>
    (case fread_u32 0 f1 of
       Inl e \<Rightarrow> Inl e
     | Inr (version, f2) \<Rightarrow>
         let m = m\<lparr>rm_magic := magic, rm_version := version, rm_file := f2\<rparr> in
         if magic \<noteq> kFrostyMagic \<or> version < 1 \<or> version > 5 then Inr (RT_ERROR_INVALID_MOD_HEADER, m)
         else
    (case fread_u64 0 f2 of
       Inl e \<Rightarrow> Inl e
     | Inr (off, f3) \<Rightarrow>
    (case fread_u32 0 f3 of
       Inl e \<Rightarrow> Inl e
     | Inr (cnt, f4) \<Rightarrow>
    (case RT_ReadSizedString f4 of
       Inl e \<Rightarrow> Inl e
     | Inr (profile, f5) \<Rightarrow>
    (case fread_u32 0 f5 of
       Inl e \<Rightarrow> Inl e
     | Inr (gv, f6) \<Rightarrow>
         Inr (RT_SUCCESS, m\<lparr>rm_dataOffset := off, rm_dataCount := cnt, rm_profile := profile, rm_gameVersion := gv,
           rm_file := f6\<rparr>)))))))"

definition read_detail :: "((string \<Rightarrow> string) \<Rightarrow> rt_mod \<Rightarrow> rt_mod) \<Rightarrow> rt_mod act" where
  "read_detail upd m = (case RT_ReadTerminatedString (rm_file m) of (c, s, f) \<Rightarrow> Inr (c, upd (\<lambda>_. s) (m\<lparr>rm_file := f\<rparr>)))"

definition ParseModDetails :: "rt_mod act" where
  "ParseModDetails =
    SAFE_RET (read_detail rm_title_update)
    (SAFE_RET (read_detail rm_author_update)
    (SAFE_RET (read_detail rm_category_update)
    (SAFE_RET (read_detail rm_modVersion_update)
    (SAFE_RET (read_detail rm_description_update)
    (\<lambda>m. if rm_version m \<ge> 5 then SAFE_RET (read_detail rm_link_update) (RETURN RT_SUCCESS) m
         else RETURN RT_SUCCESS m)))))"

definition RT_FrostyLoadMod :: "bytes \<Rightarrow> (rt_code \<times> rt_mod option) result" where
  "RT_FrostyLoadMod contents =
    (case ParseModHeader (rt_mod_zero \<lparr>f_data = contents, f_pos = 0\<rparr>) of
       Inl e \<Rightarrow> Inl e
     | Inr (c, m) \<Rightarrow>
         if c \<noteq> RT_SUCCESS then Inr (c, None)
         else
    (case ParseModDetails m of
       Inl e \<Rightarrow> Inl e
     | Inr (c, m) \<Rightarrow>
         if c \<noteq> RT_SUCCESS then Inr (c, None)
         else
    (case RT_FrostyParseResources (rm_version m) (rm_file m) of
       Inl e \<Rightarrow> Inl e
     | Inr (c, rs, f) \<Rightarrow>
         if c \<noteq> RT_SUCCESS then Inr (c, None)
         else Inr (RT_SUCCESS, Some (m\<lparr>rm_resources := rs, rm_file := f\<rparr>)))))"

section \<open>Resource data\<close>

unbundle bit_operations_syntax

definition SwapEndiannessU16 :: "u16 \<Rightarrow> u16" where
  "SwapEndiannessU16 v = push_bit 8 (v AND 0x00FF) OR drop_bit 8 (v AND 0xFF00)"

text \<open>
  \<^verbatim>\<open>ZSTD_decompress\<close> is the argument \<open>zstd\<close>: from the capacity and the compressed block, the output or an error.
  The sizes of the blocks are not checked against the buffer; a block that reaches past its end is an error of
  the model, and so is an output shorter than the capacity, whose missing bytes are never set.
\<close>

function RT_FrostyDecompressEbx :: "(u32 \<Rightarrow> bytes \<Rightarrow> bytes option) \<Rightarrow> bytes \<Rightarrow> bytes \<Rightarrow> (rt_code \<times> bytes option) result" where
  "RT_FrostyDecompressEbx zstd b out =
    (if b = [] then Inr (RT_SUCCESS, Some out)
     else if length b < 8 then Inl Out_Of_Bounds
     else
       let bufferSize = SwapEndiannessU32 (word32 (take 4 b));
           compressSize = unat (SwapEndiannessU16 (word16 (take 2 (drop 6 b))))
       in if bufferSize > 0x10000 then Inr (65537, None)
          else if length b < 8 + compressSize then Inl Out_Of_Bounds
          else (case zstd bufferSize (take compressSize (drop 8 b)) of
                  None \<Rightarrow> Inr (4, None)
                | Some o' \<Rightarrow>
                    if length o' \<noteq> unat bufferSize then Inl Bad_Format
                    else RT_FrostyDecompressEbx zstd (drop (8 + compressSize) b) (out @ o')))"
  by auto
termination by (relation "measure (\<lambda>(_, b, _). length b)") auto

text \<open>\<^verbatim>\<open>index * 16\<close> is computed in \<^verbatim>\<open>int\<close>, where an overflow is undefined.\<close>

definition times16 :: "u32 \<Rightarrow> int result" where
  "times16 v = (let x = sint v * 16 in if - (2 ^ 31) \<le> x \<and> x < 2 ^ 31 then Inr x else Inl Out_Of_Bounds)"

text \<open>The place of the data of an entry of the table of the mod: its absolute offset and its size.\<close>

definition data_entry :: "rt_mod \<Rightarrow> u32 \<Rightarrow> (int \<times> u64 \<times> rt_file) result" where
  "data_entry m idx =
    (case times16 idx of
       Inl e \<Rightarrow> Inl e
     | Inr i \<Rightarrow>
    (case fread_u64 0 (fseek (sint (rm_dataOffset m) + i) (rm_file m)) of
       Inl e \<Rightarrow> Inl e
     | Inr (dataOffset, f1) \<Rightarrow>
    (case fread_u64 0 f1 of
       Inl e \<Rightarrow> Inl e
     | Inr (dataSize, f2) \<Rightarrow>
    (case times16 (rm_dataCount m) of
       Inl e \<Rightarrow> Inl e
     | Inr n \<Rightarrow> Inr (sint (rm_dataOffset m) + n + sint dataOffset, dataSize, f2)))))"

text \<open>An allocation of \<open>2 ^ 63\<close> bytes or more fails; its error code is that of success, and the buffer stays unset.\<close>

definition RT_FrostyReadModResource :: "(u32 \<Rightarrow> bytes \<Rightarrow> bytes option) \<Rightarrow> rt_mod \<Rightarrow> rt_resource \<Rightarrow>
    ((rt_code \<times> bytes option) \<times> rt_file) result" where
  "RT_FrostyReadModResource zstd m r =
    (if r_resourceIndex r = -1 then Inr ((RT_ERROR_INVALID_ARGUMENT, None), rm_file m)
     else case data_entry m (r_resourceIndex r) of
       Inl e \<Rightarrow> Inl e
     | Inr (offset, dataSize, f) \<Rightarrow>
         let f = fseek offset f in
         if sint dataSize < 0 then Inr ((RT_SUCCESS, None), f)
         else if length (f_rest f) < unat dataSize then Inl Bad_Format
         else
           let buffer = take (unat dataSize) (f_rest f); f = fwd (unat dataSize) f
           in if (r_type r = FrostyResourceType_Ebx \<or> r_type r = FrostyResourceType_Res \<or> r_type r = FrostyResourceType_Chunk) \<and>
                 r_handlerHash r = 0
              then (case RT_FrostyDecompressEbx zstd buffer [] of Inl e \<Rightarrow> Inl e | Inr x \<Rightarrow> Inr (x, f))
              else Inr ((RT_SUCCESS, Some buffer), f))"

section \<open>Reading back a file\<close>

lemma f_rest_fwd [simp]: "f_rest (fwd n f) = drop n (f_rest f)"
  by (simp add: f_rest_def fwd_def add.commute)

definition reads :: "(rt_file \<Rightarrow> ('a \<times> rt_file) result) \<Rightarrow> 'a \<Rightarrow> bytes \<Rightarrow> bool" where
  "reads rd x xs \<longleftrightarrow> (\<forall>f ys. f_rest f = xs @ ys \<longrightarrow> rd f = Inr (x, fwd (length xs) f))"

lemma reads_fread: "length old = length xs \<Longrightarrow> reads (fread old) xs xs"
  by (simp add: reads_def fread_def)

lemma reads_ints: "reads (fread_u8 a) b [b]" "reads (fread_u32 c) d (bytes32 d)" "reads (fread_u64 e) g (bytes64 g)"
  by (simp_all add: reads_def fread_u8_def fread_u32_def fread_u64_def fread_def)

lemma reads_string:
  assumes "NUL \<notin> set s" "f_rest f = str_bytes s @ 0 # ys"
  shows "RT_ReadTerminatedString f = (RT_SUCCESS, s, fwd (length s + 1) f)"
proof -
  have "takeWhile (\<lambda>b. b \<noteq> 0) (str_bytes s @ 0 # ys) = str_bytes s"
    using assms(1) by (induction s) (auto simp: str_bytes_def)
  then show ?thesis by (simp add: RT_ReadTerminatedString_def assms(2))
qed

lemma reads_string_eof:
  assumes "NUL \<notin> set s" "f_rest f = str_bytes s"
  shows "RT_ReadTerminatedString f = (RT_ERROR_READ_FAILED, s, fwd (length s) f)"
proof -
  have "takeWhile (\<lambda>b. b \<noteq> 0) (str_bytes s) = str_bytes s"
    using assms(1) by (induction s) (auto simp: str_bytes_def)
  then show ?thesis by (simp only: RT_ReadTerminatedString_def assms(2) Let_def) simp
qed

declare RT_FrostyDecompressEbx.simps [simp del]

lemma fwd_fwd [simp]: "fwd m (fwd n f) = fwd (n + m) f"
  by (simp add: fwd_def)

text \<open>
  \<open>does a r r' xs\<close>: started where the file continues with \<open>xs\<close>, the step \<open>a\<close> succeeds, takes the resource from \<open>r\<close> to
  \<open>r'\<close> and stops after \<open>xs\<close>.
\<close>

definition does :: "parse_state act \<Rightarrow> rt_resource \<Rightarrow> rt_resource \<Rightarrow> bytes \<Rightarrow> bool" where
  "does a r r' xs \<longleftrightarrow> (\<forall>f ys. f_rest f = xs @ ys \<longrightarrow> a (r, f) = Inr (RT_SUCCESS, (r', fwd (length xs) f)))"

lemma does_field: "reads (rd (get r)) v xs \<Longrightarrow> does k (upd (\<lambda>_. v) r) r' ys \<Longrightarrow> does (READ (field rd get upd) k) r r' (xs @ ys)"
  by (simp add: does_def READ_def field_def reads_def)

lemma does_ints:
  "does k (upd32 (\<lambda>_. v32) r) r' ys \<Longrightarrow> does (READ (field fread_u32 get32 upd32) k) r r' (bytes32 v32 @ ys)"
  "does k (upd64 (\<lambda>_. v64) r) r' ys \<Longrightarrow> does (READ (field fread_u64 get64 upd64) k) r r' (bytes64 v64 @ ys)"
  "does k (upd8 (\<lambda>_. v8) r) r' ys \<Longrightarrow> does (READ (field fread_u8 get8 upd8) k) r r' ([v8] @ ys)"
  by (rule does_field [OF reads_ints(2)] does_field [OF reads_ints(3)] does_field [OF reads_ints(1)]; assumption)+

lemma does_pure: "does k (g r) r' xs \<Longrightarrow> does (READ (\<lambda>(r, f). Inr (g r, f)) k) r r' xs"
  by (simp add: does_def READ_def)

lemma does_read: "(\<And>f zs. f_rest f = xs @ zs \<Longrightarrow> rd (r, f) = Inr (r1, fwd (length xs) f)) \<Longrightarrow> does k r1 r' ys \<Longrightarrow>
    does (READ rd k) r r' (xs @ ys)"
  by (simp add: does_def READ_def)

lemma does_name: "NUL \<notin> set n \<Longrightarrow> does k (r\<lparr>r_name := Some n\<rparr>) r' ys \<Longrightarrow> does (SAFE_RET read_name k) r r' ((str_bytes n @ [0]) @ ys)"
  by (simp add: does_def SAFE_RET_def read_name_def reads_string)

lemma does_userData: "NUL \<notin> set n \<Longrightarrow> does k (r\<lparr>r_userData := Some n\<rparr>) r' ys \<Longrightarrow>
    does (SAFE_RET read_userData k) r r' ((str_bytes n @ [0]) @ ys)"
  by (simp add: does_def SAFE_RET_def read_userData_def reads_string)

lemma does_if: "(P r \<Longrightarrow> does a r r' xs) \<Longrightarrow> (\<not> P r \<Longrightarrow> does b r r' xs) \<Longrightarrow> does (\<lambda>s. if P (fst s) then a s else b s) r r' xs"
  by (simp add: does_def)

lemma does_finish: "r_name r \<noteq> None \<Longrightarrow> does finish r r []"
  by (simp add: does_def finish_def fwd_def)

lemma reads_type: "x < 256 \<Longrightarrow> reads (read_type 0) (word_of_nat x) [word_of_nat x]"
proof -
  assume "x < 256"
  then have "unat (word_of_nat x :: u8) = x" by (simp add: unat_of_nat take_bit_eq_mod)
  moreover have "bytes32 0 = [0, 0, 0, 0]" by code_simp
  ultimately have "word32 (word_of_nat x # tl (bytes32 0)) = word_of_nat x"
    by (simp add: word32_def)
  then show ?thesis by (simp add: reads_def read_type_def fread_u8_def fread_def)
qed

lemma read_hashes_at: "f_rest f = concat (map bytes32 hs) @ ys \<Longrightarrow> read_hashes (length hs) f = Inr (hs, fwd (4 * length hs) f)"
proof (induction hs arbitrary: f)
  case Nil then show ?case by (simp add: fwd_def)
next
  case (Cons h hs)
  then show ?case using reads_ints(2) [of 0 h] by (simp add: reads_def)
qed

text \<open>The encoding of a resource in the versions 4 and 5 of the format.\<close>

definition bundles_enc :: "u32 list \<Rightarrow> bytes" where
  "bundles_enc hs = bytes32 (word_of_nat (length hs)) @ concat (map bytes32 hs)"

lemma does_bundles:
  assumes "version > 3" "length hs < 2 ^ 31" "does k (r\<lparr>r_addedBundles := hs\<rparr>) r' ys"
  shows "does (READ (read_bundles version) k) r r' (bundles_enc hs @ ys)"
proof (rule does_read [OF _ assms(3)])
  fix f zs assume f: "f_rest f = bundles_enc hs @ zs"
  have "times (word_of_nat (length hs)) = length hs" using assms(2) by (simp add: times_def sint_small)
  moreover have "fread_u32 0 f = Inr (word_of_nat (length hs), fwd 4 f)"
    using f reads_ints(2) [of 0 "word_of_nat (length hs)"] by (simp add: reads_def bundles_enc_def)
  ultimately show "read_bundles version (r, f) = Inr (r\<lparr>r_addedBundles := hs\<rparr>, fwd (length (bundles_enc hs)) f)"
    using assms(1) f read_hashes_at [of "fwd 4 f" hs zs]
    by (simp add: read_bundles_def bundles_enc_def not_le [symmetric])
qed

definition special_enc :: "rt_resource \<Rightarrow> bytes" where
  "special_enc r =
    (if r_type r = FrostyResourceType_Bundle then (str_bytes (the (r_name r)) @ [0]) @ bytes32 0
     else if r_type r = FrostyResourceType_Res
       then bytes32 (r_resType r) @ bytes64 (r_resRid r) @ (bytes32 16 @ r_resMeta r)
     else if r_type r = FrostyResourceType_Chunk
       then bytes32 (r_rangeStart r) @ bytes32 (r_rangeEnd r) @ bytes32 (r_logicalOffset r) @ bytes32 (r_logicalSize r) @
         bytes32 (r_h32 r) @ bytes32 (r_firstMip r)
     else [])"

definition data_enc :: "rt_resource \<Rightarrow> bytes" where
  "data_enc r =
    (if r_resourceIndex r = -1 then []
     else r_sha1 r @ bytes64 (r_size r) @ [r_flags r] @ bytes32 (r_handlerHash r) @ (str_bytes (the (r_userData r)) @ [0]))"

definition resource_enc :: "rt_resource \<Rightarrow> bytes" where
  "resource_enc r = [ucast (r_type r - 1)] @ bytes32 (r_resourceIndex r) @ (str_bytes (the (r_name r)) @ [0]) @
    data_enc r @ bundles_enc (r_addedBundles r) @ special_enc r"

definition resource_ok :: "rt_resource \<Rightarrow> bool" where
  "resource_ok r \<longleftrightarrow> 1 \<le> r_type r \<and> r_type r \<le> 255 \<and> r_name r \<noteq> None \<and> NUL \<notin> set (the (r_name r)) \<and>
    length (r_addedBundles r) < 2 ^ 31 \<and> length (r_sha1 r) = 20 \<and> length (r_resMeta r) = 16 \<and>
    (if r_resourceIndex r = -1
     then r_sha1 r = replicate 20 0 \<and> r_size r = 0 \<and> r_flags r = 0 \<and> r_handlerHash r = 0 \<and> r_userData r = None
     else r_userData r \<noteq> None \<and> NUL \<notin> set (the (r_userData r))) \<and>
    (r_type r \<noteq> FrostyResourceType_Res \<longrightarrow> r_resType r = 0 \<and> r_resRid r = 0 \<and> r_resMeta r = replicate 16 0) \<and>
    (if r_type r = FrostyResourceType_Chunk then r_firstMip r = -1 \<longrightarrow> r_rangeStart r = 0
     else r_rangeStart r = 0 \<and> r_rangeEnd r = 0 \<and> r_logicalOffset r = 0 \<and> r_logicalSize r = 0 \<and> r_h32 r = 0 \<and> r_firstMip r = 0)"

lemma does_resMeta:
  assumes "length m = 16" "length (r_resMeta r) = 16" "does k (r\<lparr>r_resMeta := m\<rparr>) r' ys"
  shows "does (READ read_resMeta k) r r' ((bytes32 16 @ m) @ ys)"
proof (rule does_read [OF _ assms(3)])
  fix f zs assume f: "f_rest f = (bytes32 16 @ m) @ zs"
  have "fread_u32 0 f = Inr (16, fwd 4 f)" using f reads_ints(2) [of 0 16] by (simp add: reads_def)
  then show "read_resMeta (r, f) = Inr (r\<lparr>r_resMeta := m\<rparr>, fwd (length (bytes32 16 @ m)) f)"
    using f assms(1,2) by (simp add: read_resMeta_def fread_meta_def fread_def)
qed

lemma does_skip_count: "does k r r' ys \<Longrightarrow> does (READ skip_count k) r r' (bytes32 0 @ ys)"
  using reads_ints(2) [of 0 0] by (intro does_read) (auto simp: skip_count_def reads_def)

lemma does_special:
  assumes ok: "resource_ok r" and r0: "r0 = r\<lparr>r_resType := 0, r_resRid := 0, r_resMeta := replicate 16 0, r_rangeStart := 0,
      r_rangeEnd := 0, r_logicalOffset := 0, r_logicalSize := 0, r_h32 := 0, r_firstMip := 0\<rparr>"
  shows "does parse_special r0 r (special_enc r)"
proof -
  have t: "r_type r0 = r_type r" by (simp add: r0)
  consider (bun) "r_type r = FrostyResourceType_Bundle" | (res) "r_type r = FrostyResourceType_Res"
    | (chunk) "r_type r = FrostyResourceType_Chunk"
    | (other) "r_type r \<noteq> FrostyResourceType_Bundle" "r_type r \<noteq> FrostyResourceType_Res" "r_type r \<noteq> FrostyResourceType_Chunk"
    by blast
  then show ?thesis
  proof cases
    case bun
    then have "r0 = r" using ok by (cases r) (simp add: r0 resource_ok_def)
    moreover have "does (SAFE_RET read_name (READ skip_count finish)) r r ((str_bytes (the (r_name r)) @ [0]) @ bytes32 0 @ [])"
      using ok by (intro does_name does_skip_count) (auto simp: resource_ok_def does_def finish_def fwd_def)
    ultimately show ?thesis using bun by (simp add: does_def parse_special_def special_enc_def)
  next
    case res
    then have r: "r = r0\<lparr>r_resType := r_resType r, r_resRid := r_resRid r, r_resMeta := r_resMeta r\<rparr>"
      using ok by (cases r) (simp add: r0 resource_ok_def)
    have "does (READ (field fread_u32 r_resType r_resType_update) (READ (field fread_u64 r_resRid r_resRid_update)
        (READ read_resMeta finish))) r0 r (bytes32 (r_resType r) @ bytes64 (r_resRid r) @ (bytes32 16 @ r_resMeta r) @ [])"
      using ok r by (intro does_ints does_resMeta) (simp_all add: does_finish resource_ok_def r0)
    then show ?thesis using res t by (simp add: does_def parse_special_def special_enc_def)
  next
    case chunk
    then have r: "fix_firstMip (r0\<lparr>r_rangeStart := r_rangeStart r, r_rangeEnd := r_rangeEnd r, r_logicalOffset := r_logicalOffset r,
        r_logicalSize := r_logicalSize r, r_h32 := r_h32 r, r_firstMip := r_firstMip r\<rparr>) = r"
      using ok by (cases r) (simp add: r0 resource_ok_def fix_firstMip_def)
    have "does (READ (field fread_u32 r_rangeStart r_rangeStart_update) (READ (field fread_u32 r_rangeEnd r_rangeEnd_update)
        (READ (field fread_u32 r_logicalOffset r_logicalOffset_update) (READ (field fread_u32 r_logicalSize r_logicalSize_update)
        (READ (field fread_u32 r_h32 r_h32_update) (READ (field fread_u32 r_firstMip r_firstMip_update)
        (READ (\<lambda>(r, f). Inr (fix_firstMip r, f)) finish))))))) r0 r (bytes32 (r_rangeStart r) @ bytes32 (r_rangeEnd r) @
         bytes32 (r_logicalOffset r) @ bytes32 (r_logicalSize r) @ bytes32 (r_h32 r) @ bytes32 (r_firstMip r) @ [])"
      using ok r by (intro does_ints does_pure) (simp add: does_finish resource_ok_def)
    then show ?thesis using chunk t by (simp add: does_def parse_special_def special_enc_def)
  next
    case other
    then have "r0 = r" using ok by (cases r) (auto simp add: r0 resource_ok_def)
    then show ?thesis using other does_finish [of r] ok
      by (simp add: does_def parse_special_def special_enc_def resource_ok_def)
  qed
qed

definition data_ok :: "rt_resource \<Rightarrow> bool" where
  "data_ok r \<longleftrightarrow> length (r_sha1 r) = 20 \<and>
    (if r_resourceIndex r = -1
     then r_sha1 r = replicate 20 0 \<and> r_size r = 0 \<and> r_flags r = 0 \<and> r_handlerHash r = 0 \<and> r_userData r = None
     else r_userData r \<noteq> None \<and> NUL \<notin> set (the (r_userData r)))"

lemma does_data:
  assumes "version > 3" "data_ok r" "r0 = r\<lparr>r_sha1 := replicate 20 0, r_size := 0, r_flags := 0, r_handlerHash := 0, r_userData := None\<rparr>"
    and k: "does (parse_bundles version) r r' ys"
  shows "does (parse_data version) r0 r' (data_enc r @ ys)"
proof (cases "r_resourceIndex r = -1")
  case True
  then have "r0 = r" using assms(2,3) by (cases r) (simp add: data_ok_def)
  then show ?thesis using True k by (simp add: does_def parse_data_def data_enc_def)
next
  case False
  have r: "r0\<lparr>r_sha1 := r_sha1 r, r_size := r_size r, r_flags := r_flags r, r_handlerHash := r_handlerHash r, r_userData := r_userData r\<rparr> = r"
    by (cases r) (simp add: assms(3))
  have v: "3 \<le> version" using assms(1) by (simp add: order_less_imp_le)
  have u: "Some (the (r_userData r)) = r_userData r" using assms(2) False by (auto simp: data_ok_def)
  have "does (READ (field fread r_sha1 r_sha1_update) (READ (field fread_u64 r_size r_size_update)
      (READ (field fread_u8 r_flags r_flags_update) (READ (field fread_u32 r_handlerHash r_handlerHash_update)
      (SAFE_RET read_userData (parse_bundles version)))))) r0 r'
      (r_sha1 r @ bytes64 (r_size r) @ [r_flags r] @ bytes32 (r_handlerHash r) @ (str_bytes (the (r_userData r)) @ [0]) @ ys)"
    using assms(2) False k r u
    by (intro does_field [OF reads_fread] does_ints does_userData) (auto simp: data_ok_def assms(3))
  then show ?thesis using False v by (simp add: does_def parse_data_def data_enc_def assms(3))
qed

lemma does_resource:
  assumes v: "version > 3" and ok: "resource_ok r"
  shows "does (RT_FrostyParseResource version) rt_zero r (resource_enc r)"
proof -
  let ?t = "r_type r - 1"
  let ?r1 = "rt_zero\<lparr>r_type := r_type r, r_resourceIndex := r_resourceIndex r, r_name := Some (the (r_name r))\<rparr>"
  let ?r2 = "?r1\<lparr>r_sha1 := r_sha1 r, r_size := r_size r, r_flags := r_flags r, r_handlerHash := r_handlerHash r, r_userData := r_userData r\<rparr>"
  let ?r3 = "?r2\<lparr>r_addedBundles := r_addedBundles r\<rparr>"
  have "?t < 256" using ok by (auto simp: resource_ok_def word_less_nat_alt word_le_nat_alt unat_sub_if')
  then have t: "unat ?t < 256" by (simp add: word_less_nat_alt)
  have type: "reads (read_type (r_type rt_zero)) ?t [ucast ?t]"
    using reads_type [OF t] by (simp add: rt_zero_def)
  have "does parse_special ?r3 r (special_enc r)"
    using ok by (intro does_special) (auto simp: rt_zero_def resource_ok_def)
  then have "does (parse_bundles version) ?r2 r (bundles_enc (r_addedBundles r) @ special_enc r)"
    unfolding parse_bundles_def using ok v by (intro does_bundles) (auto simp: resource_ok_def)
  then have "does (parse_data version) ?r1 r (data_enc ?r2 @ bundles_enc (r_addedBundles r) @ special_enc r)"
    using v ok by (intro does_data) (auto simp: data_ok_def resource_ok_def rt_zero_def)
  then have k: "does (SAFE_RET read_name (parse_data version)) (rt_zero\<lparr>r_type := r_type r, r_resourceIndex := r_resourceIndex r\<rparr>) r
      ((str_bytes (the (r_name r)) @ [0]) @ data_enc ?r2 @ bundles_enc (r_addedBundles r) @ special_enc r)"
    using ok by (intro does_name) (auto simp: resource_ok_def)
  have "data_enc ?r2 = data_enc r" by (simp add: data_enc_def)
  with k v show ?thesis
    unfolding RT_FrostyParseResource_def resource_enc_def
    by (intro does_field [where rd = read_type and get = r_type, OF type] does_pure does_ints) (simp add: does_def)
qed

lemma parse_loop_at:
  assumes "version > 3" "list_all resource_ok rs" "f_rest f = concat (map resource_enc rs) @ ys"
  shows "parse_loop (length rs) version arr f = Inr (RT_SUCCESS, Some (arr @ rs), fwd (length (concat (map resource_enc rs))) f)"
  using assms(2,3)
proof (induction rs arbitrary: arr f)
  case Nil then show ?case by (simp add: fwd_def)
next
  case (Cons r rs)
  have "RT_FrostyParseResource version (rt_zero, f) = Inr (RT_SUCCESS, (r, fwd (length (resource_enc r)) f))"
    using does_resource [OF assms(1), of r] Cons.prems by (simp add: does_def)
  then show ?case using Cons.IH [of "fwd (length (resource_enc r)) f" "arr @ [r]"] Cons.prems by simp
qed

text \<open>A whole mod file, and the headers and details that can be written.\<close>

definition header_enc :: "rt_mod \<Rightarrow> bytes" where
  "header_enc m = bytes64 (rm_magic m) @ bytes32 (rm_version m) @ bytes64 (rm_dataOffset m) @ bytes32 (rm_dataCount m) @
    (word_of_nat (length (rm_profile m)) # str_bytes (rm_profile m)) @ bytes32 (rm_gameVersion m)"

definition text_enc :: "string \<Rightarrow> bytes" where "text_enc s = str_bytes s @ [0]"

definition details_enc :: "rt_mod \<Rightarrow> bytes" where
  "details_enc m = text_enc (rm_title m) @ text_enc (rm_author m) @ text_enc (rm_category m) @ text_enc (rm_modVersion m) @
    text_enc (rm_description m) @ (if rm_version m \<ge> 5 then text_enc (rm_link m) else [])"

definition mod_enc :: "rt_mod \<Rightarrow> rt_resource list \<Rightarrow> bytes" where
  "mod_enc m rs = header_enc m @ details_enc m @ bytes32 (word_of_nat (length rs)) @ concat (map resource_enc rs)"

definition mod_ok :: "rt_mod \<Rightarrow> bool" where
  "mod_ok m \<longleftrightarrow> rm_magic m = kFrostyMagic \<and> 1 \<le> rm_version m \<and> rm_version m \<le> 5 \<and> length (rm_profile m) < 256 \<and>
    list_all (\<lambda>s. NUL \<notin> set s) [rm_title m, rm_author m, rm_category m, rm_modVersion m, rm_description m, rm_link m] \<and>
    (rm_version m < 5 \<longrightarrow> rm_link m = [])"

lemma reads_sized:
  assumes "length s < 256"
  shows "reads RT_ReadSizedString s (word_of_nat (length s) # str_bytes s)"
proof -
  have "unat (word_of_nat (length s) :: u8) = length s" using assms by (simp add: unat_u8_of_nat)
  then show ?thesis
    by (simp add: reads_def RT_ReadSizedString_def fread_u8_def fread_def)
qed

lemma readsD: "reads rd x xs \<Longrightarrow> f_rest f = xs @ ys \<Longrightarrow> rd f = Inr (x, fwd (length xs) f)"
  by (simp add: reads_def)

lemma ParseModHeader_at:
  assumes ok: "mod_ok m" and f: "f_rest f = header_enc m @ ys"
  shows "ParseModHeader (rt_mod_zero f) = Inr (RT_SUCCESS, (rt_mod_zero (fwd (length (header_enc m)) f))\<lparr>rm_magic := rm_magic m,
    rm_version := rm_version m, rm_dataOffset := rm_dataOffset m, rm_dataCount := rm_dataCount m, rm_profile := rm_profile m,
    rm_gameVersion := rm_gameVersion m\<rparr>)"
proof -
  have v: "\<not> rm_version m < 1" "\<not> 5 < rm_version m"
    using ok by (auto simp: mod_ok_def word_less_nat_alt word_le_nat_alt)
  have 1: "fread_u64 0 f = Inr (rm_magic m, fwd 8 f)"
    using f readsD [OF reads_ints(3)] by (simp add: header_enc_def)
  have 2: "fread_u32 0 (fwd 8 f) = Inr (rm_version m, fwd 12 f)"
    using f readsD [OF reads_ints(2), of "fwd 8 f"] by (simp add: header_enc_def)
  have 3: "fread_u64 0 (fwd 12 f) = Inr (rm_dataOffset m, fwd 20 f)"
    using f readsD [OF reads_ints(3), of "fwd 12 f"] by (simp add: header_enc_def)
  have 4: "fread_u32 0 (fwd 20 f) = Inr (rm_dataCount m, fwd 24 f)"
    using f readsD [OF reads_ints(2), of "fwd 20 f"] by (simp add: header_enc_def)
  have 5: "RT_ReadSizedString (fwd 24 f) = Inr (rm_profile m, fwd (25 + length (rm_profile m)) f)"
    using f ok readsD [OF reads_sized, of "rm_profile m" "fwd 24 f"] by (simp add: header_enc_def mod_ok_def)
  have 6: "fread_u32 0 (fwd (25 + length (rm_profile m)) f) = Inr (rm_gameVersion m, fwd (length (header_enc m)) f)"
    using f readsD [OF reads_ints(2), of "fwd (25 + length (rm_profile m)) f"] by (simp add: header_enc_def)
  show ?thesis
    using ok v by (simp add: ParseModHeader_def rt_mod_zero_def 1 2 3 4 5 6 mod_ok_def Let_def)
qed

lemma length_text_enc [simp]: "length (text_enc s) = Suc (length s)"
  by (simp add: text_enc_def)

text \<open>The same for the steps on the mod, which holds the file.\<close>

definition mdoes :: "rt_mod act \<Rightarrow> rt_mod \<Rightarrow> rt_mod \<Rightarrow> bytes \<Rightarrow> bool" where
  "mdoes a m m' xs \<longleftrightarrow> (\<forall>f ys. f_rest f = xs @ ys \<longrightarrow>
    a (m\<lparr>rm_file := f\<rparr>) = Inr (RT_SUCCESS, m'\<lparr>rm_file := fwd (length xs) f\<rparr>))"

lemma mdoes_detail:
  assumes "NUL \<notin> set s" "\<And>f. upd (\<lambda>_. s) (m\<lparr>rm_file := f\<rparr>) = (upd (\<lambda>_. s) m)\<lparr>rm_file := f\<rparr>" "mdoes k (upd (\<lambda>_. s) m) m' ys"
  shows "mdoes (SAFE_RET (read_detail upd) k) m m' (text_enc s @ ys)"
  unfolding mdoes_def
proof (intro allI impI)
  fix f zs assume f: "f_rest f = (text_enc s @ ys) @ zs"
  then have "RT_ReadTerminatedString f = (RT_SUCCESS, s, fwd (Suc (length s)) f)"
    using reads_string [OF assms(1), of f "ys @ zs"] by (simp add: text_enc_def)
  moreover have "f_rest (fwd (Suc (length s)) f) = ys @ zs" using f by simp
  ultimately show "SAFE_RET (read_detail upd) k (m\<lparr>rm_file := f\<rparr>) =
      Inr (RT_SUCCESS, m'\<lparr>rm_file := fwd (length (text_enc s @ ys)) f\<rparr>)"
    using assms(2,3) by (simp add: SAFE_RET_def read_detail_def mdoes_def)
qed

lemma mdoes_return: "mdoes (RETURN RT_SUCCESS) m m []"
  by (simp add: mdoes_def RETURN_def fwd_def)

lemma ParseModDetails_does:
  assumes ok: "mod_ok m" and v: "rm_version m0 = rm_version m" "rm_link m0 = []"
  shows "mdoes ParseModDetails m0 (m0\<lparr>rm_title := rm_title m, rm_author := rm_author m, rm_category := rm_category m,
    rm_modVersion := rm_modVersion m, rm_description := rm_description m, rm_link := rm_link m\<rparr>) (details_enc m)"
proof -
  let ?m = "m0\<lparr>rm_title := rm_title m, rm_author := rm_author m, rm_category := rm_category m,
    rm_modVersion := rm_modVersion m, rm_description := rm_description m\<rparr>"
  let ?l = "\<lambda>m. if rm_version m \<ge> 5 then SAFE_RET (read_detail rm_link_update) (RETURN RT_SUCCESS) m else RETURN RT_SUCCESS m"
  have z: "NUL \<notin> set (rm_title m)" "NUL \<notin> set (rm_author m)" "NUL \<notin> set (rm_category m)" "NUL \<notin> set (rm_modVersion m)"
    "NUL \<notin> set (rm_description m)" "NUL \<notin> set (rm_link m)"
    using ok by (simp_all add: mod_ok_def)
  have "mdoes ?l ?m (?m\<lparr>rm_link := rm_link m\<rparr>) (if rm_version m \<ge> 5 then text_enc (rm_link m) else [])"
  proof (cases "rm_version m \<ge> 5")
    case True
    have "mdoes (SAFE_RET (read_detail rm_link_update) (RETURN RT_SUCCESS)) ?m (?m\<lparr>rm_link := rm_link m\<rparr>) (text_enc (rm_link m) @ [])"
      by (intro mdoes_detail z mdoes_return) simp
    then show ?thesis using True v by (simp add: mdoes_def)
  next
    case False
    then have "rm_link m = []" using ok by (simp add: mod_ok_def not_le)
    then have "?m\<lparr>rm_link := rm_link m\<rparr> = ?m" using v(2) by (cases m0) simp
    then show ?thesis using False v mdoes_return [of ?m] by (simp add: mdoes_def)
  qed
  then show ?thesis
    unfolding ParseModDetails_def details_enc_def
    by (intro mdoes_detail z) simp_all
qed

definition mod_read :: "rt_mod \<Rightarrow> rt_file \<Rightarrow> rt_mod" where
  "mod_read m f = m\<lparr>rm_resources := None, rm_file := f\<rparr>"


text \<open>What is left once the header and the details are read.\<close>

lemma RT_FrostyLoadMod_rest:
  assumes "mod_ok m"
  shows "RT_FrostyLoadMod (header_enc m @ details_enc m @ xs) =
    (let f = \<lparr>f_data = header_enc m @ details_enc m @ xs, f_pos = length (header_enc m @ details_enc m)\<rparr>
     in case RT_FrostyParseResources (rm_version m) f of
          Inl e \<Rightarrow> Inl e
        | Inr (c, rs, f') \<Rightarrow> if c \<noteq> RT_SUCCESS then Inr (c, None)
            else Inr (RT_SUCCESS, Some ((mod_read m f')\<lparr>rm_resources := rs\<rparr>)))"
proof -
  let ?data = "header_enc m @ details_enc m @ xs"
  let ?f = "\<lparr>f_data = ?data, f_pos = 0\<rparr>"
  let ?m0 = "(rt_mod_zero ?f)\<lparr>rm_magic := rm_magic m, rm_version := rm_version m, rm_dataOffset := rm_dataOffset m,
    rm_dataCount := rm_dataCount m, rm_profile := rm_profile m, rm_gameVersion := rm_gameVersion m\<rparr>"
  let ?f1 = "fwd (length (header_enc m)) ?f"
  have "f_rest ?f = ?data" by (simp add: f_rest_def)
  then have 1: "ParseModHeader (rt_mod_zero ?f) = Inr (RT_SUCCESS, ?m0\<lparr>rm_file := ?f1\<rparr>)" and f1: "f_rest ?f1 = details_enc m @ xs"
    using ParseModHeader_at [OF assms] by (simp_all add: rt_mod_zero_def)
  have 2: "ParseModDetails (?m0\<lparr>rm_file := ?f1\<rparr>) = Inr (RT_SUCCESS, mod_read m (fwd (length (details_enc m)) ?f1))"
    using ParseModDetails_does [OF assms, of ?m0, unfolded mdoes_def, rule_format, OF _ _ f1]
    by (simp add: rt_mod_zero_def mod_read_def)
  have "rm_file (mod_read m f) = f" "rm_version (mod_read m f) = rm_version m"
    "(mod_read m f)\<lparr>rm_resources := rs, rm_file := f'\<rparr> = (mod_read m f')\<lparr>rm_resources := rs\<rparr>" for f f' rs
    by (simp_all add: mod_read_def)
  then show ?thesis
    using 1 2 by (simp add: RT_FrostyLoadMod_def fwd_def Let_def split: sum.split)
qed

lemma RT_FrostyLoadMod_at:
  assumes "mod_ok m" "rm_version m > 3" "list_all resource_ok rs" "length rs < 2 ^ 31"
  shows "RT_FrostyLoadMod (mod_enc m rs @ tail) = Inr (RT_SUCCESS, Some (m\<lparr>rm_resources := Some rs,
    rm_file := \<lparr>f_data = mod_enc m rs @ tail, f_pos = length (mod_enc m rs)\<rparr>\<rparr>))"
proof -
  let ?xs = "bytes32 (word_of_nat (length rs)) @ concat (map resource_enc rs) @ tail"
  let ?f = "\<lparr>f_data = header_enc m @ details_enc m @ ?xs, f_pos = length (header_enc m @ details_enc m)\<rparr>"
  have f: "f_rest ?f = ?xs" by (simp add: f_rest_def)
  have "fread_u32 0 ?f = Inr (word_of_nat (length rs), fwd 4 ?f)" using readsD [OF reads_ints(2) f] by simp
  moreover have "times (word_of_nat (length rs)) = length rs" using assms(4) by (simp add: times_def sint_small)
  moreover have "f_rest (fwd 4 ?f) = concat (map resource_enc rs) @ tail" using f by simp
  ultimately have "RT_FrostyParseResources (rm_version m) ?f =
      Inr (RT_SUCCESS, Some rs, fwd (4 + length (concat (map resource_enc rs))) ?f)"
    using parse_loop_at [OF assms(2,3)] by (simp add: RT_FrostyParseResources_def)
  then show ?thesis
    using RT_FrostyLoadMod_rest [OF assms(1), of ?xs] by (simp add: mod_enc_def mod_read_def fwd_def)
qed

text \<open>C8: \<open>RT_FrostyLoadMod\<close> reads back a mod file of the versions 4 and 5: for every header, details and list of
  resources of the format, followed by any data, it succeeds with exactly these, and the file stands at the start
  of the data.\<close>

theorem RT_FrostyLoadMod_enc:
  assumes "mod_ok m" "rm_version m > 3" "list_all resource_ok rs" "length rs < 2 ^ 31"
  shows "RT_FrostyLoadMod (mod_enc m rs @ tail) = Inr (RT_SUCCESS, Some (m\<lparr>rm_resources := Some rs,
    rm_file := \<lparr>f_data = mod_enc m rs @ tail, f_pos = length (mod_enc m rs)\<rparr>\<rparr>))"
  using assms by (rule RT_FrostyLoadMod_at)

definition mod_sample :: rt_mod where
  "mod_sample = (rt_mod_zero \<lparr>f_data = [], f_pos = 0\<rparr>)\<lparr>rm_magic := kFrostyMagic, rm_version := 5, rm_title := ''a'', rm_link := ''b''\<rparr>"

theorem RT_FrostyLoadMod_enc_witness:
  "RT_FrostyLoadMod (mod_enc mod_sample [rt_zero\<lparr>r_type := 2, r_name := Some ''n'', r_userData := Some [], r_addedBundles := [7]\<rparr>] @ [1]) =
    Inr (RT_SUCCESS, Some (mod_sample\<lparr>rm_resources :=
        Some [rt_zero\<lparr>r_type := 2, r_name := Some ''n'', r_userData := Some [], r_addedBundles := [7]\<rparr>],
      rm_file := \<lparr>f_data = mod_enc mod_sample [rt_zero\<lparr>r_type := 2, r_name := Some ''n'', r_userData := Some [], r_addedBundles := [7]\<rparr>] @ [1],
        f_pos = length (mod_enc mod_sample [rt_zero\<lparr>r_type := 2, r_name := Some ''n'', r_userData := Some [], r_addedBundles := [7]\<rparr>])\<rparr>\<rparr>))"
  by (rule RT_FrostyLoadMod_enc) (simp_all add: mod_sample_def mod_ok_def rt_mod_zero_def resource_ok_def rt_zero_def NUL_def)

text \<open>A file of an old version that ends inside the name of an added bundle: the name cannot be read, the resource is
  parsed a second time, that run finds another type and succeeds, and the list of resources is never stored.\<close>

lemma RT_FrostyLoadMod_truncated:
  assumes "mod_ok m" "rm_version m \<le> 3" "NUL \<notin> set name"
  shows "\<exists>m'. RT_FrostyLoadMod (header_enc m @ details_enc m @ bytes32 1 @ [4] @ bytes32 (-1) @ str_bytes name) =
    Inr (RT_SUCCESS, Some m') \<and> rm_resources m' = None"
proof -
  let ?xs = "bytes32 1 @ [4] @ bytes32 (-1) @ str_bytes name"
  let ?f = "\<lparr>f_data = header_enc m @ details_enc m @ ?xs, f_pos = length (header_enc m @ details_enc m)\<rparr>"
  let ?r = "rt_zero\<lparr>r_type := 5, r_resourceIndex := -1, r_name := Some name\<rparr>"
  let ?g = "fwd (9 + length name) ?f"
  have f: "f_rest ?f = ?xs" by (simp add: f_rest_def)
  have v: "\<not> 3 < rm_version m" using assms(2) by (simp add: not_less)
  have 1: "fread_u32 0 ?f = Inr (1, fwd 4 ?f)" using readsD [OF reads_ints(2) f] by simp
  have 2: "read_type (r_type rt_zero) (fwd 4 ?f) = Inr (4, fwd 5 ?f)"
    using readsD [OF reads_type [of 4], of "fwd 4 ?f" "bytes32 (-1) @ str_bytes name"] f by (simp add: rt_zero_def)
  have 3: "fread_u32 0 (fwd 5 ?f) = Inr (-1, fwd 9 ?f)"
    using readsD [OF reads_ints(2), of "fwd 5 ?f" "-1"] f by simp
  have 4: "RT_ReadTerminatedString (fwd 9 ?f) = (RT_ERROR_READ_FAILED, name, ?g)"
    using f reads_string_eof [OF assms(3), of "fwd 9 ?f"] by simp
  have g: "f_rest ?g = []" using f by simp
  then have 5: "RT_ReadTerminatedString ?g = (RT_ERROR_READ_FAILED, [], ?g)"
    by (simp add: RT_ReadTerminatedString_def fwd_def bytes_str_def)
  have first: "RT_FrostyParseResource (rm_version m) (rt_zero, fwd 4 ?f) = Inr (RT_ERROR_READ_FAILED, (?r\<lparr>r_name := Some []\<rparr>, ?g))"
    using 2 3 4 5 v by (simp add: RT_FrostyParseResource_def READ_def field_def parse_data_def parse_bundles_def read_bundles_def
        parse_special_def SAFE_RET_def read_name_def rt_zero_def)
  have 6: "read_type 5 ?g = Inr (5, ?g)" "fread_u32 x ?g = Inr (x, ?g)" for x
  proof -
    have "bytes32 5 = [5, 0, 0, 0]" by code_simp
    then have "word32 (5 # tl (bytes32 5)) = 5" using wordN_bytesN(2) [of 5] by simp
    then show "read_type 5 ?g = Inr (5, ?g)" using g by (simp add: read_type_def fread_u8_def fread_def)
    show "fread_u32 x ?g = Inr (x, ?g)" using g by (simp add: fread_u32_def fread_def)
  qed
  then have second: "RT_FrostyParseResource (rm_version m) (?r\<lparr>r_name := Some []\<rparr>, ?g) =
      Inr (RT_SUCCESS, (?r\<lparr>r_type := 6, r_name := Some ''Empty''\<rparr>, ?g))"
    using v by (simp add: RT_FrostyParseResource_def READ_def field_def parse_data_def parse_bundles_def read_bundles_def
        parse_special_def finish_def rt_zero_def)
  have "times 1 = Suc 0" by (simp add: times_def)
  then have "RT_FrostyParseResources (rm_version m) ?f = Inr (RT_SUCCESS, None, ?g)"
    using 1 first second by (simp add: RT_FrostyParseResources_def)
  then show ?thesis using RT_FrostyLoadMod_rest [OF assms(1), of ?xs] by simp
qed

end
