(* ===== verification/Mod_Loader.thy ===== *)
theory Mod_Loader
  imports Layout_Manifest Frosty_Mod
begin

text \<open>
  The mod loader of \<^verbatim>\<open>Module/Source/ModLoader/ModLoader.cpp\<close>: the mods in load order, the file number each mod
  gets (\<open>GetNextModFile\<close>), reading one mod (\<open>LoadMod\<close>), and \<open>FinalizeModLoads\<close>, which orders the resources of all
  mods by priority, lets the data of the mod of highest priority win, and collects for every bundle the resources
  that are added to it.

  The sets and maps of the loader that are only searched are sets, functions or association lists; the maps that are
  iterated are the ordered lists of the prelude. The contents of the mod files are arguments.
\<close>

unbundle bit_operations_syntax

record mod_resource_data =
  md_size :: u64
  md_originalSize :: u64
  md_buffer :: "bytes option"
  md_fbFile :: u32
  md_dataOffset :: u32
  md_resType :: u32
  md_resRid :: u64
  md_resMeta :: bytes
  md_rangeStart :: u32
  md_rangeEnd :: u32
  md_logicalOffset :: u32
  md_logicalSize :: u32
  md_h32 :: u32
  md_firstMip :: u32

record mod_resource =
  mr_type :: u32
  mr_name :: string
  mr_bundles :: "u32 list"
  mr_handlerHash :: u32
  mr_resourceIndex :: u32
  mr_duped :: bool
  mr_modName :: string
  mr_modIndex :: u32
  mr_data :: mod_resource_data
  mr_uniqueId :: u32

definition ContainsBundle :: "u32 \<Rightarrow> mod_resource \<Rightarrow> bool" where
  "ContainsBundle h r \<longleftrightarrow> h \<in> set (mr_bundles r)"

definition GetNameWithType :: "mod_resource \<Rightarrow> string" where
  "GetNameWithType r = dec_i32 (mr_type r) @ ''_'' @ mr_name r"

definition GetNameWithMod :: "mod_resource \<Rightarrow> string" where
  "GetNameWithMod r = dec_digits (unat (mr_modIndex r)) @ ''_'' @ mr_name r"

record kyber_mod =
  km_path :: string
  km_fbFile :: u32
  km_resources :: "mod_resource list"

record handled_resource =
  hr_handlerHash :: u32
  hr_duped :: bool

record mod_loader =
  m_mods :: "kyber_mod list"
  m_bundleMerger :: bundle_merger
  m_addedBundles :: "u32 set"
  m_requiredFiles :: "u32 set"
  m_modResources :: "mod_resource list"
  m_handlerResources :: "(string \<times> handled_resource) list"
  m_bundleResources :: "(u32 \<times> mod_resource list) list"
  m_dupedHandlerSources :: "u32 \<Rightarrow> string"


section \<open>The file number of a mod\<close>

definition kCatalogSizes :: "nat list" where
  "kCatalogSizes = [10, 5, 3, 12, 7, 3, 6]"

text \<open>The loop over the catalogs: the catalog, its size and the index left. \<open>None\<close> is the failed assertion.\<close>

fun next_mod_loop :: "nat list \<Rightarrow> nat \<Rightarrow> nat \<Rightarrow> (nat \<times> nat \<times> nat) option" where
  "next_mod_loop [] catalogIndex casIndex = None"
| "next_mod_loop (sz # szs) catalogIndex casIndex =
    (if casIndex > 0xFF - sz then next_mod_loop szs (catalogIndex + 1) (casIndex - (0xFF - sz))
     else Some (catalogIndex, sz, casIndex))"

definition GetNextModFile :: "'m list \<Rightarrow> u32 result" where
  "GetNextModFile mods =
    (case next_mod_loop kCatalogSizes 0 (length mods mod 2 ^ 32) of
       None \<Rightarrow> Inl Out_Of_Bounds
     | Some (catalogIndex, sz, casIndex) \<Rightarrow>
         Inr (push_bit 12 (word_of_nat (catalogIndex + 1)) OR ((word_of_nat (casIndex + sz) - 1) AND 0xFF)))"


section \<open>LoadMod\<close>

definition resource_name :: "rt_resource \<Rightarrow> string" where
  "resource_name r = (case r_name r of Some n \<Rightarrow> n | None \<Rightarrow> [])"

definition make_resource :: "bundle_merger \<Rightarrow> string \<Rightarrow> nat \<Rightarrow> u32 \<Rightarrow> rt_resource \<Rightarrow> int \<Rightarrow> u64 \<Rightarrow> bytes option \<Rightarrow> mod_resource" where
  "make_resource g title modIndex fbFile r offset dataSize buffer =
    \<lparr>mr_type = r_type r, mr_name = resource_name r, mr_bundles = r_addedBundles r,
     mr_handlerHash = r_handlerHash r, mr_resourceIndex = r_resourceIndex r,
     mr_duped = (r_handlerHash r \<noteq> 0 \<and> r_addedBundles r \<noteq> [] \<and> GetVanillaEbxEntry (resource_name r) g = None),
     mr_modName = title, mr_modIndex = word_of_nat modIndex,
     mr_data = \<lparr>md_size = dataSize, md_originalSize = r_size r, md_buffer = buffer, md_fbFile = fbFile,
       md_dataOffset = word_of_int offset, md_resType = r_resType r, md_resRid = r_resRid r,
       md_resMeta = (if r_type r = FrostyResourceType_Res then r_resMeta r else replicate 16 0),
       md_rangeStart = r_rangeStart r, md_rangeEnd = r_rangeEnd r, md_logicalOffset = r_logicalOffset r,
       md_logicalSize = r_logicalSize r, md_h32 = r_h32 r, md_firstMip = r_firstMip r\<rparr>,
     mr_uniqueId = HashQuickLower (dec_i32 (r_type r) @ ''_'' @ resource_name r)\<rparr>"

text \<open>What loading a resource changes of the loader: a new bundle, or the file of the vanilla asset it needs.\<close>

definition note_resource :: "mod_resource \<Rightarrow> mod_loader \<Rightarrow> mod_loader" where
  "note_resource r ml =
    (if mr_type r = FrostyResourceType_Bundle
     then ml\<lparr>m_addedBundles := insert (HashQuickLower (mr_name r)) (m_addedBundles ml)\<rparr>
     else if mr_resourceIndex r = -1
     then (if mr_type r = FrostyResourceType_Ebx
           then (case GetVanillaEbxEntry (mr_name r) (m_bundleMerger ml) of
                   None \<Rightarrow> ml | Some e \<Rightarrow> ml\<lparr>m_requiredFiles := insert (fi_file (ve_file e)) (m_requiredFiles ml)\<rparr>)
           else if mr_type r = FrostyResourceType_Res
           then (case GetVanillaResEntry (mr_name r) (m_bundleMerger ml) of
                   None \<Rightarrow> ml | Some e \<Rightarrow> ml\<lparr>m_requiredFiles := insert (fi_file (ve_file e)) (m_requiredFiles ml)\<rparr>)
           else if mr_type r = FrostyResourceType_Chunk
           then (case GetVanillaChunkEntry (mr_name r) (m_bundleMerger ml) of
                   None \<Rightarrow> ml | Some e \<Rightarrow> ml\<lparr>m_requiredFiles := insert (fi_file (ve_file e)) (m_requiredFiles ml)\<rparr>)
           else ml)
     else ml)"

text \<open>The end of a round of the loop over the resources of the mod: a resource that could not be read, or that has neither
  data nor bundles, is left out.\<close>

definition keep_resource :: "string \<Rightarrow> u32 \<Rightarrow> rt_resource \<Rightarrow> int \<Rightarrow> u64 \<Rightarrow> rt_code \<Rightarrow> bytes option \<Rightarrow>
    mod_resource list \<times> mod_loader \<Rightarrow> mod_resource list \<times> mod_loader" where
  "keep_resource title fbFile r offset dataSize c buffer s =
    (case s of (rs, ml) \<Rightarrow>
     if c \<noteq> RT_SUCCESS then (rs, ml)
     else if r_type r \<noteq> FrostyResourceType_Bundle \<and> r_resourceIndex r = -1 \<and> r_addedBundles r = [] then (rs, ml)
     else
       let mr = make_resource (m_bundleMerger ml) title (length (m_mods ml)) fbFile r offset dataSize buffer
       in (rs @ [mr], note_resource mr ml))"

text \<open>A whole round: \<open>m\<close> holds the open file.\<close>

definition load_resource :: "(u32 \<Rightarrow> bytes \<Rightarrow> bytes option) \<Rightarrow> u32 \<Rightarrow> rt_resource \<Rightarrow> rt_mod \<times> mod_resource list \<times> mod_loader \<Rightarrow>
    (rt_mod \<times> mod_resource list \<times> mod_loader) result" where
  "load_resource zstd fbFile r s =
    (case s of (m, st) \<Rightarrow>
     case (if r_resourceIndex r \<noteq> -1 then data_entry m (r_resourceIndex r) else Inr (0, 0, rm_file m)) of
       Inl e \<Rightarrow> Inl e
     | Inr (offset, dataSize, f) \<Rightarrow>
    (case (if r_resourceIndex r \<noteq> -1 \<and> r_handlerHash r \<noteq> 0
           then RT_FrostyReadModResource zstd (m\<lparr>rm_file := f\<rparr>) r else Inr ((RT_SUCCESS, None), f)) of
       Inl e \<Rightarrow> Inl e
     | Inr ((c, buffer), f) \<Rightarrow>
         Inr (m\<lparr>rm_file := f\<rparr>, keep_resource (rm_title m) fbFile r offset dataSize c buffer st)))"

fun load_resources :: "(u32 \<Rightarrow> bytes \<Rightarrow> bytes option) \<Rightarrow> u32 \<Rightarrow> rt_resource list \<Rightarrow> rt_mod \<times> mod_resource list \<times> mod_loader \<Rightarrow>
    (rt_mod \<times> mod_resource list \<times> mod_loader) result" where
  "load_resources zstd fbFile [] s = Inr s"
| "load_resources zstd fbFile (r # rs) s =
    (case load_resource zstd fbFile r s of Inl e \<Rightarrow> Inl e | Inr s' \<Rightarrow> load_resources zstd fbFile rs s')"

text \<open>\<^verbatim>\<open>eastl::stable_sort\<close> by the type.\<close>

definition sort_resources :: "mod_resource list \<Rightarrow> mod_resource list" where
  "sort_resources rs = sort_key mr_type rs"

text \<open>\<open>None\<close> is a file that cannot be opened.\<close>

definition LoadMod :: "(u32 \<Rightarrow> bytes \<Rightarrow> bytes option) \<Rightarrow> bytes option \<Rightarrow> string \<Rightarrow> mod_loader \<Rightarrow> mod_loader result" where
  "LoadMod zstd contents relativeFileName ml =
    (case contents of
       None \<Rightarrow> Inr ml
     | Some data \<Rightarrow>
    (case RT_FrostyLoadMod data of
       Inl e \<Rightarrow> Inl e
     | Inr (c, None) \<Rightarrow> Inr ml
     | Inr (c, Some m) \<Rightarrow>
         if c \<noteq> RT_SUCCESS then Inr ml
         else
    (case GetNextModFile (m_mods ml) of
       Inl e \<Rightarrow> Inl e
     | Inr fbFile \<Rightarrow>
    (case rm_resources m of
       None \<Rightarrow> Inl Null_Deref
     | Some resources \<Rightarrow>
    (case load_resources zstd fbFile resources (m, [], ml) of
       Inl e \<Rightarrow> Inl e
     | Inr (_, rs, ml) \<Rightarrow>
         Inr (ml\<lparr>m_mods := m_mods ml @ [\<lparr>km_path = relativeFileName, km_fbFile = fbFile, km_resources = sort_resources rs\<rparr>]\<rparr>))))))"


text \<open>The loop of the constructor over the mod paths.\<close>

fun LoadMods :: "(u32 \<Rightarrow> bytes \<Rightarrow> bytes option) \<Rightarrow> (bytes option \<times> string) list \<Rightarrow> mod_loader \<Rightarrow> mod_loader result" where
  "LoadMods zstd [] ml = Inr ml"
| "LoadMods zstd ((contents, modPath) # files) ml =
    (case LoadMod zstd contents (''/kyber_mods/'' @ modPath) ml of
       Inl e \<Rightarrow> Inl e
     | Inr ml' \<Rightarrow> LoadMods zstd files ml')"


section \<open>FinalizeModLoads\<close>

definition has_data :: "mod_resource \<Rightarrow> bool" where
  "has_data r \<longleftrightarrow> mr_handlerHash r = 0 \<and> mr_resourceIndex r \<noteq> -1"

definition stage1 :: "kyber_mod list \<Rightarrow> mod_resource list" where
  "stage1 mods = sort_resources (concat (map km_resources (rev mods)))"

text \<open>The first resource with data per identifier, with its position in the vector (the code keeps a pointer).\<close>

fun stage2 :: "nat \<Rightarrow> mod_resource list \<Rightarrow> (u32 \<times> nat) list \<Rightarrow> (u32 \<times> nat) list" where
  "stage2 i [] overrides = overrides"
| "stage2 i (r # rs) overrides =
    (if \<not> has_data r \<or> map_of overrides (mr_uniqueId r) \<noteq> None then stage2 (Suc i) rs overrides
     else stage2 (Suc i) rs (map_put (mr_uniqueId r) i overrides))"

definition stage3 :: "(u32 \<Rightarrow> mod_resource_data option) \<Rightarrow> mod_resource \<Rightarrow> mod_resource" where
  "stage3 sources r =
    (if mr_handlerHash r \<noteq> 0 \<or> mr_resourceIndex r \<noteq> -1 then r
     else case sources (mr_uniqueId r) of
            None \<Rightarrow> r
          | Some d \<Rightarrow> r\<lparr>mr_resourceIndex := 0, mr_data := d\<rparr>)"

fun stage4 :: "mod_resource list \<Rightarrow> u32 set \<Rightarrow> (string \<times> handled_resource) list \<Rightarrow> (string \<times> handled_resource) list" where
  "stage4 [] visited h = h"
| "stage4 (r # rs) visited h =
    (if mr_type r = FrostyResourceType_Ebx \<and> md_buffer (mr_data r) \<noteq> None \<and> mr_handlerHash r \<noteq> 0 \<and> mr_uniqueId r \<notin> visited
     then stage4 rs (insert (mr_uniqueId r) visited)
       (map_put (mr_name r) \<lparr>hr_handlerHash = mr_handlerHash r, hr_duped = mr_duped r\<rparr> h)
     else stage4 rs visited h)"

text \<open>The stages 5 and 6 count the resources of every bundle and reserve room for them, which creates the bundles'
  entries; stage 7 fills them. A resource stands for itself or for the one that overrides it.\<close>

definition skipped :: "mod_resource \<Rightarrow> bool" where
  "skipped r \<longleftrightarrow> mr_handlerHash r \<noteq> 0 \<and> \<not> mr_duped r"

definition assignable :: "(u32 \<times> nat) list \<Rightarrow> mod_resource list \<Rightarrow> mod_resource \<Rightarrow> mod_resource" where
  "assignable overrides all r =
    (if mr_bundles r = [] then r
     else case map_of overrides (mr_uniqueId r) of None \<Rightarrow> r | Some i \<Rightarrow> all ! i)"

definition bundle_list :: "(u32 \<times> 'a list) list \<Rightarrow> u32 \<Rightarrow> 'a list" where
  "bundle_list bs h = (case map_of bs h of None \<Rightarrow> [] | Some rs \<Rightarrow> rs)"

type_synonym visited_names = "u32 \<Rightarrow> u32 set"

definition push_bundle :: "mod_resource \<Rightarrow> mod_resource \<Rightarrow> u32 \<Rightarrow> visited_names \<times> (u32 \<times> mod_resource list) list \<Rightarrow>
    visited_names \<times> (u32 \<times> mod_resource list) list" where
  "push_bundle r a h s =
    (case s of (visited, bs) \<Rightarrow>
     if mr_uniqueId r \<in> visited h then (visited, bs)
     else (visited(h := insert (mr_uniqueId r) (visited h)), map_put h (bundle_list bs h @ [a]) bs))"

fun stage7 :: "(u32 \<times> nat) list \<Rightarrow> mod_resource list \<Rightarrow> mod_resource list \<Rightarrow> visited_names \<times> (u32 \<times> mod_resource list) list \<Rightarrow>
    visited_names \<times> (u32 \<times> mod_resource list) list" where
  "stage7 overrides all [] s = s"
| "stage7 overrides all (r # rs) s =
    stage7 overrides all rs (if skipped r then s else fold (push_bundle r (assignable overrides all r)) (mr_bundles r) s)"

definition sources_of :: "(u32 \<times> nat) list \<Rightarrow> mod_resource list \<Rightarrow> u32 \<Rightarrow> mod_resource_data option" where
  "sources_of overrides all u = map_option (\<lambda>i. mr_data (all ! i)) (map_of overrides u)"

definition FinalizeModLoads :: "mod_loader \<Rightarrow> mod_loader" where
  "FinalizeModLoads ml =
    (let all = stage1 (m_mods ml);
         overrides = stage2 0 all [];
         all = map (stage3 (sources_of overrides all)) all
     in ml\<lparr>m_modResources := all,
           m_handlerResources := stage4 all {} (m_handlerResources ml),
           m_bundleResources := snd (stage7 overrides all all ((\<lambda>_. {}), m_bundleResources ml))\<rparr>)"

section \<open>What FinalizeModLoads computes\<close>

text \<open>
  The specification: the resource whose data wins for an identifier is the first one with data, and a bundle gets one
  resource per identifier, in the order of the first resource that names the bundle.
\<close>

definition winner :: "mod_resource list \<Rightarrow> u32 \<Rightarrow> mod_resource option" where
  "winner all u = find (\<lambda>r. has_data r \<and> mr_uniqueId r = u) all"

primrec first_by :: "('a \<Rightarrow> 'k) \<Rightarrow> 'k set \<Rightarrow> 'a list \<Rightarrow> 'a list" where
  "first_by key seen [] = []"
| "first_by key seen (x # xs) =
    (if key x \<in> seen then first_by key seen xs else x # first_by key (insert (key x) seen) xs)"

definition added_to :: "u32 \<Rightarrow> mod_resource \<Rightarrow> bool" where
  "added_to h r \<longleftrightarrow> \<not> skipped r \<and> ContainsBundle h r"

definition bundle_spec :: "mod_resource list \<Rightarrow> u32 \<Rightarrow> mod_resource list" where
  "bundle_spec all h =
    map (\<lambda>r. case winner all (mr_uniqueId r) of None \<Rightarrow> r | Some w \<Rightarrow> w)
      (first_by mr_uniqueId {} (filter (added_to h) all))"

lemma set_first_by: "key ` set (first_by key seen xs) = key ` set xs - seen"
  by (induction xs arbitrary: seen) auto

lemma first_by_subset: "set (first_by key seen xs) \<subseteq> set xs"
  by (induction xs arbitrary: seen) (auto split: if_splits)

lemma distinct_first_by: "distinct (map key (first_by key seen xs))"
proof (induction xs arbitrary: seen)
  case (Cons x xs)
  have "key x \<notin> key ` set (first_by key (insert (key x) seen) xs)" by (simp add: set_first_by)
  then show ?case using Cons by simp
qed simp

lemma first_by_map: "(\<And>x. key (f x) = key x) \<Longrightarrow> first_by key seen (map f xs) = map f (first_by key seen xs)"
  by (induction xs arbitrary: seen) auto

lemma find_index_find_Some: "find_index P xs = Some i \<Longrightarrow> i < length xs \<and> find P xs = Some (xs ! i)"
  by (induction xs arbitrary: i) (auto split: if_splits)

lemma find_index_find_None: "find_index P xs = None \<longleftrightarrow> find P xs = None"
  by (induction xs) auto

lemma map_of_stage2: "map_of (stage2 i rs ov) u =
    (case map_of ov u of Some j \<Rightarrow> Some j
     | None \<Rightarrow> map_option (\<lambda>k. i + k) (find_index (\<lambda>r. has_data r \<and> mr_uniqueId r = u) rs))"
proof (induction i rs ov rule: stage2.induct)
  case (2 i r rs ov)
  then show ?case
    by (cases "find_index (\<lambda>r. has_data r \<and> mr_uniqueId r = u) rs") (auto split: option.split)
qed (simp split: option.split)

lemma stage2_winner: "map_option ((!) all) (map_of (stage2 0 all []) u) = winner all u"
  using find_index_find_Some [of "\<lambda>r. has_data r \<and> mr_uniqueId r = u" all]
    find_index_find_None [of "\<lambda>r. has_data r \<and> mr_uniqueId r = u" all]
  by (cases "find_index (\<lambda>r. has_data r \<and> mr_uniqueId r = u) all") (auto simp: map_of_stage2 winner_def)

lemma stage2_bound: "map_of (stage2 0 all []) u = Some i \<Longrightarrow> i < length all"
  by (auto simp: map_of_stage2 dest: find_index_find_Some)

lemma winnerD: "winner all u = Some w \<Longrightarrow> w \<in> set all \<and> has_data w \<and> mr_uniqueId w = u"
  by (auto simp: winner_def find_Some_iff)

lemma bundle_list_Nil [simp]: "bundle_list [] h = []"
  by (simp add: bundle_list_def)

lemma stage3_keeps [simp]: "mr_uniqueId (stage3 src r) = mr_uniqueId r" "mr_bundles (stage3 src r) = mr_bundles r"
  "skipped (stage3 src r) = skipped r" "added_to h (stage3 src r) = added_to h r"
  by (auto simp: stage3_def skipped_def added_to_def ContainsBundle_def split: option.split)

lemma stage3_has_data: "has_data r \<Longrightarrow> stage3 src r = r"
  by (simp add: stage3_def has_data_def)

lemma fold_push_bundle:
  "fst (fold (push_bundle r a) hs (v, bs)) h = (if h \<in> set hs then insert (mr_uniqueId r) (v h) else v h)"
  "bundle_list (snd (fold (push_bundle r a) hs (v, bs))) h =
    bundle_list bs h @ (if h \<in> set hs \<and> mr_uniqueId r \<notin> v h then [a] else [])"
  by (induction hs arbitrary: v bs) (auto simp: push_bundle_def bundle_list_def split: if_splits)

lemma stage7_spec: "bundle_list (snd (stage7 ov all rs (v, bs))) h =
    bundle_list bs h @ map (assignable ov all) (first_by mr_uniqueId (v h) (filter (added_to h) rs))"
proof (induction rs arbitrary: v bs)
  case (Cons r rs)
  obtain v' bs' where s: "fold (push_bundle r (assignable ov all r)) (mr_bundles r) (v, bs) = (v', bs')" by (rule prod.exhaust)
  have "v' h = (if h \<in> set (mr_bundles r) then insert (mr_uniqueId r) (v h) else v h)"
    "bundle_list bs' h = bundle_list bs h @ (if h \<in> set (mr_bundles r) \<and> mr_uniqueId r \<notin> v h then [assignable ov all r] else [])"
    using fold_push_bundle [of r "assignable ov all r" "mr_bundles r" v bs h] s by simp_all
  then show ?case using Cons [of v bs] Cons [of v' bs'] s
    by (auto simp: added_to_def ContainsBundle_def insert_absorb)
qed simp

lemma FinalizeModLoads_spec:
  "bundle_list (m_bundleResources (FinalizeModLoads ml)) h =
    bundle_list (m_bundleResources ml) h @ bundle_spec (stage1 (m_mods ml)) h"
proof -
  let ?all = "stage1 (m_mods ml)"
  let ?ov = "stage2 0 ?all []"
  let ?f = "stage3 (sources_of ?ov ?all)"
  have choose: "assignable ?ov (map ?f ?all) (?f r) = (case winner ?all (mr_uniqueId r) of None \<Rightarrow> r | Some w \<Rightarrow> w)"
    if "added_to h r" for r
  proof (cases "map_of ?ov (mr_uniqueId r)")
    case None
    then have "?f r = r" by (simp add: stage3_def sources_of_def)
    then show ?thesis using None stage2_winner [of ?all "mr_uniqueId r"] by (simp add: assignable_def)
  next
    case (Some i)
    then have w: "winner ?all (mr_uniqueId r) = Some (?all ! i)" "i < length ?all"
      using stage2_winner [of ?all "mr_uniqueId r"] stage2_bound by auto
    then show ?thesis using Some that winnerD [OF w(1)] stage3_has_data
      by (auto simp: assignable_def added_to_def ContainsBundle_def)
  qed
  have "filter (added_to h) (map ?f ?all) = map ?f (filter (added_to h) ?all)" by (simp add: filter_map comp_def)
  then have "bundle_list (m_bundleResources (FinalizeModLoads ml)) h = bundle_list (m_bundleResources ml) h @
      map (assignable ?ov (map ?f ?all)) (map ?f (first_by mr_uniqueId {} (filter (added_to h) ?all)))"
    by (simp add: FinalizeModLoads_def Let_def stage7_spec first_by_map)
  also have "map (assignable ?ov (map ?f ?all)) (map ?f (first_by mr_uniqueId {} (filter (added_to h) ?all))) = bundle_spec ?all h"
    unfolding bundle_spec_def map_map
    using first_by_subset [of mr_uniqueId "{}" "filter (added_to h) ?all"] by (intro map_cong refl) (auto simp: choose)
  finally show ?thesis .
qed

text \<open>The order of the priorities: with one type per identifier, the stable sort does not change which resource wins.\<close>

definition ids_typed :: "mod_resource list \<Rightarrow> bool" where
  "ids_typed rs \<longleftrightarrow> (\<forall>r \<in> set rs. \<forall>r' \<in> set rs. mr_uniqueId r = mr_uniqueId r' \<longrightarrow> mr_type r = mr_type r')"

abbreviation all_resources :: "kyber_mod list \<Rightarrow> mod_resource list" where
  "all_resources mods \<equiv> concat (map km_resources (rev mods))"

lemma set_stage1 [simp]: "set (stage1 mods) = set (all_resources mods)"
  by (simp add: stage1_def sort_resources_def)

lemma find_filter: "(\<And>x. P x \<Longrightarrow> Q x) \<Longrightarrow> find P xs = find P (filter Q xs)"
  by (induction xs) auto

lemma winner_stage1:
  assumes "ids_typed (all_resources mods)"
  shows "winner (stage1 mods) u = winner (all_resources mods) u"
proof (cases "\<exists>r \<in> set (all_resources mods). mr_uniqueId r = u")
  case False
  then have "winner (stage1 mods) u = None" "winner (all_resources mods) u = None"
    by (auto simp: winner_def find_None_iff)
  then show ?thesis by simp
next
  case True
  then obtain r where r: "r \<in> set (all_resources mods)" "mr_uniqueId r = u" by blast
  let ?Q = "\<lambda>x. mr_type x = mr_type r"
  let ?P = "\<lambda>x. (has_data x \<and> mr_uniqueId x = u) \<and> x \<in> set (all_resources mods)"
  have Q: "?P x \<Longrightarrow> ?Q x" for x using assms r unfolding ids_typed_def by metis
  have cong: "winner xs u = find ?P xs" if "set xs = set (all_resources mods)" for xs
    unfolding winner_def using that by (intro find_cong) auto
  have "winner (stage1 mods) u = find ?P (filter ?Q (stage1 mods))"
    using cong [of "stage1 mods"] find_filter [of ?P ?Q, OF Q] by simp
  also have "filter ?Q (stage1 mods) = filter ?Q (all_resources mods)"
    unfolding stage1_def sort_resources_def by (rule sort_key_stable)
  also have "find ?P \<dots> = winner (all_resources mods) u"
    using cong [of "all_resources mods"] find_filter [of ?P ?Q, OF Q] by simp
  finally show ?thesis .
qed

lemma winner_last_mod:
  assumes "find (\<lambda>r. has_data r \<and> mr_uniqueId r = u) (km_resources m) = Some w"
    "\<forall>m' \<in> set after. \<forall>r \<in> set (km_resources m'). has_data r \<longrightarrow> mr_uniqueId r \<noteq> u"
  shows "winner (all_resources (before @ m # after)) u = Some w"
proof -
  have "find (\<lambda>r. has_data r \<and> mr_uniqueId r = u) (all_resources after) = None"
    using assms(2) by (auto simp: find_None_iff)
  then show ?thesis using assms(1) by (simp add: winner_def find_append)
qed

lemma bundle_spec_ids: "map mr_uniqueId (bundle_spec all h) = map mr_uniqueId (first_by mr_uniqueId {} (filter (added_to h) all))"
  unfolding bundle_spec_def map_map
  by (intro map_cong refl) (auto split: option.split dest: winnerD)

text \<open>C1: \<open>FinalizeModLoads\<close> implements its specification: the resources of all mods, sorted by type with the last
  mod first, each without data of its own taking the data of the one that wins for its identifier; and for every
  bundle one resource per identifier that names the bundle, replaced by the winner where there is one.\<close>

theorem FinalizeModLoads_refines:
  "m_modResources (FinalizeModLoads ml) = map (\<lambda>r. case winner (stage1 (m_mods ml)) (mr_uniqueId r) of
      Some w \<Rightarrow> if mr_handlerHash r = 0 \<and> mr_resourceIndex r = -1 then r\<lparr>mr_resourceIndex := 0, mr_data := mr_data w\<rparr> else r
    | None \<Rightarrow> r) (stage1 (m_mods ml)) \<and>
   bundle_list (m_bundleResources (FinalizeModLoads ml)) h =
      bundle_list (m_bundleResources ml) h @ bundle_spec (stage1 (m_mods ml)) h"
proof
  let ?all = "stage1 (m_mods ml)"
  have "sources_of (stage2 0 ?all []) ?all u = map_option mr_data (winner ?all u)" for u
    by (simp add: sources_of_def option.map_comp comp_def flip: stage2_winner)
  then show "m_modResources (FinalizeModLoads ml) = map (\<lambda>r. case winner ?all (mr_uniqueId r) of
      Some w \<Rightarrow> if mr_handlerHash r = 0 \<and> mr_resourceIndex r = -1 then r\<lparr>mr_resourceIndex := 0, mr_data := mr_data w\<rparr> else r
    | None \<Rightarrow> r) ?all"
    by (auto simp: FinalizeModLoads_def Let_def stage3_def split: option.split)
qed (rule FinalizeModLoads_spec)

text \<open>No bundle gets two resources with one identifier, and it gets one for exactly the identifiers of the
  resources that name the bundle and are not left to a handler.\<close>

theorem FinalizeModLoads_bundle_ids:
  assumes "m_bundleResources ml = []"
  shows "distinct (map mr_uniqueId (bundle_list (m_bundleResources (FinalizeModLoads ml)) h)) \<and>
    mr_uniqueId ` set (bundle_list (m_bundleResources (FinalizeModLoads ml)) h) =
      {mr_uniqueId r | r m. m \<in> set (m_mods ml) \<and> r \<in> set (km_resources m) \<and>
        (mr_handlerHash r = 0 \<or> mr_duped r) \<and> h \<in> set (mr_bundles r)}"
proof -
  let ?L = "bundle_list (m_bundleResources (FinalizeModLoads ml)) h"
  let ?F = "filter (added_to h) (stage1 (m_mods ml))"
  have L: "map mr_uniqueId ?L = map mr_uniqueId (first_by mr_uniqueId {} ?F)"
    using assms by (simp add: FinalizeModLoads_spec bundle_spec_ids)
  then have "mr_uniqueId ` set ?L = mr_uniqueId ` set ?F"
    by (metis set_map set_first_by Diff_empty)
  moreover have "set ?F = {r. \<exists>m \<in> set (m_mods ml). r \<in> set (km_resources m) \<and>
      (mr_handlerHash r = 0 \<or> mr_duped r) \<and> h \<in> set (mr_bundles r)}"
    by (auto simp: added_to_def skipped_def ContainsBundle_def)
  ultimately show ?thesis using L distinct_first_by [of mr_uniqueId "{}" ?F] by auto
qed

text \<open>C6: the mod loaded last wins. If a mod changes the data of an asset and no mod after it does, then every bundle
  that any mod adds the asset to gets that mod's version, and no other.\<close>

theorem FinalizeModLoads_last_wins:
  assumes "m_mods ml = before @ m # after" "m_bundleResources ml = []" "ids_typed (all_resources (m_mods ml))"
    "find (\<lambda>r. has_data r \<and> mr_uniqueId r = u) (km_resources m) = Some w"
    "\<forall>m' \<in> set after. \<forall>r \<in> set (km_resources m'). has_data r \<longrightarrow> mr_uniqueId r \<noteq> u"
    "r \<in> set (all_resources (m_mods ml))" "mr_uniqueId r = u" "added_to h r"
  shows "filter (\<lambda>x. mr_uniqueId x = u) (bundle_list (m_bundleResources (FinalizeModLoads ml)) h) = [w]"
proof -
  let ?all = "stage1 (m_mods ml)"
  let ?L = "bundle_list (m_bundleResources (FinalizeModLoads ml)) h"
  let ?F = "first_by mr_uniqueId {} (filter (added_to h) ?all)"
  have L: "?L = bundle_spec ?all h" using assms(2) by (simp add: FinalizeModLoads_spec)
  have w: "winner ?all u = Some w"
    using winner_stage1 [OF assms(3)] winner_last_mod [OF assms(4,5)] assms(1) by metis
  have "x = w" if x: "x \<in> set ?L" "mr_uniqueId x = u" for x
  proof -
    obtain y where y: "x = (case winner ?all (mr_uniqueId y) of None \<Rightarrow> y | Some w \<Rightarrow> w)"
      using x(1) unfolding L bundle_spec_def by auto
    then have "mr_uniqueId y = u" using x(2) by (auto split: option.splits dest: winnerD)
    then show ?thesis using y w by simp
  qed
  then have all_w: "\<forall>x \<in> set (filter (\<lambda>x. mr_uniqueId x = u) ?L). x = w" by auto
  have "u \<in> mr_uniqueId ` set (filter (added_to h) ?all)" using assms(6,7,8) by (simp add: rev_image_eqI)
  then have "u \<in> set (map mr_uniqueId ?L)"
    unfolding L bundle_spec_ids using set_first_by [of mr_uniqueId "{}" "filter (added_to h) ?all"] by simp
  then have ne: "filter (\<lambda>x. mr_uniqueId x = u) ?L \<noteq> []" by (auto simp: filter_empty_conv)
  have "distinct (map mr_uniqueId ?L)" unfolding L bundle_spec_ids by (rule distinct_first_by)
  then have "distinct (filter (\<lambda>x. mr_uniqueId x = u) ?L)" by (simp add: distinct_map)
  with all_w ne show ?thesis
    by (cases "filter (\<lambda>x. mr_uniqueId x = u) ?L") (auto, metis list.set_intros(1) neq_Nil_conv)
qed

text \<open>Two mods that change one asset, the second also adding it to a bundle.\<close>

definition data_sample :: "u32 \<Rightarrow> mod_resource_data" where
  "data_sample file = \<lparr>md_size = 1, md_originalSize = 1, md_buffer = None, md_fbFile = file, md_dataOffset = 0, md_resType = 0,
    md_resRid = 0, md_resMeta = [], md_rangeStart = 0, md_rangeEnd = 0, md_logicalOffset = 0, md_logicalSize = 0,
    md_h32 = 0, md_firstMip = 0\<rparr>"

definition resource_sample :: "u32 \<Rightarrow> u32 list \<Rightarrow> u32 \<Rightarrow> mod_resource" where
  "resource_sample idx bundles file = \<lparr>mr_type = FrostyResourceType_Ebx, mr_name = ''a'', mr_bundles = bundles, mr_handlerHash = 0,
    mr_resourceIndex = idx, mr_duped = False, mr_modName = ''m'', mr_modIndex = 0, mr_data = data_sample file, mr_uniqueId = 7\<rparr>"

definition loader_sample :: mod_loader where
  "loader_sample = \<lparr>m_mods =
      [\<lparr>km_path = ''x'', km_fbFile = 1, km_resources = [resource_sample 0 [] 1]\<rparr>,
       \<lparr>km_path = ''y'', km_fbFile = 2, km_resources = [resource_sample 0 [] 2]\<rparr>,
       \<lparr>km_path = ''z'', km_fbFile = 3, km_resources = [resource_sample (-1) [5] 3]\<rparr>],
    m_bundleMerger = \<lparr>m_catalogs = [], m_bundleEntries = (\<lambda>_. None), m_vanillaEbx = [], m_vanillaRes = [], m_vanillaChunk = []\<rparr>,
    m_addedBundles = {}, m_requiredFiles = {}, m_modResources = [], m_handlerResources = [], m_bundleResources = [],
    m_dupedHandlerSources = (\<lambda>_. [])\<rparr>"

theorem FinalizeModLoads_last_wins_witness:
  "filter (\<lambda>x. mr_uniqueId x = 7) (bundle_list (m_bundleResources (FinalizeModLoads loader_sample)) 5) = [resource_sample 0 [] 2]"
  by (rule FinalizeModLoads_last_wins [where before = "[\<lparr>km_path = ''x'', km_fbFile = 1, km_resources = [resource_sample 0 [] 1]\<rparr>]"
        and m = "\<lparr>km_path = ''y'', km_fbFile = 2, km_resources = [resource_sample 0 [] 2]\<rparr>" and r = "resource_sample (-1) [5] 3"])
    (auto simp: loader_sample_def resource_sample_def ids_typed_def has_data_def added_to_def skipped_def ContainsBundle_def)

section \<open>File numbers\<close>

text \<open>The loop finds the catalog whose range of the mod numbers contains the mod.\<close>

lemma next_mod_loop_Some:
  "next_mod_loop szs c n = Some (c', s, k) \<Longrightarrow>
    \<exists>i < length szs. c' = c + i \<and> s = szs ! i \<and> n = k + sum_list (map ((-) 255) (take i szs)) \<and> k \<le> 255 - s \<and> (i > 0 \<longrightarrow> k > 0)"
proof (induction szs c n arbitrary: c' s k rule: next_mod_loop.induct)
  case (2 sz szs c n)
  show ?case
  proof (cases "n > 255 - sz")
    case True
    with "2.IH" [of c' s k] "2.prems" obtain i where i: "i < length szs" "c' = c + 1 + i" "s = szs ! i"
      "n - (255 - sz) = k + sum_list (map ((-) 255) (take i szs))" "k \<le> 255 - s" "i > 0 \<longrightarrow> k > 0" by auto
    then have "k > 0" if "i = 0" using that True by simp
    then show ?thesis using i True by (intro exI [of _ "Suc i"]) auto
  next
    case False
    then show ?thesis using "2.prems" by (intro exI [of _ 0]) auto
  qed
qed simp

lemma next_mod_loop_None: "next_mod_loop szs c n = None \<longleftrightarrow> (szs = [] \<or> sum_list (map ((-) 255) szs) < n)"
  by (induction szs c n rule: next_mod_loop.induct) auto

lemma and_255: "(x :: u32) AND 0xFF = take_bit 8 x"
  by (simp add: take_bit_eq_mask mask_eq_exp_minus_1)

lemma and_256: "\<not> bit x 8 \<Longrightarrow> (word_of_nat x :: u32) AND 0x100 = 0"
  using and_exp_eq_0_iff_not_bit [of "word_of_nat x :: u32" 8] by (simp add: bit_simps)

lemma file_number:
  assumes "c < 7" "v < 256"
  shows "push_bit 12 (word_of_nat (c + 1)) OR (word_of_nat v AND 0xFF) = (word_of_nat (4096 * (c + 1) + v) :: u32)"
proof -
  have "take_bit 8 v = v" using assms(2) by (simp add: take_bit_nat_eq_self_iff)
  then have "take_bit 8 (word_of_nat v :: u32) = word_of_nat v" by (metis take_bit_of_nat)
  then have v: "(word_of_nat v :: u32) AND 0xFF = word_of_nat v" by (simp only: and_255)
  have "push_bit 12 (word_of_nat (c + 1)) AND (word_of_nat v :: u32) = 0"
  proof (rule bit_word_eqI)
    fix n assume "n < LENGTH(32)"
    have "\<not> bit v n" if "12 \<le> n"
      using assms(2) that power_increasing [of 12 n "2 :: nat"] by (simp add: bit_iff_odd)
    then show "bit (push_bit 12 (word_of_nat (c + 1)) AND (word_of_nat v :: u32)) n = bit (0 :: u32) n"
      by (auto simp: bit_simps)
  qed
  then have "push_bit 12 (word_of_nat (c + 1)) OR (word_of_nat v :: u32) = push_bit 12 (word_of_nat (c + 1)) + word_of_nat v"
    by (rule disjunctive_add_eq_or [symmetric])
  then show ?thesis using v by (simp add: push_bit_eq_mult)
qed

lemma catalog_space: "sum_list (map ((-) 255) kCatalogSizes) = 1739"
  by (simp add: kCatalogSizes_def)

definition mod_space :: "nat \<Rightarrow> nat" where
  "mod_space i = sum_list (map ((-) 255) (take i kCatalogSizes))"

text \<open>The number of a mod is a catalog and an index in the part of the catalog behind its own files.\<close>

lemma GetNextModFile_split:
  assumes "length mods \<le> 1739"
  shows "\<exists>i k. i < 7 \<and> length mods = k + mod_space i \<and> k + kCatalogSizes ! i \<le> 255 \<and> (length mods > 0 \<longrightarrow> k > 0) \<and>
    GetNextModFile mods = Inr (word_of_nat (4096 * (i + 1) + (k + kCatalogSizes ! i - 1)))"
proof -
  have n: "length mods mod 2 ^ 32 = length mods" using assms by simp
  have "next_mod_loop kCatalogSizes 0 (length mods) \<noteq> None"
    using assms by (simp only: next_mod_loop_None catalog_space) (simp add: kCatalogSizes_def)
  then obtain c s k where r: "next_mod_loop kCatalogSizes 0 (length mods) = Some (c, s, k)" by auto
  from next_mod_loop_Some [OF r] have i: "c < 7" "s = kCatalogSizes ! c" "length mods = k + mod_space c" "k \<le> 255 - s" "c > 0 \<longrightarrow> k > 0"
    by (auto simp: mod_space_def kCatalogSizes_def)
  have s: "s \<le> 12" "s > 0" using i(1,2) by (auto simp: kCatalogSizes_def less_Suc_eq numeral_eq_Suc)
  have "word_of_nat (k + s) - 1 = (word_of_nat (k + s - 1) :: u32)" using s by (simp add: of_nat_diff)
  then have "GetNextModFile mods = Inr (word_of_nat (4096 * (c + 1) + (k + s - 1)))"
    using file_number [of c "k + s - 1"] i s r n by (simp add: GetNextModFile_def)
  moreover have "k > 0" if "length mods > 0" using that i(3,5) by (cases "c = 0") (auto simp: mod_space_def)
  ultimately show ?thesis using i s by (intro exI [of _ c] exI [of _ k]) auto
qed

lemma mod_space_mono: "i < j \<Longrightarrow> j < 7 \<Longrightarrow> mod_space i + (255 - kCatalogSizes ! i) \<le> mod_space j"
  by (auto simp: mod_space_def kCatalogSizes_def less_Suc_eq numeral_eq_Suc)

lemma unat_file_number: "i < 7 \<Longrightarrow> v < 256 \<Longrightarrow> unat (word_of_nat (4096 * (i + 1) + v) :: u32) = 4096 * (i + 1) + v"
  by (intro unat_small) simp

text \<open>Different numbers of mods lead to different file numbers.\<close>

lemma GetNextModFile_inj:
  assumes "length mods \<le> 1739" "length mods' \<le> 1739" "length mods \<noteq> length mods'"
  shows "GetNextModFile mods \<noteq> GetNextModFile mods'"
proof -
  obtain i k where 1: "i < 7" "length mods = k + mod_space i" "k + kCatalogSizes ! i \<le> 255" "length mods > 0 \<longrightarrow> k > 0"
    "GetNextModFile mods = Inr (word_of_nat (4096 * (i + 1) + (k + kCatalogSizes ! i - 1)))"
    using GetNextModFile_split [OF assms(1)] by blast
  obtain i' k' where 2: "i' < 7" "length mods' = k' + mod_space i'" "k' + kCatalogSizes ! i' \<le> 255" "length mods' > 0 \<longrightarrow> k' > 0"
    "GetNextModFile mods' = Inr (word_of_nat (4096 * (i' + 1) + (k' + kCatalogSizes ! i' - 1)))"
    using GetNextModFile_split [OF assms(2)] by blast
  have pos: "0 < kCatalogSizes ! i" using 1(1) by (auto simp: kCatalogSizes_def less_Suc_eq numeral_eq_Suc)
  show ?thesis
  proof
    assume "GetNextModFile mods = GetNextModFile mods'"
    then have "unat (word_of_nat (4096 * (i + 1) + (k + kCatalogSizes ! i - 1)) :: u32) =
        unat (word_of_nat (4096 * (i' + 1) + (k' + kCatalogSizes ! i' - 1)) :: u32)" by (simp only: 1(5) 2(5) sum.inject)
    moreover have "k + kCatalogSizes ! i - 1 < 256" "k' + kCatalogSizes ! i' - 1 < 256" using 1(3) 2(3) by simp_all
    ultimately have eq: "4096 * (i + 1) + (k + kCatalogSizes ! i - 1) = 4096 * (i' + 1) + (k' + kCatalogSizes ! i' - 1)"
      by (simp only: unat_file_number [OF 1(1)] unat_file_number [OF 2(1)])
    moreover have "(4096 * (i + 1) + (k + kCatalogSizes ! i - 1)) div 4096 = i + 1"
      "(4096 * (i' + 1) + (k' + kCatalogSizes ! i' - 1)) div 4096 = i' + 1" using 1(3) 2(3) by simp_all
    ultimately have "i = i'" by simp
    with eq pos have "k = k'" by simp
    with \<open>i = i'\<close> 1(2) 2(2) assms(3) show False by simp
  qed
qed

text \<open>The file numbers of all mods but the first lie behind the catalog's own files, the index stays below 255
  and the patch bit is clear; one more mod than the 1740 that fit is an error.\<close>

theorem GetNextModFile_range:
  assumes "length mods < 2 ^ 32"
  shows "if length mods > 1739 then GetNextModFile mods = Inl Out_Of_Bounds
    else \<exists>f c. GetNextModFile mods = Inr f \<and> GetCatalogIndex f = int c \<and> c < 7 \<and> f AND 0x100 = 0 \<and> unat (f AND 0xFF) < 255 \<and>
      (mods \<noteq> [] \<longrightarrow> kCatalogSizes ! c \<le> unat (f AND 0xFF))"
proof (cases "length mods > 1739")
  case True
  then have "next_mod_loop kCatalogSizes 0 (length mods) = None"
    by (simp only: next_mod_loop_None catalog_space simp_thms)
  then show ?thesis using assms True by (simp add: GetNextModFile_def)
next
  case False
  then obtain i k where 1: "i < 7" "k + kCatalogSizes ! i \<le> 255" "length mods > 0 \<longrightarrow> k > 0"
    "GetNextModFile mods = Inr (word_of_nat (4096 * (i + 1) + (k + kCatalogSizes ! i - 1)))"
    using GetNextModFile_split [of mods] by (auto simp: not_less)
  let ?v = "k + kCatalogSizes ! i - 1"
  let ?f = "word_of_nat (4096 * (i + 1) + ?v) :: u32"
  have pos: "0 < kCatalogSizes ! i" using 1(1) by (auto simp: kCatalogSizes_def less_Suc_eq numeral_eq_Suc)
  have v: "?v < 256" using 1(2) by simp
  have u: "unat ?f = 4096 * (i + 1) + ?v" using unat_file_number [OF 1(1) v] .
  have "sint ?f = int (4096 * (i + 1) + ?v)" using 1(1) v by (intro sint_small) simp
  then have ci: "GetCatalogIndex ?f = int i" using v by (simp add: GetCatalogIndex_def drop_bit_eq_div)
  have d: "4096 * (i + 1) + ?v = ?v + 256 * (16 * (i + 1))" by simp
  then have "(4096 * (i + 1) + ?v) mod 256 = ?v" using v by (simp only: mod_mult_self2 mod_less)
  moreover have "unat (?f AND 0xFF) = take_bit 8 (unat ?f)" by (simp only: and_255 unsigned_take_bit_eq)
  moreover have "take_bit 8 (4096 * (i + 1) + ?v) = (4096 * (i + 1) + ?v) mod 256" by (simp add: take_bit_eq_mod)
  ultimately have "unat (?f AND 0xFF) = ?v" by (simp only: u)
  moreover note ci
  moreover have "(4096 * (i + 1) + ?v) div 2 ^ 8 = 16 * (i + 1)" using v by (simp only: d) simp
  then have "?f AND 0x100 = 0" by (intro and_256) (simp only: bit_iff_odd, simp)
  ultimately show ?thesis using False 1(1-3) pos by (simp only: if_False) (intro exI conjI, auto simp: 1(4))
qed

text \<open>The first mod gets the number of the last file of its catalog, not the one behind it: catalog
  \<^verbatim>\<open>initialexperience\<close> has the ten files 1 to 10, and the number 0x1009 stands for its file 10.\<close>

theorem GetNextModFile_first:
  "GetNextModFile ([] :: kyber_mod list) = Inr 0x1009 \<and>
    cas_path (c # cs) 0x1009 = Inr (''/native_data/Data/'' @ c @ ''/cas_10.cas'') \<and> kCatalogSizes ! 0 = 10"
proof -
  have "char_of (49 :: nat) = CHR ''1''" "char_of (48 :: nat) = CHR ''0''" by code_simp+
  then show ?thesis by (simp add: GetNextModFile_def kCatalogSizes_def cas_path_def GetCatalogIndex_def drop_bit_eq_div)
qed

section \<open>Loading mods\<close>

text \<open>
  The invariant of the loaded mods: the file number of a mod is the one \<open>GetNextModFile\<close> gave for the mods before it,
  its resources point into its file, carry its index and the hash of their name, and the bundles it adds are known.
\<close>

definition resource_inv :: "mod_loader \<Rightarrow> nat \<Rightarrow> u32 \<Rightarrow> mod_resource \<Rightarrow> bool" where
  "resource_inv ml i fbFile r \<longleftrightarrow> md_fbFile (mr_data r) = fbFile \<and> mr_modIndex r = word_of_nat i \<and>
    mr_uniqueId r = HashQuickLower (GetNameWithType r) \<and>
    (mr_type r = FrostyResourceType_Bundle \<longrightarrow> HashQuickLower (mr_name r) \<in> m_addedBundles ml) \<and>
    (mr_type r \<noteq> FrostyResourceType_Bundle \<and> mr_resourceIndex r = -1 \<longrightarrow> mr_bundles r \<noteq> [])"

definition loader_inv :: "mod_loader \<Rightarrow> bool" where
  "loader_inv ml \<longleftrightarrow> (\<forall>i < length (m_mods ml).
    GetNextModFile (take i (m_mods ml)) = Inr (km_fbFile (m_mods ml ! i)) \<and>
    sorted (map mr_type (km_resources (m_mods ml ! i))) \<and>
    list_all (resource_inv ml i (km_fbFile (m_mods ml ! i))) (km_resources (m_mods ml ! i)))"

lemma note_resource_keeps [simp]: "m_mods (note_resource r ml) = m_mods ml" "m_bundleMerger (note_resource r ml) = m_bundleMerger ml"
  "m_addedBundles ml \<subseteq> m_addedBundles (note_resource r ml)"
  by (auto simp: note_resource_def split: option.split)

lemma resource_inv_mono: "resource_inv ml i f r \<Longrightarrow> m_addedBundles ml \<subseteq> m_addedBundles ml' \<Longrightarrow> resource_inv ml' i f r"
  by (auto simp: resource_inv_def)

lemma resource_inv_make:
  assumes "\<not> (r_type r \<noteq> FrostyResourceType_Bundle \<and> r_resourceIndex r = -1 \<and> r_addedBundles r = [])"
    "mr = make_resource g title i f r offset dataSize buffer"
  shows "resource_inv (note_resource mr ml) i f mr"
  using assms by (auto simp: resource_inv_def make_resource_def note_resource_def GetNameWithType_def)

lemma keep_resource_inv:
  assumes "keep_resource title f r offset dataSize c buffer (rs, ml) = (rs', ml')"
    "list_all (resource_inv ml (length (m_mods ml)) f) rs"
  shows "list_all (resource_inv ml' (length (m_mods ml')) f) rs' \<and> m_mods ml' = m_mods ml \<and> m_addedBundles ml \<subseteq> m_addedBundles ml'"
proof (cases "c \<noteq> RT_SUCCESS \<or> r_type r \<noteq> FrostyResourceType_Bundle \<and> r_resourceIndex r = -1 \<and> r_addedBundles r = []")
  case True
  then have "rs' = rs \<and> ml' = ml" using assms(1) by (auto simp: keep_resource_def split: if_splits)
  then show ?thesis using assms(2) by simp
next
  case False
  let ?mr = "make_resource (m_bundleMerger ml) title (length (m_mods ml)) f r offset dataSize buffer"
  have eq: "rs' = rs @ [?mr]" "ml' = note_resource ?mr ml" using assms(1) False by (auto simp: keep_resource_def Let_def)
  have "resource_inv ml' (length (m_mods ml)) f ?mr" unfolding eq(2) by (rule resource_inv_make) (use False in auto)
  moreover have "list_all (resource_inv ml' (length (m_mods ml)) f) rs"
    using assms(2) resource_inv_mono [OF _ note_resource_keeps(3)] unfolding list_all_iff eq(2) by blast
  ultimately show ?thesis by (simp add: eq)
qed

lemma load_resource_inv:
  assumes "load_resource zstd f r (m, rs, ml) = Inr (m', rs', ml')" "list_all (resource_inv ml (length (m_mods ml)) f) rs"
  shows "list_all (resource_inv ml' (length (m_mods ml')) f) rs' \<and> m_mods ml' = m_mods ml \<and> m_addedBundles ml \<subseteq> m_addedBundles ml'"
proof -
  obtain offset dataSize c buffer where "keep_resource (rm_title m) f r offset dataSize c buffer (rs, ml) = (rs', ml')"
    using assms(1) unfolding load_resource_def by (auto split: sum.splits simp del: if_split_asm simp: case_prod_beta)
  then show ?thesis using keep_resource_inv assms(2) by blast
qed

lemma load_resources_inv:
  "load_resources zstd f xs (m, rs, ml) = Inr (m', rs', ml') \<Longrightarrow> list_all (resource_inv ml (length (m_mods ml)) f) rs \<Longrightarrow>
    list_all (resource_inv ml' (length (m_mods ml')) f) rs' \<and> m_mods ml' = m_mods ml \<and> m_addedBundles ml \<subseteq> m_addedBundles ml'"
proof (induction xs arbitrary: m rs ml)
  case (Cons x xs)
  obtain m1 rs1 ml1 where 1: "load_resource zstd f x (m, rs, ml) = Inr (m1, rs1, ml1)"
    "load_resources zstd f xs (m1, rs1, ml1) = Inr (m', rs', ml')"
    using Cons.prems(1) by (auto split: sum.splits)
  show ?case using load_resource_inv [OF 1(1) Cons.prems(2)] Cons.IH [OF 1(2)] by (metis order_trans)
qed simp

lemma LoadMod_cases:
  assumes "LoadMod zstd contents path ml = Inr ml'"
  obtains "ml' = ml"
  | m m1 f rs ml1 fs where "GetNextModFile (m_mods ml) = Inr f" "load_resources zstd f fs (m, [], ml) = Inr (m1, rs, ml1)"
    "ml' = ml1\<lparr>m_mods := m_mods ml1 @ [\<lparr>km_path = path, km_fbFile = f, km_resources = sort_resources rs\<rparr>]\<rparr>"
  using assms unfolding LoadMod_def by (auto split: option.splits sum.splits prod.splits if_splits)

lemma LoadMod_inv:
  assumes "LoadMod zstd contents path ml = Inr ml'" "loader_inv ml"
  shows "loader_inv ml'"
  using assms(1)
proof (cases rule: LoadMod_cases)
  case (2 m m1 f rs ml1 fs)
  have r: "list_all (resource_inv ml1 (length (m_mods ml)) f) rs" "m_mods ml1 = m_mods ml" "m_addedBundles ml \<subseteq> m_addedBundles ml1"
    using load_resources_inv [OF 2(2)] by auto
  have mono: "resource_inv ml i g x \<Longrightarrow> resource_inv ml' i g x" for i g x
    using r(3) 2(3) by (elim resource_inv_mono) simp
  have new: "resource_inv ml1 i g x \<Longrightarrow> resource_inv ml' i g x" for i g x
    using 2(3) by (elim resource_inv_mono) simp
  show ?thesis unfolding loader_inv_def
  proof (intro allI impI)
    fix i assume i: "i < length (m_mods ml')"
    show "GetNextModFile (take i (m_mods ml')) = Inr (km_fbFile (m_mods ml' ! i)) \<and>
      sorted (map mr_type (km_resources (m_mods ml' ! i))) \<and>
      list_all (resource_inv ml' i (km_fbFile (m_mods ml' ! i))) (km_resources (m_mods ml' ! i))"
    proof (cases "i < length (m_mods ml)")
      case True
      then show ?thesis using assms(2) 2(3) r(2) mono by (auto simp: loader_inv_def nth_append list_all_iff)
    next
      case False
      then have "i = length (m_mods ml)" using i 2(3) r(2) by simp
      then show ?thesis using 2 r new by (auto simp: nth_append sort_resources_def list_all_iff)
    qed
  qed
qed (use assms(2) in simp)

lemma LoadMods_inv: "LoadMods zstd files ml = Inr ml' \<Longrightarrow> loader_inv ml \<Longrightarrow> loader_inv ml'"
  by (induction zstd files ml rule: LoadMods.induct) (auto split: sum.splits intro: LoadMod_inv)

lemma loader_inv_length: "loader_inv ml \<Longrightarrow> length (m_mods ml) < 2 ^ 32 \<Longrightarrow> length (m_mods ml) \<le> 1740"
proof (rule ccontr)
  assume a: "loader_inv ml" "length (m_mods ml) < 2 ^ 32" "\<not> length (m_mods ml) \<le> 1740"
  then have "GetNextModFile (take 1740 (m_mods ml)) = Inr (km_fbFile (m_mods ml ! 1740))" by (simp add: loader_inv_def)
  moreover have "next_mod_loop kCatalogSizes 0 1740 = None" by (simp add: kCatalogSizes_def)
  then have "GetNextModFile (take 1740 (m_mods ml)) = Inl Out_Of_Bounds"
    using a(3) by (simp add: GetNextModFile_def min_def)
  ultimately show False by simp
qed

text \<open>C24: loading mods keeps the invariant of the loader, whatever the files contain: the resources of every mod are
  sorted by type, point into the mod's file, carry the mod's index and the hash of their name, and every bundle a
  mod adds is among the added bundles.\<close>

theorem LoadMods_invariant:
  assumes "LoadMods zstd files ml = Inr ml'" "m_mods ml = []"
  shows "loader_inv ml'"
  using assms by (intro LoadMods_inv [OF assms(1)]) (simp add: loader_inv_def)

text \<open>C25: no two loaded mods share a file number.\<close>

theorem LoadMods_distinct_files:
  assumes "LoadMods zstd files ml = Inr ml'" "m_mods ml = []" "length (m_mods ml') < 2 ^ 32"
  shows "distinct (map km_fbFile (m_mods ml'))"
proof -
  have inv: "loader_inv ml'" using assms(1,2) by (intro LoadMods_inv [OF assms(1)]) (simp add: loader_inv_def)
  have "km_fbFile (m_mods ml' ! i) \<noteq> km_fbFile (m_mods ml' ! j)" if "i < length (m_mods ml')" "j < length (m_mods ml')" "i \<noteq> j" for i j
  proof -
    have "length (m_mods ml') \<le> 1740" using inv assms(3) by (rule loader_inv_length)
    then have "GetNextModFile (take i (m_mods ml')) \<noteq> GetNextModFile (take j (m_mods ml'))"
      using that by (intro GetNextModFile_inj) simp_all
    then show ?thesis using inv that by (simp add: loader_inv_def)
  qed
  then show ?thesis by (simp add: distinct_conv_nth)
qed

text \<open>C32: a mod file of the versions 1 to 3 that ends inside the name of an added bundle is not rejected: \<open>LoadMod\<close> gets
  a mod without a list of resources and dereferences the null pointer.\<close>

theorem LoadMod_truncated_crash:
  assumes "mod_ok m" "rm_version m \<le> 3" "NUL \<notin> set name" "length (m_mods ml) \<le> 1739"
  shows "LoadMod zstd (Some (header_enc m @ details_enc m @ bytes32 1 @ [4] @ bytes32 (-1) @ str_bytes name)) path ml = Inl Null_Deref"
proof -
  obtain m' where "RT_FrostyLoadMod (header_enc m @ details_enc m @ bytes32 1 @ [4] @ bytes32 (-1) @ str_bytes name) =
    Inr (RT_SUCCESS, Some m')" "rm_resources m' = None"
    using RT_FrostyLoadMod_truncated [OF assms(1-3)] by blast
  moreover obtain f where "GetNextModFile (m_mods ml) = Inr f" using GetNextModFile_split [OF assms(4)] by blast
  ultimately show ?thesis by (simp add: LoadMod_def)
qed

theorem LoadMod_truncated_crash_witness:
  "LoadMod (\<lambda>_ _. None) (Some (header_enc (mod_sample\<lparr>rm_version := 3, rm_link := []\<rparr>) @
      details_enc (mod_sample\<lparr>rm_version := 3, rm_link := []\<rparr>) @ bytes32 1 @ [4] @ bytes32 (-1) @ str_bytes ''win32'')) ''x''
    loader_sample = Inl Null_Deref"
  by (rule LoadMod_truncated_crash) (simp_all add: mod_sample_def mod_ok_def rt_mod_zero_def NUL_def loader_sample_def)

text \<open>A mod file with one resource, loaded into the empty loader.\<close>

abbreviation frosty_sample :: rt_resource where
  "frosty_sample \<equiv> rt_zero\<lparr>r_type := 5, r_resourceIndex := -1, r_name := Some ''win32/b''\<rparr>"

lemma LoadMods_sample:
  "\<exists>ml'. LoadMods (\<lambda>_ _. None) [(Some (mod_enc mod_sample [frosty_sample] @ []), ''x'')] (loader_sample\<lparr>m_mods := []\<rparr>) = Inr ml' \<and>
    length (m_mods ml') = 1"
proof -
  have "RT_FrostyLoadMod (mod_enc mod_sample [frosty_sample] @ []) =
    Inr (RT_SUCCESS, Some (mod_sample\<lparr>rm_resources := Some [frosty_sample],
      rm_file := \<lparr>f_data = mod_enc mod_sample [frosty_sample] @ [], f_pos = length (mod_enc mod_sample [frosty_sample])\<rparr>\<rparr>))"
    by (rule RT_FrostyLoadMod_at) (simp_all add: mod_sample_def mod_ok_def rt_mod_zero_def resource_ok_def rt_zero_def NUL_def)
  moreover have "GetNextModFile ([] :: kyber_mod list) = Inr 0x1009" by (simp add: GetNextModFile_def kCatalogSizes_def)
  ultimately show ?thesis
    by (simp add: LoadMod_def load_resource_def keep_resource_def Let_def loader_sample_def rt_zero_def)
qed

theorem LoadMods_invariant_witness:
  "\<exists>ml'. LoadMods (\<lambda>_ _. None) [(Some (mod_enc mod_sample [frosty_sample] @ []), ''x'')] (loader_sample\<lparr>m_mods := []\<rparr>) = Inr ml' \<and>
    loader_inv ml'"
  using LoadMods_sample LoadMods_invariant [of "\<lambda>_ _. None" _ "loader_sample\<lparr>m_mods := []\<rparr>"] by fastforce

theorem LoadMods_distinct_files_witness:
  "\<exists>ml'. LoadMods (\<lambda>_ _. None) [(Some (mod_enc mod_sample [frosty_sample] @ []), ''x'')] (loader_sample\<lparr>m_mods := []\<rparr>) = Inr ml' \<and>
    distinct (map km_fbFile (m_mods ml'))"
proof -
  obtain ml' where "LoadMods (\<lambda>_ _. None) [(Some (mod_enc mod_sample [frosty_sample] @ []), ''x'')] (loader_sample\<lparr>m_mods := []\<rparr>) = Inr ml'"
    "length (m_mods ml') = 1" using LoadMods_sample by blast
  then show ?thesis using LoadMods_distinct_files by fastforce
qed

end
