(* ===== verification/Mod_Merge.thy ===== *)
theory Mod_Merge
  imports Mod_Loader
begin

text \<open>
  How the mod loader changes the game's manifests (\<^verbatim>\<open>MergeBundleManifest\<close> and \<^verbatim>\<open>MergeLayoutManifest\<close> of
  \<^verbatim>\<open>Module/Source/ModLoader/ModLoader.cpp\<close>). The bundle manifest lists the assets of one bundle, the layout manifest the
  files of all bundles; the game matches them by position, so both functions have to add assets and files in
  the same order. That they do is the main theorem of this theory. The audit log that checks the same at
  run time is compiled in only with \<^verbatim>\<open>BUNDLE_AUDITS\<close> and is not modelled.
\<close>

unbundle bit_operations_syntax

section \<open>MergeBundleManifest\<close>

definition data_res_entry :: "mod_resource \<Rightarrow> res_entry" where
  "data_res_entry r = \<lparr>ename = mr_name r, originalSize = ucast (md_originalSize (mr_data r)), resType = md_resType (mr_data r),
    resMeta = md_resMeta (mr_data r), resRid = md_resRid (mr_data r)\<rparr>"

definition data_chunk_entry :: "mod_resource \<Rightarrow> chunk_entry" where
  "data_chunk_entry r = \<lparr>cguid = Guid_FromString (mr_name r), logicalOffset = md_logicalOffset (mr_data r),
    logicalSize = md_logicalSize (mr_data r)\<rparr>"

text \<open>The bundles a vanilla asset is in, by name, and the index of its file there.\<close>

definition ebx_index :: "bundle_merger \<Rightarrow> string \<Rightarrow> u32 \<Rightarrow> u32 option" where
  "ebx_index g name h = (case GetVanillaEbxEntry name g of None \<Rightarrow> None | Some e \<Rightarrow> map_of (ve_offsets e) h)"

definition res_index :: "bundle_merger \<Rightarrow> string \<Rightarrow> u32 \<Rightarrow> u32 option" where
  "res_index g name h = (case GetVanillaResEntry name g of None \<Rightarrow> None | Some e \<Rightarrow> map_of (ve_offsets e) h)"

definition chunk_index :: "bundle_merger \<Rightarrow> string \<Rightarrow> u32 \<Rightarrow> u32 option" where
  "chunk_index g name h = (case GetVanillaChunkEntry name g of None \<Rightarrow> None | Some e \<Rightarrow> map_of (ve_offsets e) h)"

text \<open>The body of the first loop, for a resource that is looked at.\<close>

definition modify_entry :: "bundle_merger \<Rightarrow> u32 \<Rightarrow> mod_resource \<Rightarrow> bundle_manifest \<Rightarrow> bundle_manifest result" where
  "modify_entry g h r m =
    (if mr_type r = FrostyResourceType_Ebx then
       Inr (if ebx_index g (mr_name r) h = None then m else ModifyEbxEntry (mr_name r) (ucast (md_originalSize (mr_data r))) m)
     else if mr_type r = FrostyResourceType_Res then
       Inr (if res_index g (mr_name r) h = None then m else ModifyResEntry (data_res_entry r) m)
     else if mr_type r = FrostyResourceType_Chunk then
       (if chunk_index g (mr_name r) h = None then Inr m
        else case AddChunkEntry (data_chunk_entry r) (md_h32 (mr_data r)) (md_firstMip (mr_data r)) False True m of
               Inl e \<Rightarrow> Inl e | Inr (_, m') \<Rightarrow> Inr m')
     else Inr m)"

fun modify_entries :: "bundle_merger \<Rightarrow> u32 \<Rightarrow> mod_resource list \<Rightarrow> u32 set \<Rightarrow> bundle_manifest \<Rightarrow> bundle_manifest result" where
  "modify_entries g h [] visited m = Inr m"
| "modify_entries g h (r # rs) visited m =
    (if ContainsBundle h r \<or> mr_resourceIndex r = -1 \<or> mr_handlerHash r \<noteq> 0 \<or> mr_uniqueId r \<in> visited
     then modify_entries g h rs visited m
     else case modify_entry g h r m of
            Inl e \<Rightarrow> Inl e
          | Inr m' \<Rightarrow> modify_entries g h rs (insert (mr_uniqueId r) visited) m')"

definition sourceName :: "(u32 \<Rightarrow> string) \<Rightarrow> mod_resource \<Rightarrow> string" where
  "sourceName duped r = (if \<not> mr_duped r then mr_name r else duped (mr_handlerHash r))"

text \<open>The body of the second loop: an asset with data of its own, or an unchanged one that is added to the bundle.\<close>

definition add_entry :: "bundle_merger \<Rightarrow> (u32 \<Rightarrow> string) \<Rightarrow> mod_resource \<Rightarrow> bundle_manifest \<Rightarrow> bundle_manifest result" where
  "add_entry g duped r m =
    (if has_data r then
      (if mr_type r = FrostyResourceType_Ebx then Inr (snd (AddEbxEntry (mr_name r) (ucast (md_originalSize (mr_data r))) True m))
       else if mr_type r = FrostyResourceType_Res then Inr (snd (AddResEntry (data_res_entry r) True m))
       else if mr_type r = FrostyResourceType_Chunk then
         (case AddChunkEntry (data_chunk_entry r) (md_h32 (mr_data r)) (md_firstMip (mr_data r)) True True m of
            Inl e \<Rightarrow> Inl e | Inr (_, m') \<Rightarrow> Inr m')
       else Inr m)
     else if mr_type r = FrostyResourceType_Ebx then
       (let osize = (case GetVanillaEbxEntry (sourceName duped r) g of None \<Rightarrow> 1000000 | Some e \<Rightarrow> originalSize (ve_entry e))
        in Inr (snd (AddEbxEntry (mr_name r) osize False m)))
     else if mr_type r = FrostyResourceType_Res then
       (case GetVanillaResEntry (mr_name r) g of
          None \<Rightarrow> Inr m
        | Some e \<Rightarrow> Inr (snd (AddResEntry (ve_entry e) False m)))
     else if mr_type r = FrostyResourceType_Chunk then
       (case GetVanillaChunkEntry (mr_name r) g of
          None \<Rightarrow> Inr m
        | Some e \<Rightarrow>
            (case AddChunkEntry \<lparr>cguid = Guid_FromString (mr_name r), logicalOffset = logicalOffset (ve_entry e),
                    logicalSize = logicalSize (ve_entry e)\<rparr> (md_h32 (mr_data r)) (md_firstMip (mr_data r)) True False m of
               Inl e \<Rightarrow> Inl e | Inr (_, m') \<Rightarrow> Inr m'))
     else Inr m)"

text \<open>Running a fallible step over a list, as the loops of this file do.\<close>

fun run :: "('r \<Rightarrow> 's \<Rightarrow> 's result) \<Rightarrow> 'r list \<Rightarrow> 's \<Rightarrow> 's result" where
  "run f [] s = Inr s"
| "run f (r # rs) s = (case f r s of Inl e \<Rightarrow> Inl e | Inr s' \<Rightarrow> run f rs s')"

definition MergeBundleManifest :: "string \<Rightarrow> mod_loader \<times> bundle_manifest \<Rightarrow> (mod_loader \<times> bundle_manifest) result" where
  "MergeBundleManifest loadingBundleName s =
    (case s of (ml, m) \<Rightarrow>
     let h = HashQuickLower (''win32/'' @ loadingBundleName);
         custom = (h \<in> m_addedBundles ml)
     in case (if custom then Inr (bm_clear m) else modify_entries (m_bundleMerger ml) h (m_modResources ml) {} m) of
          Inl e \<Rightarrow> Inl e
        | Inr m1 \<Rightarrow>
            let ml = ml\<lparr>m_bundleResources := map_emplace h [] (m_bundleResources ml)\<rparr>
            in case run (add_entry (m_bundleMerger ml) (m_dupedHandlerSources ml)) (bundle_list (m_bundleResources ml) h) m1 of
                 Inl e \<Rightarrow> Inl e
               | Inr m2 \<Rightarrow> Inr (ml, m2))"


section \<open>MergeLayoutManifest\<close>

definition data_file :: "mod_resource \<Rightarrow> file_info" where
  "data_file r = \<lparr>fi_file = md_fbFile (mr_data r), fi_offset = md_dataOffset (mr_data r),
    fi_size = ucast (ucast (md_size (mr_data r)) :: u32)\<rparr>"

text \<open>A chunk in a bundle is only the range of the chunk that the bundle needs.\<close>

definition chunk_file :: "mod_resource \<Rightarrow> file_info" where
  "chunk_file r =
    (let d = mr_data r;
         sz = (if md_rangeStart d \<noteq> 0 then md_rangeEnd d - md_rangeStart d else ucast (md_size d)) :: u32
     in \<lparr>fi_file = md_fbFile d, fi_offset = md_dataOffset d + md_rangeStart d, fi_size = ucast sz\<rparr>)"

fun add_chunks_bundles :: "mod_resource list \<Rightarrow> string set \<Rightarrow> layout_manifest \<Rightarrow> layout_manifest result" where
  "add_chunks_bundles [] modifiedChunks m = Inr m"
| "add_chunks_bundles (r # rs) modifiedChunks m =
    (if mr_type r = FrostyResourceType_Chunk then
       (if mr_resourceIndex r = -1 \<or> mr_name r \<in> modifiedChunks then add_chunks_bundles rs modifiedChunks m
        else add_chunks_bundles rs (insert (mr_name r) modifiedChunks) (AddChunk (Guid_FromString (mr_name r)) (data_file r) m))
     else if mr_type r = FrostyResourceType_Bundle then
       (case AddBundle (HashQuickLower (mr_name r)) m of
          Inl e \<Rightarrow> Inl e
        | Inr m' \<Rightarrow> add_chunks_bundles rs modifiedChunks m')
     else add_chunks_bundles rs modifiedChunks m)"

definition unique_key :: "mod_resource \<Rightarrow> u32 \<Rightarrow> u32" where
  "unique_key r h = HashQuickLower (dec_digits (unat (mr_uniqueId r)) @ ''_'' @ dec_digits (unat h))"

text \<open>One vanilla asset that a mod changed, over the bundles the asset is in.\<close>

fun set_files :: "mod_resource \<Rightarrow> file_info \<Rightarrow> (u32 \<times> u32) list \<Rightarrow> u32 set \<times> layout_manifest \<Rightarrow> (u32 set \<times> layout_manifest) result" where
  "set_files r f [] s = Inr s"
| "set_files r f ((h, i) # es) (modified, m) =
    (if ContainsBundle h r \<or> unique_key r h \<in> modified then set_files r f es (modified, m)
     else case SetFileInfo h (sint i) f m of
            Inl e \<Rightarrow> Inl e
          | Inr m' \<Rightarrow> set_files r f es (insert (unique_key r h) modified, m'))"

definition modify_file :: "bundle_merger \<Rightarrow> mod_resource \<Rightarrow> u32 set \<times> layout_manifest \<Rightarrow> (u32 set \<times> layout_manifest) result" where
  "modify_file g r s =
    (if mr_resourceIndex r = -1 \<or> mr_handlerHash r \<noteq> 0 then Inr s
     else if mr_type r = FrostyResourceType_Ebx then
       (case GetVanillaEbxEntry (mr_name r) g of None \<Rightarrow> Inr s | Some e \<Rightarrow> set_files r (data_file r) (ve_offsets e) s)
     else if mr_type r = FrostyResourceType_Res then
       (case GetVanillaResEntry (mr_name r) g of None \<Rightarrow> Inr s | Some e \<Rightarrow> set_files r (data_file r) (ve_offsets e) s)
     else if mr_type r = FrostyResourceType_Chunk then
       (case GetVanillaChunkEntry (mr_name r) g of None \<Rightarrow> Inr s | Some e \<Rightarrow> set_files r (chunk_file r) (ve_offsets e) s)
     else Inr s)"

type_synonym deferred = "(asset_type \<times> file_info) list"

text \<open>A file of the bundle: set at once where the vanilla bundle has the asset, else deferred.\<close>

definition set_or_defer :: "u32 \<Rightarrow> u32 option \<Rightarrow> asset_type \<Rightarrow> file_info \<Rightarrow> deferred \<times> layout_manifest \<Rightarrow> (deferred \<times> layout_manifest) result" where
  "set_or_defer h index t f s =
    (case s of (ds, m) \<Rightarrow>
     case index of
       None \<Rightarrow> Inr (ds @ [(t, f)], m)
     | Some i \<Rightarrow> (case SetFileInfo h (sint i) f m of Inl e \<Rightarrow> Inl e | Inr m' \<Rightarrow> Inr (ds, m')))"

definition bundle_file :: "bundle_merger \<Rightarrow> (u32 \<Rightarrow> string) \<Rightarrow> u32 \<Rightarrow> mod_resource \<Rightarrow> deferred \<times> layout_manifest \<Rightarrow>
    (deferred \<times> layout_manifest) result" where
  "bundle_file g duped h r s =
    (if has_data r then
      (if mr_type r = FrostyResourceType_Ebx then set_or_defer h (ebx_index g (mr_name r) h) Ebx_Asset (data_file r) s
       else if mr_type r = FrostyResourceType_Res then set_or_defer h (res_index g (mr_name r) h) Res_Asset (data_file r) s
       else if mr_type r = FrostyResourceType_Chunk then set_or_defer h (chunk_index g (mr_name r) h) Chunk_Asset (chunk_file r) s
       else Inr s)
     else if mr_type r = FrostyResourceType_Ebx then
       (case GetVanillaEbxEntry (sourceName duped r) g of
          None \<Rightarrow> Inl Null_Deref | Some e \<Rightarrow> Inr (fst s @ [(Ebx_Asset, ve_file e)], snd s))
     else if mr_type r = FrostyResourceType_Res then
       (case GetVanillaResEntry (mr_name r) g of
          None \<Rightarrow> Inl Null_Deref | Some e \<Rightarrow> Inr (fst s @ [(Res_Asset, ve_file e)], snd s))
     else if mr_type r = FrostyResourceType_Chunk then
       (case GetVanillaChunkEntry (mr_name r) g of
          None \<Rightarrow> Inr s | Some e \<Rightarrow> Inr (fst s @ [(Chunk_Asset, ve_file e)], snd s))
     else Inr s)"

definition add_deferred :: "u32 set \<Rightarrow> u32 \<Rightarrow> asset_type \<times> file_info \<Rightarrow> layout_manifest \<times> bundle_merger \<Rightarrow>
    (layout_manifest \<times> bundle_merger) result" where
  "add_deferred addedBundles h d s = AddFileToBundle addedBundles h (snd d) (fst d) s"

definition merge_bundle :: "u32 set \<Rightarrow> (u32 \<Rightarrow> string) \<Rightarrow> u32 \<times> mod_resource list \<Rightarrow> layout_manifest \<times> bundle_merger \<Rightarrow>
    (layout_manifest \<times> bundle_merger) result" where
  "merge_bundle addedBundles duped entry s =
    (case s of (m, g) \<Rightarrow>
     case run (bundle_file g duped (fst entry)) (snd entry) ([], m) of
       Inl e \<Rightarrow> Inl e
     | Inr (ds, m') \<Rightarrow> run (add_deferred addedBundles (fst entry)) ds (m', g))"

definition MergeLayoutManifest :: "mod_loader \<times> layout_manifest \<Rightarrow> (mod_loader \<times> layout_manifest) result" where
  "MergeLayoutManifest s =
    (case s of (ml, m) \<Rightarrow>
     case add_chunks_bundles (m_modResources ml) {} m of
       Inl e \<Rightarrow> Inl e
     | Inr m1 \<Rightarrow>
    (case run (modify_file (m_bundleMerger ml)) (m_modResources ml) ({}, m1) of
       Inl e \<Rightarrow> Inl e
     | Inr (_, m2) \<Rightarrow>
    (case run (merge_bundle (m_addedBundles ml) (m_dupedHandlerSources ml)) (m_bundleResources ml) (m2, m_bundleMerger ml) of
       Inl e \<Rightarrow> Inl e
     | Inr (m3, g) \<Rightarrow> Inr (ml\<lparr>m_bundleMerger := g\<rparr>, m3))))"

section \<open>Entries and files stay in step\<close>

text \<open>
  The contract of a step that may append one key to a list of keys: it appends it for the elements that \<open>adds\<close> names,
  those that \<open>checked\<close> names only when the key is not there yet.
\<close>

locale segment =
  fixes keys :: "'s \<Rightarrow> 'k list"
    and step :: "'r \<Rightarrow> 's \<Rightarrow> 's result"
    and adds :: "'r \<Rightarrow> bool"
    and checked :: "'r \<Rightarrow> bool"
    and key :: "'r \<Rightarrow> 'k"
  assumes step_keys: "step r s = Inr s' \<Longrightarrow>
    keys s' = keys s @ (if adds r \<and> (checked r \<longrightarrow> key r \<notin> set (keys s)) then [key r] else [])"
begin

lemma run_keys:
  "run step rs s = Inr s' \<Longrightarrow> distinct (map key (filter adds rs)) \<Longrightarrow>
    keys s' = keys s @ map key (filter (\<lambda>r. adds r \<and> (checked r \<longrightarrow> key r \<notin> set (keys s))) rs)"
proof (induction rs arbitrary: s)
  case (Cons r rs)
  obtain s1 where 1: "step r s = Inr s1" "run step rs s1 = Inr s'"
    using Cons.prems(1) by (auto split: sum.splits)
  have "key x \<in> set (keys s1) \<longleftrightarrow> key x \<in> set (keys s)" if "x \<in> set rs" "adds x" for x
  proof (cases "adds r")
    case True
    then have "key r \<notin> key ` set (filter adds rs)" using Cons.prems(2) by simp
    moreover have "key x \<in> key ` set (filter adds rs)" using that by simp
    ultimately have "key x \<noteq> key r" by metis
    then show ?thesis using step_keys [OF 1(1)] by simp
  qed (use step_keys [OF 1(1)] in simp)
  then have "filter (\<lambda>x. adds x \<and> (checked x \<longrightarrow> key x \<notin> set (keys s1))) rs =
      filter (\<lambda>x. adds x \<and> (checked x \<longrightarrow> key x \<notin> set (keys s))) rs"
    by (intro filter_cong refl) auto
  then show ?case
    using Cons.IH [OF 1(2)] Cons.prems(2) step_keys [OF 1(1)] by (auto split: if_splits)
qed simp

end

lemma AddEbxEntry_names: "map ename (m_ebxEntries (snd (AddEbxEntry n sz modify m))) =
    map ename (m_ebxEntries m) @ (if modify \<and> n \<in> ename ` set (m_ebxEntries m) then [] else [n])"
  by (auto simp: AddEbxEntry_def map_update_first)

lemma AddEbxEntry_frame [simp]: "m_resEntries (snd (AddEbxEntry n sz modify m)) = m_resEntries m"
  "m_chunkEntries (snd (AddEbxEntry n sz modify m)) = m_chunkEntries m"
  by (simp_all add: AddEbxEntry_def)

lemma AddResEntry_rids: "map resRid (m_resEntries (snd (AddResEntry e modify m))) =
    map resRid (m_resEntries m) @ (if modify \<and> resRid e \<in> resRid ` set (m_resEntries m) then [] else [resRid e])"
proof -
  have "map resRid (update_first (\<lambda>x. resRid x = resRid e) (\<lambda>_. e) xs) = map resRid xs" for xs by (rule map_update_first) simp
  then show ?thesis by (auto simp: AddResEntry_def image_iff) metis
qed

lemma AddResEntry_frame [simp]: "m_ebxEntries (snd (AddResEntry e modify m)) = m_ebxEntries m"
  "m_chunkEntries (snd (AddResEntry e modify m)) = m_chunkEntries m"
  by (simp_all add: AddResEntry_def)

lemma AddChunkEntry_entries:
  assumes "AddChunkEntry e h32 mip True modify m = Inr (res, m')"
  shows "m_ebxEntries m' = m_ebxEntries m \<and> m_resEntries m' = m_resEntries m \<and> map chunk_key (m_chunkEntries m') =
    map chunk_key (m_chunkEntries m) @ (if modify \<and> chunk_key e \<in> chunk_key ` set (m_chunkEntries m) then [] else [chunk_key e])"
proof -
  let ?i = "if modify then find_index (\<lambda>x. chunk_key x = chunk_key e) (m_chunkEntries m) else None"
  let ?cs = "case ?i of Some i \<Rightarrow> (m_chunkEntries m)[i := e] | None \<Rightarrow> m_chunkEntries m @ [e]"
  have same: "m_ebxEntries m' = m_ebxEntries m" "m_resEntries m' = m_resEntries m" "m_chunkEntries m' = ?cs"
    using assms unfolding AddChunkEntry_def Guid_Equals_def chunk_key_def [symmetric]
    by (auto simp: Let_def PushAudit_def split: if_splits option.splits sum.splits db_object.splits)
  have "map chunk_key (update_first (\<lambda>x. chunk_key x = chunk_key e) (\<lambda>_. e) xs) = map chunk_key xs" for xs
    by (rule map_update_first) simp
  then have "map chunk_key ?cs =
    map chunk_key (m_chunkEntries m) @ (if modify \<and> chunk_key e \<in> chunk_key ` set (m_chunkEntries m) then [] else [chunk_key e])"
    using find_index_None [of "\<lambda>x. chunk_key x = chunk_key e" "m_chunkEntries m"]
      find_index_Some [of "\<lambda>x. chunk_key x = chunk_key e" "m_chunkEntries m" _ e]
    by (cases "find_index (\<lambda>x. chunk_key x = chunk_key e) (m_chunkEntries m)") (auto split: if_splits simp: image_iff, metis)
  then show ?thesis using same by simp
qed

definition res_key :: "bundle_merger \<Rightarrow> mod_resource \<Rightarrow> u64" where
  "res_key g r = (if has_data r then md_resRid (mr_data r)
     else case GetVanillaResEntry (mr_name r) g of None \<Rightarrow> 0 | Some e \<Rightarrow> resRid (ve_entry e))"

definition chunk_name_key :: "mod_resource \<Rightarrow> bytes" where
  "chunk_name_key r = take 16 (Guid_FromString (mr_name r))"

abbreviation adds_ebx :: "mod_resource \<Rightarrow> bool" where
  "adds_ebx r \<equiv> mr_type r = FrostyResourceType_Ebx"

abbreviation adds_res :: "bundle_merger \<Rightarrow> mod_resource \<Rightarrow> bool" where
  "adds_res g r \<equiv> mr_type r = FrostyResourceType_Res \<and> (has_data r \<or> GetVanillaResEntry (mr_name r) g \<noteq> None)"

abbreviation adds_chunk :: "bundle_merger \<Rightarrow> mod_resource \<Rightarrow> bool" where
  "adds_chunk g r \<equiv> mr_type r = FrostyResourceType_Chunk \<and> (has_data r \<or> GetVanillaChunkEntry (mr_name r) g \<noteq> None)"

interpretation ebx_seg: segment "\<lambda>m. map ename (m_ebxEntries m)" "add_entry g duped" adds_ebx has_data mr_name for g duped
proof
  fix r m m' assume "add_entry g duped r m = Inr m'"
  then show "map ename (m_ebxEntries m') = map ename (m_ebxEntries m) @
      (if adds_ebx r \<and> (has_data r \<longrightarrow> mr_name r \<notin> set (map ename (m_ebxEntries m))) then [mr_name r] else [])"
    by (auto simp: add_entry_def AddEbxEntry_names Let_def dest: AddChunkEntry_entries split: if_splits option.splits sum.splits)
qed

interpretation res_seg: segment "\<lambda>m. map resRid (m_resEntries m)" "add_entry g duped" "adds_res g" has_data "res_key g" for g duped
proof
  fix r m m' assume "add_entry g duped r m = Inr m'"
  then show "map resRid (m_resEntries m') = map resRid (m_resEntries m) @
      (if adds_res g r \<and> (has_data r \<longrightarrow> res_key g r \<notin> set (map resRid (m_resEntries m))) then [res_key g r] else [])"
    by (auto simp: add_entry_def AddResEntry_rids res_key_def data_res_entry_def Let_def dest: AddChunkEntry_entries
        split: if_splits option.splits sum.splits)
qed

interpretation chunk_seg: segment "\<lambda>m. map chunk_key (m_chunkEntries m)" "add_entry g duped" "adds_chunk g" has_data chunk_name_key for g duped
proof
  fix r m m' assume "add_entry g duped r m = Inr m'"
  then show "map chunk_key (m_chunkEntries m') = map chunk_key (m_chunkEntries m) @
      (if adds_chunk g r \<and> (has_data r \<longrightarrow> chunk_name_key r \<notin> set (map chunk_key (m_chunkEntries m))) then [chunk_name_key r] else [])"
    by (auto simp: add_entry_def chunk_name_key_def data_chunk_entry_def chunk_key_def Let_def dest!: AddChunkEntry_entries
        split: if_splits option.splits sum.splits)
qed

text \<open>The files that the layout merge defers, and the file each asset is read from.\<close>

definition ebx_file :: "bundle_merger \<Rightarrow> (u32 \<Rightarrow> string) \<Rightarrow> mod_resource \<Rightarrow> file_info" where
  "ebx_file g duped r = (if has_data r then data_file r else ve_file (the (GetVanillaEbxEntry (sourceName duped r) g)))"

definition res_file :: "bundle_merger \<Rightarrow> mod_resource \<Rightarrow> file_info" where
  "res_file g r = (if has_data r then data_file r else ve_file (the (GetVanillaResEntry (mr_name r) g)))"

definition chunk_file_of :: "bundle_merger \<Rightarrow> mod_resource \<Rightarrow> file_info" where
  "chunk_file_of g r = (if has_data r then chunk_file r else ve_file (the (GetVanillaChunkEntry (mr_name r) g)))"

abbreviation new_ebx :: "bundle_merger \<Rightarrow> u32 \<Rightarrow> mod_resource \<Rightarrow> bool" where
  "new_ebx g h r \<equiv> adds_ebx r \<and> (has_data r \<longrightarrow> ebx_index g (mr_name r) h = None)"

abbreviation new_res :: "bundle_merger \<Rightarrow> u32 \<Rightarrow> mod_resource \<Rightarrow> bool" where
  "new_res g h r \<equiv> adds_res g r \<and> (has_data r \<longrightarrow> res_index g (mr_name r) h = None)"

abbreviation new_chunk :: "bundle_merger \<Rightarrow> u32 \<Rightarrow> mod_resource \<Rightarrow> bool" where
  "new_chunk g h r \<equiv> adds_chunk g r \<and> (has_data r \<longrightarrow> chunk_index g (mr_name r) h = None)"

definition defers :: "bundle_merger \<Rightarrow> (u32 \<Rightarrow> string) \<Rightarrow> u32 \<Rightarrow> mod_resource \<Rightarrow> deferred" where
  "defers g duped h r =
    (if new_ebx g h r then [(Ebx_Asset, ebx_file g duped r)]
     else if new_res g h r then [(Res_Asset, res_file g r)]
     else if new_chunk g h r then [(Chunk_Asset, chunk_file_of g r)]
     else [])"

lemma set_or_defer_fst: "set_or_defer h i t f (ds, m) = Inr (ds', m') \<Longrightarrow> ds' = ds @ (if i = None then [(t, f)] else [])"
  by (auto simp: set_or_defer_def split: option.splits sum.splits)

lemma bundle_file_defers: "bundle_file g duped h r (ds, m) = Inr (ds', m') \<Longrightarrow> ds' = ds @ defers g duped h r"
  by (auto simp: bundle_file_def defers_def ebx_file_def res_file_def chunk_file_of_def dest!: set_or_defer_fst
      split: if_splits option.splits)

lemma run_defers: "run (bundle_file g duped h) rs (ds, m) = Inr (ds', m') \<Longrightarrow> ds' = ds @ concat (map (defers g duped h) rs)"
proof (induction rs arbitrary: ds m)
  case (Cons r rs)
  then obtain ds1 m1 where "bundle_file g duped h r (ds, m) = Inr (ds1, m1)" "run (bundle_file g duped h) rs (ds1, m1) = Inr (ds', m')"
    by (auto split: sum.splits)
  then show ?case using Cons.IH bundle_file_defers by fastforce
qed simp

definition segment_files :: "asset_type \<Rightarrow> deferred \<Rightarrow> file_info list" where
  "segment_files t ds = map snd (filter (\<lambda>d. fst d = t) ds)"

lemma segment_files_defers:
  "segment_files Ebx_Asset (concat (map (defers g duped h) rs)) = map (ebx_file g duped) (filter (new_ebx g h) rs)"
  "segment_files Res_Asset (concat (map (defers g duped h) rs)) = map (res_file g) (filter (new_res g h) rs)"
  "segment_files Chunk_Asset (concat (map (defers g duped h) rs)) = map (chunk_file_of g) (filter (new_chunk g h) rs)"
  by (induction rs) (auto simp: segment_files_def defers_def)

text \<open>The manifest of the bundle agrees with the aggregation: it lists an asset that a mod changes exactly when the
  aggregation has the asset in the bundle. The resources of the bundle have different names.\<close>

definition bundle_agrees :: "bundle_merger \<Rightarrow> u32 \<Rightarrow> bundle_manifest \<Rightarrow> mod_resource list \<Rightarrow> bool" where
  "bundle_agrees g h m rs \<longleftrightarrow> (\<forall>r \<in> set rs. has_data r \<longrightarrow>
     (mr_type r = FrostyResourceType_Ebx \<longrightarrow> (mr_name r \<in> ename ` set (m_ebxEntries m)) = (ebx_index g (mr_name r) h \<noteq> None)) \<and>
     (mr_type r = FrostyResourceType_Res \<longrightarrow> (res_key g r \<in> resRid ` set (m_resEntries m)) = (res_index g (mr_name r) h \<noteq> None)) \<and>
     (mr_type r = FrostyResourceType_Chunk \<longrightarrow> (chunk_name_key r \<in> chunk_key ` set (m_chunkEntries m)) = (chunk_index g (mr_name r) h \<noteq> None)))"

definition distinct_assets :: "bundle_merger \<Rightarrow> mod_resource list \<Rightarrow> bool" where
  "distinct_assets g rs \<longleftrightarrow> distinct (map mr_name (filter adds_ebx rs)) \<and> distinct (map (res_key g) (filter (adds_res g) rs)) \<and>
    distinct (map chunk_name_key (filter (adds_chunk g) rs))"

text \<open>C2: the two merges stay in step. For the resources of a bundle, the entries that \<open>MergeBundleManifest\<close> appends to the
  bundle manifest and the files that \<open>MergeLayoutManifest\<close> appends to the bundle's layout are, kind by kind,
  those of the same resources in the same order, so the game finds every added asset at the position of its file.\<close>

theorem merges_aligned:
  assumes "run (add_entry g duped) rs m = Inr m'" "run (bundle_file g duped h) rs ([], l) = Inr (ds, l')"
    "bundle_agrees g h m rs" "distinct_assets g rs"
  shows
    "map ename (m_ebxEntries m') = map ename (m_ebxEntries m) @ map mr_name (filter (new_ebx g h) rs) \<and>
     segment_files Ebx_Asset ds = map (ebx_file g duped) (filter (new_ebx g h) rs) \<and>
     map resRid (m_resEntries m') = map resRid (m_resEntries m) @ map (res_key g) (filter (new_res g h) rs) \<and>
     segment_files Res_Asset ds = map (res_file g) (filter (new_res g h) rs) \<and>
     map chunk_key (m_chunkEntries m') = map chunk_key (m_chunkEntries m) @ map chunk_name_key (filter (new_chunk g h) rs) \<and>
     segment_files Chunk_Asset ds = map (chunk_file_of g) (filter (new_chunk g h) rs)"
proof -
  have ds: "ds = concat (map (defers g duped h) rs)" using run_defers [OF assms(2)] by simp
  have e: "filter (\<lambda>r. adds_ebx r \<and> (has_data r \<longrightarrow> mr_name r \<notin> set (map ename (m_ebxEntries m)))) rs = filter (new_ebx g h) rs"
    using assms(3) by (intro filter_cong refl) (auto simp: bundle_agrees_def)
  have r: "filter (\<lambda>r. adds_res g r \<and> (has_data r \<longrightarrow> res_key g r \<notin> set (map resRid (m_resEntries m)))) rs = filter (new_res g h) rs"
    using assms(3) by (intro filter_cong refl) (auto simp: bundle_agrees_def)
  have c: "filter (\<lambda>r. adds_chunk g r \<and> (has_data r \<longrightarrow> chunk_name_key r \<notin> set (map chunk_key (m_chunkEntries m)))) rs =
      filter (new_chunk g h) rs"
    using assms(3) by (intro filter_cong refl) (auto simp: bundle_agrees_def)
  show ?thesis
    using ebx_seg.run_keys [OF assms(1)] res_seg.run_keys [OF assms(1)] chunk_seg.run_keys [OF assms(1)] assms(4)
    unfolding e r c by (simp add: distinct_assets_def ds segment_files_defers)
qed

text \<open>Adding the deferred files to a bundle.\<close>

definition room_for :: "u32 set \<Rightarrow> u32 \<Rightarrow> bundle_entry \<Rightarrow> nat \<Rightarrow> bool" where
  "room_for added h v n \<longleftrightarrow> h \<in> added \<or> be_hash v = h \<and> unat (be_ebxCount v) + n \<le> 200000 \<and>
    unat (be_resCount v) + n \<le> 2000000 \<and> unat (be_chunkCount v) + n \<le> 2000000"

lemma unat_add_1_le: "unat (w + 1 :: u32) \<le> unat w + 1"
  by (simp add: unat_word_ariths(1))

lemma room_for_count: "room_for added h v (Suc n) \<Longrightarrow> room_for added h (count_asset t v) n"
  using unat_add_1_le [of "be_ebxCount v"] unat_add_1_le [of "be_resCount v"] unat_add_1_le [of "be_chunkCount v"]
  by (cases t) (auto simp: room_for_def count_asset_def)

lemma room_for_limits: "room_for added h v n \<Longrightarrow> h \<in> added \<or> be_hash v = h \<and> be_ebxCount v \<le> 200000 \<and>
    be_resCount v \<le> 2000000 \<and> be_chunkCount v \<le> 2000000"
  by (auto simp: room_for_def word_le_nat_alt)

definition extended :: "u32 \<Rightarrow> bundle_merger \<Rightarrow> bundle_info \<Rightarrow> deferred \<Rightarrow> bundle_merger \<Rightarrow> bundle_info \<Rightarrow> bool" where
  "extended h g bi ds g' bi' \<longleftrightarrow> bi_hash bi' = h \<and> segments_ok (bundle_at h g') (bi_files bi') \<and>
    hd (bi_files bi') = hd (bi_files bi) \<and>
    ebx_files (bundle_at h g') (bi_files bi') = ebx_files (bundle_at h g) (bi_files bi) @ segment_files Ebx_Asset ds \<and>
    res_files (bundle_at h g') (bi_files bi') = res_files (bundle_at h g) (bi_files bi) @ segment_files Res_Asset ds \<and>
    chunk_files (bundle_at h g') (bi_files bi') = chunk_files (bundle_at h g) (bi_files bi) @ segment_files Chunk_Asset ds"

lemma run_add_deferred:
  assumes "map_of (m_bundleInfo m) h = Some bi" "bi_hash bi = h" "room_for added h (bundle_at h g) (length ds)"
    "segments_ok (bundle_at h g) (bi_files bi)" "length (bi_files bi) + length ds < 2 ^ 31 - 1"
  shows "\<exists>m' g' bi'. run (add_deferred added h) ds (m, g) = Inr (m', g') \<and>
    map_of (m_bundleInfo m') h = Some bi' \<and> (\<forall>k. k \<noteq> h \<longrightarrow> map_of (m_bundleInfo m') k = map_of (m_bundleInfo m) k) \<and>
    extended h g bi ds g' bi'"
  using assms
proof (induction ds arbitrary: m g bi)
  case Nil then show ?case by (auto simp: extended_def segment_files_def)
next
  case (Cons d ds)
  obtain t f where d: "d = (t, f)" by (cases d)
  have pre: "h \<in> added \<or> be_hash (bundle_at h g) = h \<and> be_ebxCount (bundle_at h g) \<le> 200000 \<and>
      be_resCount (bundle_at h g) \<le> 2000000 \<and> be_chunkCount (bundle_at h g) \<le> 2000000"
    using Cons.prems(3) by (rule room_for_limits)
  obtain m1 g1 b1 where 1: "AddFileToBundle added h f t (m, g) = Inr (m1, g1)"
    "map_of (m_bundleInfo m1) = (map_of (m_bundleInfo m))(h \<mapsto> b1)" "bi_hash b1 = h" "bundle_at h g1 = count_asset t (bundle_at h g)"
    "length (bi_files b1) = Suc (length (bi_files bi))" "segments_ok (bundle_at h g1) (bi_files b1)" "hd (bi_files b1) = hd (bi_files bi)"
    "ebx_files (bundle_at h g1) (bi_files b1) = ebx_files (bundle_at h g) (bi_files bi) @ (if t = Ebx_Asset then [f] else [])"
    "res_files (bundle_at h g1) (bi_files b1) = res_files (bundle_at h g) (bi_files bi) @ (if t = Res_Asset then [f] else [])"
    "chunk_files (bundle_at h g1) (bi_files b1) = chunk_files (bundle_at h g) (bi_files bi) @ (if t = Chunk_Asset then [f] else [])"
    using AddFileToBundle_at [OF Cons.prems(1,2) pre Cons.prems(4), of f t] Cons.prems(5) by auto
  have "room_for added h (bundle_at h g1) (length ds)" using Cons.prems(3) room_for_count by (simp add: 1(4))
  then obtain m2 g2 b2 where 2: "run (add_deferred added h) ds (m1, g1) = Inr (m2, g2)" "map_of (m_bundleInfo m2) h = Some b2"
    "\<forall>k. k \<noteq> h \<longrightarrow> map_of (m_bundleInfo m2) k = map_of (m_bundleInfo m1) k" "extended h g1 b1 ds g2 b2"
    using Cons.IH [of m1 b1 g1] 1 Cons.prems(5) by auto
  have "extended h g bi (d # ds) g2 b2"
    using 2(4) 1(7-10) by (cases t) (auto simp: extended_def segment_files_def d)
  moreover have "add_deferred added h d (m, g) = Inr (m1, g1)" using 1(1) by (simp add: add_deferred_def d)
  ultimately show ?case using 1(2) 2 by (intro exI [of _ m2] exI [of _ g2] exI [of _ b2]) simp
qed

text \<open>C17: the merge of a bundle's layout succeeds and appends to the partition files, the resource files and the chunk
  files of the bundle exactly the files of the added assets of that kind, in the order of the resources; the
  header file and the other bundles are not touched.\<close>

theorem merge_bundle_segments:
  assumes "run (bundle_file g duped h) rs ([], l) = Inr (ds, l1)" "map_of (m_bundleInfo l1) h = Some bi" "bi_hash bi = h"
    "room_for added h (bundle_at h g) (length ds)" "segments_ok (bundle_at h g) (bi_files bi)"
    "length (bi_files bi) + length ds < 2 ^ 31 - 1"
  shows "\<exists>l' g' bi'. merge_bundle added duped (h, rs) (l, g) = Inr (l', g') \<and> map_of (m_bundleInfo l') h = Some bi' \<and>
    (\<forall>k. k \<noteq> h \<longrightarrow> map_of (m_bundleInfo l') k = map_of (m_bundleInfo l1) k) \<and>
    segments_ok (bundle_at h g') (bi_files bi') \<and> hd (bi_files bi') = hd (bi_files bi) \<and>
    ebx_files (bundle_at h g') (bi_files bi') = ebx_files (bundle_at h g) (bi_files bi) @ map (ebx_file g duped) (filter (new_ebx g h) rs) \<and>
    res_files (bundle_at h g') (bi_files bi') = res_files (bundle_at h g) (bi_files bi) @ map (res_file g) (filter (new_res g h) rs) \<and>
    chunk_files (bundle_at h g') (bi_files bi') =
      chunk_files (bundle_at h g) (bi_files bi) @ map (chunk_file_of g) (filter (new_chunk g h) rs)"
proof -
  have ds: "ds = concat (map (defers g duped h) rs)" using run_defers [OF assms(1)] by simp
  obtain l' g' bi' where "run (add_deferred added h) ds (l1, g) = Inr (l', g')" "map_of (m_bundleInfo l') h = Some bi'"
    "\<forall>k. k \<noteq> h \<longrightarrow> map_of (m_bundleInfo l') k = map_of (m_bundleInfo l1) k" "extended h g bi ds g' bi'"
    using run_add_deferred [OF assms(2-6)] by blast
  then show ?thesis using assms(1)
    by (intro exI [of _ l'] exI [of _ g'] exI [of _ bi']) (auto simp: merge_bundle_def extended_def ds segment_files_defers)
qed

text \<open>A bundle that the mods add, with one changed and one unchanged asset.\<close>

definition merger_sample :: bundle_merger where
  "merger_sample = bg_sample\<lparr>m_vanillaEbx := [(''v'', \<lparr>ve_entry = \<lparr>ename = ''v'', originalSize = 3\<rparr>,
    ve_file = \<lparr>fi_file = 1, fi_offset = 2, fi_size = 3\<rparr>, ve_offsets = []\<rparr>)]\<rparr>"

definition bundle_sample :: "mod_resource list" where
  "bundle_sample = [resource_sample 0 [7] 2, (resource_sample (-1) [7] 3)\<lparr>mr_name := ''v''\<rparr>]"

lemma sample_manifest: "\<exists>m'. run (add_entry merger_sample (\<lambda>_. [])) bundle_sample bm_new = Inr m'"
  by (simp add: bundle_sample_def resource_sample_def add_entry_def has_data_def Let_def)

lemma sample_layout: "\<exists>ds. run (bundle_file merger_sample (\<lambda>_. []) 7) bundle_sample ([], lm_sample) = Inr (ds, lm_sample) \<and> length ds = 2"
  by (simp add: bundle_sample_def resource_sample_def bundle_file_def has_data_def set_or_defer_def ebx_index_def
      GetVanillaEbxEntry_def merger_sample_def bg_sample_def sourceName_def)

lemma sample_agrees: "bundle_agrees merger_sample 7 bm_new bundle_sample" "distinct_assets merger_sample bundle_sample"
  by (simp_all add: bundle_agrees_def distinct_assets_def bundle_sample_def resource_sample_def ebx_index_def
      GetVanillaEbxEntry_def merger_sample_def bg_sample_def bm_new_def)

theorem merges_aligned_witness:
  "\<exists>m' ds. run (add_entry merger_sample (\<lambda>_. [])) bundle_sample bm_new = Inr m' \<and>
    map ename (m_ebxEntries m') = map ename (m_ebxEntries bm_new) @ map mr_name (filter (new_ebx merger_sample 7) bundle_sample) \<and>
    segment_files Ebx_Asset ds = map (ebx_file merger_sample (\<lambda>_. [])) (filter (new_ebx merger_sample 7) bundle_sample)"
proof -
  obtain m' where m: "run (add_entry merger_sample (\<lambda>_. [])) bundle_sample bm_new = Inr m'" using sample_manifest by blast
  obtain ds where ds: "run (bundle_file merger_sample (\<lambda>_. []) 7) bundle_sample ([], lm_sample) = Inr (ds, lm_sample)"
    using sample_layout by blast
  show ?thesis using merges_aligned [OF m ds sample_agrees] m by (intro exI [of _ m'] exI [of _ ds] conjI) (elim conjE; assumption)+
qed

theorem merge_bundle_segments_witness:
  "\<exists>l' g'. merge_bundle {} (\<lambda>_. []) (7, bundle_sample) (lm_sample, merger_sample) = Inr (l', g')"
proof -
  obtain ds where ds: "run (bundle_file merger_sample (\<lambda>_. []) 7) bundle_sample ([], lm_sample) = Inr (ds, lm_sample)" "length ds = 2"
    using sample_layout by blast
  let ?bi = "snd (hd (m_bundleInfo lm_sample))"
  have "map_of (m_bundleInfo lm_sample) 7 = Some ?bi" "bi_hash ?bi = 7" "room_for {} 7 (bundle_at 7 merger_sample) (length ds)"
    "segments_ok (bundle_at 7 merger_sample) (bi_files ?bi)" "length (bi_files ?bi) + length ds < 2 ^ 31 - 1"
    by (simp_all add: lm_sample_def lm_new_def room_for_def bundle_at_def merger_sample_def bg_sample_def ds segments_ok_def)
  from merge_bundle_segments [OF ds(1) this] show ?thesis by blast
qed

text \<open>The two merges treat a missing vanilla asset differently. For an unchanged partition without an entry in the
  aggregation, \<open>MergeBundleManifest\<close> adds it with a size of one megabyte, as the warning in both functions says,
  while \<open>MergeLayoutManifest\<close> dereferences the missing entry; a resource is skipped by the first and dereferenced by the
  second, and a chunk is skipped by both.\<close>

theorem missing_vanilla_entry:
  assumes "\<not> has_data r"
  shows "(mr_type r = FrostyResourceType_Ebx \<longrightarrow> GetVanillaEbxEntry (sourceName duped r) g = None \<longrightarrow>
      add_entry g duped r m = Inr (snd (AddEbxEntry (mr_name r) 1000000 False m)) \<and> bundle_file g duped h r s = Inl Null_Deref) \<and>
    (mr_type r = FrostyResourceType_Res \<longrightarrow> GetVanillaResEntry (mr_name r) g = None \<longrightarrow>
      add_entry g duped r m = Inr m \<and> bundle_file g duped h r s = Inl Null_Deref) \<and>
    (mr_type r = FrostyResourceType_Chunk \<longrightarrow> GetVanillaChunkEntry (mr_name r) g = None \<longrightarrow>
      add_entry g duped r m = Inr m \<and> bundle_file g duped h r s = Inr s)"
  using assms by (simp add: add_entry_def bundle_file_def)

end
