(* ===== verification/Task_Queues.thy ===== *)
theory Task_Queues
  imports Kyber_Prelude "HOL-Library.Multiset"
begin

text \<open>
  The queues between the threads of the module, and the rotation of maps:

  \<^item> the queue of messages (\<^verbatim>\<open>Public/Network/SafeQueue.h\<close>) and the interface \<open>fifo\<close> of a queue;
  \<^item> events and their listeners (\<^verbatim>\<open>EventManager\<close>);
  \<^item> functions that the game's threads run after a number of ticks (\<^verbatim>\<open>ThreadExecutor\<close>);
  \<^item> the pool of worker threads (\<^verbatim>\<open>ThreadPool\<close>), as a step relation over all interleavings of its threads;
  \<^item> the map rotation (\<^verbatim>\<open>Public/Core/Settings.h\<close>).

  Every operation holds the lock of its queue, so an operation is one step. Listeners, functions and tasks are numbers;
  what they do when they are called is not part of the model.
\<close>

section \<open>SafeQueue\<close>

definition enqueue :: "'a \<Rightarrow> 'a list \<Rightarrow> 'a list" where
  "enqueue x q = q @ [x]"

definition tryDequeue :: "'a list \<Rightarrow> 'a option \<times> 'a list" where
  "tryDequeue q = (case q of [] \<Rightarrow> (None, q) | x # xs \<Rightarrow> (Some x, xs))"


section \<open>EventManager\<close>

record event =
  ev_type :: string
  ev_id :: nat

record event_manager =
  em_listeners :: "string \<rightharpoonup> nat list"
  em_eventQueue :: "event list"

definition listeners_of :: "string \<Rightarrow> event_manager \<Rightarrow> nat list" where
  "listeners_of t m = (case em_listeners m t of None \<Rightarrow> [] | Some ls \<Rightarrow> ls)"

definition RegisterListener :: "string \<Rightarrow> nat \<Rightarrow> event_manager \<Rightarrow> event_manager" where
  "RegisterListener t l m = m\<lparr>em_listeners := (em_listeners m)(t \<mapsto> listeners_of t m @ [l])\<rparr>"

definition UnregisterListeners :: "nat \<Rightarrow> event_manager \<Rightarrow> event_manager" where
  "UnregisterListeners l m = m\<lparr>em_listeners := map_option (filter (\<lambda>x. x \<noteq> l)) \<circ> em_listeners m\<rparr>"

definition QueueEvent :: "event \<Rightarrow> event_manager \<Rightarrow> event_manager" where
  "QueueEvent e m = m\<lparr>em_eventQueue := em_eventQueue m @ [e]\<rparr>"

text \<open>The calls of \<^verbatim>\<open>OnEvent\<close>; the lookup of the listeners adds an empty list for a type that has none.\<close>

definition DispatchEvent :: "event \<Rightarrow> event_manager \<Rightarrow> (nat \<times> event) list \<times> event_manager" where
  "DispatchEvent e m =
    (map (\<lambda>l. (l, e)) (listeners_of (ev_type e) m),
     m\<lparr>em_listeners := (em_listeners m)(ev_type e \<mapsto> listeners_of (ev_type e) m)\<rparr>)"

lemma Dispatch_queue [simp]: "em_eventQueue (snd (DispatchEvent e m)) = em_eventQueue m"
  by (simp add: DispatchEvent_def)

function ProcessEventQueue :: "event_manager \<Rightarrow> (nat \<times> event) list \<times> event_manager" where
  "ProcessEventQueue m =
    (case em_eventQueue m of
       [] \<Rightarrow> ([], m)
     | e # _ \<Rightarrow>
         let d = DispatchEvent e m;
             r = ProcessEventQueue ((snd d)\<lparr>em_eventQueue := tl (em_eventQueue (snd d))\<rparr>)
         in (fst d @ fst r, snd r))"
  by pat_completeness auto

termination
  by (relation "measure (\<lambda>m. length (em_eventQueue m))") simp_all

declare ProcessEventQueue.simps [simp del]


section \<open>ThreadExecutor\<close>

record delayed_func =
  df_targetTicks :: u64
  df_func :: nat

record thread_data =
  td_delayedFuncs :: "delayed_func list"
  td_tickCount :: u64

definition QueueDelayTicks :: "u32 \<Rightarrow> nat \<Rightarrow> thread_data \<Rightarrow> thread_data" where
  "QueueDelayTicks delayTicks f td =
    td\<lparr>td_delayedFuncs := td_delayedFuncs td @ [\<lparr>df_targetTicks = td_tickCount td + ucast delayTicks, df_func = f\<rparr>]\<rparr>"

definition Queue :: "nat \<Rightarrow> thread_data \<Rightarrow> thread_data" where
  "Queue f td = QueueDelayTicks 0 f td"

text \<open>\<^verbatim>\<open>remove_if\<close> asks every element once, in order; the functions that are due run as they are asked.\<close>

definition executor_Process :: "thread_data \<Rightarrow> nat list \<times> thread_data" where
  "executor_Process td =
    (let due = (\<lambda>d. td_tickCount td \<ge> df_targetTicks d)
     in (map df_func (filter due (td_delayedFuncs td)),
         td\<lparr>td_delayedFuncs := filter (\<lambda>d. \<not> due d) (td_delayedFuncs td), td_tickCount := td_tickCount td + 1\<rparr>))"


section \<open>ThreadPool\<close>

datatype worker = Waiting | Running nat | Exited

record thread_pool =
  tp_workers :: "worker list"
  tp_tasks :: "nat list"
  tp_stop :: bool

definition ThreadPool :: "nat \<Rightarrow> thread_pool" where
  "ThreadPool numThreads = \<lparr>tp_workers = replicate numThreads Waiting, tp_tasks = [], tp_stop = False\<rparr>"

text \<open>\<^verbatim>\<open>Enqueue\<close> throws when the pool has been stopped.\<close>

definition pool_Enqueue :: "nat \<Rightarrow> thread_pool \<Rightarrow> thread_pool option" where
  "pool_Enqueue t p = (if tp_stop p then None else Some (p\<lparr>tp_tasks := tp_tasks p @ [t]\<rparr>))"

definition pool_Stop :: "thread_pool \<Rightarrow> thread_pool" where
  "pool_Stop p = p\<lparr>tp_stop := True\<rparr>"

text \<open>One step of worker \<open>i\<close>: it wakes up when there is a task or the pool has been stopped, and then exits or takes the
  first task; a worker that runs a task finishes it. \<open>None\<close>: it waits, or has exited. The condition variable is represented by this guard;
  its notifications are not modelled.\<close>

definition WorkerThread :: "nat \<Rightarrow> thread_pool \<Rightarrow> thread_pool option" where
  "WorkerThread i p =
    (if i \<ge> length (tp_workers p) then None
     else case tp_workers p ! i of
       Exited \<Rightarrow> None
     | Running t \<Rightarrow> Some (p\<lparr>tp_workers := (tp_workers p)[i := Waiting]\<rparr>)
     | Waiting \<Rightarrow>
         if \<not> (tp_stop p \<or> tp_tasks p \<noteq> []) then None
         else case tp_tasks p of
                [] \<Rightarrow> Some (p\<lparr>tp_workers := (tp_workers p)[i := Exited]\<rparr>)
              | t # ts \<Rightarrow> Some (p\<lparr>tp_workers := (tp_workers p)[i := Running t], tp_tasks := ts\<rparr>))"


section \<open>MapRotation\<close>

record map_rotation =
  mr_entries :: "(string \<times> string) list"
  mr_current :: u16

definition GetNextEntry :: "map_rotation \<Rightarrow> ((string \<times> string) \<times> map_rotation) result" where
  "GetNextEntry r =
    (let r = (if unat (mr_current r) + 1 > length (mr_entries r) then r\<lparr>mr_current := 0\<rparr> else r)
     in if unat (mr_current r) < length (mr_entries r)
        then Inr (mr_entries r ! unat (mr_current r), r\<lparr>mr_current := mr_current r + 1\<rparr>)
        else Inl Out_Of_Bounds)"

definition rotation_Reset :: "map_rotation \<Rightarrow> map_rotation" where
  "rotation_Reset r = r\<lparr>mr_entries := [], mr_current := 0\<rparr>"

definition AddEntry :: "string \<Rightarrow> string \<Rightarrow> map_rotation \<Rightarrow> map_rotation" where
  "AddEntry level mode r = r\<lparr>mr_entries := mr_entries r @ [(level, mode)]\<rparr>"


section \<open>First in, first out\<close>

text \<open>What the threads rely on: an interface of a queue over its list of items, and what every interleaving of the two
  sides gives.\<close>

datatype 'a queue_op = Enq 'a | Deq

locale fifo =
  fixes items :: "'q \<Rightarrow> 'a list"
    and enq :: "'a \<Rightarrow> 'q \<Rightarrow> 'q"
    and deq :: "'q \<Rightarrow> 'a option \<times> 'q"
  assumes items_enq: "items (enq x q) = items q @ [x]"
    and deq_result: "fst (deq q) = (case items q of [] \<Rightarrow> None | x # _ \<Rightarrow> Some x)"
    and items_deq: "items (snd (deq q)) = tl (items q)"
begin

fun ops_run :: "'a queue_op list \<Rightarrow> 'q \<Rightarrow> 'a list \<times> 'q" where
  "ops_run [] q = ([], q)"
| "ops_run (Enq x # ops) q = ops_run ops (enq x q)"
| "ops_run (Deq # ops) q =
    (case deq q of (r, q') \<Rightarrow> case ops_run ops q' of (out, q'') \<Rightarrow> (case r of None \<Rightarrow> out | Some x \<Rightarrow> x # out, q''))"

fun enqueued :: "'a queue_op list \<Rightarrow> 'a list" where
  "enqueued [] = []"
| "enqueued (Enq x # ops) = x # enqueued ops"
| "enqueued (Deq # ops) = enqueued ops"

lemma ops_order: "fst (ops_run ops q) @ items (snd (ops_run ops q)) = items q @ enqueued ops"
proof (induction ops q rule: ops_run.induct)
  case (2 x ops q)
  then show ?case by (simp add: items_enq)
next
  case (3 ops q)
  obtain r q' where d: "deq q = (r, q')" by fastforce
  have "fst (ops_run ops q') @ items (snd (ops_run ops q')) = tl (items q) @ enqueued ops"
    using 3 [OF d [symmetric]] items_deq [of q] d by simp
  then show ?case using d deq_result [of q] by (auto split: prod.splits list.splits)
qed simp

lemma deq_None: "fst (deq q) = None \<longleftrightarrow> items q = []"
  by (simp add: deq_result split: list.splits)

end

interpretation proxy_queue: fifo "\<lambda>q. q" enqueue tryDequeue
  by unfold_locales (auto simp: enqueue_def tryDequeue_def split: list.splits)


lemma tryDequeue_cases [simp]: "tryDequeue [] = (None, [])" "tryDequeue (m # q) = (Some m, q)"
  by (simp_all add: prod_eq_iff proxy_queue.deq_result proxy_queue.items_deq)


section \<open>Events\<close>

lemma listeners_of_Dispatch [simp]: "listeners_of t (snd (DispatchEvent e m)) = listeners_of t m"
  by (auto simp: DispatchEvent_def listeners_of_def split: option.split)

definition deliver :: "event_manager \<Rightarrow> event \<Rightarrow> (nat \<times> event) list" where
  "deliver m e = map (\<lambda>l. (l, e)) (listeners_of (ev_type e) m)"

lemma listeners_of_queue [simp]: "listeners_of t (m\<lparr>em_eventQueue := q\<rparr>) = listeners_of t m"
  by (simp add: listeners_of_def)

lemma ProcessEventQueue_calls:
  "fst (ProcessEventQueue m) = concat (map (deliver m) (em_eventQueue m)) \<and> em_eventQueue (snd (ProcessEventQueue m)) = [] \<and>
    (\<forall>t. listeners_of t (snd (ProcessEventQueue m)) = listeners_of t m)"
proof (induction m rule: ProcessEventQueue.induct)
  case (1 m)
  show ?case
  proof (cases "em_eventQueue m")
    case Nil
    then show ?thesis by (simp add: ProcessEventQueue.simps [of m])
  next
    case (Cons e es)
    let ?m = "(snd (DispatchEvent e m))\<lparr>em_eventQueue := es\<rparr>"
    have "deliver ?m = deliver m" by (simp add: deliver_def [abs_def])
    moreover have "fst (DispatchEvent e m) = deliver m e" by (simp add: deliver_def DispatchEvent_def)
    ultimately show ?thesis
      using 1 [OF Cons refl] by (simp add: ProcessEventQueue.simps [of m] Cons Let_def)
  qed
qed

text \<open>Events queued by any thread and the game's thread that processes them.\<close>

datatype event_op = Queue_Event event | Process_Queue

fun events_run :: "event_op list \<Rightarrow> event_manager \<Rightarrow> (nat \<times> event) list \<times> event_manager" where
  "events_run [] m = ([], m)"
| "events_run (Queue_Event e # ops) m = events_run ops (QueueEvent e m)"
| "events_run (Process_Queue # ops) m =
    (case ProcessEventQueue m of (calls, m1) \<Rightarrow> case events_run ops m1 of (calls', m2) \<Rightarrow> (calls @ calls', m2))"

fun queued_events :: "event_op list \<Rightarrow> event list" where
  "queued_events [] = []"
| "queued_events (Queue_Event e # ops) = e # queued_events ops"
| "queued_events (Process_Queue # ops) = queued_events ops"

lemma events_run_calls:
  "fst (events_run ops m) @ concat (map (deliver m) (em_eventQueue (snd (events_run ops m)))) =
    concat (map (deliver m) (em_eventQueue m @ queued_events ops))"
proof (induction ops m rule: events_run.induct)
  case (2 e ops m)
  have "deliver (QueueEvent e m) = deliver m" by (simp add: deliver_def [abs_def] QueueEvent_def listeners_of_def)
  then show ?case using 2 by (simp add: QueueEvent_def)
next
  case (3 ops m)
  have "deliver (snd (ProcessEventQueue m)) = deliver m"
    using ProcessEventQueue_calls [of m] by (simp add: deliver_def [abs_def])
  then show ?case using 3 [OF prod.collapse] ProcessEventQueue_calls [of m] by (simp add: split_def)
qed simp


section \<open>Delayed functions\<close>

datatype exec_op = Delay u32 nat | Tick

fun exec_run :: "exec_op list \<Rightarrow> thread_data \<Rightarrow> nat list list \<times> thread_data" where
  "exec_run [] td = ([], td)"
| "exec_run (Delay d f # ops) td = exec_run ops (QueueDelayTicks d f td)"
| "exec_run (Tick # ops) td =
    (case executor_Process td of (now, td1) \<Rightarrow> case exec_run ops td1 of (later, td2) \<Rightarrow> (now # later, td2))"

abbreviation ticks :: "exec_op list \<Rightarrow> nat" where
  "ticks ops \<equiv> length (filter (\<lambda>x. x = Tick) ops)"

text \<open>The function \<open>f\<close> waits, and \<open>r\<close> ticks are left; or it does not wait.\<close>

definition waits :: "nat \<Rightarrow> nat \<Rightarrow> thread_data \<Rightarrow> bool" where
  "waits f r td \<longleftrightarrow> (\<exists>ds d es. td_delayedFuncs td = ds @ d # es \<and> df_func d = f \<and> unat (df_targetTicks d) = unat (td_tickCount td) + r \<and>
    f \<notin> df_func ` set (ds @ es))"

definition absent :: "nat \<Rightarrow> thread_data \<Rightarrow> bool" where
  "absent f td \<longleftrightarrow> f \<notin> df_func ` set (td_delayedFuncs td)"

lemma exec_run_absent:
  assumes "absent f td" "\<forall>d. Delay d f \<notin> set ops"
  shows "\<forall>now \<in> set (fst (exec_run ops td)). f \<notin> set now"
  using assms
proof (induction ops td rule: exec_run.induct)
  case (2 d g ops td)
  have "absent f (QueueDelayTicks d g td)" using 2 by (auto simp: absent_def QueueDelayTicks_def)
  then show ?case using 2 by auto
next
  case (3 ops td)
  have "absent f (snd (executor_Process td))" "f \<notin> set (fst (executor_Process td))"
    using 3(2) by (auto simp: absent_def executor_Process_def Let_def)
  then show ?case using 3(1) [OF prod.collapse] 3(3) by (auto simp: split_def)
qed simp

lemma unat_tick: "unat w + 1 < 2 ^ 64 \<Longrightarrow> unat (w + 1 :: u64) = unat w + 1"
  by (simp add: unat_word_ariths)

lemma Process_waits:
  assumes "waits f (Suc r) td" "unat (td_tickCount td) + 1 < 2 ^ 64"
  shows "waits f r (snd (executor_Process td)) \<and> f \<notin> set (fst (executor_Process td))"
proof -
  obtain ds d es where d: "td_delayedFuncs td = ds @ d # es" "df_func d = f"
    "unat (df_targetTicks d) = unat (td_tickCount td) + Suc r" "f \<notin> df_func ` set (ds @ es)"
    using assms(1) by (auto simp: waits_def)
  then have "\<not> df_targetTicks d \<le> td_tickCount td" by (simp add: word_le_nat_alt)
  then show ?thesis
    using d assms(2) unat_tick [of "td_tickCount td"]
    by (auto simp: waits_def executor_Process_def Let_def intro!: exI)
qed

lemma Process_due:
  assumes "waits f 0 td"
  shows "absent f (snd (executor_Process td)) \<and> count_list (fst (executor_Process td)) f = 1"
proof -
  obtain ds d es where d: "td_delayedFuncs td = ds @ d # es" "df_func d = f"
    "unat (df_targetTicks d) = unat (td_tickCount td)" "f \<notin> df_func ` set (ds @ es)"
    using assms by (auto simp: waits_def)
  then have "df_targetTicks d \<le> td_tickCount td" by (simp add: word_le_nat_alt)
  moreover have "count_list (map df_func (filter P xs)) f = 0" if "f \<notin> df_func ` set xs" for P xs
    using that by (auto simp: count_list_0_iff)
  ultimately show ?thesis using d by (auto simp: absent_def executor_Process_def Let_def count_list_append)
qed

lemma QueueDelayTicks_waits:
  assumes "absent f td" "unat (td_tickCount td) + unat d < 2 ^ 64"
  shows "waits f (unat d) (QueueDelayTicks d f td)"
  unfolding waits_def
proof (intro exI conjI)
  show "td_delayedFuncs (QueueDelayTicks d f td) =
      td_delayedFuncs td @ \<lparr>df_targetTicks = td_tickCount td + ucast d, df_func = f\<rparr> # []"
    by (simp add: QueueDelayTicks_def)
  have "unat (ucast d :: u64) = unat d" 
    using unsigned_less [of d, where ?'a = nat] by (simp add: unsigned_ucast_eq take_bit_nat_eq_self)
  then show "unat (df_targetTicks \<lparr>df_targetTicks = td_tickCount td + ucast d, df_func = f\<rparr>) =
      unat (td_tickCount (QueueDelayTicks d f td)) + unat d"
    using assms(2) by (simp add: QueueDelayTicks_def unat_word_ariths)
qed (use assms(1) in \<open>simp_all add: absent_def\<close>)

lemma waits_Delay:
  assumes "waits f r td" "f \<noteq> g"
  shows "waits f r (QueueDelayTicks d g td)"
proof -
  obtain ds e es where e: "td_delayedFuncs td = ds @ e # es" "df_func e = f"
    "unat (df_targetTicks e) = unat (td_tickCount td) + r" "f \<notin> df_func ` set (ds @ es)"
    using assms(1) by (auto simp: waits_def)
  let ?n = "\<lparr>df_targetTicks = td_tickCount td + ucast d, df_func = g\<rparr>"
  have "td_delayedFuncs (QueueDelayTicks d g td) = ds @ e # (es @ [?n])" "f \<notin> df_func ` set (ds @ es @ [?n])"
    using e assms(2) by (auto simp: QueueDelayTicks_def)
  moreover have "unat (df_targetTicks e) = unat (td_tickCount (QueueDelayTicks d g td)) + r"
    using e(3) by (simp add: QueueDelayTicks_def)
  ultimately show ?thesis unfolding waits_def using e(2) by blast
qed

lemma exec_run_length: "length (fst (exec_run ops td)) = ticks ops"
proof (induction ops arbitrary: td)
  case (Cons x ops)
  then show ?case by (cases x) (simp_all add: split_def)
qed simp

lemma exec_run_waits:
  assumes "waits f r td" "unat (td_tickCount td) + r < 2 ^ 64" "\<forall>d. Delay d f \<notin> set ops"
  shows "map (\<lambda>now. count_list now f) (fst (exec_run ops td)) = map (\<lambda>k. if k = r then 1 else 0) [0..<ticks ops]"
  using assms
proof (induction ops td arbitrary: r rule: exec_run.induct)
  case (1 td)
  then show ?case by simp
next
  case (2 d g ops td)
  then have "waits f r (QueueDelayTicks d g td)" using waits_Delay by auto
  then show ?case using 2 by (simp add: QueueDelayTicks_def)
next
  case (3 ops td)
  have ops: "\<forall>d. Delay d f \<notin> set ops" using 3(4) by simp
  have split: "map h [0..<Suc n] = h 0 # map (\<lambda>k. h (Suc k)) [0..<n]" for h :: "nat \<Rightarrow> nat" and n
    by (simp add: upt_conv_Cons map_Suc_upt [symmetric] del: upt_Suc)
  show ?case
  proof (cases r)
    case 0
    then have due: "absent f (snd (executor_Process td))" "count_list (fst (executor_Process td)) f = 1"
      using Process_due 3(2) by auto
    have "\<forall>now \<in> set (fst (exec_run ops (snd (executor_Process td)))). count_list now f = 0"
      using exec_run_absent [OF due(1) ops] by (simp add: count_list_0_iff)
    then have "map (\<lambda>now. count_list now f) (fst (exec_run ops (snd (executor_Process td)))) = replicate (ticks ops) 0"
      by (simp add: map_replicate_const exec_run_length cong: map_cong)
    then show ?thesis
      using due(2) 0 by (simp add: split_def split map_replicate_const del: upt_Suc)
  next
    case (Suc q)
    have tick: "unat (td_tickCount td) + 1 < 2 ^ 64" using 3(3) Suc by simp
    then have "unat (td_tickCount (snd (executor_Process td))) = unat (td_tickCount td) + 1"
      using unat_tick by (simp add: executor_Process_def Let_def)
    moreover have "waits f q (snd (executor_Process td))" "f \<notin> set (fst (executor_Process td))"
      using Process_waits [OF _ tick] 3(2) Suc by auto
    ultimately show ?thesis
      using 3(1) [OF prod.collapse, of q] ops 3(3) Suc by (simp add: split_def split count_list_0_iff del: upt_Suc)
  qed
qed

section \<open>The threads of a pool\<close>

text \<open>A pool with its history: the tasks submitted, started and finished so far, in this order. A step is one operation of
  any thread; a worker's step starts a task, finishes it, or ends the thread.\<close>

record pool_history =
  ph_pool :: thread_pool
  ph_submitted :: "nat list"
  ph_started :: "nat list"
  ph_finished :: "nat list"

inductive work_step :: "pool_history \<Rightarrow> pool_history \<Rightarrow> bool" where
  start: "WorkerThread i (ph_pool h) = Some p \<Longrightarrow> tp_workers p ! i = Running t \<Longrightarrow>
    work_step h (h\<lparr>ph_pool := p, ph_started := ph_started h @ [t]\<rparr>)"
| finish: "WorkerThread i (ph_pool h) = Some p \<Longrightarrow> tp_workers (ph_pool h) ! i = Running t \<Longrightarrow>
    work_step h (h\<lparr>ph_pool := p, ph_finished := ph_finished h @ [t]\<rparr>)"
| leave: "WorkerThread i (ph_pool h) = Some p \<Longrightarrow> tp_workers p ! i = Exited \<Longrightarrow> work_step h (h\<lparr>ph_pool := p\<rparr>)"

inductive pool_step :: "pool_history \<Rightarrow> pool_history \<Rightarrow> bool" where
  work: "work_step h h' \<Longrightarrow> pool_step h h'"
| submit: "pool_Enqueue t (ph_pool h) = Some p \<Longrightarrow>
    pool_step h (h\<lparr>ph_pool := p, ph_submitted := ph_submitted h @ [t]\<rparr>)"
| stop: "pool_step h (h\<lparr>ph_pool := pool_Stop (ph_pool h)\<rparr>)"

definition pool_start :: "nat \<Rightarrow> pool_history" where
  "pool_start n = \<lparr>ph_pool = ThreadPool n, ph_submitted = [], ph_started = [], ph_finished = []\<rparr>"

definition pool_reachable :: "nat \<Rightarrow> pool_history \<Rightarrow> bool" where
  "pool_reachable n = pool_step\<^sup>*\<^sup>* (pool_start n)"

fun running :: "worker \<Rightarrow> nat multiset" where
  "running (Running t) = {#t#}"
| "running _ = {#}"

definition tasks_running :: "thread_pool \<Rightarrow> nat multiset" where
  "tasks_running p = (\<Sum>w\<leftarrow>tp_workers p. running w)"

definition pool_inv :: "nat \<Rightarrow> pool_history \<Rightarrow> bool" where
  "pool_inv n h \<longleftrightarrow>
    length (tp_workers (ph_pool h)) = n \<and>
    ph_submitted h = ph_started h @ tp_tasks (ph_pool h) \<and>
    mset (ph_started h) = mset (ph_finished h) + tasks_running (ph_pool h) \<and>
    (Exited \<in> set (tp_workers (ph_pool h)) \<longrightarrow> tp_stop (ph_pool h) \<and> tp_tasks (ph_pool h) = [])"

text \<open>What one step of a worker is.\<close>

lemma WorkerThread_SomeE:
  assumes "WorkerThread i p = Some p'"
  obtains (begin_task) t ts where "i < length (tp_workers p)" "tp_workers p ! i = Waiting" "tp_tasks p = t # ts"
      "p' = p\<lparr>tp_workers := (tp_workers p)[i := Running t], tp_tasks := ts\<rparr>"
  | (end_task) t where "i < length (tp_workers p)" "tp_workers p ! i = Running t"
      "p' = p\<lparr>tp_workers := (tp_workers p)[i := Waiting]\<rparr>"
  | (exit) "i < length (tp_workers p)" "tp_workers p ! i = Waiting" "tp_tasks p = []" "tp_stop p"
      "p' = p\<lparr>tp_workers := (tp_workers p)[i := Exited]\<rparr>"
  using assms by (auto simp: WorkerThread_def split: if_splits worker.splits list.splits)

lemma work_stepE:
  assumes "work_step h h'"
  obtains (begin_task) i t ts where "i < length (tp_workers (ph_pool h))" "tp_workers (ph_pool h) ! i = Waiting"
      "tp_tasks (ph_pool h) = t # ts"
      "h' = h\<lparr>ph_pool := (ph_pool h)\<lparr>tp_workers := (tp_workers (ph_pool h))[i := Running t], tp_tasks := ts\<rparr>,
              ph_started := ph_started h @ [t]\<rparr>"
  | (end_task) i t where "i < length (tp_workers (ph_pool h))" "tp_workers (ph_pool h) ! i = Running t"
      "h' = h\<lparr>ph_pool := (ph_pool h)\<lparr>tp_workers := (tp_workers (ph_pool h))[i := Waiting]\<rparr>,
              ph_finished := ph_finished h @ [t]\<rparr>"
  | (exit) i where "i < length (tp_workers (ph_pool h))" "tp_workers (ph_pool h) ! i = Waiting"
      "tp_tasks (ph_pool h) = []" "tp_stop (ph_pool h)"
      "h' = h\<lparr>ph_pool := (ph_pool h)\<lparr>tp_workers := (tp_workers (ph_pool h))[i := Exited]\<rparr>\<rparr>"
  using assms by cases (erule WorkerThread_SomeE; force)+

lemma sum_list_update_worker:
  fixes g :: "worker \<Rightarrow> 'a::cancel_comm_monoid_add"
  assumes "i < length ws"
  shows "(\<Sum>w\<leftarrow>ws[i := w']. g w) + g (ws ! i) = (\<Sum>w\<leftarrow>ws. g w) + g w'"
  using assms by (induction ws arbitrary: i) (auto simp: ac_simps split: nat.splits)

lemma work_step_inv:
  assumes "work_step h h'" "pool_inv n h"
  shows "pool_inv n h'"
  using assms(1)
proof (cases rule: work_stepE)
  case (begin_task i t ts)
  then show ?thesis
    using assms(2) sum_list_update_worker [of i "tp_workers (ph_pool h)" running "Running t"]
    by (auto simp: pool_inv_def tasks_running_def dest!: set_update_subset_insert [THEN subsetD])
next
  case (end_task i t)
  then show ?thesis
    using assms(2) sum_list_update_worker [of i "tp_workers (ph_pool h)" running Waiting]
    by (auto simp: pool_inv_def tasks_running_def ac_simps dest!: set_update_subset_insert [THEN subsetD])
next
  case (exit i)
  then show ?thesis
    using assms(2) sum_list_update_worker [of i "tp_workers (ph_pool h)" running Exited]
    by (auto simp: pool_inv_def tasks_running_def)
qed

lemma sum_list_empty [simp]: "sum_list (replicate n {#}) = {#}"
  by (induction n) simp_all

lemma pool_reachable_inv: "pool_reachable n h \<Longrightarrow> pool_inv n h"
  unfolding pool_reachable_def
proof (induction rule: rtranclp_induct)
  case base
  show ?case by (simp add: pool_inv_def pool_start_def ThreadPool_def tasks_running_def)
next
  case (step h h')
  from step(2) show ?case
  proof cases
    case work
    then show ?thesis using step(3) by (rule work_step_inv)
  next
    case (submit t p)
    then show ?thesis using step(3) by (auto simp: pool_inv_def pool_Enqueue_def tasks_running_def split: if_splits)
  next
    case stop
    then show ?thesis using step(3) by (auto simp: pool_inv_def pool_Stop_def tasks_running_def)
  qed
qed

text \<open>Once the pool is stopped, its workers make finitely many steps, and they stop only when every worker has exited.\<close>

fun worker_rank :: "worker \<Rightarrow> nat" where
  "worker_rank Waiting = 1"
| "worker_rank (Running _) = 2"
| "worker_rank Exited = 0"

definition pool_rank :: "thread_pool \<Rightarrow> nat" where
  "pool_rank p = 3 * length (tp_tasks p) + (\<Sum>w\<leftarrow>tp_workers p. worker_rank w)"

lemma work_step_rank:
  assumes "work_step h h'"
  shows "pool_rank (ph_pool h') < pool_rank (ph_pool h)"
  using assms
proof (cases rule: work_stepE)
  case (begin_task i t ts)
  then show ?thesis
    using sum_list_update_worker [of i "tp_workers (ph_pool h)" worker_rank "Running t"] by (simp add: pool_rank_def)
next
  case (end_task i t)
  then show ?thesis
    using sum_list_update_worker [of i "tp_workers (ph_pool h)" worker_rank Waiting] by (simp add: pool_rank_def)
next
  case (exit i)
  then show ?thesis
    using sum_list_update_worker [of i "tp_workers (ph_pool h)" worker_rank Exited] by (simp add: pool_rank_def)
qed

lemma work_step_stop: "work_step h h' \<Longrightarrow> tp_stop (ph_pool h') = tp_stop (ph_pool h) \<and> ph_submitted h' = ph_submitted h"
  by (erule work_stepE) simp_all

lemma work_step_enabled:
  assumes "tp_stop (ph_pool h)" "i < length (tp_workers (ph_pool h))" "tp_workers (ph_pool h) ! i \<noteq> Exited"
  shows "\<exists>h'. work_step h h'"
proof (cases "tp_workers (ph_pool h) ! i")
  case Waiting
  show ?thesis
  proof (cases "tp_tasks (ph_pool h)")
    case Nil
    then show ?thesis using leave [of i h] assms Waiting by (fastforce simp: WorkerThread_def)
  next
    case (Cons t ts)
    then show ?thesis using start [of i h _ t] assms Waiting by (fastforce simp: WorkerThread_def)
  qed
next
  case (Running t)
  then show ?thesis using finish [of i h _ t] assms by (fastforce simp: WorkerThread_def)
qed (use assms in simp)

lemma all_exited_done:
  assumes "pool_inv n h" "0 < n" "\<forall>w \<in> set (tp_workers (ph_pool h)). w = Exited"
  shows "ph_started h = ph_submitted h \<and> mset (ph_finished h) = mset (ph_submitted h)"
proof -
  have "tp_workers (ph_pool h) = replicate n Exited"
    using assms by (intro replicate_eqI) (simp_all add: pool_inv_def)
  then show ?thesis using assms(1,2) by (simp add: pool_inv_def tasks_running_def)
qed

lemma work_steps_keep:
  assumes "work_step\<^sup>*\<^sup>* h g" "pool_inv n h" "tp_stop (ph_pool h)"
  shows "pool_inv n g \<and> tp_stop (ph_pool g) \<and> ph_submitted g = ph_submitted h"
  using assms by (induction rule: rtranclp_induct) (auto simp: work_step_inv work_step_stop)

lemma work_steps_bounded: "(work_step ^^ k) h h' \<Longrightarrow> k + pool_rank (ph_pool h') \<le> pool_rank (ph_pool h)"
proof (induction k arbitrary: h')
  case (Suc k)
  then obtain g where "(work_step ^^ k) h g" "work_step g h'" by auto
  then show ?case using Suc.IH work_step_rank by fastforce
qed simp

lemma work_steps_finish:
  assumes "pool_inv n h" "tp_stop (ph_pool h)"
  shows "\<exists>h'. work_step\<^sup>*\<^sup>* h h' \<and> pool_inv n h' \<and> (\<forall>w \<in> set (tp_workers (ph_pool h')). w = Exited) \<and>
    ph_submitted h' = ph_submitted h"
  using assms
proof (induction "pool_rank (ph_pool h)" arbitrary: h rule: less_induct)
  case less
  show ?case
  proof (cases "\<forall>w \<in> set (tp_workers (ph_pool h)). w = Exited")
    case True
    then show ?thesis using less by blast
  next
    case False
    then obtain g where g: "work_step h g" using work_step_enabled less(3) by (metis in_set_conv_nth)
    then show ?thesis
      using less(1) [OF work_step_rank work_step_inv, OF g g less(2)] work_step_stop [OF g] less(3)
      by (metis converse_rtranclp_into_rtranclp)
  qed
qed

section \<open>Round robin\<close>

fun next_entries :: "nat \<Rightarrow> map_rotation \<Rightarrow> (string \<times> string) list result" where
  "next_entries 0 r = Inr []"
| "next_entries (Suc k) r =
    (case GetNextEntry r of
       Inl e \<Rightarrow> Inl e
     | Inr (x, r1) \<Rightarrow> case next_entries k r1 of Inl e \<Rightarrow> Inl e | Inr xs \<Rightarrow> Inr (x # xs))"

text \<open>The entry that comes next.\<close>

definition next_index :: "map_rotation \<Rightarrow> nat" where
  "next_index r = (if unat (mr_current r) < length (mr_entries r) then unat (mr_current r) else 0)"

lemma GetNextEntry_next:
  assumes "mr_entries r \<noteq> []" "length (mr_entries r) \<le> 65536"
  shows "\<exists>r'. GetNextEntry r = Inr (mr_entries r ! next_index r, r') \<and> mr_entries r' = mr_entries r \<and>
    next_index r' = (next_index r + 1) mod length (mr_entries r)"
proof -
  have "unat (mr_current r + 1) = (unat (mr_current r) + 1) mod 65536" by (simp add: unat_word_ariths)
  moreover have "unat (mr_current r) < 65536" using unsigned_less [of "mr_current r", where ?'a = nat] by simp
  ultimately show ?thesis
    using assms by (auto simp: GetNextEntry_def next_index_def Let_def mod_Suc intro: Suc_lessI)
qed

lemma next_entries_cycle:
  assumes "mr_entries r \<noteq> []" "length (mr_entries r) \<le> 65536"
  shows "next_entries k r =
    Inr (map (\<lambda>j. mr_entries r ! ((next_index r + j) mod length (mr_entries r))) [0..<k])"
  using assms
proof (induction k arbitrary: r)
  case (Suc k)
  let ?n = "length (mr_entries r)"
  obtain r' where r': "GetNextEntry r = Inr (mr_entries r ! next_index r, r')" "mr_entries r' = mr_entries r"
    "next_index r' = (next_index r + 1) mod ?n"
    using GetNextEntry_next [of r] Suc.prems by blast
  have less: "next_index r < ?n" using Suc.prems by (simp add: next_index_def)
  have "(next_index r' + j) mod ?n = (next_index r + Suc j) mod ?n" for j by (simp add: r'(3) mod_simps)
  moreover have "next_entries k r' = Inr (map (\<lambda>j. mr_entries r ! ((next_index r' + j) mod ?n)) [0..<k])"
    using Suc.IH [of r'] Suc.prems r'(2) by auto
  moreover have "map h [0..<Suc k] = h 0 # map (\<lambda>j. h (Suc j)) [0..<k]" for h :: "nat \<Rightarrow> string \<times> string"
    by (simp add: upt_conv_Cons map_Suc_upt [symmetric] del: upt_Suc)
  ultimately show ?case using r'(1) less by (simp del: upt_Suc)
qed simp


section \<open>Properties\<close>

text \<open>C28: Whatever the order in which threads queue events and the game's thread processes the queue, the listeners are called
  for the events in the order they were queued, every listener of the event's type once, in the order the listeners
  registered; what has not been delivered is still queued.\<close>

theorem events_in_order:
  "fst (events_run ops m) @ concat (map (deliver m) (em_eventQueue (snd (events_run ops m)))) =
    concat (map (deliver m) (em_eventQueue m @ queued_events ops))"
  by (rule events_run_calls)

text \<open>A function that is queued with a delay of \<open>d\<close> ticks runs exactly once, in the call of \<^verbatim>\<open>Process\<close> number \<open>d\<close>
  (counting from 0) after it was queued, whatever else is queued meanwhile, as long as the counter of ticks does not
  wrap around.\<close>

theorem delayed_func_once:
  assumes "f \<notin> df_func ` set (td_delayedFuncs td)" "unat (td_tickCount td) + unat d < 2 ^ 64"
    "\<forall>e. Delay e f \<notin> set ops"
  shows "map (\<lambda>now. count_list now f) (fst (exec_run (Delay d f # ops) td)) =
    map (\<lambda>k. if k = unat d then 1 else 0) [0..<ticks ops]"
proof -
  have "waits f (unat d) (QueueDelayTicks d f td)" using assms by (intro QueueDelayTicks_waits) (simp_all add: absent_def)
  moreover have "td_tickCount (QueueDelayTicks d f td) = td_tickCount td" by (simp add: QueueDelayTicks_def)
  ultimately show ?thesis using exec_run_waits [of f "unat d" "QueueDelayTicks d f td" ops] assms(2,3) by simp
qed

text \<open>C23: A pool that has been stopped finishes every task that was submitted. From every state that any interleaving of
  the threads can reach, the workers make at most \<open>pool_rank\<close> further steps; while one of them has not exited a step
  is possible, so \<^verbatim>\<open>join\<close> returns; and when all have exited, every submitted task has been started in the order of
  submission and has been finished once.\<close>

theorem pool_stop_drains:
  assumes "pool_reachable n h" "0 < n" "tp_stop (ph_pool h)"
  shows "((work_step ^^ k) h h' \<longrightarrow> k \<le> pool_rank (ph_pool h)) \<and>
    (\<exists>g. work_step\<^sup>*\<^sup>* h g \<and> (\<forall>w \<in> set (tp_workers (ph_pool g)). w = Exited)) \<and>
    (work_step\<^sup>*\<^sup>* h g \<longrightarrow> (\<nexists>g'. work_step g g') \<longrightarrow>
      (\<forall>w \<in> set (tp_workers (ph_pool g)). w = Exited) \<and>
      ph_started g = ph_submitted h \<and> mset (ph_finished g) = mset (ph_submitted h))"
proof (intro conjI impI)
  have inv: "pool_inv n h" using assms(1) by (rule pool_reachable_inv)
  show "k \<le> pool_rank (ph_pool h)" if "(work_step ^^ k) h h'" using work_steps_bounded [OF that] by simp
  show "\<exists>g. work_step\<^sup>*\<^sup>* h g \<and> (\<forall>w \<in> set (tp_workers (ph_pool g)). w = Exited)"
    using work_steps_finish [OF inv assms(3)] by blast
  assume "work_step\<^sup>*\<^sup>* h g" "\<nexists>g'. work_step g g'"
  then have g: "pool_inv n g" "tp_stop (ph_pool g)" "ph_submitted g = ph_submitted h"
    using work_steps_keep inv assms(3) by blast+
  then show exited: "\<forall>w \<in> set (tp_workers (ph_pool g)). w = Exited"
    using work_step_enabled \<open>\<nexists>g'. work_step g g'\<close> by (metis in_set_conv_nth)
  show "ph_started g = ph_submitted h" "mset (ph_finished g) = mset (ph_submitted h)"
    using all_exited_done [OF g(1) assms(2) exited] g(3) by simp_all
qed

text \<open>One worker, one task submitted, then the pool is stopped.\<close>

definition stopped_pool :: pool_history where
  "stopped_pool = \<lparr>ph_pool = \<lparr>tp_workers = [Waiting], tp_tasks = [5], tp_stop = True\<rparr>,
    ph_submitted = [5], ph_started = [], ph_finished = []\<rparr>"

lemma stopped_pool_reachable: "pool_reachable 1 stopped_pool"
proof -
  let ?h = "(pool_start 1)\<lparr>ph_pool := (ThreadPool 1)\<lparr>tp_tasks := [5]\<rparr>, ph_submitted := [5]\<rparr>"
  have "pool_Enqueue 5 (ph_pool (pool_start 1)) = Some ((ThreadPool 1)\<lparr>tp_tasks := [5]\<rparr>)"
    by (simp add: pool_Enqueue_def pool_start_def ThreadPool_def)
  then have "pool_step (pool_start 1) ?h" using submit [of 5 "pool_start 1"] by (simp add: pool_start_def)
  moreover have "stopped_pool = ?h\<lparr>ph_pool := pool_Stop (ph_pool ?h)\<rparr>"
    by (simp add: stopped_pool_def pool_start_def ThreadPool_def pool_Stop_def)
  then have "pool_step ?h stopped_pool" using stop [of ?h] by simp
  ultimately show ?thesis unfolding pool_reachable_def by (meson rtranclp.rtrancl_refl rtranclp.rtrancl_into_rtrancl)
qed

theorem pool_stop_drains_witness:
  "(\<exists>g. work_step\<^sup>*\<^sup>* stopped_pool g \<and> list_all ((=) Exited) (tp_workers (ph_pool g))) \<and>
    (work_step ^^ 5) stopped_pool stopped_pool = False"
proof -
  have stop: "tp_stop (ph_pool stopped_pool)" by (simp add: stopped_pool_def)
  have "pool_rank (ph_pool stopped_pool) = 4" by (simp add: stopped_pool_def pool_rank_def)
  then show ?thesis
    using pool_stop_drains [OF stopped_pool_reachable zero_less_one stop, of 5 stopped_pool stopped_pool]
    by (auto simp: list_all_iff)
qed

text \<open>The map rotation goes round robin: from any value of the counter, even the arbitrary one it has before \<^verbatim>\<open>Reset\<close>,
  successive calls of \<^verbatim>\<open>GetNextEntry\<close> return the entries in their order, cyclically, also where the 16-bit counter
  wraps around; the rotation must not be empty.\<close>

theorem GetNextEntry_round_robin:
  assumes "mr_entries r \<noteq> []" "length (mr_entries r) \<le> 65536"
  shows "next_entries k r =
    Inr (map (\<lambda>j. mr_entries r ! ((next_index r + j) mod length (mr_entries r))) [0..<k])"
  by (rule next_entries_cycle [OF assms])

end
