(* ===== verification/Kyber_Network.thy ===== *)
theory Kyber_Network
  imports String_Utils Task_Queues
begin

text \<open>
  The game's UDP sockets and the proxy connections behind them (\<^verbatim>\<open>Module/Source/Network\<close>). A player behind a proxy is shown
  to the engine under the address \<^verbatim>\<open>0.1.1.<proxy index>\<close> and the port the proxy put in front of the packet; a packet
  the engine sends to such an address goes to that proxy with the port in front.

  A \<open>socket_addr\<close> is the 64-byte array of \<^verbatim>\<open>SocketAddr\<close>, in which a \<^verbatim>\<open>sockaddr_in\<close> is stored (family, port, address, padding).
  What the operating system and the WebSocket library answer is an argument. The queue between the threads is the one of
  \<open>Task_Queues\<close>.
\<close>

unbundle bit_operations_syntax

section \<open>Addresses\<close>

record socket_addr =
  sa_data :: bytes
  sa_length :: u8

definition sa_Clear :: socket_addr where
  "sa_Clear = \<lparr>sa_data = replicate 64 0, sa_length = 0\<rparr>"

definition SetData :: "bytes \<Rightarrow> socket_addr \<Rightarrow> socket_addr" where
  "SetData d a = a\<lparr>sa_data := d @ drop (length d) (sa_data a), sa_length := word_of_nat (length d)\<rparr>"

definition sa_assign :: "socket_addr \<Rightarrow> socket_addr \<Rightarrow> socket_addr" where
  "sa_assign b a = SetData (take (unat (sa_length b)) (sa_data b)) a"

definition htons :: "u16 \<Rightarrow> u16" where
  "htons p = push_bit 8 p OR drop_bit 8 p"

definition sin_port :: "socket_addr \<Rightarrow> u16" where
  "sin_port a = word16 (take 2 (drop 2 (sa_data a)))"

definition sin_addr :: "socket_addr \<Rightarrow> bytes" where
  "sin_addr a = take 4 (drop 4 (sa_data a))"

definition GetPort :: "socket_addr \<Rightarrow> u16" where
  "GetPort a = htons (sin_port a)"

text \<open>A \<^verbatim>\<open>sockaddr_in\<close> as it is in memory: family, port, address and the padding.\<close>

definition AF_INET :: u16 where "AF_INET = 2"

definition sockaddr_in :: "u16 \<Rightarrow> bytes \<Rightarrow> bytes \<Rightarrow> bytes" where
  "sockaddr_in port addr pad = bytes16 AF_INET @ bytes16 port @ addr @ pad"

fun inet_ntoa :: "bytes \<Rightarrow> string" where
  "inet_ntoa [] = []"
| "inet_ntoa [b] = dec_digits (unat b)"
| "inet_ntoa (b # bs) = dec_digits (unat b) @ ''.'' @ inet_ntoa bs"

text \<open>\<^verbatim>\<open>inet_addr\<close> of \<^verbatim>\<open>0.1.1.<n>\<close>: a last part above 255 is not an address, and the result is \<^verbatim>\<open>INADDR_NONE\<close>.\<close>

definition proxy_addr :: "int \<Rightarrow> bytes" where
  "proxy_addr n = (if 0 \<le> n \<and> n \<le> 255 then [0, 1, 1, word_of_int n] else [255, 255, 255, 255])"

definition is_digit :: "char \<Rightarrow> bool" where
  "is_digit c \<longleftrightarrow> 48 \<le> (of_char c :: nat) \<and> (of_char c :: nat) \<le> 57"

definition digits_val :: "string \<Rightarrow> nat" where
  "digits_val s = fold (\<lambda>c n. 10 * n + (of_char c - 48)) s 0"

text \<open>\<^verbatim>\<open>atoi\<close> on the end of a dotted address: digits, or no number at all.\<close>

definition atoi :: "string \<Rightarrow> int" where
  "atoi s = int (digits_val (takeWhile is_digit s))"


section \<open>WebSocket\<close>

record ws_message =
  wm_socketId :: u32
  wm_data :: bytes

record web_socket =
  ws_id :: string
  ws_index :: u32
  ws_url :: string
  ws_headers :: "(string \<times> string) list"
  ws_open :: bool

datatype ws_event = Ws_Message string | Ws_Open | Ws_Close | Ws_Error | Ws_Ping | Ws_Pong | Ws_Fragment

definition ws_new :: "string \<Rightarrow> u32 \<Rightarrow> web_socket" where
  "ws_new i index = \<lparr>ws_id = i, ws_index = index, ws_url = [], ws_headers = [], ws_open = False\<rparr>"

definition proxy_headers :: "string \<Rightarrow> (string \<times> string) list" where
  "proxy_headers joinToken = [(''Compression'', ''None''), (''X-KProxy'', ''true''), (''Authorization'', joinToken)]"

definition ConnectAsServer :: "string \<Rightarrow> string \<Rightarrow> web_socket \<Rightarrow> web_socket" where
  "ConnectAsServer proxyAddress joinToken w =
    w\<lparr>ws_url := ''ws://'' @ proxyAddress @ ''/server'', ws_headers := proxy_headers joinToken, ws_open := False\<rparr>"

definition ConnectAsClient :: "string \<Rightarrow> string \<Rightarrow> web_socket \<Rightarrow> web_socket" where
  "ConnectAsClient proxyAddress joinToken w =
    w\<lparr>ws_url := ''ws://'' @ proxyAddress @ ''/client'', ws_headers := proxy_headers joinToken, ws_open := False\<rparr>"

definition ws_Receive :: "web_socket \<Rightarrow> ws_event \<Rightarrow> ws_message list \<Rightarrow> ws_message list" where
  "ws_Receive w ev q =
    (case ev of
       Ws_Message str \<Rightarrow>
         if length str > 2048 then q else enqueue \<lparr>wm_socketId = ws_index w, wm_data = str_bytes str\<rparr> q
     | _ \<Rightarrow> q)"

text \<open>What is handed to the library, if the connection is open.\<close>

definition ws_Send :: "bytes \<Rightarrow> web_socket \<Rightarrow> bytes option" where
  "ws_Send buffer w = (if \<not> ws_open w then None else Some buffer)"


section \<open>UDPSocket\<close>

datatype direction = Serverbound | Clientbound

definition DirectionToString :: "direction \<Rightarrow> string" where
  "DirectionToString d = (case d of Serverbound \<Rightarrow> ''Client'' | Clientbound \<Rightarrow> ''Server'')"

record udp_socket =
  us_handle :: bool
  us_port :: u16
  us_address :: socket_addr
  us_blocking :: bool
  us_peer :: socket_addr
  us_peerIsValid :: bool
  us_direction :: direction
  us_isProxied :: bool
  us_proxyAddress :: string
  us_sockets :: "web_socket list"
  us_proxyQueue :: "ws_message list"

definition us_new :: "direction \<Rightarrow> bool \<Rightarrow> string \<Rightarrow> udp_socket" where
  "us_new d proxied address = \<lparr>us_handle = False, us_port = 0, us_address = sa_Clear, us_blocking = False, us_peer = sa_Clear,
    us_peerIsValid = False, us_direction = d, us_isProxied = proxied, us_proxyAddress = address, us_sockets = [], us_proxyQueue = []\<rparr>"

definition us_Close :: "udp_socket \<Rightarrow> udp_socket" where
  "us_Close s = s\<lparr>us_handle := False\<rparr>"

text \<open>The static buffer has 3072 bytes; a packet that does not fit is written past its end.\<close>

definition ProxifyBuffer :: "bytes \<Rightarrow> socket_addr \<Rightarrow> bytes result" where
  "ProxifyBuffer b a =
    (if length b + 2 \<le> 3072 then Inr (ucast (drop_bit 8 (sin_port a)) # ucast (sin_port a) # b) else Inl Out_Of_Bounds)"

datatype outgoing = To_Proxy nat bytes | To_Peer socket_addr bytes

datatype sendto_result = Sent | Would_Block | Send_Failed

text \<open>\<open>ip\<close> is assigned only when the first disjunct of the condition is false: a clientbound socket that is marked as
  proxied reads it as a null pointer.\<close>

definition us_Send :: "sendto_result \<Rightarrow> bytes \<Rightarrow> udp_socket \<Rightarrow> (bool \<times> outgoing option) result" where
  "us_Send sendto buffer s =
    (let ip = inet_ntoa (sin_addr (us_peer s))
     in if us_isProxied s \<or> (us_direction s = Clientbound \<and> find_sub ''0.1.1.'' ip \<noteq> None) then
          (if us_direction s = Clientbound then
             (case ProxifyBuffer buffer (us_peer s) of
                Inl e \<Rightarrow> Inl e
              | Inr packet \<Rightarrow>
                  if us_isProxied s then Inl Null_Deref
                  else
                    let proxyIndex = atoi (drop 6 ip)
                    in if proxyIndex < 0 \<or> proxyIndex \<ge> int (length (us_sockets s)) then Inr (False, None)
                       else Inr (True, map_option (To_Proxy (nat proxyIndex)) (ws_Send packet (us_sockets s ! nat proxyIndex))))
           else
             (case us_sockets s of
                [] \<Rightarrow> Inl Out_Of_Bounds
              | w # _ \<Rightarrow> Inr (True, map_option (To_Proxy 0) (ws_Send buffer w))))
        else
          (case sendto of
             Sent \<Rightarrow> Inr (True, Some (To_Peer (us_peer s) buffer))
           | Would_Block \<Rightarrow> Inr (True, None)
           | Send_Failed \<Rightarrow> Inr (False, None)))"

text \<open>What \<^verbatim>\<open>ReceiveFrom\<close> does with a received packet.\<close>

definition us_deliver :: "int \<Rightarrow> bytes \<Rightarrow> bytes \<Rightarrow> udp_socket \<Rightarrow> ((int \<times> bytes) \<times> udp_socket) result" where
  "us_deliver proxyId addr buffer s =
    (if proxyId \<noteq> -1 \<and> us_direction s = Clientbound then
       (if length buffer < 2 then Inl Out_Of_Bounds
        else
          let addr = sockaddr_in (push_bit 8 (ucast (buffer ! 0)) OR ucast (buffer ! 1)) (proxy_addr proxyId) (drop 8 addr)
          in Inr ((int (length buffer) - 2, drop 2 buffer), s\<lparr>us_peer := SetData addr (us_peer s), us_peerIsValid := True\<rparr>))
     else
       Inr ((int (length buffer), buffer),
         if proxyId = -1 \<or> us_direction s \<noteq> Serverbound then s\<lparr>us_peer := SetData addr (us_peer s), us_peerIsValid := True\<rparr> else s))"

text \<open>\<open>recv\<close> is what \<^verbatim>\<open>recvfrom\<close> returns: an error, or the address and the bytes, at most \<open>bufferSize\<close> of them.\<close>

definition us_ReceiveFrom :: "(bytes \<times> bytes) option \<Rightarrow> nat \<Rightarrow> udp_socket \<Rightarrow> ((int \<times> bytes) \<times> udp_socket) result" where
  "us_ReceiveFrom recv bufferSize s =
    (case tryDequeue (us_proxyQueue s) of
       (Some m, q) \<Rightarrow>
         us_deliver (sint (wm_socketId m)) (take 16 (sa_data (us_peer s))) (take (min bufferSize (length (wm_data m))) (wm_data m))
           (s\<lparr>us_proxyQueue := q\<rparr>)
     | (None, q) \<Rightarrow>
         if us_handle s then
           (case recv of
              None \<Rightarrow> Inr ((-1, []), s)
            | Some (addr, d) \<Rightarrow> us_deliver (-1) addr (take bufferSize d) s)
         else Inr ((-1, []), s))"

definition SetBlockingMode :: "bool \<Rightarrow> bool \<Rightarrow> udp_socket \<Rightarrow> bool \<times> udp_socket" where
  "SetBlockingMode os_ok blocking s =
    (let s = s\<lparr>us_blocking := blocking\<rparr> in if \<not> us_handle s then (True, s) else (os_ok, s))"

definition SetPeerAddress :: "socket_addr \<Rightarrow> udp_socket \<Rightarrow> udp_socket" where
  "SetPeerAddress a s = s\<lparr>us_peer := sa_assign a (us_peer s), us_peerIsValid := True\<rparr>"

record packet_info =
  pi_minSize :: nat
  pi_maxSize :: nat
  pi_recommendedSize :: nat
  pi_overheadWhenAligned :: nat
  pi_alignment :: nat

definition SetDefaultPacketInfo :: packet_info where
  "SetDefaultPacketInfo = \<lparr>pi_minSize = 1, pi_maxSize = 1264, pi_recommendedSize = 1264, pi_overheadWhenAligned = 28, pi_alignment = 1\<rparr>"

text \<open>The environment of \<^verbatim>\<open>Listen\<close>: the operating system's answers, the server's state and the proxies.\<close>

record net_env =
  ne_socket_ok :: bool
  ne_bind_ok :: bool
  ne_mode_ok :: bool
  ne_serverOnline :: bool
  ne_pinnedProxy :: "string option"
  ne_proxies :: "(string \<times> string) list"
  ne_joinToken :: string

definition connect_proxies :: "net_env \<Rightarrow> web_socket list" where
  "connect_proxies env =
    map (\<lambda>(i, proxy). ConnectAsServer (snd proxy) (ne_joinToken env) (ws_new (fst proxy) (word_of_nat i))) (enumerate 0 (ne_proxies env))"

definition us_Listen :: "net_env \<Rightarrow> socket_addr \<Rightarrow> bool \<Rightarrow> udp_socket \<Rightarrow> bool \<times> udp_socket" where
  "us_Listen env address blocking s =
    (if \<not> ne_socket_ok env then (False, s\<lparr>us_handle := False\<rparr>)
     else
       let s = s\<lparr>us_handle := True\<rparr> in
       if \<not> ne_bind_ok env then (False, us_Close s)
       else case SetBlockingMode (ne_mode_ok env) blocking s of
         (False, s) \<Rightarrow> (False, us_Close s)
       | (True, s) \<Rightarrow>
           let s = s\<lparr>us_port := GetPort address, us_address := sa_assign address (us_address s), us_sockets := []\<rparr>
           in if us_isProxied s \<and> us_direction s = Serverbound then
                (True, s\<lparr>us_sockets := [ConnectAsClient (us_proxyAddress s) (ne_joinToken env) (ws_new ''client'' 0)]\<rparr>)
              else if us_direction s = Clientbound \<and> ne_serverOnline env then
                (case ne_pinnedProxy env of
                   Some p \<Rightarrow> (True, s\<lparr>us_sockets := [ConnectAsServer p (ne_joinToken env) (ws_new ''pinned'' 0)]\<rparr>)
                 | None \<Rightarrow> (True, s\<lparr>us_sockets := connect_proxies env\<rparr>))
              else (True, s))"


section \<open>SocketManager\<close>

text \<open>The split of \<^verbatim>\<open>address:port\<close>; without a colon both are the whole string. \<^verbatim>\<open>std::stoi\<close> throws when the number does not fit
  an \<^verbatim>\<open>int\<close>, and the port is truncated to 16 bits.\<close>

definition parse_listen :: "string \<Rightarrow> (string \<times> u16) option result" where
  "parse_listen name =
    (let i = find_sub '':'' name;
         address = (case i of None \<Rightarrow> name | Some i \<Rightarrow> take i name);
         address = (if address = [] then ''0.0.0.0'' else address);
         port = (case i of None \<Rightarrow> name | Some i \<Rightarrow> drop (i + 1) name)
     in if port = [] \<or> \<not> list_all is_digit port then Inr None
        else if digits_val port \<ge> 2 ^ 31 then Inl Out_Of_Bounds
        else Inr (Some (address, word_of_nat (digits_val port))))"

record socket_manager =
  sm_sockets :: "udp_socket list"
  sm_direction :: direction
  sm_isProxied :: bool
  sm_proxyAddress :: string

text \<open>\<open>pton\<close> is \<^verbatim>\<open>inet_pton\<close>: the four bytes of an address.\<close>

definition sm_Listen :: "(string \<Rightarrow> bytes) \<Rightarrow> net_env \<Rightarrow> string \<Rightarrow> bool \<Rightarrow> socket_manager \<Rightarrow> (udp_socket option \<times> socket_manager) result" where
  "sm_Listen pton env name blocking m =
    (case parse_listen name of
       Inl e \<Rightarrow> Inl e
     | Inr None \<Rightarrow> Inr (None, m)
     | Inr (Some (address, port)) \<Rightarrow>
         let a = SetData (sockaddr_in (htons port) (pton address) (replicate 8 0)) sa_Clear
         in case us_Listen env a blocking (us_new (sm_direction m) (sm_isProxied m) (sm_proxyAddress m)) of
              (False, _) \<Rightarrow> Inr (None, m)
            | (True, s) \<Rightarrow> Inr (Some s, m\<lparr>sm_sockets := sm_sockets m @ [s]\<rparr>))"

definition CloseSockets :: "socket_manager \<Rightarrow> socket_manager" where
  "CloseSockets m = m\<lparr>sm_sockets := map us_Close (sm_sockets m)\<rparr>"

fun BroadcastMessage :: "sendto_result \<Rightarrow> bytes \<Rightarrow> udp_socket list \<Rightarrow> outgoing list result" where
  "BroadcastMessage sendto b [] = Inr []"
| "BroadcastMessage sendto b (s # ss) =
    (case us_Send sendto b s of
       Inl e \<Rightarrow> Inl e
     | Inr (_, out) \<Rightarrow>
         (case BroadcastMessage sendto b ss of
            Inl e \<Rightarrow> Inl e
          | Inr outs \<Rightarrow> Inr ((case out of None \<Rightarrow> [] | Some o' \<Rightarrow> [o']) @ outs)))"


section \<open>Addresses of proxies\<close>

declare dec_digits.simps [simp del]

lemma port_bytes:
  fixes p q :: u8
  shows "ucast (drop_bit 8 (push_bit 8 (ucast p) OR ucast q :: u16)) = p" "ucast (push_bit 8 (ucast p) OR ucast q :: u16) = q"
  by (rule bit_word_eqI, auto simp: bit_simps dest: bit_imp_le_length)+

lemma dec_digits_rec:
  "n < 10 \<Longrightarrow> dec_digits n = [char_of (48 + n)]"
  "\<not> n < 10 \<Longrightarrow> dec_digits n = dec_digits (n div 10) @ [char_of (48 + n mod 10)]"
  by (simp_all add: dec_digits.simps [of n])

lemma is_digit_char: "n < 10 \<Longrightarrow> is_digit (char_of (48 + n :: nat))"
  by (simp add: is_digit_def)

lemma is_digit_dec: "list_all is_digit (dec_digits n)"
proof (induction n rule: dec_digits.induct)
  case (1 n)
  then show ?case by (cases "n < 10") (simp_all add: dec_digits_rec is_digit_char)
qed

lemma digits_val_append: "digits_val (s @ [c]) = 10 * digits_val s + (of_char c - 48)"
  by (simp add: digits_val_def)

lemma digits_val_dec [simp]: "digits_val (dec_digits n) = n"
proof (induction n rule: dec_digits.induct)
  case (1 n)
  show ?case
  proof (cases "n < 10")
    case True
    then show ?thesis by (simp add: dec_digits_rec digits_val_def)
  next
    case False
    then show ?thesis using 1 by (simp add: dec_digits_rec(2) digits_val_append)
  qed
qed

lemma atoi_dec [simp]: "atoi (dec_digits n) = int n"
proof -
  have d: "takeWhile is_digit (dec_digits n) = dec_digits n"
    using is_digit_dec [of n] by (simp add: takeWhile_eq_all_conv list_all_iff)
  show ?thesis by (simp only: atoi_def d digits_val_dec)
qed

lemma inet_ntoa_proxy: "inet_ntoa [0, 1, 1, b] = ''0.1.1.'' @ dec_digits (unat b)"
proof -
  have "dec_digits 0 = ''0''" "dec_digits 1 = ''1''" by code_simp+
  then show ?thesis by simp
qed

lemma find_sub_prefix: "find_sub d (d @ s) = Some 0"
  by (cases d; cases s) auto

lemma sa_data_SetData [simp]: "sa_data (SetData d a) = d @ drop (length d) (sa_data a)" "sa_length (SetData d a) = word_of_nat (length d)"
  by (simp_all add: SetData_def)

lemma length_sockaddr_in [simp]: "length (sockaddr_in p a z) = 4 + length a + length z"
  by (simp add: sockaddr_in_def)

lemma sin_sockaddr_in:
  assumes "length a = 4"
  shows "sin_port (SetData (sockaddr_in p a z) x) = p" "sin_addr (SetData (sockaddr_in p a z) x) = a"
  using assms by (simp_all add: sin_port_def sin_addr_def sockaddr_in_def)

text \<open>Assigning an address copies the first sixteen bytes, which hold port and address.\<close>

lemma sin_sa_assign:
  assumes "sa_length b = 16" "16 \<le> length (sa_data b)"
  shows "sin_port (sa_assign b a) = sin_port b" "sin_addr (sa_assign b a) = sin_addr b"
  using assms by (auto simp: sin_port_def sin_addr_def sa_assign_def drop_take min_def)

lemma length_proxy_addr [simp]: "length (proxy_addr n) = 4"
  by (simp add: proxy_addr_def)

lemma ProxifyBuffer_small: "length b \<le> 3070 \<Longrightarrow>
    ProxifyBuffer b a = Inr (ucast (drop_bit 8 (sin_port a)) # ucast (sin_port a) # b)"
  by (simp add: ProxifyBuffer_def)

text \<open>Sending on a clientbound socket whose peer has the address of a proxy.\<close>

lemma us_Send_proxy:
  assumes "us_direction s = Clientbound" "\<not> us_isProxied s" "sin_addr (us_peer s) = [0, 1, 1, i]" "length b \<le> 3070"
  shows "us_Send r b s =
    (if unat i < length (us_sockets s)
     then Inr (True, map_option (To_Proxy (unat i))
       (ws_Send (ucast (drop_bit 8 (sin_port (us_peer s))) # ucast (sin_port (us_peer s)) # b) (us_sockets s ! unat i)))
     else Inr (False, None))"
proof -
  obtain k where k: "unat i = k" by simp
  have ip: "inet_ntoa (sin_addr (us_peer s)) = ''0.1.1.'' @ dec_digits k"
    by (simp only: assms(3) inet_ntoa_proxy k)
  have ix: "atoi (drop 6 (''0.1.1.'' @ dec_digits k)) = int k" by simp
  show ?thesis
    unfolding us_Send_def Let_def ip ix k ProxifyBuffer_small [OF assms(4)] using assms(1,2) by (auto simp: find_sub_prefix)
qed

lemma us_deliver_proxied:
  assumes "us_direction s = Clientbound" "i \<noteq> -1" "2 \<le> length d"
  shows "us_deliver i a d s = Inr ((int (length d) - 2, drop 2 d),
    s\<lparr>us_peer := SetData (sockaddr_in (push_bit 8 (ucast (d ! 0)) OR ucast (d ! 1)) (proxy_addr i) (drop 8 a)) (us_peer s),
      us_peerIsValid := True\<rparr>)"
  using assms by (simp add: us_deliver_def Let_def)

lemma us_ReceiveFrom_queued:
  assumes "us_proxyQueue s = m # q" "length (wm_data m) \<le> n"
  shows "us_ReceiveFrom recv n s =
    us_deliver (sint (wm_socketId m)) (take 16 (sa_data (us_peer s))) (wm_data m) (s\<lparr>us_proxyQueue := q\<rparr>)"
  using assms by (simp add: us_ReceiveFrom_def)

definition us_ok :: "udp_socket \<Rightarrow> bool" where
  "us_ok s \<longleftrightarrow> length (sa_data (us_peer s)) = 64"

text \<open>A packet from a proxy and a later answer to it.\<close>

lemma reply_to_proxy:
  assumes "us_direction s = Clientbound" "us_ok s" "us_proxyQueue s = \<lparr>wm_socketId = word_of_nat i, wm_data = p # q # d\<rparr> # ms"
    "length d + 2 \<le> n" "i \<le> 255" "us_ReceiveFrom recv n s = Inr (out, s')"
    and "us_direction t = Clientbound" "\<not> us_isProxied t" "i < length (us_sockets t)" "ws_open (us_sockets t ! i)" "length reply \<le> 3070"
  shows "out = (int (length d), d) \<and> us_Send r reply (SetPeerAddress (us_peer s') t) = Inr (True, Some (To_Proxy i (p # q # reply)))"
proof -
  let ?a = "sockaddr_in (push_bit 8 (ucast p) OR ucast q) (proxy_addr (int i)) (take 8 (drop 8 (sa_data (us_peer s))))"
  have i: "sint (word_of_nat i :: u32) = int i" using assms(5) by (intro sint_small) simp
  have "us_ReceiveFrom recv n s = Inr ((int (length d), d),
      s\<lparr>us_proxyQueue := ms, us_peer := SetData ?a (us_peer s), us_peerIsValid := True\<rparr>)"
    using assms(1,3,4) by (simp add: us_ReceiveFrom_queued us_deliver_proxied i drop_take)
  then have out: "out = (int (length d), d)" and peer: "us_peer s' = SetData ?a (us_peer s)" using assms(6) by auto
  have len: "length ?a = 16" using assms(2) by (simp add: us_ok_def)
  have w: "unat (word_of_int (int i) :: u8) = i" using assms(5) by (simp add: unat_u8_of_nat)
  let ?p = "sa_assign (us_peer s') (us_peer t)"
  have "sin_port ?p = push_bit 8 (ucast p) OR ucast q" and a: "sin_addr ?p = [0, 1, 1, word_of_int (int i)]"
    using len assms(5) by (simp_all add: peer sin_sa_assign sin_sockaddr_in proxy_addr_def)
  then have "ucast (drop_bit 8 (sin_port ?p)) = p" "ucast (sin_port ?p) = q" by (simp_all only: port_bytes)
  then have "us_Send r reply (SetPeerAddress (us_peer s') t) = Inr (True, Some (To_Proxy i (p # q # reply)))"
    using a assms(7-) us_Send_proxy [of "SetPeerAddress (us_peer s') t" "word_of_int (int i)" reply r]
    by (simp add: SetPeerAddress_def ws_Send_def w del: of_int_of_nat_eq)
  then show ?thesis using out by simp
qed


section \<open>Delivery\<close>

text \<open>The receiving thread of a proxy connection and the game's thread in any order: the results of the game's calls.\<close>

datatype net_op = Arrive web_socket ws_event | Poll "(bytes \<times> bytes) option" nat

fun net_run :: "net_op list \<Rightarrow> udp_socket \<Rightarrow> ((int \<times> bytes) list \<times> udp_socket) result" where
  "net_run [] s = Inr ([], s)"
| "net_run (Arrive w ev # ops) s = net_run ops (s\<lparr>us_proxyQueue := ws_Receive w ev (us_proxyQueue s)\<rparr>)"
| "net_run (Poll recv n # ops) s =
    (case us_ReceiveFrom recv n s of
       Inl e \<Rightarrow> Inl e
     | Inr (out, s') \<Rightarrow> (case net_run ops s' of Inl e \<Rightarrow> Inl e | Inr (outs, s'') \<Rightarrow> Inr (out # outs, s'')))"

fun is_poll :: "net_op \<Rightarrow> bool" where
  "is_poll (Poll _ _) = True"
| "is_poll _ = False"

text \<open>Messages of at least two bytes from a proxy with an index, and calls with room for every message.\<close>

fun op_ok :: "net_op \<Rightarrow> bool" where
  "op_ok (Arrive w (Ws_Message str)) \<longleftrightarrow> 2 \<le> length str \<and> sint (ws_index w) \<noteq> -1"
| "op_ok (Arrive w _) = True"
| "op_ok (Poll recv n) \<longleftrightarrow> 2048 \<le> n"

definition message_ok :: "ws_message \<Rightarrow> bool" where
  "message_ok m \<longleftrightarrow> sint (wm_socketId m) \<noteq> -1 \<and> 2 \<le> length (wm_data m) \<and> length (wm_data m) \<le> 2048"

definition payload :: "ws_message \<Rightarrow> int \<times> bytes" where
  "payload m = (int (length (wm_data m)) - 2, drop 2 (wm_data m))"

lemma ws_Receive_ok: "op_ok (Arrive w ev) \<Longrightarrow> \<exists>ms. ws_Receive w ev q = q @ ms \<and> list_all message_ok ms"
  by (cases ev) (auto simp: ws_Receive_def proxy_queue.items_enq message_ok_def)

lemma us_ReceiveFrom_empty:
  assumes "us_proxyQueue s = []"
  shows "\<exists>out s'. us_ReceiveFrom recv n s = Inr (out, s') \<and> us_direction s' = us_direction s \<and> us_proxyQueue s' = []"
  using assms by (auto simp: us_ReceiveFrom_def us_deliver_def split: option.splits)

lemma us_ReceiveFrom_message:
  assumes "us_proxyQueue s = m # q" "us_direction s = Clientbound" "message_ok m" "2048 \<le> n"
  shows "\<exists>s'. us_ReceiveFrom recv n s = Inr (payload m, s') \<and> us_direction s' = Clientbound \<and> us_proxyQueue s' = q"
  using assms by (simp add: us_ReceiveFrom_queued us_deliver_proxied message_ok_def payload_def)

lemma net_run_delivers:
  assumes "us_direction s = Clientbound" "list_all message_ok (us_proxyQueue s)" "list_all op_ok ops"
  shows "\<exists>outs s'. net_run ops s = Inr (outs, s') \<and> length outs = length (filter is_poll ops) \<and>
    (\<forall>k < length outs. k < length (us_proxyQueue s) \<longrightarrow> outs ! k = payload (us_proxyQueue s ! k))"
  using assms
proof (induction ops s rule: net_run.induct)
  case (2 w ev ops s)
  obtain ms where "ws_Receive w ev (us_proxyQueue s) = us_proxyQueue s @ ms" "list_all message_ok ms"
    using ws_Receive_ok [of w ev] "2.prems"(3) by fastforce
  then show ?case using 2 by (fastforce simp: nth_append)
next
  case (3 recv n ops s)
  show ?case
  proof (cases "us_proxyQueue s")
    case Nil
    then obtain out s' where s': "us_ReceiveFrom recv n s = Inr (out, s')" "us_direction s' = Clientbound" "us_proxyQueue s' = []"
      using us_ReceiveFrom_empty [of s] "3.prems"(1) by fastforce
    then show ?thesis using "3.IH" [OF s'(1) refl] "3.prems"(3) Nil by fastforce
  next
    case (Cons m q)
    then obtain s' where s': "us_ReceiveFrom recv n s = Inr (payload m, s')" "us_direction s' = Clientbound" "us_proxyQueue s' = q"
      using us_ReceiveFrom_message [of s m q n recv] "3.prems" by auto
    then obtain outs s'' where "net_run ops s' = Inr (outs, s'')" "length outs = length (filter is_poll ops)"
      "\<forall>k < length outs. k < length q \<longrightarrow> outs ! k = payload (q ! k)"
      using "3.IH" [OF s'(1) refl] "3.prems"(2,3) Cons by auto
    then show ?thesis using s'(1) Cons by (auto simp: nth_Cons split: nat.splits)
  qed
qed simp


section \<open>Properties\<close>

text \<open>C5: A player behind a proxy is answered through that proxy. When the server's socket receives the packet with the port
  bytes \<open>p\<close> and \<open>q\<close> from proxy \<open>i\<close>, the game gets the rest of the packet and a peer address to which, whatever happened to the
  socket in between, an answer is sent through proxy \<open>i\<close> with the same port bytes in front.\<close>

theorem proxy_reply_route:
  assumes "us_direction s = Clientbound" "us_ok s" "us_proxyQueue s = \<lparr>wm_socketId = word_of_nat i, wm_data = p # q # d\<rparr> # ms"
    "length d + 2 \<le> n" "i \<le> 255" "us_ReceiveFrom recv n s = Inr (out, s')"
    and "us_direction t = Clientbound" "\<not> us_isProxied t" "i < length (us_sockets t)" "ws_open (us_sockets t ! i)" "length reply \<le> 3070"
  shows "out = (int (length d), d) \<and> us_Send r reply (SetPeerAddress (us_peer s') t) = Inr (True, Some (To_Proxy i (p # q # reply)))"
  using assms by (rule reply_to_proxy)

theorem proxy_reply_route_witness:
  "us_Send Sent [7, 8] (SetPeerAddress
      (us_peer (snd (projr (us_ReceiveFrom None 1264
        ((us_new Clientbound False [])\<lparr>us_proxyQueue := [\<lparr>wm_socketId = word_of_nat 1, wm_data = [0x12, 0x34, 9]\<rparr>]\<rparr>)))))
      ((us_new Clientbound False [])\<lparr>us_sockets := [ws_new ''a'' 0, (ws_new ''b'' 1)\<lparr>ws_open := True\<rparr>]\<rparr>)) =
    Inr (True, Some (To_Proxy 1 [0x12, 0x34, 7, 8]))"
proof -
  let ?s = "(us_new Clientbound False [])\<lparr>us_proxyQueue := [\<lparr>wm_socketId = word_of_nat 1, wm_data = [0x12, 0x34, 9 :: u8]\<rparr>]\<rparr>"
  have s: "us_ok ?s" "us_direction ?s = Clientbound" by (simp_all add: us_ok_def us_new_def sa_Clear_def)
  obtain out s' where r: "us_ReceiveFrom None 1264 ?s = Inr (out, s')"
    using us_ReceiveFrom_message [of ?s "\<lparr>wm_socketId = word_of_nat 1, wm_data = [0x12, 0x34, 9]\<rparr>" "[]" "2048" None]
    by (auto simp: us_new_def us_ReceiveFrom_queued us_deliver_proxied)
  show ?thesis
    using proxy_reply_route [OF s(2,1) _ _ _ r, of 1 "0x12" "0x34" "[9]" "[]"
        "(us_new Clientbound False [])\<lparr>us_sockets := [ws_new ''a'' 0, (ws_new ''b'' 1)\<lparr>ws_open := True\<rparr>]\<rparr>" "[7, 8]" Sent] r
    by (simp add: us_new_def)
qed

text \<open>C18: The messages that wait on a client's socket are delivered, in the order in which they came from the proxy. In every interleaving of the receiving threads with the game's calls, the
  \<open>k\<close>-th call returns the \<open>k\<close>-th message that was waiting, whole and without its port bytes, and no call fails.\<close>

theorem proxy_messages_delivered:
  assumes "us_direction s = Clientbound" "list_all message_ok (us_proxyQueue s)" "list_all op_ok ops"
  shows "\<exists>outs s'. net_run ops s = Inr (outs, s') \<and> length outs = length (filter is_poll ops) \<and>
    (\<forall>k < length outs. k < length (us_proxyQueue s) \<longrightarrow> outs ! k = payload (us_proxyQueue s ! k))"
  using assms by (rule net_run_delivers)

theorem proxy_messages_delivered_witness:
  "\<exists>outs s'. net_run [Arrive (ws_new ''b'' 1) (Ws_Message ''abcd''), Poll None 2048, Poll None 2048]
      ((us_new Clientbound False [])\<lparr>us_proxyQueue := [\<lparr>wm_socketId = 0, wm_data = [1, 2, 3]\<rparr>]\<rparr>) = Inr (outs, s') \<and>
    length outs = 2 \<and> outs ! 0 = (1, [3])"
proof -
  let ?s = "(us_new Clientbound False [])\<lparr>us_proxyQueue := [\<lparr>wm_socketId = 0, wm_data = [1, 2, 3 :: u8]\<rparr>]\<rparr>"
  have "us_direction ?s = Clientbound" "list_all message_ok (us_proxyQueue ?s)"
    "list_all op_ok [Arrive (ws_new ''b'' 1) (Ws_Message ''abcd''), Poll None 2048, Poll None 2048]"
    by (simp_all add: us_new_def message_ok_def ws_new_def)
  from proxy_messages_delivered [OF this] show ?thesis by (auto simp: payload_def)
qed

text \<open>A message of a proxy shorter than the two port bytes is accepted into the queue, and the game's next call moves
  memory with a negative size.\<close>

theorem short_proxy_message:
  assumes "us_direction s = Clientbound" "us_proxyQueue s = []" "length str < 2" "sint (ws_index w) \<noteq> -1"
  shows "us_ReceiveFrom recv n (s\<lparr>us_proxyQueue := ws_Receive w (Ws_Message str) (us_proxyQueue s)\<rparr>) = Inl Out_Of_Bounds"
  using assms by (simp add: us_ReceiveFrom_def us_deliver_def ws_Receive_def proxy_queue.items_enq)

text \<open>A player in the network 10.1.1.0/24, who is connected without a proxy, gets no answer: the address contains the text
  by which proxies are recognised, so the packet is handed to the first proxy, and refused when there is none.\<close>

theorem private_address_misrouted:
  assumes "us_direction s = Clientbound" "\<not> us_isProxied s" "sin_addr (us_peer s) = [10, 1, 1, h]" "length b \<le> 3070"
  shows "us_Send r b s =
    (case us_sockets s of
       [] \<Rightarrow> Inr (False, None)
     | w # _ \<Rightarrow> Inr (True, map_option (To_Proxy 0)
         (ws_Send (ucast (drop_bit 8 (sin_port (us_peer s))) # ucast (sin_port (us_peer s)) # b) w)))"
proof -
  have "dec_digits 10 = ''10''" "dec_digits 1 = ''1''" by code_simp+
  then have ip: "inet_ntoa (sin_addr (us_peer s)) = ''1'' @ (''0.1.1.'' @ dec_digits (unat h))" using assms(3) by simp
  have found: "find_sub ''0.1.1.'' (''1'' @ (''0.1.1.'' @ dec_digits (unat h))) \<noteq> None"
    using find_sub_prefix [of "''0.1.1.''" "dec_digits (unat h)"] by simp
  have ix: "atoi (drop 6 (''1'' @ (''0.1.1.'' @ dec_digits (unat h)))) = 0"
    by (simp add: atoi_def is_digit_def digits_val_def)
  show ?thesis
    unfolding us_Send_def Let_def ip ix ProxifyBuffer_small [OF assms(4)] using assms(1,2) found
    by (auto split: list.splits)
qed

end
