(* ===== verification/Game_Session.thy ===== *)
theory Game_Session
  imports Kyber_Network
begin

text \<open>
  The life of a server in the game (\<^verbatim>\<open>Core/Server.cpp\<close>), the client that joins one (\<^verbatim>\<open>Core/Client.cpp\<close>), the connection to the
  management service (\<^verbatim>\<open>RPC/API/ServerManagement.cpp\<close>) and the players of a running server (\<^verbatim>\<open>SDK/SDK.cpp\<close>).

  The state \<open>program\<close> is \<^verbatim>\<open>g_program\<close> with its server and client. A call into the game, the launcher, the web service or
  a script is an \<open>effect\<close>, appended to the log of the state; what such a call answers is an argument. A hook that calls
  the original function through its trampoline has the effect that names that function. The game's own functions on the
  options of a level (\<^verbatim>\<open>SetInclusionOption\<close> and \<^verbatim>\<open>GetInclusionOption\<close>) are the parameter \<open>level_options\<close>.
\<close>

section \<open>Players\<close>

record server_player =
  pl_name :: string
  pl_localPlayerId :: u32
  pl_teamId :: int
  pl_nativeData :: u64
  pl_id :: string
  pl_isSpectator :: bool

record player_manager =
  pm_players :: "server_player option list"
  pm_spectators :: "server_player option list"

definition IsAIPlayer :: "server_player \<Rightarrow> bool" where
  "IsAIPlayer p \<longleftrightarrow> pl_localPlayerId p = 0xFF \<or> (pl_nativeData p \<ge> 133700 \<and> pl_nativeData p \<le> 133799)"

text \<open>The loop of the four lookups: the index of the first element that is not skipped.\<close>

fun find_player :: "(server_player \<Rightarrow> bool) \<Rightarrow> server_player option list \<Rightarrow> nat option result" where
  "find_player skip [] = Inr None"
| "find_player skip (None # ps) = Inl Null_Deref"
| "find_player skip (Some p # ps) =
    (if skip p then (case find_player skip ps of Inl e \<Rightarrow> Inl e | Inr r \<Rightarrow> Inr (map_option Suc r)) else Inr (Some 0))"

datatype player_ref = Player nat | Spectator nat

definition GetPlayer_name :: "string \<Rightarrow> player_manager \<Rightarrow> nat option result" where
  "GetPlayer_name name pm = find_player (\<lambda>p. IsAIPlayer p \<or> pl_name p \<noteq> name) (pm_players pm)"

definition GetSpectator_name :: "string \<Rightarrow> player_manager \<Rightarrow> nat option result" where
  "GetSpectator_name name pm = find_player (\<lambda>p. IsAIPlayer p \<or> pl_name p \<noteq> name) (pm_spectators pm)"

definition GetPlayer_id :: "u64 \<Rightarrow> bool \<Rightarrow> player_manager \<Rightarrow> nat option result" where
  "GetPlayer_id i includeAI pm =
    find_player (\<lambda>p. (\<not> includeAI \<and> IsAIPlayer p) \<or> pl_nativeData p \<noteq> i) (pm_players pm)"

definition GetSpectator_id :: "u64 \<Rightarrow> player_manager \<Rightarrow> nat option result" where
  "GetSpectator_id i pm = find_player (\<lambda>p. IsAIPlayer p \<or> pl_nativeData p \<noteq> i) (pm_spectators pm)"

definition first_found :: "nat option result \<Rightarrow> nat option result \<Rightarrow> player_ref option result" where
  "first_found a b =
    (case a of
       Inl e \<Rightarrow> Inl e
     | Inr (Some i) \<Rightarrow> Inr (Some (Player i))
     | Inr None \<Rightarrow> (case b of Inl e \<Rightarrow> Inl e | Inr r \<Rightarrow> Inr (map_option Spectator r)))"

definition GetPlayerOrSpectator_name :: "string \<Rightarrow> player_manager \<Rightarrow> player_ref option result" where
  "GetPlayerOrSpectator_name name pm = first_found (GetPlayer_name name pm) (GetSpectator_name name pm)"

definition GetPlayerOrSpectator_id :: "u64 \<Rightarrow> player_manager \<Rightarrow> player_ref option result" where
  "GetPlayerOrSpectator_id i pm = first_found (GetPlayer_id i False pm) (GetSpectator_id i pm)"

fun get_player :: "player_ref \<Rightarrow> player_manager \<Rightarrow> server_player option" where
  "get_player (Player i) pm = (if i < length (pm_players pm) then pm_players pm ! i else None)"
| "get_player (Spectator i) pm = (if i < length (pm_spectators pm) then pm_spectators pm ! i else None)"

fun set_player :: "player_ref \<Rightarrow> server_player \<Rightarrow> player_manager \<Rightarrow> player_manager" where
  "set_player (Player i) p pm = pm\<lparr>pm_players := (pm_players pm)[i := Some p]\<rparr>"
| "set_player (Spectator i) p pm = pm\<lparr>pm_spectators := (pm_spectators pm)[i := Some p]\<rparr>"


section \<open>The state\<close>

record server_creation_info =
  ci_name :: string
  ci_description :: string
  ci_password :: string
  ci_level :: string
  ci_mode :: string
  ci_maxPlayers :: int
  ci_loadCommands :: "string list"

record socket_spawn_info =
  si_isProxied :: bool
  si_proxyAddress :: string
  si_serverName :: string
  si_password :: string

record kyber_server =
  sv_sockets :: "nat list option"
  sv_natClient :: "nat option"
  sv_playerManager :: "player_manager option"
  sv_socketSpawnInfo :: socket_spawn_info
  sv_mapRotation :: map_rotation
  sv_currentLevel :: string
  sv_currentMode :: string
  sv_serverInstance :: "nat option"
  sv_creationInfo :: "server_creation_info option"
  sv_serverId :: string
  sv_onlineMode :: bool
  sv_runningHosted :: bool
  sv_restarting :: bool
  sv_hooksRemoved :: bool
  sv_levelLoaded :: bool
  sv_requestLevel :: string
  sv_requestMode :: string

datatype client_state =
    WaitingForStaticBundleLoad
  | LoadProfileOptions
  | LostConnection
  | WaitingForUnload
  | Startup
  | StartServer
  | WaitingForLevel
  | StartLoadingLevel
  | WaitingForLevelLoaded
  | WaitingForLevelLink
  | LevelLinked
  | WaitingForGhosts
  | Ingame
  | LeaveIngame
  | ConnectToServer
  | ShuttingDown
  | Shutdown
  | State_None

record kyber_client =
  cl_joinToken :: string
  cl_clientState :: client_state
  cl_socketManager :: bool
  cl_voipManager :: bool
  cl_joining :: bool
  cl_spectator :: bool
  cl_connected :: bool

record level_setup =
  ls_Name :: string
  ls_options :: string
  ls_InitialStartPoint :: "string option"
  ls_InitialDSubLevel :: "string option"

record create_player_message =
  cp_playerName :: string
  cp_isSpectator :: bool

datatype chat_channel = Chat_All | Chat_Group | Chat_Team | Chat_Admin

datatype effect =
    Load_Level level_setup
  | Create_Player nat create_player_message
  | Disconnect nat string u32
  | Consume_Join_Token string string nat create_player_message
  | Register_Server server_creation_info
  | Connect_Management string
  | Update_Level_Setup string string string
  | Get_Server string
  | Get_Proxies
  | Fire string
  | Enqueue_Command string
  | Send_Event_Players "(string \<times> string \<times> int) list"
  | Send_Event_Console string
  | Chat_Message chat_channel string server_player
  | Construct_Server nat
  | Start_Game_Server
  | Spawn_Server level_setup
  | Client_State client_state client_state
  | Server_Joined
  | Server_Disconnected
  | Attempt_Join_Voip
  | Remove_Voip_Session
  | Close_Socket nat
  | Connect_Address string
  | Set_Team nat int

record program =
  pg_hasServer :: bool
  pg_server :: kyber_server
  pg_client :: kyber_client
  pg_isDedicatedServer :: bool
  pg_scripts :: bool
  pg_allowInteraction :: bool
  pg_connectionEstablished :: bool
  pg_serverFirstStartup :: bool
  pg_clientFirstStartup :: bool
  pg_MaxClientCount :: int
  pg_MaxServerConnectionCount :: int
  pg_MaxSpectatorCount :: int
  pg_FastExit :: bool
  pg_ThreadingEnable :: bool
  pg_ServerPort :: u16
  pg_ServerIp :: string
  pg_Level :: string
  pg_DefaultLayerInclusion :: string
  pg_shuffleTeams :: bool
  pg_log :: "effect list"

definition emit :: "effect \<Rightarrow> program \<Rightarrow> program" where
  "emit e p = p\<lparr>pg_log := pg_log p @ [e]\<rparr>"

definition fire :: "string \<Rightarrow> program \<Rightarrow> program" where
  "fire ev p = (if pg_scripts p then emit (Fire ev) p else p)"

definition on_server :: "(kyber_server \<Rightarrow> kyber_server) \<Rightarrow> program \<Rightarrow> program" where
  "on_server f p = p\<lparr>pg_server := f (pg_server p)\<rparr>"

definition on_client :: "(kyber_client \<Rightarrow> kyber_client) \<Rightarrow> program \<Rightarrow> program" where
  "on_client f p = p\<lparr>pg_client := f (pg_client p)\<rparr>"

record level_options =
  lo_init :: string
  lo_set :: "string \<Rightarrow> string \<Rightarrow> string \<Rightarrow> string"
  lo_get :: "string \<Rightarrow> string \<Rightarrow> string option"


section \<open>Management service\<close>

definition IsRunning :: "program \<Rightarrow> bool" where
  "IsRunning p \<longleftrightarrow> sv_runningHosted (pg_server p) \<or> pg_isDedicatedServer p"

definition management_SendConsoleMessage :: "string \<Rightarrow> program \<Rightarrow> program" where
  "management_SendConsoleMessage message p =
    (if \<not> pg_connectionEstablished p \<or> \<not> IsRunning p then p else emit (Send_Event_Console message) p)"

definition SendConsoleMessage :: "string \<Rightarrow> program \<Rightarrow> program" where
  "SendConsoleMessage message p = (if \<not> IsRunning p then p else management_SendConsoleMessage message p)"

fun player_list :: "server_player option list \<Rightarrow> (string \<times> string \<times> int) list result" where
  "player_list [] = Inr []"
| "player_list (None # ps) = Inl Null_Deref"
| "player_list (Some p # ps) =
    (case player_list ps of
       Inl e \<Rightarrow> Inl e
     | Inr r \<Rightarrow> Inr (if IsAIPlayer p then r else (dec_digits (unat (pl_nativeData p)), pl_name p, pl_teamId p) # r))"

definition SendPlayerList :: "program \<Rightarrow> program result" where
  "SendPlayerList p =
    (if \<not> pg_connectionEstablished p \<or> \<not> IsRunning p then Inr p
     else case sv_playerManager (pg_server p) of
            None \<Rightarrow> Inr p
          | Some pm \<Rightarrow>
              (case player_list (pm_players pm) of Inl e \<Rightarrow> Inl e | Inr r \<Rightarrow> Inr (emit (Send_Event_Players r) p)))"


section \<open>Levels\<close>

definition IsOnlineMode :: "string option \<Rightarrow> bool" where
  "IsOnlineMode onlineMode = (case onlineMode of None \<Rightarrow> True | Some m \<Rightarrow> m = ''1'')"

text \<open>The message with which the game loads a level, and the requests for one. The calls are sequential: the code sets \<^verbatim>\<open>m_levelLoaded\<close> under no lock, and a level
  can also be loaded by a thread of the interface.\<close>

definition ServerLoadLevelMessagePostHk :: "level_options \<Rightarrow> level_setup \<Rightarrow> program \<Rightarrow> program result" where
  "ServerLoadLevelMessagePostHk lo ls p =
    (if pg_hasServer p \<and> \<not> sv_levelLoaded (pg_server p)
     then case lo_get lo ''GameMode'' (ls_options ls) of
            None \<Rightarrow> Inl Null_Deref
          | Some mode \<Rightarrow> Inr (on_server (\<lambda>s. s\<lparr>sv_requestLevel := ls_Name ls, sv_requestMode := mode\<rparr>) p)
     else Inr (emit (Load_Level ls) (if pg_hasServer p then on_server (\<lambda>s. s\<lparr>sv_levelLoaded := False\<rparr>) p else p)))"

definition InitLevelSetup ::
  "level_options \<Rightarrow> string \<Rightarrow> string option \<Rightarrow> string \<Rightarrow> string \<Rightarrow> program \<Rightarrow> level_setup \<times> program" where
  "InitLevelSetup lo level mode startPoint initialSubLevel p =
    (let p = fire ''Level:Loaded'' p;
         p = on_server (\<lambda>s. s\<lparr>sv_currentLevel := level,
               sv_currentMode := (case mode of None \<Rightarrow> '''' | Some m \<Rightarrow> m)\<rparr>) p;
         ls = \<lparr>ls_Name = level, ls_options = lo_init lo, ls_InitialStartPoint = None, ls_InitialDSubLevel = None\<rparr>
     in case mode of
          None \<Rightarrow> (ls, p)
        | Some m \<Rightarrow>
            (let ls = ls\<lparr>ls_options := lo_set lo ''GameMode'' m (ls_options ls)\<rparr>
             in if m \<noteq> ''Campaign'' then (ls, p)
                else (let ls = (if length initialSubLevel \<noteq> 0 then ls\<lparr>ls_InitialStartPoint := Some startPoint\<rparr> else ls)
                      in (ls\<lparr>ls_InitialDSubLevel := Some initialSubLevel\<rparr>, p))))"

definition LoadNextLevel ::
  "level_options \<Rightarrow> string \<Rightarrow> string option \<Rightarrow> string \<Rightarrow> string \<Rightarrow> bool \<Rightarrow> program \<Rightarrow> program result" where
  "LoadNextLevel lo level mode startPoint initialSubLevel updateServerBrowser p =
    (case InitLevelSetup lo level mode startPoint initialSubLevel p of
       (ls, p) \<Rightarrow>
         (case ServerLoadLevelMessagePostHk lo ls p of
            Inl e \<Rightarrow> Inl e
          | Inr p \<Rightarrow>
              if \<not> updateServerBrowser \<or> sv_serverId (pg_server p) = '''' then Inr p
              else case mode of
                     None \<Rightarrow> Inl Null_Deref
                   | Some m \<Rightarrow> Inr (emit (Update_Level_Setup (sv_serverId (pg_server p)) level m) p)))"

definition OnLevelLoaded :: "level_options \<Rightarrow> program \<Rightarrow> program result" where
  "OnLevelLoaded lo p =
    (let p = on_server (\<lambda>s. s\<lparr>sv_levelLoaded := True\<rparr>) p;
         level = sv_requestLevel (pg_server p);
         mode = sv_requestMode (pg_server p);
         r = (if level \<noteq> ''''
              then case LoadNextLevel lo level (Some mode) '''' '''' True p of
                     Inl e \<Rightarrow> Inl e
                   | Inr p \<Rightarrow> Inr (on_server (\<lambda>s. s\<lparr>sv_requestLevel := '''', sv_requestMode := ''''\<rparr>) p)
              else Inr p)
     in case r of
          Inl e \<Rightarrow> Inl e
        | Inr p \<Rightarrow> Inr (if pg_shuffleTeams p then emit (Enqueue_Command ''Kyber.ShuffleTeams'') p else p))"

definition ServerLevelUpdateLoadHk :: "level_options \<Rightarrow> u32 \<Rightarrow> program \<Rightarrow> program result" where
  "ServerLevelUpdateLoadHk lo loadState p =
    (if loadState = 7 \<and> sv_creationInfo (pg_server p) \<noteq> None
     then case (if sv_runningHosted (pg_server p) then OnLevelLoaded lo p else Inr p) of
            Inl e \<Rightarrow> Inl e
          | Inr p \<Rightarrow>
              (case sv_creationInfo (pg_server p) of
                 None \<Rightarrow> Inl Null_Deref
               | Some info \<Rightarrow>
                   Inr (on_server (\<lambda>s. s\<lparr>sv_creationInfo := Some (info\<lparr>ci_loadCommands := []\<rparr>)\<rparr>)
                          (fold (\<lambda>command. emit (Enqueue_Command command)) (ci_loadCommands info) p)))
     else Inr p)"

definition ServerLevelCompletedMessage :: "level_options \<Rightarrow> program \<Rightarrow> program result" where
  "ServerLevelCompletedMessage lo p =
    (let p = fire ''Level:Complete'' p
     in case GetNextEntry (sv_mapRotation (pg_server p)) of
          Inl e \<Rightarrow> Inl e
        | Inr ((level, mode), rotation) \<Rightarrow>
            LoadNextLevel lo level (Some mode) '''' '''' True (on_server (\<lambda>s. s\<lparr>sv_mapRotation := rotation\<rparr>) p))"


section \<open>Starting and stopping\<close>

definition Register :: "string option \<Rightarrow> bool \<Rightarrow> program \<Rightarrow> program result" where
  "Register response force p =
    (if \<not> force \<and> (\<not> IsRunning p \<or> sv_creationInfo (pg_server p) = None) then Inr p
     else if \<not> sv_onlineMode (pg_server p) then Inr p
     else case sv_creationInfo (pg_server p) of
            None \<Rightarrow> Inl Null_Deref
          | Some info \<Rightarrow>
              (let p = emit (Register_Server info) p
               in case response of
                    None \<Rightarrow> Inr (emit (Connect_Management ''DUMMY'') p)
                  | Some i \<Rightarrow>
                      Inr (emit (Connect_Management i)
                        (on_server (\<lambda>s. s\<lparr>sv_onlineMode := True, sv_serverId := i\<rparr>) p))))"

definition EnableGameHooks :: "program \<Rightarrow> program" where
  "EnableGameHooks p = on_server (\<lambda>s. s\<lparr>sv_hooksRemoved := False\<rparr>) p"

definition DisableGameHooks :: "program \<Rightarrow> program" where
  "DisableGameHooks p = on_server (\<lambda>s. s\<lparr>sv_hooksRemoved := True\<rparr>) p"

text \<open>A start: the settings, the registration, and the load of the level.\<close>

definition start_prepare :: "server_creation_info \<Rightarrow> program \<Rightarrow> program" where
  "start_prepare info p =
    (let p = EnableGameHooks p;
         p = p\<lparr>pg_MaxClientCount := ci_maxPlayers info, pg_ServerPort := 25200,
               pg_MaxServerConnectionCount := ci_maxPlayers info, pg_FastExit := True, pg_ServerIp := '''',
               pg_Level := ci_level info, pg_MaxSpectatorCount := 4,
               pg_DefaultLayerInclusion := ''GameMode='' @ ci_mode info\<rparr>
     in on_server (\<lambda>s. s\<lparr>sv_creationInfo := Some info\<rparr>) p)"

definition start_finish :: "level_options \<Rightarrow> server_creation_info \<Rightarrow> bool \<Rightarrow> program \<Rightarrow> program result" where
  "start_finish lo info changeState p =
    (let p = on_server (\<lambda>s. if sv_serverId s = '''' then s\<lparr>sv_onlineMode := False\<rparr> else s) p;
         p = on_server (\<lambda>s. s\<lparr>sv_socketSpawnInfo :=
               \<lparr>si_isProxied = False, si_proxyAddress = '''', si_serverName = sv_serverId s, si_password = ''''\<rparr>\<rparr>) p;
         p = on_server (\<lambda>s. if sv_runningHosted s then s\<lparr>sv_restarting := True\<rparr> else s) p;
         r = (if changeState
              then LoadNextLevel lo (ci_level info) (Some (ci_mode info)) '''' '''' True
                     (on_server (\<lambda>s. s\<lparr>sv_levelLoaded := True\<rparr>) p)
              else Inr p)
     in case r of
          Inl e \<Rightarrow> Inl e
        | Inr p \<Rightarrow> Inr (on_server (\<lambda>s. s\<lparr>sv_hooksRemoved := False, sv_runningHosted := True\<rparr>) p))"

definition Start :: "level_options \<Rightarrow> string option \<Rightarrow> server_creation_info \<Rightarrow> bool \<Rightarrow> program \<Rightarrow> program result" where
  "Start lo response info changeState p =
    (case Register response True (start_prepare info p) of
       Inl e \<Rightarrow> Inl e
     | Inr p \<Rightarrow> start_finish lo info changeState p)"

definition Stop :: "string option \<Rightarrow> program \<Rightarrow> program result" where
  "Stop onlineMode p =
    (let p = on_server (\<lambda>s. s\<lparr>sv_runningHosted := False, sv_playerManager := None, sv_serverInstance := None,
               sv_serverId := '''', sv_onlineMode := IsOnlineMode onlineMode\<rparr>) p
     in case sv_sockets (pg_server p) of
          None \<Rightarrow> Inl Null_Deref
        | Some [] \<Rightarrow> Inl Out_Of_Bounds
        | Some socks \<Rightarrow>
            (let sock = last socks
             in if Some sock \<noteq> sv_natClient (pg_server p)
                then Inr (emit (Close_Socket sock) (on_server (\<lambda>s. s\<lparr>sv_sockets := Some (removeAll sock socks)\<rparr>) p))
                else Inr p))"

definition OnClientStartup :: "level_options \<Rightarrow> string option \<Rightarrow> program \<Rightarrow> program result" where
  "OnClientStartup lo response p =
    (if \<not> pg_serverFirstStartup p then Inr p
     else case sv_creationInfo (pg_server p) of
            None \<Rightarrow> Inr p
          | Some info \<Rightarrow> Start lo response info False (p\<lparr>pg_serverFirstStartup := False\<rparr>))"

definition SetDedicatedCreationInfo :: "server_creation_info \<Rightarrow> program \<Rightarrow> program" where
  "SetDedicatedCreationInfo info p =
    (if \<not> pg_isDedicatedServer p then p else on_server (\<lambda>s. s\<lparr>sv_creationInfo := Some info\<rparr>) p)"

definition Server_OnEvent :: "server_creation_info option \<Rightarrow> program \<Rightarrow> program" where
  "Server_OnEvent e p = (case e of None \<Rightarrow> p | Some info \<Rightarrow> on_server (\<lambda>s. s\<lparr>sv_creationInfo := Some info\<rparr>) p)"

text \<open>The game constructs and starts its server; the hooks change what it is given. \<open>isLocalHost\<close> and the socket manager that
  the game uses are results of the hooks.\<close>

definition ServerCtorHk :: "nat \<Rightarrow> player_manager option \<Rightarrow> bool \<Rightarrow> program \<Rightarrow> bool \<times> program" where
  "ServerCtorHk inst playerManager isLocalHost p =
    (if sv_hooksRemoved (pg_server p) then (isLocalHost, emit (Construct_Server inst) p)
     else (False, emit (Construct_Server inst) (fire ''Server:Init''
            (on_server (\<lambda>s. s\<lparr>sv_playerManager := playerManager, sv_serverInstance := Some inst\<rparr>)
              (if pg_isDedicatedServer p then p\<lparr>pg_ThreadingEnable := False\<rparr> else p)))))"

definition ServerStartHk :: "program \<Rightarrow> bool \<times> program" where
  "ServerStartHk p =
    (if sv_hooksRemoved (pg_server p) then (False, emit Start_Game_Server p)
     else (let own = \<not> pg_isDedicatedServer p \<and> sv_sockets (pg_server p) \<noteq> None;
               p = emit Start_Game_Server p
           in (own, if sv_runningHosted (pg_server p) \<and> \<not> sv_hooksRemoved (pg_server p) then DisableGameHooks p else p)))"

definition management_Receive :: "ws_event \<Rightarrow> nat \<Rightarrow> string option \<Rightarrow> program \<Rightarrow> program result" where
  "management_Receive ev http_status response p =
    (case ev of
       Ws_Open \<Rightarrow> Inr (p\<lparr>pg_connectionEstablished := True\<rparr>)
     | Ws_Close \<Rightarrow> Inr (p\<lparr>pg_connectionEstablished := False\<rparr>)
     | Ws_Error \<Rightarrow> if http_status = 410 then Register response False p else Inr p
     | _ \<Rightarrow> Inr p)"


section \<open>Joining a server\<close>

definition auth_prefix :: string where
  "auth_prefix = ''KyberAuthentication:''"

definition auth_failed :: string where
  "auth_failed = ''KYBER failed to authenticate your connection.'' @ [CHR 0x0A, CHR 0x0A] @
    ''Please visit discord.gg/kyber for support.''"

definition KickedViaFairFight :: u32 where "KickedViaFairFight = 0x78B15894"
definition KickedByAdmin :: u32 where "KickedByAdmin = 0x0C765936"
definition TimedOut :: u32 where "TimedOut = 0xB59C9896"
definition NoReply :: u32 where "NoReply = 0xCD9691DA"

definition SafeDisconnect :: "nat \<Rightarrow> string \<Rightarrow> u32 \<Rightarrow> program \<Rightarrow> program" where
  "SafeDisconnect conn reasonText reason p = emit (Disconnect conn reasonText reason) p"

text \<open>\<^verbatim>\<open>std::stoull\<close>: white space, a sign, digits; no digits and values above 64 bits are exceptions (\<open>None\<close>).\<close>

definition is_space :: "char \<Rightarrow> bool" where
  "is_space c \<longleftrightarrow> (of_char c :: nat) = 32 \<or> (9 \<le> (of_char c :: nat) \<and> (of_char c :: nat) \<le> 13)"

definition split_sign :: "string \<Rightarrow> bool \<times> string" where
  "split_sign s = (case s of c # r \<Rightarrow> if c = CHR ''-'' then (True, r) else if c = CHR ''+'' then (False, r) else (False, s)
     | [] \<Rightarrow> (False, s))"

definition stoull :: "string \<Rightarrow> u64 option" where
  "stoull s =
    (case split_sign (dropWhile is_space s) of
       (neg, r) \<Rightarrow>
         (let ds = takeWhile is_digit r
          in if ds = [] \<or> digits_val ds \<ge> 2 ^ 64 then None
             else Some (if neg then - word_of_nat (digits_val ds) else word_of_nat (digits_val ds))))"

text \<open>The hook on the message with which a client asks for a player. \<open>None\<close>: the result is the one of the game's function.\<close>

definition ServerConnectionOnCreatePlayerMessageHk ::
  "nat \<Rightarrow> create_player_message \<Rightarrow> program \<Rightarrow> bool option \<times> program" where
  "ServerConnectionOnCreatePlayerMessageHk inst message p =
    (if \<not> sv_runningHosted (pg_server p) \<and> \<not> pg_isDedicatedServer p then (None, emit (Create_Player inst message) p)
     else if \<not> sv_onlineMode (pg_server p) then (None, emit (Create_Player inst message) p)
     else if take (length auth_prefix) (cp_playerName message) \<noteq> auth_prefix
     then (Some False, SafeDisconnect inst auth_failed KickedViaFairFight p)
     else (Some True, emit (Consume_Join_Token (sv_serverId (pg_server p))
             (drop (length auth_prefix) (cp_playerName message)) inst message) p))"

text \<open>What the answer to the token does. \<open>create\<close> is what the game's function does to the players; a player's name is copied
  into the 16 bytes of \<^verbatim>\<open>m_id\<close>. The player is looked up by the name, and the connection is taken to exist still.\<close>

definition set_online_id :: "u64 \<Rightarrow> server_player \<Rightarrow> server_player result" where
  "set_online_id userId pl =
    (if length (pl_name pl) + 1 > 16 then Inl Out_Of_Bounds
     else Inr (pl\<lparr>pl_nativeData := userId, pl_id := pl_name pl\<rparr>))"

definition JoinTokenConsumed ::
  "(nat \<Rightarrow> create_player_message \<Rightarrow> player_manager option \<Rightarrow> player_manager option) \<Rightarrow> nat \<Rightarrow> create_player_message \<Rightarrow>
    (string \<times> string) option \<Rightarrow> program \<Rightarrow> program result" where
  "JoinTokenConsumed create inst message response p =
    (case response of
       None \<Rightarrow> Inr (SafeDisconnect inst auth_failed KickedViaFairFight p)
     | Some (name, i) \<Rightarrow>
         (case stoull i of
            None \<Rightarrow> Inl Bad_Format
          | Some userId \<Rightarrow>
              (let message = message\<lparr>cp_playerName := name\<rparr>;
                   p = emit (Create_Player inst message)
                         (on_server (\<lambda>s. s\<lparr>sv_playerManager := create inst message (sv_playerManager s)\<rparr>) p)
               in case sv_playerManager (pg_server p) of
                    None \<Rightarrow> Inl Null_Deref
                  | Some pm \<Rightarrow>
                      (case GetPlayerOrSpectator_name name pm of
                         Inl e \<Rightarrow> Inl e
                       | Inr None \<Rightarrow> Inr p
                       | Inr (Some r) \<Rightarrow>
                           (case get_player r pm of
                              None \<Rightarrow> Inl Null_Deref
                            | Some pl \<Rightarrow>
                                (case set_online_id userId pl of
                                   Inl e \<Rightarrow> Inl e
                                 | Inr pl \<Rightarrow>
                                     (let p = on_server (\<lambda>s. s\<lparr>sv_playerManager := Some (set_player r pl pm)\<rparr>) p;
                                          p = fire ''ServerPlayer:Joined'' p
                                      in case SendPlayerList p of
                                           Inl e \<Rightarrow> Inl e
                                         | Inr p \<Rightarrow>
                                             Inr (SendConsoleMessage (pl_name pl @ '' ('' @ dec_digits (unat userId) @
                                               '') joined the server'') p))))))))"

definition HandleClientServerJoin :: "create_player_message \<Rightarrow> program \<Rightarrow> create_player_message \<times> program" where
  "HandleClientServerJoin message p =
    (if \<not> cl_joining (pg_client p) \<and> \<not> cl_connected (pg_client p) \<and> \<not> sv_runningHosted (pg_server p) then (message, p)
     else if \<not> sv_onlineMode (pg_server p) then (message, p)
     else (message\<lparr>cp_playerName := auth_prefix @ cl_joinToken (pg_client p), cp_isSpectator := cl_spectator (pg_client p)\<rparr>,
           emit Attempt_Join_Voip p))"


section \<open>Chat and kicks\<close>

definition kServerTeamAdminMarker :: int where "kServerTeamAdminMarker = 19472"

definition ServerSendChatMessageHk ::
  "chat_channel \<Rightarrow> string option \<Rightarrow> server_player option \<Rightarrow> bool \<Rightarrow> program \<Rightarrow> bool option \<times> program" where
  "ServerSendChatMessageHk channel message player cancelled p =
    (case (message, player) of
       (Some m, Some pl) \<Rightarrow>
         if channel = Chat_Admin \<and> pl_teamId pl \<noteq> kServerTeamAdminMarker then (Some False, p)
         else if pg_scripts p \<and> channel \<noteq> Chat_Admin
         then (let p = emit (Fire ''ServerPlayer:SendMessage'') p
               in if cancelled then (Some False, p) else (None, emit (Chat_Message channel m pl) p))
         else (None, emit (Chat_Message channel m pl) p)
     | _ \<Rightarrow> (Some False, p))"

definition Server_BroadcastMessage :: "server_player \<Rightarrow> string \<Rightarrow> string \<Rightarrow> chat_channel \<Rightarrow> bool \<Rightarrow> program \<Rightarrow> program" where
  "Server_BroadcastMessage dummy message username channel cancelled p =
    snd (ServerSendChatMessageHk channel (Some message)
      (Some (dummy\<lparr>pl_name := username, pl_teamId := kServerTeamAdminMarker\<rparr>)) cancelled p)"

definition KickPlayer :: "nat \<Rightarrow> server_player \<Rightarrow> string \<Rightarrow> program \<Rightarrow> program" where
  "KickPlayer conn player reason p =
    SendConsoleMessage (''Kicked '' @ pl_name player @ '' ('' @ dec_digits (unat (pl_nativeData player)) @ '') from the server'')
      (SafeDisconnect conn reason KickedByAdmin p)"

datatype api_event =
    Server_Kick string string
  | Server_Ban string string
  | Server_Map_Rotation
  | Server_Run_Command string
  | Body_Not_Set

text \<open>The kick of a player by its id; \<open>conn\<close> is the game's map from players to connections.\<close>

definition kick_by_id :: "(player_ref \<Rightarrow> nat) \<Rightarrow> string \<Rightarrow> string \<Rightarrow> string \<Rightarrow> program \<Rightarrow> program result" where
  "kick_by_id conn verb i reason p =
    (case stoull i of
       None \<Rightarrow> Inl Bad_Format
     | Some playerId \<Rightarrow>
         (case sv_playerManager (pg_server p) of
            None \<Rightarrow> Inl Null_Deref
          | Some pm \<Rightarrow>
              (case GetPlayerOrSpectator_id playerId pm of
                 Inl e \<Rightarrow> Inl e
               | Inr None \<Rightarrow>
                   Inr (management_SendConsoleMessage
                     (''Failed to '' @ verb @ '' '' @ dec_digits (unat playerId) @ '', player not found'') p)
               | Inr (Some r) \<Rightarrow>
                   (case get_player r pm of None \<Rightarrow> Inl Null_Deref | Some pl \<Rightarrow> Inr (KickPlayer (conn r) pl reason p)))))"

definition ProcessReceivedEvent :: "(player_ref \<Rightarrow> nat) \<Rightarrow> api_event \<Rightarrow> program \<Rightarrow> program result" where
  "ProcessReceivedEvent conn event p =
    (case event of
       Server_Kick i reason \<Rightarrow> kick_by_id conn ''kick'' i reason p
     | Server_Ban i reason \<Rightarrow> kick_by_id conn ''ban'' i reason p
     | Server_Map_Rotation \<Rightarrow> Inr p
     | Server_Run_Command command \<Rightarrow> Inr (emit (Enqueue_Command command) p)
     | Body_Not_Set \<Rightarrow> Inr p)"


section \<open>Client\<close>

text \<open>A change of the client's state. \<open>onlineMode\<close> and \<open>response\<close> are what the environment and the web service answer to a stop
  and a start of the server.\<close>

definition leave_hosted :: "string option \<Rightarrow> program \<Rightarrow> program result" where
  "leave_hosted onlineMode p =
    (if sv_runningHosted (pg_server p)
     then if \<not> sv_restarting (pg_server p)
          then case Stop onlineMode p of
                 Inl e \<Rightarrow> Inl e
               | Inr p \<Rightarrow>
                   (let p = (if cl_voipManager (pg_client p) then emit Remove_Voip_Session p else p);
                        p = on_client (\<lambda>c. c\<lparr>cl_spectator := False\<rparr>) p
                    in Inr (p\<lparr>pg_Level := ''Levels/FrontEnd/FrontEnd'', pg_DefaultLayerInclusion := ''''\<rparr>))
          else Inr (on_server (\<lambda>s. s\<lparr>sv_restarting := False\<rparr>) p)
     else if \<not> cl_joining (pg_client p) \<and> \<not> pg_clientFirstStartup p then Inr (p\<lparr>pg_ServerIp := ''''\<rparr>)
     else Inr p)"

definition leave_connection :: "program \<Rightarrow> program" where
  "leave_connection p =
    (let p = p\<lparr>pg_allowInteraction := False\<rparr>;
         p = (if (sv_runningHosted (pg_server p) \<or> cl_connected (pg_client p)) \<and> cl_socketManager (pg_client p)
              then on_client (\<lambda>c. c\<lparr>cl_socketManager := False\<rparr>) p else p);
         p = (if cl_connected (pg_client p)
              then on_client (\<lambda>c. c\<lparr>cl_spectator := False\<rparr>)
                     (if cl_voipManager (pg_client p) then emit Remove_Voip_Session p else p)
              else p)
     in on_client (\<lambda>c. c\<lparr>cl_connected := False\<rparr>) p)"

definition ClientStateChangeHk ::
  "level_options \<Rightarrow> string option \<Rightarrow> string option \<Rightarrow> client_state \<Rightarrow> client_state \<Rightarrow> program \<Rightarrow> program result" where
  "ClientStateChangeHk lo onlineMode response current lst p =
    (let p = on_client (\<lambda>c. c\<lparr>cl_clientState := current\<rparr>) p;
         r = (if \<not> pg_hasServer p then Inr p
              else if current = Startup
              then case leave_hosted onlineMode (leave_connection p) of
                     Inl e \<Rightarrow> Inl e
                   | Inr p \<Rightarrow>
                       (case OnClientStartup lo response p of
                          Inl e \<Rightarrow> Inl e
                        | Inr p \<Rightarrow> Inr (p\<lparr>pg_clientFirstStartup := False\<rparr>))
              else if current = Ingame then Inr ((emit Server_Joined p)\<lparr>pg_allowInteraction := True\<rparr>)
              else Inr p)
     in case r of Inl e \<Rightarrow> Inl e | Inr p \<Rightarrow> Inr (emit (Client_State current lst) p))"

text \<open>What the server browser knows of a server: its pinned proxy, if it has one; and the list of proxies.\<close>

definition pinned_address :: "string option \<Rightarrow> (string \<times> string) list \<Rightarrow> string \<Rightarrow> string" where
  "pinned_address pinned proxies ip =
    (case pinned of
       None \<Rightarrow> ip
     | Some proxy \<Rightarrow> (case map_of proxies proxy of None \<Rightarrow> ip | Some a \<Rightarrow> a))"

definition JoinServer ::
  "level_options \<Rightarrow> string option \<Rightarrow> string option \<Rightarrow> string option option \<Rightarrow> (string \<times> string) list \<Rightarrow>
    string \<Rightarrow> string \<Rightarrow> u16 \<Rightarrow> bool \<Rightarrow> bool \<Rightarrow> bool \<Rightarrow> program \<Rightarrow> program result" where
  "JoinServer lo onlineMode response found proxies i ip port spectate proxied changeState p =
    (let looked = (if i \<noteq> '''' then emit (Get_Server i) p else p)
     in if i \<noteq> '''' \<and> found = None then Inr looked
        else (let pinned = (if i \<noteq> '''' then the found else None);
                  p = (if pinned \<noteq> None then emit Get_Proxies looked else looked);
                  ip = pinned_address pinned proxies ip;
                  p = p\<lparr>pg_ServerIp := ip\<rparr>;
                  p = on_server (\<lambda>s. s\<lparr>sv_socketSpawnInfo :=
                        \<lparr>si_isProxied = proxied, si_proxyAddress = (if proxied then ip else ''''), si_serverName = i,
                         si_password = ''''\<rparr>\<rparr>) p;
                  p = on_client (\<lambda>c. c\<lparr>cl_joining := True, cl_spectator := spectate\<rparr>) p;
                  p = p\<lparr>pg_ServerPort := port\<rparr>
              in if changeState then ClientStateChangeHk lo onlineMode response Startup (cl_clientState (pg_client p)) p
                 else Inr p))"

definition ClientConnectToAddressHk :: "string \<Rightarrow> program \<Rightarrow> program" where
  "ClientConnectToAddressHk ipAddress p =
    (let p = emit (Connect_Address ipAddress) p
     in if cl_joining (pg_client p) then on_client (\<lambda>c. c\<lparr>cl_connected := True, cl_joining := False\<rparr>) p else p)"

definition ClientConnectionOnDisconnectedHk :: "u32 \<Rightarrow> string \<Rightarrow> program \<Rightarrow> (u32 \<times> string) \<times> program" where
  "ClientConnectionOnDisconnectedHk reason reasonText p =
    ((if reason = TimedOut then (KickedViaFairFight, ''Timed out.'')
      else if reason = NoReply then (KickedViaFairFight, ''The server did not reply.'')
      else if reason = KickedByAdmin
      then (KickedViaFairFight, ''You were kicked by a server admin.'' @ [CHR 0x0A, CHR 0x0A] @ ''Reason: '' @ reasonText)
      else (reason, reasonText)),
     emit Server_Disconnected p)"

record join_event =
  je_id :: string
  je_ip :: string
  je_port :: u16
  je_password :: string
  je_spectate :: bool
  je_proxied :: bool

definition Client_OnEvent ::
  "level_options \<Rightarrow> string option \<Rightarrow> string option \<Rightarrow> string option option \<Rightarrow> (string \<times> string) list \<Rightarrow>
    join_event option \<Rightarrow> program \<Rightarrow> program result" where
  "Client_OnEvent lo onlineMode response found proxies e p =
    (case e of
       None \<Rightarrow> Inr p
     | Some e \<Rightarrow> JoinServer lo onlineMode response found proxies (je_id e) (je_ip e) (je_port e) (je_spectate e)
         (je_proxied e) False p)"


section \<open>Dedicated servers\<close>

definition GameSimulationInitDedicatedServerHk ::
  "level_options \<Rightarrow> bool \<Rightarrow> string option \<Rightarrow> program \<Rightarrow> program result" where
  "GameSimulationInitDedicatedServerHk lo allocated response p =
    (case sv_creationInfo (pg_server p) of
       None \<Rightarrow> Inr p
     | Some info \<Rightarrow>
         if sv_sockets (pg_server p) = None \<and> \<not> allocated then Inr p
         else (let p = on_server (\<lambda>s. if sv_sockets s = None then s\<lparr>sv_sockets := Some []\<rparr> else s) p;
                   p = p\<lparr>pg_MaxClientCount := 64, pg_MaxSpectatorCount := 4, pg_MaxServerConnectionCount := 64\<rparr>
               in case (if sv_onlineMode (pg_server p) then Register response False p else Inr p) of
                    Inl e \<Rightarrow> Inl e
                  | Inr p \<Rightarrow>
                      (let p = on_server (\<lambda>s. s\<lparr>sv_socketSpawnInfo := \<lparr>si_isProxied = False, si_proxyAddress = '''',
                             si_serverName = sv_serverId s, si_password = ''''\<rparr>\<rparr>) p
                       in case GetNextEntry (sv_mapRotation (pg_server p)) of
                            Inl e \<Rightarrow> Inl e
                          | Inr (_, rotation) \<Rightarrow>
                              (case InitLevelSetup lo (ci_level info) (Some (ci_mode info)) '''' ''''
                                      (on_server (\<lambda>s. s\<lparr>sv_mapRotation := rotation\<rparr>) p) of
                                 (ls, p) \<Rightarrow> Inr (emit (Spawn_Server ls) p)))))"


section \<open>Start by remote call\<close>

definition StartServer_rpc ::
  "level_options \<Rightarrow> string option \<Rightarrow> string \<Rightarrow> string \<Rightarrow> string \<Rightarrow> (string \<times> string) list \<Rightarrow> int \<Rightarrow> program \<Rightarrow> program result" where
  "StartServer_rpc lo response name description password maps maxPlayers p =
    (let rotation = fold (\<lambda>(level, mode). AddEntry level mode) maps (rotation_Reset (sv_mapRotation (pg_server p)))
     in case GetNextEntry rotation of
          Inl e \<Rightarrow> Inl e
        | Inr ((level, mode), rotation) \<Rightarrow>
            Start lo response \<lparr>ci_name = name, ci_description = description, ci_password = password, ci_level = level,
                ci_mode = mode, ci_maxPlayers = maxPlayers, ci_loadCommands = []\<rparr> True
              (on_server (\<lambda>s. s\<lparr>sv_mapRotation := rotation\<rparr>) p))"

definition LoadLevel_rpc :: "level_options \<Rightarrow> string \<Rightarrow> string \<Rightarrow> program \<Rightarrow> program result" where
  "LoadLevel_rpc lo level mode p = LoadNextLevel lo level (Some mode) '''' '''' True p"


section \<open>Basic facts\<close>

lemma emit_simps [simp]:
  "pg_server (emit e p) = pg_server p" "pg_client (emit e p) = pg_client p" "pg_hasServer (emit e p) = pg_hasServer p"
  "pg_isDedicatedServer (emit e p) = pg_isDedicatedServer p" "pg_log (emit e p) = pg_log p @ [e]"
  "pg_scripts (emit e p) = pg_scripts p" "pg_connectionEstablished (emit e p) = pg_connectionEstablished p"
  "pg_shuffleTeams (emit e p) = pg_shuffleTeams p" "pg_serverFirstStartup (emit e p) = pg_serverFirstStartup p"
  "pg_Level (emit e p) = pg_Level p" "pg_clientFirstStartup (emit e p) = pg_clientFirstStartup p"
  by (simp_all add: emit_def)

lemma on_server_simps [simp]:
  "pg_server (on_server f p) = f (pg_server p)" "pg_client (on_server f p) = pg_client p"
  "pg_hasServer (on_server f p) = pg_hasServer p" "pg_isDedicatedServer (on_server f p) = pg_isDedicatedServer p"
  "pg_log (on_server f p) = pg_log p" "pg_scripts (on_server f p) = pg_scripts p"
  "pg_connectionEstablished (on_server f p) = pg_connectionEstablished p"
  "pg_shuffleTeams (on_server f p) = pg_shuffleTeams p" "pg_serverFirstStartup (on_server f p) = pg_serverFirstStartup p"
  "pg_Level (on_server f p) = pg_Level p" "pg_clientFirstStartup (on_server f p) = pg_clientFirstStartup p"
  by (simp_all add: on_server_def)

lemma on_client_simps [simp]:
  "pg_client (on_client f p) = f (pg_client p)" "pg_server (on_client f p) = pg_server p"
  "pg_hasServer (on_client f p) = pg_hasServer p" "pg_isDedicatedServer (on_client f p) = pg_isDedicatedServer p"
  "pg_log (on_client f p) = pg_log p" "pg_serverFirstStartup (on_client f p) = pg_serverFirstStartup p"
  "pg_Level (on_client f p) = pg_Level p" "pg_clientFirstStartup (on_client f p) = pg_clientFirstStartup p"
  by (simp_all add: on_client_def)

lemma fire_simps [simp]:
  "pg_server (fire e p) = pg_server p" "pg_client (fire e p) = pg_client p" "pg_hasServer (fire e p) = pg_hasServer p"
  "pg_isDedicatedServer (fire e p) = pg_isDedicatedServer p" "pg_scripts (fire e p) = pg_scripts p"
  "pg_connectionEstablished (fire e p) = pg_connectionEstablished p" "pg_shuffleTeams (fire e p) = pg_shuffleTeams p"
  "pg_log (fire e p) = pg_log p @ (if pg_scripts p then [Fire e] else [])"
  by (simp_all add: fire_def)


section \<open>Requests for levels\<close>

text \<open>The law of the game's functions on options: an option that was set is returned.\<close>

definition options_ok :: "level_options \<Rightarrow> bool" where
  "options_ok lo \<longleftrightarrow> (\<forall>k v opts. lo_get lo k (lo_set lo k v opts) = Some v)"

definition load_of :: "level_options \<Rightarrow> effect \<Rightarrow> (string \<times> string option) list" where
  "load_of lo e = (case e of Load_Level ls \<Rightarrow> [(ls_Name ls, lo_get lo ''GameMode'' (ls_options ls))] | _ \<Rightarrow> [])"

definition loads :: "level_options \<Rightarrow> program \<Rightarrow> (string \<times> string option) list" where
  "loads lo p = concat (map (load_of lo) (pg_log p))"

lemma level_loads_simps [simp]:
  "loads lo (emit e p) = loads lo p @ load_of lo e" "loads lo (on_server f p) = loads lo p" "loads lo (fire ev p) = loads lo p"
  by (simp_all add: loads_def load_of_def)

lemma load_of_simps [simp]:
  "load_of lo (Load_Level ls) = [(ls_Name ls, lo_get lo ''GameMode'' (ls_options ls))]"
  "load_of lo (Update_Level_Setup i l m) = []" "load_of lo (Fire ev) = []" "load_of lo (Enqueue_Command c) = []"
  by (simp_all add: load_of_def)

lemma InitLevelSetup_options:
  assumes "options_ok lo" "InitLevelSetup lo l (Some m) sp sub p = (ls, p')"
  shows "ls_Name ls = l \<and> lo_get lo ''GameMode'' (ls_options ls) = Some m \<and> loads lo p' = loads lo p \<and>
    pg_hasServer p' = pg_hasServer p \<and>
    pg_server p' = (pg_server p)\<lparr>sv_currentLevel := l, sv_currentMode := m\<rparr>"
  using assms by (auto simp: InitLevelSetup_def Let_def options_ok_def split: if_splits)

lemma LoadNextLevel_loads:
  assumes "options_ok lo" "pg_hasServer p" "sv_levelLoaded (pg_server p)"
  shows "\<exists>p'. LoadNextLevel lo l (Some m) sp sub upd p = Inr p' \<and> loads lo p' = loads lo p @ [(l, Some m)] \<and> pg_hasServer p' \<and>
    pg_server p' = (pg_server p)\<lparr>sv_currentLevel := l, sv_currentMode := m, sv_levelLoaded := False\<rparr>"
proof -
  obtain ls q where q: "InitLevelSetup lo l (Some m) sp sub p = (ls, q)" by fastforce
  show ?thesis
    using assms InitLevelSetup_options [OF assms(1) q] q by (simp add: LoadNextLevel_def ServerLoadLevelMessagePostHk_def)
qed

lemma LoadNextLevel_waits:
  assumes "options_ok lo" "pg_hasServer p" "\<not> sv_levelLoaded (pg_server p)"
  shows "\<exists>p'. LoadNextLevel lo l (Some m) sp sub upd p = Inr p' \<and> loads lo p' = loads lo p \<and> pg_hasServer p' \<and>
    pg_server p' = (pg_server p)\<lparr>sv_currentLevel := l, sv_currentMode := m, sv_requestLevel := l, sv_requestMode := m\<rparr>"
proof -
  obtain ls q where q: "InitLevelSetup lo l (Some m) sp sub p = (ls, q)" by fastforce
  show ?thesis
    using assms InitLevelSetup_options [OF assms(1) q] q by (simp add: LoadNextLevel_def ServerLoadLevelMessagePostHk_def)
qed

datatype level_op = Request string string | Loaded

fun level_run :: "level_options \<Rightarrow> level_op list \<Rightarrow> program \<Rightarrow> program result" where
  "level_run lo [] p = Inr p"
| "level_run lo (Request l m # ops) p =
    (case LoadNextLevel lo l (Some m) '''' '''' True p of Inl e \<Rightarrow> Inl e | Inr p \<Rightarrow> level_run lo ops p)"
| "level_run lo (Loaded # ops) p = (case OnLevelLoaded lo p of Inl e \<Rightarrow> Inl e | Inr p \<Rightarrow> level_run lo ops p)"

fun last_request :: "level_op list \<Rightarrow> (string \<times> string) \<Rightarrow> string \<times> string" where
  "last_request [] q = q"
| "last_request (Request l m # ops) q = last_request ops (l, m)"
| "last_request (Loaded # ops) q = last_request ops q"

text \<open>\<open>q\<close> is the latest request: it waits, or no request waits and its level was the last to be loaded.\<close>

definition requested :: "level_options \<Rightarrow> string \<times> string \<Rightarrow> program \<Rightarrow> bool" where
  "requested lo q p \<longleftrightarrow> pg_hasServer p \<and>
    (if sv_requestLevel (pg_server p) \<noteq> ''''
     then (sv_requestLevel (pg_server p), sv_requestMode (pg_server p)) = q \<and> \<not> sv_levelLoaded (pg_server p)
     else loads lo p \<noteq> [] \<and> last (loads lo p) = (fst q, Some (snd q)))"

lemma LoadNextLevel_requested:
  assumes "options_ok lo" "pg_hasServer p" "l \<noteq> ''''" "sv_requestLevel (pg_server p) \<noteq> '''' \<longrightarrow> \<not> sv_levelLoaded (pg_server p)"
  shows "\<exists>p'. LoadNextLevel lo l (Some m) sp sub upd p = Inr p' \<and> requested lo (l, m) p'"
proof (cases "sv_levelLoaded (pg_server p)")
  case True
  then obtain p' where "LoadNextLevel lo l (Some m) sp sub upd p = Inr p'" "loads lo p' = loads lo p @ [(l, Some m)]" "pg_hasServer p'"
    "pg_server p' = (pg_server p)\<lparr>sv_currentLevel := l, sv_currentMode := m, sv_levelLoaded := False\<rparr>"
    using LoadNextLevel_loads [OF assms(1,2)] by blast
  then show ?thesis using True assms(4) by (simp add: requested_def)
next
  case False
  then obtain p' where "LoadNextLevel lo l (Some m) sp sub upd p = Inr p'" "pg_hasServer p'"
    "pg_server p' = (pg_server p)\<lparr>sv_currentLevel := l, sv_currentMode := m, sv_requestLevel := l, sv_requestMode := m\<rparr>"
    using LoadNextLevel_waits [OF assms(1,2)] by blast
  then show ?thesis using False assms(3) by (simp add: requested_def)
qed

lemma OnLevelLoaded_requested:
  assumes "options_ok lo" "requested lo q p"
  shows "\<exists>p'. OnLevelLoaded lo p = Inr p' \<and> requested lo q p' \<and> sv_requestLevel (pg_server p') = ''''"
proof (cases "sv_requestLevel (pg_server p) = ''''")
  case True
  then show ?thesis using assms by (simp add: OnLevelLoaded_def Let_def requested_def)
next
  case False
  let ?p = "on_server (\<lambda>s. s\<lparr>sv_levelLoaded := True\<rparr>) p"
  have q: "q = (sv_requestLevel (pg_server p), sv_requestMode (pg_server p))" "pg_hasServer p"
    using assms(2) False by (auto simp: requested_def)
  obtain p' where "LoadNextLevel lo (fst q) (Some (snd q)) '''' '''' True ?p = Inr p'" "pg_hasServer p'"
      "loads lo p' = loads lo p @ [(fst q, Some (snd q))]"
    using LoadNextLevel_loads [OF assms(1), of ?p "fst q" "snd q" "''''" "''''" True] q by auto
  then show ?thesis using False q by (simp add: OnLevelLoaded_def Let_def requested_def)
qed

lemma level_run_requested:
  assumes "options_ok lo" "requested lo q p" "\<forall>l m. Request l m \<in> set ops \<longrightarrow> l \<noteq> ''''"
  shows "\<exists>p'. level_run lo ops p = Inr p' \<and> requested lo (last_request ops q) p'"
  using assms(2,3)
proof (induction ops arbitrary: p q)
  case (Cons x ops)
  show ?case
  proof (cases x)
    case (Request l m)
    then obtain p' where "LoadNextLevel lo l (Some m) '''' '''' True p = Inr p'" "requested lo (l, m) p'"
      using LoadNextLevel_requested [OF assms(1), of p l m "''''" "''''" True] Cons.prems by (auto simp: requested_def)
    then show ?thesis using Cons.IH [of "(l, m)" p'] Cons.prems Request by auto
  next
    case Loaded
    then show ?thesis using OnLevelLoaded_requested [OF assms(1) Cons.prems(1)] Cons.IH Cons.prems(2) by fastforce
  qed
qed simp


lemma level_run_append:
  "level_run lo (ops @ ops') p = (case level_run lo ops p of Inl e \<Rightarrow> Inl e | Inr p' \<Rightarrow> level_run lo ops' p')"
  by (induction lo ops p rule: level_run.induct) (simp_all split: sum.splits)


section \<open>Who joins\<close>

text \<open>An operation is quiet when it creates no player, asks for no token and leaves the mode of the server as it is.\<close>

definition is_join :: "effect \<Rightarrow> bool" where
  "is_join e = (case e of Create_Player _ _ \<Rightarrow> True | Consume_Join_Token _ _ _ _ \<Rightarrow> True | _ \<Rightarrow> False)"

definition online :: "program \<Rightarrow> bool" where
  "online p \<longleftrightarrow> IsRunning p \<and> sv_onlineMode (pg_server p)"

definition quiet :: "program \<Rightarrow> program \<Rightarrow> bool" where
  "quiet p p' \<longleftrightarrow> (online p \<longrightarrow> online p') \<and> (\<forall>e. is_join e \<longrightarrow> e \<in> set (pg_log p') \<longleftrightarrow> e \<in> set (pg_log p))"

lemma quiet_refl [simp]: "quiet p p"
  by (simp add: quiet_def)

lemma quiet_trans [trans]: "quiet p q \<Longrightarrow> quiet q r \<Longrightarrow> quiet p r"
  by (auto simp: quiet_def)

lemma quiet_emit [simp]: "\<not> is_join e \<Longrightarrow> quiet p (emit e q) \<longleftrightarrow> quiet p q"
  by (auto simp: quiet_def online_def IsRunning_def)

lemma quiet_fire [simp]: "quiet p (fire e q) \<longleftrightarrow> quiet p q"
  by (auto simp: quiet_def online_def IsRunning_def is_join_def)

lemma quiet_on_server:
  assumes "quiet p q" "sv_onlineMode (pg_server q) \<longrightarrow> sv_onlineMode (f (pg_server q))"
    "sv_runningHosted (f (pg_server q)) = sv_runningHosted (pg_server q)"
  shows "quiet p (on_server f q)"
  using assms by (auto simp: quiet_def online_def IsRunning_def)

lemma is_join_simps [simp]:
  "\<not> is_join (Load_Level ls)" "\<not> is_join (Update_Level_Setup i l m)" "\<not> is_join (Fire ev)" "\<not> is_join (Enqueue_Command cmd)"
  "\<not> is_join (Register_Server info)" "\<not> is_join (Connect_Management i)" "\<not> is_join (Disconnect c t r)"
  "\<not> is_join (Send_Event_Console t)" "\<not> is_join (Send_Event_Players ps)"
  "is_join (Create_Player c msg)" "is_join (Consume_Join_Token i t c msg)"
  by (simp_all add: is_join_def)

lemma quiet_InitLevelSetup: "quiet p (snd (InitLevelSetup lo l m sp sub p))"
  by (auto simp: InitLevelSetup_def Let_def intro!: quiet_on_server split: option.split)

lemma quiet_PostHk: "ServerLoadLevelMessagePostHk lo ls p = Inr p' \<Longrightarrow> quiet p p'"
  by (auto simp: ServerLoadLevelMessagePostHk_def intro!: quiet_on_server split: if_splits option.splits)

lemma quiet_LoadNextLevel:
  assumes "LoadNextLevel lo l m sp sub upd p = Inr p'"
  shows "quiet p p'"
proof -
  obtain ls q where q: "InitLevelSetup lo l m sp sub p = (ls, q)" by fastforce
  then obtain r where r: "ServerLoadLevelMessagePostHk lo ls q = Inr r" "p' = r \<or> (\<exists>i m. p' = emit (Update_Level_Setup i l m) r)"
    using assms by (auto simp: LoadNextLevel_def split: sum.splits if_splits option.splits)
  have "quiet p q" using quiet_InitLevelSetup [of p lo l m sp sub] q by simp
  also have "quiet q r" by (rule quiet_PostHk [OF r(1)])
  also have "quiet r p'" using r(2) by auto
  finally show ?thesis .
qed

lemma quiet_OnLevelLoaded:
  assumes "OnLevelLoaded lo p = Inr p'"
  shows "quiet p p'"
proof -
  let ?p = "on_server (\<lambda>s. s\<lparr>sv_levelLoaded := True\<rparr>) p"
  have p: "quiet p ?p" by (simp add: quiet_on_server)
  have clear: "quiet p (on_server (\<lambda>s. s\<lparr>sv_requestLevel := '''', sv_requestMode := ''''\<rparr>) q)"
    if "LoadNextLevel lo l m sp sub upd ?p = Inr q" for l m sp sub upd q
    using quiet_trans [OF p quiet_LoadNextLevel [OF that]] by (simp add: quiet_on_server)
  show ?thesis
    using assms p clear by (auto simp: OnLevelLoaded_def Let_def split: if_splits sum.splits)
qed

lemma quiet_Register: "Register response force p = Inr p' \<Longrightarrow> quiet p p'"
  by (auto simp: Register_def Let_def intro!: quiet_on_server split: if_splits option.splits)

lemma quiet_console: "quiet p (management_SendConsoleMessage t q) \<longleftrightarrow> quiet p q" "quiet p (SendConsoleMessage t q) \<longleftrightarrow> quiet p q"
  by (simp_all add: management_SendConsoleMessage_def SendConsoleMessage_def)

lemma quiet_SendPlayerList: "SendPlayerList p = Inr p' \<Longrightarrow> quiet p p'"
  by (auto simp: SendPlayerList_def split: if_splits option.splits sum.splits)

lemma quiet_ProcessReceivedEvent: "ProcessReceivedEvent conn e p = Inr p' \<Longrightarrow> quiet p p'"
  by (auto simp: ProcessReceivedEvent_def kick_by_id_def KickPlayer_def SafeDisconnect_def quiet_console
      split: api_event.splits option.splits sum.splits)

text \<open>The steps of an online server: a client asks for a player, the web service answers for a token it was asked for, a level is
  requested or has been loaded, the server registers, and an event of the web service arrives. \<open>valid sid tok r\<close>: the service answers \<open>r\<close> for the token \<open>tok\<close> of the server \<open>sid\<close>.\<close>

inductive join_step for create valid lo conn where
  arrive: "join_step create valid lo conn p (snd (ServerConnectionOnCreatePlayerMessageHk i m p))"
| answer: "Consume_Join_Token sid tok i m \<in> set (pg_log p) \<Longrightarrow> (\<forall>r. response = Some r \<longrightarrow> valid sid tok r) \<Longrightarrow>
    JoinTokenConsumed create i m response p = Inr p' \<Longrightarrow> join_step create valid lo conn p p'"
| level: "LoadNextLevel lo l md sp sub upd p = Inr p' \<Longrightarrow> join_step create valid lo conn p p'"
| loaded: "OnLevelLoaded lo p = Inr p' \<Longrightarrow> join_step create valid lo conn p p'"
| register: "Register resp force p = Inr p' \<Longrightarrow> join_step create valid lo conn p p'"
| received: "ProcessReceivedEvent conn e p = Inr p' \<Longrightarrow> join_step create valid lo conn p p'"

definition join_inv :: "(string \<Rightarrow> string \<Rightarrow> string \<times> string \<Rightarrow> bool) \<Rightarrow> program \<Rightarrow> bool" where
  "join_inv valid p \<longleftrightarrow> online p \<and>
    (\<forall>sid tok i m. Consume_Join_Token sid tok i m \<in> set (pg_log p) \<longrightarrow> cp_playerName m = auth_prefix @ tok) \<and>
    (\<forall>i m. Create_Player i m \<in> set (pg_log p) \<longrightarrow>
      (\<exists>sid tok m0 uid. Consume_Join_Token sid tok i m0 \<in> set (pg_log p) \<and> valid sid tok (cp_playerName m, uid)))"

lemma quiet_join_inv: "quiet p p' \<Longrightarrow> join_inv valid p \<Longrightarrow> join_inv valid p'"
  unfolding quiet_def join_inv_def by (metis is_join_simps(10,11))

lemma JoinTokenConsumed_log:
  assumes "JoinTokenConsumed create i m response p = Inr p'"
  shows "response = None \<and> quiet p p' \<or>
    (\<exists>name uid pm. response = Some (name, uid) \<and>
      quiet (emit (Create_Player i (m\<lparr>cp_playerName := name\<rparr>)) (on_server (\<lambda>s. s\<lparr>sv_playerManager := pm\<rparr>) p)) p')"
proof (cases response)
  case None
  then show ?thesis using assms by (auto simp: JoinTokenConsumed_def SafeDisconnect_def)
next
  case (Some r)
  obtain name uid where r: "r = (name, uid)" by fastforce
  let ?p = "emit (Create_Player i (m\<lparr>cp_playerName := name\<rparr>))
    (on_server (\<lambda>s. s\<lparr>sv_playerManager := create i (m\<lparr>cp_playerName := name\<rparr>) (sv_playerManager s)\<rparr>) p)"
  have eq: "?p = emit (Create_Player i (m\<lparr>cp_playerName := name\<rparr>))
    (on_server (\<lambda>s. s\<lparr>sv_playerManager := create i (m\<lparr>cp_playerName := name\<rparr>) (sv_playerManager (pg_server p))\<rparr>) p)"
    by (simp add: on_server_def)
  have "quiet ?p p'" if "SendPlayerList (fire ev (on_server (\<lambda>s. s\<lparr>sv_playerManager := x\<rparr>) ?p)) = Inr q"
    "p' = SendConsoleMessage t q" for ev x q t
  proof -
    have "quiet ?p (fire ev (on_server (\<lambda>s. s\<lparr>sv_playerManager := x\<rparr>) ?p))" by (simp add: quiet_on_server)
    also have "quiet \<dots> q" by (rule quiet_SendPlayerList [OF that(1)])
    finally show ?thesis by (simp add: that(2) quiet_console)
  qed
  then have "quiet ?p p'"
    using assms Some r
    by (auto simp: JoinTokenConsumed_def Let_def split: option.splits sum.splits)
  then show ?thesis using Some r eq by metis
qed


lemma join_inv_Create:
  assumes "join_inv valid p" "Consume_Join_Token sid tok i m \<in> set (pg_log p)" "valid sid tok (name, uid)"
  shows "join_inv valid (emit (Create_Player i (m\<lparr>cp_playerName := name\<rparr>)) (on_server (\<lambda>s. s\<lparr>sv_playerManager := pm\<rparr>) p))"
  using assms unfolding join_inv_def online_def IsRunning_def by auto

lemma join_inv_arrive:
  assumes "join_inv valid p"
  shows "join_inv valid (snd (ServerConnectionOnCreatePlayerMessageHk i m p))"
proof -
  have on: "sv_runningHosted (pg_server p) \<or> pg_isDedicatedServer p" "sv_onlineMode (pg_server p)"
    using assms by (auto simp: join_inv_def online_def IsRunning_def)
  show ?thesis
  proof (cases "take (length auth_prefix) (cp_playerName m) = auth_prefix")
    case True
    then have "cp_playerName m = auth_prefix @ drop (length auth_prefix) (cp_playerName m)"
      by (metis append_take_drop_id)
    then show ?thesis
      using assms on True unfolding ServerConnectionOnCreatePlayerMessageHk_def join_inv_def online_def IsRunning_def
      by (auto; metis)
  next
    case False
    then have "quiet p (snd (ServerConnectionOnCreatePlayerMessageHk i m p))"
      using on by (auto simp: ServerConnectionOnCreatePlayerMessageHk_def SafeDisconnect_def)
    then show ?thesis using assms by (rule quiet_join_inv)
  qed
qed

lemma join_step_inv:
  assumes "join_step create valid lo conn p p'" "join_inv valid p"
  shows "join_inv valid p'"
  using assms(1)
proof cases
  case (arrive i m)
  then show ?thesis using join_inv_arrive [OF assms(2)] by simp
next
  case (answer sid tok i m response)
  from JoinTokenConsumed_log [OF answer(3)] show ?thesis
  proof (elim disjE exE conjE)
    assume "quiet p p'"
    then show ?thesis using assms(2) by (rule quiet_join_inv)
  next
    fix name uid pm
    let ?p = "emit (Create_Player i (m\<lparr>cp_playerName := name\<rparr>)) (on_server (\<lambda>s. s\<lparr>sv_playerManager := pm\<rparr>) p)"
    assume "response = Some (name, uid)" and quiet: "quiet ?p p'"
    then have "valid sid tok (name, uid)" using answer(2) by blast
    then show ?thesis by (rule quiet_join_inv [OF quiet join_inv_Create [OF assms(2) answer(1)]])
  qed
next
  case (level l md sp sub upd)
  then show ?thesis by (rule quiet_join_inv [OF quiet_LoadNextLevel assms(2)])
next
  case loaded
  then show ?thesis by (rule quiet_join_inv [OF quiet_OnLevelLoaded assms(2)])
next
  case (register resp force)
  then show ?thesis by (rule quiet_join_inv [OF quiet_Register assms(2)])
next
  case (received e)
  then show ?thesis by (rule quiet_join_inv [OF quiet_ProcessReceivedEvent assms(2)])
qed

lemma join_steps_inv: "(join_step create valid lo conn)\<^sup>*\<^sup>* p p' \<Longrightarrow> join_inv valid p \<Longrightarrow> join_inv valid p'"
  by (induction rule: rtranclp_induct) (auto intro: join_step_inv)


section \<open>Registration\<close>

text \<open>A server that is not in online mode never registers: \<^verbatim>\<open>Register\<close>, also when the management service asks for it, leaves the
  state as it is.\<close>

lemma Register_offline: "\<not> sv_onlineMode (pg_server p) \<Longrightarrow> Register response force p = Inr p"
  by (simp add: Register_def)

definition keeps :: "program \<Rightarrow> program \<Rightarrow> bool" where
  "keeps p p' \<longleftrightarrow>
    sv_onlineMode (pg_server p') = sv_onlineMode (pg_server p) \<and> sv_serverId (pg_server p') = sv_serverId (pg_server p) \<and>
    sv_restarting (pg_server p') = sv_restarting (pg_server p) \<and> sv_sockets (pg_server p') = sv_sockets (pg_server p) \<and>
    sv_runningHosted (pg_server p') = sv_runningHosted (pg_server p) \<and> pg_hasServer p' = pg_hasServer p \<and>
    pg_serverFirstStartup p' = pg_serverFirstStartup p"

lemma keeps_emit [simp]: "keeps p (emit e q) \<longleftrightarrow> keeps p q"
  by (simp add: keeps_def)

lemma keeps_InitLevelSetup: "keeps p (snd (InitLevelSetup lo l m sp sub p))"
  by (simp add: keeps_def InitLevelSetup_def Let_def fire_def split: option.split)

lemma keeps_PostHk: "ServerLoadLevelMessagePostHk lo ls p = Inr p' \<Longrightarrow> keeps p p'"
  by (auto simp: ServerLoadLevelMessagePostHk_def keeps_def split: if_splits option.splits)

lemma keeps_LoadNextLevel:
  assumes "LoadNextLevel lo l m sp sub upd p = Inr p'"
  shows "keeps p p'"
proof -
  obtain ls q where q: "InitLevelSetup lo l m sp sub p = (ls, q)" by fastforce
  then obtain r where r: "ServerLoadLevelMessagePostHk lo ls q = Inr r" "p' = r \<or> (\<exists>i m. p' = emit (Update_Level_Setup i l m) r)"
    using assms by (auto simp: LoadNextLevel_def split: sum.splits if_splits option.splits)
  have "keeps p q" using keeps_InitLevelSetup [of p lo l m sp sub] q by simp
  moreover have "keeps q r" by (rule keeps_PostHk [OF r(1)])
  moreover have "keeps r p'" using r(2) by (auto simp: keeps_def)
  ultimately show ?thesis by (simp add: keeps_def)
qed

lemma keeps_start_prepare: "keeps p (start_prepare info p)"
  by (simp add: keeps_def start_prepare_def EnableGameHooks_def Let_def)

lemma Register_keeps:
  assumes "Register response force p = Inr p'"
  shows "sv_restarting (pg_server p') = sv_restarting (pg_server p) \<and> sv_sockets (pg_server p') = sv_sockets (pg_server p) \<and>
    sv_runningHosted (pg_server p') = sv_runningHosted (pg_server p) \<and> pg_hasServer p' = pg_hasServer p \<and>
    pg_serverFirstStartup p' = pg_serverFirstStartup p \<and> (response = None \<longrightarrow> keeps p p')"
  using assms by (auto simp: Register_def keeps_def Let_def split: if_splits option.splits)

lemma start_finish_state:
  assumes "start_finish lo info changeState p = Inr p'"
  shows "sv_runningHosted (pg_server p') \<and>
    sv_restarting (pg_server p') = (sv_runningHosted (pg_server p) \<or> sv_restarting (pg_server p)) \<and>
    sv_serverId (pg_server p') = sv_serverId (pg_server p) \<and>
    sv_onlineMode (pg_server p') = (sv_serverId (pg_server p) \<noteq> '''' \<and> sv_onlineMode (pg_server p)) \<and>
    sv_sockets (pg_server p') = sv_sockets (pg_server p) \<and> pg_hasServer p' = pg_hasServer p \<and>
    pg_serverFirstStartup p' = pg_serverFirstStartup p"
proof -
  define q where "q = on_server (\<lambda>s. if sv_runningHosted s then s\<lparr>sv_restarting := True\<rparr> else s)
    (on_server (\<lambda>s. s\<lparr>sv_socketSpawnInfo := \<lparr>si_isProxied = False, si_proxyAddress = '''', si_serverName = sv_serverId s,
        si_password = ''''\<rparr>\<rparr>)
      (on_server (\<lambda>s. if sv_serverId s = '''' then s\<lparr>sv_onlineMode := False\<rparr> else s) p))"
  obtain r where r: "keeps q r" "p' = on_server (\<lambda>s. s\<lparr>sv_hooksRemoved := False, sv_runningHosted := True\<rparr>) r"
  proof (cases changeState)
    case True
    then obtain r where load: "LoadNextLevel lo (ci_level info) (Some (ci_mode info)) '''' '''' True
          (on_server (\<lambda>s. s\<lparr>sv_levelLoaded := True\<rparr>) q) = Inr r"
        "p' = on_server (\<lambda>s. s\<lparr>sv_hooksRemoved := False, sv_runningHosted := True\<rparr>) r"
      using assms by (auto simp: start_finish_def Let_def q_def split: sum.splits)
    have "keeps q r" using keeps_LoadNextLevel [OF load(1)] by (simp add: keeps_def)
    then show thesis using load(2) by (rule that)
  next
    case False
    then show thesis using assms that [of q] by (simp add: start_finish_def Let_def q_def keeps_def)
  qed
  then show ?thesis by (simp add: keeps_def q_def)
qed

lemma Start_state:
  assumes "Start lo response info changeState p = Inr p'"
  shows "sv_runningHosted (pg_server p') \<and>
    sv_restarting (pg_server p') = (sv_runningHosted (pg_server p) \<or> sv_restarting (pg_server p)) \<and>
    sv_sockets (pg_server p') = sv_sockets (pg_server p) \<and> pg_hasServer p' = pg_hasServer p \<and>
    pg_serverFirstStartup p' = pg_serverFirstStartup p \<and>
    (response = None \<longrightarrow> sv_serverId (pg_server p) = '''' \<longrightarrow> sv_serverId (pg_server p') = '''' \<and> \<not> sv_onlineMode (pg_server p'))"
proof -
  obtain q where "Register response True (start_prepare info p) = Inr q" "start_finish lo info changeState q = Inr p'"
    using assms by (auto simp: Start_def split: sum.splits)
  from Register_keeps [OF this(1)] start_finish_state [OF this(2)] show ?thesis
    using keeps_start_prepare [of p info] by (simp add: keeps_def)
qed

text \<open>A start by remote call with an empty list of maps reads an entry that does not exist; otherwise the server starts with
  the first map.\<close>

lemma StartServer_rpc_empty: "StartServer_rpc lo response name description password [] maxPlayers p = Inl Out_Of_Bounds"
  by (simp add: StartServer_rpc_def rotation_Reset_def GetNextEntry_def Let_def)

lemma fold_AddEntry: "fold (\<lambda>(l, m). AddEntry l m) maps r = r\<lparr>mr_entries := mr_entries r @ maps\<rparr>"
  by (induction maps arbitrary: r) (auto simp: AddEntry_def)

lemma StartServer_rpc_first:
  "StartServer_rpc lo response name description password ((level, mode) # maps) maxPlayers p =
    Start lo response \<lparr>ci_name = name, ci_description = description, ci_password = password, ci_level = level, ci_mode = mode,
        ci_maxPlayers = maxPlayers, ci_loadCommands = []\<rparr> True
      (on_server (\<lambda>s. s\<lparr>sv_mapRotation := \<lparr>mr_entries = (level, mode) # maps, mr_current = 1\<rparr>\<rparr>) p)"
  by (cases "sv_mapRotation (pg_server p)")
    (simp add: StartServer_rpc_def rotation_Reset_def fold_AddEntry AddEntry_def GetNextEntry_def Let_def)


section \<open>Leaving a server\<close>

lemma Stop_state:
  assumes "sv_sockets (pg_server p) = Some socks" "socks \<noteq> []"
  shows "\<exists>p'. Stop onlineMode p = Inr p' \<and> \<not> sv_runningHosted (pg_server p') \<and> pg_hasServer p' = pg_hasServer p \<and>
    pg_serverFirstStartup p' = pg_serverFirstStartup p"
  using assms by (cases socks) (simp_all add: Stop_def Let_def)

lemma leave_hosted_state:
  assumes "sv_runningHosted (pg_server p)" "sv_sockets (pg_server p) = Some socks" "socks \<noteq> []"
  shows "\<exists>p'. leave_hosted onlineMode p = Inr p' \<and> sv_runningHosted (pg_server p') = sv_restarting (pg_server p) \<and>
    pg_serverFirstStartup p' = pg_serverFirstStartup p"
  using assms Stop_state [OF assms(2,3), of onlineMode] by (auto simp: leave_hosted_def Let_def)

lemma leave_connection_simps [simp]:
  "pg_server (leave_connection p) = pg_server p" "pg_serverFirstStartup (leave_connection p) = pg_serverFirstStartup p"
  by (simp_all add: leave_connection_def Let_def)

lemma Startup_state:
  assumes "pg_hasServer p" "\<not> pg_serverFirstStartup p" "sv_runningHosted (pg_server p)"
    "sv_sockets (pg_server p) = Some socks" "socks \<noteq> []"
  shows "\<exists>p'. ClientStateChangeHk lo onlineMode response Startup lst p = Inr p' \<and>
    sv_runningHosted (pg_server p') = sv_restarting (pg_server p)"
proof -
  let ?q = "leave_connection (on_client (\<lambda>c. c\<lparr>cl_clientState := Startup\<rparr>) p)"
  obtain r where "leave_hosted onlineMode ?q = Inr r" "sv_runningHosted (pg_server r) = sv_restarting (pg_server p)"
      "\<not> pg_serverFirstStartup r"
    using leave_hosted_state [of ?q socks onlineMode] assms by auto
  then show ?thesis using assms(1) by (simp add: ClientStateChangeHk_def OnClientStartup_def Let_def)
qed


section \<open>A player joins\<close>

lemma find_player_Some:
  "find_player skip ps = Inr (Some i) \<Longrightarrow> i < length ps \<and> (\<exists>p. ps ! i = Some p \<and> \<not> skip p)"
  by (induction skip ps arbitrary: i rule: find_player.induct) (auto split: if_splits sum.splits)

lemma GetPlayerOrSpectator_name_Some:
  assumes "GetPlayerOrSpectator_name name pm = Inr (Some r)"
  shows "\<exists>pl. get_player r pm = Some pl \<and> pl_name pl = name \<and> \<not> IsAIPlayer pl"
  using assms
  by (auto simp: GetPlayerOrSpectator_name_def first_found_def GetPlayer_name_def GetSpectator_name_def
      split: sum.splits option.splits dest!: find_player_Some)

lemma get_set_player: "get_player r pm \<noteq> None \<Longrightarrow> get_player r (set_player r pl pm) = Some pl"
  by (cases r) (auto split: if_splits)

lemma player_list_total: "None \<notin> set ps \<Longrightarrow> \<exists>r. player_list ps = Inr r"
  by (induction ps rule: player_list.induct) auto

lemma SendPlayerList_total:
  assumes "sv_playerManager (pg_server p) = Some pm" "None \<notin> set (pm_players pm)"
  shows "\<exists>p'. SendPlayerList p = Inr p' \<and> pg_server p' = pg_server p"
  using assms player_list_total [OF assms(2)] by (auto simp: SendPlayerList_def)

lemma console_server [simp]: "pg_server (SendConsoleMessage t p) = pg_server p"
  by (simp add: SendConsoleMessage_def management_SendConsoleMessage_def)

lemma set_player_no_null: "None \<notin> set (pm_players pm) \<Longrightarrow> None \<notin> set (pm_players (set_player r pl pm))"
  by (cases r) (auto dest!: set_update_subset_insert [THEN subsetD])

text \<open>The ids that the service writes with \<^verbatim>\<open>std::to_string\<close> are read back.\<close>

lemma stoull_dec:
  assumes "n < 2 ^ 64"
  shows "stoull (dec_digits n) = Some (word_of_nat n)"
proof -
  obtain c r where c: "dec_digits n = c # r" by (cases "dec_digits n") (auto simp: dec_digits.simps [of n] split: if_splits)
  have "is_digit c" using is_digit_dec [of n] c by simp
  then have "48 \<le> (of_char c :: nat)" "(of_char c :: nat) \<le> 57" by (simp_all add: is_digit_def)
  then have "\<not> is_space c" "c \<noteq> CHR ''-''" "c \<noteq> CHR ''+''" by (auto simp: is_space_def)
  then have "split_sign (dropWhile is_space (dec_digits n)) = (False, dec_digits n)" by (simp add: c split_sign_def)
  moreover have "takeWhile is_digit (dec_digits n) = dec_digits n"
    using is_digit_dec [of n] by (simp add: takeWhile_eq_all_conv list_all_iff)
  ultimately show ?thesis using assms c digits_val_dec [of n] by (simp add: stoull_def Let_def)
qed

lemma stoull_77: "stoull ''77'' = Some 77"
proof -
  have "dec_digits 77 = ''77''" by code_simp
  then show ?thesis using stoull_dec [of 77] by simp
qed


section \<open>Properties\<close>

text \<open>C21: No request for a level is lost. Whatever sequence of requests and of reports that a level has been loaded the server sees,
  one after the other, it neither fails nor forgets: after the next report no request waits, and the level loaded last is the one requested
  last. The calls are sequential here: the unsynchronised reads of \<^verbatim>\<open>m_levelLoaded\<close> by the thread of the interface and the level that
  \<^verbatim>\<open>Start\<close> loads without a request are outside the statement.\<close>

theorem level_request_not_lost:
  assumes "options_ok lo" "pg_hasServer p" "sv_requestLevel (pg_server p) = ''''"
    "l \<noteq> ''''" "\<forall>l m. Request l m \<in> set ops \<longrightarrow> l \<noteq> ''''"
  shows "\<exists>p'. level_run lo (Request l m # ops @ [Loaded]) p = Inr p' \<and> sv_requestLevel (pg_server p') = '''' \<and>
    loads lo p' \<noteq> [] \<and> last (loads lo p') = (fst (last_request ops (l, m)), Some (snd (last_request ops (l, m))))"
proof -
  obtain p1 where p1: "LoadNextLevel lo l (Some m) '''' '''' True p = Inr p1" "requested lo (l, m) p1"
    using LoadNextLevel_requested [OF assms(1,2,4), of m "''''" "''''" True] assms(3) by auto
  obtain p2 where p2: "level_run lo ops p1 = Inr p2" "requested lo (last_request ops (l, m)) p2"
    using level_run_requested [OF assms(1) p1(2) assms(5)] by blast
  obtain p3 where "OnLevelLoaded lo p2 = Inr p3" "requested lo (last_request ops (l, m)) p3" "sv_requestLevel (pg_server p3) = ''''"
    using OnLevelLoaded_requested [OF assms(1) p2(2)] by blast
  then show ?thesis using p1(1) p2(1) by (simp add: level_run_append requested_def)
qed

text \<open>A concrete instance of the game's options, and a program before its first level.\<close>

definition sample_options :: level_options where
  "sample_options = \<lparr>lo_init = '''', lo_set = (\<lambda>k v opts. v), lo_get = (\<lambda>k opts. Some opts)\<rparr>"

definition sample_server :: kyber_server where
  "sample_server = \<lparr>sv_sockets = Some [1], sv_natClient = None, sv_playerManager = Some \<lparr>pm_players = [], pm_spectators = []\<rparr>,
    sv_socketSpawnInfo = \<lparr>si_isProxied = False, si_proxyAddress = '''', si_serverName = '''', si_password = ''''\<rparr>,
    sv_mapRotation = \<lparr>mr_entries = [(''Levels/MP/Endor_01'', ''Blast'')], mr_current = 0\<rparr>, sv_currentLevel = '''',
    sv_currentMode = '''', sv_serverInstance = None, sv_creationInfo = None, sv_serverId = '''', sv_onlineMode = True,
    sv_runningHosted = True, sv_restarting = False, sv_hooksRemoved = False, sv_levelLoaded = True,
    sv_requestLevel = '''', sv_requestMode = ''''\<rparr>"

definition sample_client :: kyber_client where
  "sample_client = \<lparr>cl_joinToken = ''t0ken'', cl_clientState = State_None, cl_socketManager = False, cl_voipManager = False,
    cl_joining = True, cl_spectator = False, cl_connected = False\<rparr>"

definition sample_program :: program where
  "sample_program = \<lparr>pg_hasServer = True, pg_server = sample_server, pg_client = sample_client, pg_isDedicatedServer = False,
    pg_scripts = False, pg_allowInteraction = False, pg_connectionEstablished = False, pg_serverFirstStartup = False,
    pg_clientFirstStartup = False, pg_MaxClientCount = 0, pg_MaxServerConnectionCount = 0, pg_MaxSpectatorCount = 0,
    pg_FastExit = False, pg_ThreadingEnable = True, pg_ServerPort = 0, pg_ServerIp = '''', pg_Level = '''',
    pg_DefaultLayerInclusion = '''', pg_shuffleTeams = False, pg_log = []\<rparr>"

lemma sample_options_ok: "options_ok sample_options"
  by (simp add: options_ok_def sample_options_def)

theorem level_request_not_lost_witness:
  "\<exists>p'. level_run sample_options [Request ''A'' ''Blast'', Request ''B'' ''HvV'', Request ''C'' ''HvV'', Loaded] sample_program = Inr p' \<and>
    sv_requestLevel (pg_server p') = '''' \<and> loads sample_options p' \<noteq> [] \<and> last (loads sample_options p') = (''C'', Some ''HvV'')"
  using level_request_not_lost [OF sample_options_ok, of sample_program "''A''" "[Request ''B'' ''HvV'', Request ''C'' ''HvV'']" "''Blast''"]
  by (simp add: sample_program_def sample_server_def)

text \<open>C20: On an online server, players exist only with the name the web service returned. In every state that an online server
  without players can reach by the steps of \<open>join_step\<close> (messages of clients, answers of the service, loads of levels,
  registration and the events of the web service; starting and stopping the server are no steps), each player was created for the connection
  that sent a message with a join token, with the name the service returned for that token. The connection is taken to exist still when the
  answer comes.\<close>

theorem joins_authenticated:
  assumes "(join_step create valid lo conn)\<^sup>*\<^sup>* p p'" "online p"
    "\<forall>e \<in> set (pg_log p). \<not> is_join e" "Create_Player i m \<in> set (pg_log p')"
  shows "\<exists>sid tok m0 uid. Consume_Join_Token sid tok i m0 \<in> set (pg_log p') \<and> cp_playerName m0 = auth_prefix @ tok \<and>
    valid sid tok (cp_playerName m, uid)"
proof -
  have "join_inv valid p" using assms(2,3) unfolding join_inv_def by (metis is_join_simps(10,11))
  then have "join_inv valid p'" using assms(1) join_steps_inv by metis
  then show ?thesis using assms(4) unfolding join_inv_def by metis
qed

text \<open>A client with a token, and the game that creates its player.\<close>

definition sample_player :: "string \<Rightarrow> server_player" where
  "sample_player name = \<lparr>pl_name = name, pl_localPlayerId = 3, pl_teamId = 1, pl_nativeData = 0, pl_id = '''', pl_isSpectator = False\<rparr>"

definition sample_create :: "nat \<Rightarrow> create_player_message \<Rightarrow> player_manager option \<Rightarrow> player_manager option" where
  "sample_create i m pm = map_option (\<lambda>pm. pm\<lparr>pm_players := pm_players pm @ [Some (sample_player (cp_playerName m))]\<rparr>) pm"

definition sample_message :: create_player_message where
  "sample_message = \<lparr>cp_playerName = auth_prefix @ ''t0ken'', cp_isSpectator = False\<rparr>"

definition asked :: program where
  "asked = snd (ServerConnectionOnCreatePlayerMessageHk 4 sample_message sample_program)"

definition joined :: program where
  "joined = (case JoinTokenConsumed sample_create 4 sample_message (Some (''Rey'', ''77'')) asked of Inl _ \<Rightarrow> asked | Inr p \<Rightarrow> p)"

definition sample_valid :: "string \<Rightarrow> string \<Rightarrow> string \<times> string \<Rightarrow> bool" where
  "sample_valid sid tok r \<longleftrightarrow> tok = ''t0ken'' \<and> r = (''Rey'', ''77'')"

lemma asked_log: "pg_log asked = [Consume_Join_Token '''' ''t0ken'' 4 sample_message]"
  by (simp add: asked_def ServerConnectionOnCreatePlayerMessageHk_def sample_program_def sample_server_def sample_message_def
      auth_prefix_def)

lemma joined_step:
  "JoinTokenConsumed sample_create 4 sample_message (Some (''Rey'', ''77'')) asked = Inr joined"
  "Create_Player 4 \<lparr>cp_playerName = ''Rey'', cp_isSpectator = False\<rparr> \<in> set (pg_log joined)"
  by (simp_all add: joined_def JoinTokenConsumed_def stoull_77 sample_create_def sample_player_def asked_def sample_program_def sample_server_def
      ServerConnectionOnCreatePlayerMessageHk_def sample_message_def auth_prefix_def Let_def set_online_id_def
      GetPlayerOrSpectator_name_def GetPlayer_name_def first_found_def IsAIPlayer_def SendPlayerList_def fire_def
      SendConsoleMessage_def management_SendConsoleMessage_def IsRunning_def emit_def on_server_def)

theorem joins_authenticated_witness:
  "\<exists>sid tok m0 uid. Consume_Join_Token sid tok 4 m0 \<in> set (pg_log joined) \<and> cp_playerName m0 = auth_prefix @ tok \<and>
    sample_valid sid tok (''Rey'', uid)"
proof -
  let ?step = "join_step sample_create sample_valid sample_options (\<lambda>_. 0)"
  have "?step sample_program asked" unfolding asked_def by (rule arrive)
  moreover have "?step asked joined"
    by (rule answer [OF _ _ joined_step(1)]) (simp_all add: asked_log sample_valid_def)
  ultimately have "?step\<^sup>*\<^sup>* sample_program joined" by auto
  then show ?thesis
    using joins_authenticated [OF _ _ _ joined_step(2)]
    by (simp add: sample_program_def sample_server_def online_def IsRunning_def)
qed

text \<open>When the service accepts a token, the player found by the name of the service gets the identity.\<close>

lemma join_found_identity:
  assumes "stoull uid = Some userId" "create i (m\<lparr>cp_playerName := name\<rparr>) (sv_playerManager (pg_server p)) = Some pm"
    "None \<notin> set (pm_players pm)" "GetPlayerOrSpectator_name name pm = Inr (Some r)" "get_player r pm = Some pl"
  shows "if length name < 16
    then \<exists>p'. JoinTokenConsumed create i m (Some (name, uid)) p = Inr p' \<and>
      sv_playerManager (pg_server p') = Some (set_player r (pl\<lparr>pl_nativeData := userId, pl_id := name\<rparr>) pm)
    else JoinTokenConsumed create i m (Some (name, uid)) p = Inl Out_Of_Bounds"
proof -
  have pl: "pl_name pl = name" using GetPlayerOrSpectator_name_Some [OF assms(4)] assms(5) by auto
  define q where "q = emit (Create_Player i (m\<lparr>cp_playerName := name\<rparr>))
    (on_server (\<lambda>s. s\<lparr>sv_playerManager := create i (m\<lparr>cp_playerName := name\<rparr>) (sv_playerManager s)\<rparr>) p)"
  let ?pm = "set_player r (pl\<lparr>pl_nativeData := userId, pl_id := name\<rparr>) pm"
  let ?q = "fire ''ServerPlayer:Joined'' (on_server (\<lambda>s. s\<lparr>sv_playerManager := Some ?pm\<rparr>) q)"
  obtain p' where "SendPlayerList ?q = Inr p'" "pg_server p' = pg_server ?q"
    using SendPlayerList_total [of ?q ?pm] set_player_no_null [OF assms(3)] by auto
  moreover have "sv_playerManager (pg_server q) = Some pm" using assms(2) by (simp add: q_def)
  ultimately show ?thesis
    using assms(1,2,4,5) pl by (simp add: JoinTokenConsumed_def set_online_id_def Let_def q_def)
qed

text \<open>The order in which the players are searched, and the players a search by name accepts.\<close>

fun ref_before :: "player_ref \<Rightarrow> player_ref \<Rightarrow> bool" where
  "ref_before (Player i) (Player j) \<longleftrightarrow> i < j"
| "ref_before (Player i) (Spectator j) \<longleftrightarrow> True"
| "ref_before (Spectator i) (Player j) \<longleftrightarrow> False"
| "ref_before (Spectator i) (Spectator j) \<longleftrightarrow> i < j"

definition human_named :: "string \<Rightarrow> player_manager \<Rightarrow> player_ref \<Rightarrow> bool" where
  "human_named name pm r \<longleftrightarrow> (\<exists>pl. get_player r pm = Some pl \<and> pl_name pl = name \<and> \<not> IsAIPlayer pl)"

lemma find_player_first:
  assumes "None \<notin> set ps"
  shows "\<exists>o'. find_player skip ps = Inr o' \<and> (case o' of None \<Rightarrow> \<forall>j<length ps. skip (the (ps ! j))
    | Some i \<Rightarrow> i < length ps \<and> \<not> skip (the (ps ! i)) \<and> (\<forall>j<i. skip (the (ps ! j))))"
  using assms
proof (induction ps)
  case (Cons p ps)
  then obtain q o' where p: "p = Some q" and o': "find_player skip ps = Inr o'" "case o' of None \<Rightarrow> \<forall>j<length ps. skip (the (ps ! j))
    | Some i \<Rightarrow> i < length ps \<and> \<not> skip (the (ps ! i)) \<and> (\<forall>j<i. skip (the (ps ! j)))" by (cases p) auto
  then show ?case by (auto simp: nth_Cons split: nat.splits option.splits)
qed simp

lemma ref_before_total: "r = r' \<or> ref_before r r' \<or> ref_before r' r"
  by (cases r; cases r') auto

lemma ref_before_antisym: "ref_before r r' \<Longrightarrow> \<not> ref_before r' r \<and> r \<noteq> r'"
  by (cases r; cases r') auto

lemma find_named_first:
  assumes "None \<notin> set (pm_players pm)" "None \<notin> set (pm_spectators pm)" "human_named name pm r0"
  shows "\<exists>r. GetPlayerOrSpectator_name name pm = Inr (Some r) \<and> human_named name pm r \<and> (\<forall>r'. ref_before r' r \<longrightarrow> \<not> human_named name pm r')"
proof -
  let ?skip = "\<lambda>p. IsAIPlayer p \<or> pl_name p \<noteq> name"
  have pls: "human_named name pm (Player j) \<longleftrightarrow> j < length (pm_players pm) \<and> \<not> ?skip (the (pm_players pm ! j))" for j
    using assms(1) by (auto simp: human_named_def in_set_conv_nth)
  have sps: "human_named name pm (Spectator j) \<longleftrightarrow> j < length (pm_spectators pm) \<and> \<not> ?skip (the (pm_spectators pm ! j))" for j
    using assms(2) by (auto simp: human_named_def in_set_conv_nth)
  obtain a where a: "find_player ?skip (pm_players pm) = Inr a" "case a of None \<Rightarrow> \<forall>j<length (pm_players pm). ?skip (the (pm_players pm ! j))
    | Some i \<Rightarrow> i < length (pm_players pm) \<and> \<not> ?skip (the (pm_players pm ! i)) \<and> (\<forall>j<i. ?skip (the (pm_players pm ! j)))"
    using find_player_first [OF assms(1), of ?skip] by blast
  obtain b where b: "find_player ?skip (pm_spectators pm) = Inr b" "case b of None \<Rightarrow> \<forall>j<length (pm_spectators pm). ?skip (the (pm_spectators pm ! j))
    | Some i \<Rightarrow> i < length (pm_spectators pm) \<and> \<not> ?skip (the (pm_spectators pm ! i)) \<and> (\<forall>j<i. ?skip (the (pm_spectators pm ! j)))"
    using find_player_first [OF assms(2), of ?skip] by blast
  show ?thesis
  proof (cases a)
    case (Some i)
    have "GetPlayerOrSpectator_name name pm = Inr (Some (Player i))"
      using a(1) Some by (simp add: GetPlayerOrSpectator_name_def GetPlayer_name_def first_found_def)
    moreover have "human_named name pm (Player i)" using a(2) Some pls by simp
    moreover have "\<not> human_named name pm r'" if "ref_before r' (Player i)" for r'
      using that a(2) Some pls by (cases r') auto
    ultimately show ?thesis by blast
  next
    case None
    then have none: "\<not> human_named name pm (Player j)" for j using a(2) pls by auto
    then obtain j where "r0 = Spectator j" using assms(3) by (cases r0) auto
    then obtain i where i: "b = Some i" using b(2) assms(3) sps [of j] by (cases b) auto
    have "GetPlayerOrSpectator_name name pm = Inr (Some (Spectator i))"
      using a(1) None b(1) i by (simp add: GetPlayerOrSpectator_name_def GetPlayer_name_def GetSpectator_name_def first_found_def)
    moreover have "human_named name pm (Spectator i)" using b(2) i sps by simp
    moreover have "\<not> human_named name pm r'" if "ref_before r' (Spectator i)" for r'
      using that b(2) i sps none by (cases r') auto
    ultimately show ?thesis by blast
  qed
qed

lemma get_set_other: "r \<noteq> r0 \<Longrightarrow> get_player r0 (set_player r pl pm) = get_player r0 pm"
  by (cases r; cases r0) auto

text \<open>C27: the player that gets the identity when the service accepts a token. The player the game has created is looked up by its
  name, so the identity goes to the first human player of that name, the players before the spectators, and only that one changes. It is the
  created one (\<open>r0\<close>) exactly if no other of the name comes before it; otherwise, as when somebody joins a second time, the earlier one gets the
  new identity and the created one none. A name of 16 or more characters is written past the end of the 16 bytes of
  \<^verbatim>\<open>m_id\<close>.\<close>

theorem join_identity_by_name:
  assumes "stoull uid = Some userId" "create i (m\<lparr>cp_playerName := name\<rparr>) (sv_playerManager (pg_server p)) = Some pm"
    "None \<notin> set (pm_players pm)" "None \<notin> set (pm_spectators pm)" "human_named name pm r0"
  shows "if length name < 16
    then \<exists>p' r pl. JoinTokenConsumed create i m (Some (name, uid)) p = Inr p' \<and> human_named name pm r \<and> get_player r pm = Some pl \<and>
      sv_playerManager (pg_server p') = Some (set_player r (pl\<lparr>pl_nativeData := userId, pl_id := name\<rparr>) pm) \<and>
      (r = r0 \<longleftrightarrow> (\<forall>r'. ref_before r' r0 \<longrightarrow> \<not> human_named name pm r')) \<and>
      (r \<noteq> r0 \<longrightarrow> ref_before r r0 \<and>
         get_player r0 (set_player r (pl\<lparr>pl_nativeData := userId, pl_id := name\<rparr>) pm) = get_player r0 pm)
    else JoinTokenConsumed create i m (Some (name, uid)) p = Inl Out_Of_Bounds"
proof -
  obtain r where r: "GetPlayerOrSpectator_name name pm = Inr (Some r)" "human_named name pm r"
    "\<forall>r'. ref_before r' r \<longrightarrow> \<not> human_named name pm r'"
    using find_named_first [OF assms(3-5)] by blast
  obtain pl where pl: "get_player r pm = Some pl" using r(2) by (auto simp: human_named_def)
  have first: "r = r0 \<longleftrightarrow> (\<forall>r'. ref_before r' r0 \<longrightarrow> \<not> human_named name pm r')" "r \<noteq> r0 \<Longrightarrow> ref_before r r0"
    using r(2,3) assms(5) ref_before_total [of r r0] ref_before_antisym by blast+
  note found = join_found_identity [where create = create and i = i and m = m and p = p and name = name, OF assms(1-3) r(1) pl]
  show ?thesis
  proof (cases "length name < 16")
    case True
    with found obtain p' where "JoinTokenConsumed create i m (Some (name, uid)) p = Inr p'"
      "sv_playerManager (pg_server p') = Some (set_player r (pl\<lparr>pl_nativeData := userId, pl_id := name\<rparr>) pm)" by auto
    then show ?thesis unfolding if_P [OF True]
      by (intro exI [of _ p'] exI [of _ r] exI [of _ pl] conjI impI) (use r(2) pl first get_set_other in auto)
  next
    case False
    with found show ?thesis by simp
  qed
qed

lemma sample_join:
  "sample_create 4 (sample_message\<lparr>cp_playerName := name\<rparr>) (sv_playerManager (pg_server sample_program)) =
    Some \<lparr>pm_players = [Some (sample_player name)], pm_spectators = []\<rparr>"
  by (simp add: sample_create_def sample_program_def sample_server_def)

theorem join_identity_by_name_witness:
  "(\<exists>p' r pl. JoinTokenConsumed sample_create 4 sample_message (Some (''Rey'', ''77'')) sample_program = Inr p' \<and>
      get_player r \<lparr>pm_players = [Some (sample_player ''Rey'')], pm_spectators = []\<rparr> = Some pl \<and>
      sv_playerManager (pg_server p') = Some (set_player r (pl\<lparr>pl_nativeData := 77, pl_id := ''Rey''\<rparr>)
        \<lparr>pm_players = [Some (sample_player ''Rey'')], pm_spectators = []\<rparr>)) \<and>
    JoinTokenConsumed sample_create 4 sample_message (Some (''a_sixteen_letter'', ''77'')) sample_program = Inl Out_Of_Bounds"
proof -
  have named: "human_named n \<lparr>pm_players = [Some (sample_player n)], pm_spectators = []\<rparr> (Player 0)" for n
    by (simp add: human_named_def sample_player_def IsAIPlayer_def)
  note join = join_identity_by_name [where create = sample_create and m = sample_message and p = sample_program and
      i = 4, OF stoull_77 sample_join(1) _ _ named]
  show ?thesis using join [of "''Rey''"] join [of "''a_sixteen_letter''"] by auto
qed

text \<open>A hosted server whose registration fails never registers later: it leaves online mode, and from then on \<^verbatim>\<open>Register\<close>,
  which the management connection calls to reconnect, leaves the state unchanged whatever the service would answer.\<close>

theorem failed_registration_final:
  assumes "Start lo None info changeState p = Inr p'" "sv_serverId (pg_server p) = ''''"
  shows "sv_serverId (pg_server p') = '''' \<and> sv_runningHosted (pg_server p') \<and>
    Register response force p' = Inr p' \<and> management_Receive Ws_Error 410 response p' = Inr p'"
  using Start_state [OF assms(1)] assms(2) by (simp add: Register_offline management_Receive_def)

definition sample_info :: server_creation_info where
  "sample_info = \<lparr>ci_name = ''Kyber'', ci_description = '''', ci_password = '''', ci_level = ''Levels/MP/Endor_01'', ci_mode = ''Blast'',
    ci_maxPlayers = 40, ci_loadCommands = []\<rparr>"

definition started :: program where
  "started = (case Start sample_options None sample_info True sample_program of Inl _ \<Rightarrow> sample_program | Inr p \<Rightarrow> p)"

lemma started: "Start sample_options None sample_info True sample_program = Inr started"
  by code_simp

text \<open>The client leaves a hosted server for the menu. The server stops if its start was a first start; a server that was
  started while it was running goes on running after the client left.\<close>

theorem restarted_server_survives:
  assumes "Start lo response info changeState p = Inr q" "pg_hasServer p" "\<not> pg_serverFirstStartup p"
    "sv_sockets (pg_server p) = Some socks" "socks \<noteq> []" "\<not> sv_restarting (pg_server p)"
  shows "\<exists>q'. ClientStateChangeHk lo onlineMode response' Startup lst q = Inr q' \<and>
    sv_runningHosted (pg_server q') = sv_runningHosted (pg_server p)"
  using Startup_state [of q socks lo onlineMode response' lst] Start_state [OF assms(1)] assms(2-) by auto

end
