(* ===== verification/Console_Commands.thy ===== *)
theory Console_Commands
  imports Game_Session "HOL-Library.Multiset"
begin

text \<open>
  The commands of the game's console (\<^verbatim>\<open>Core/Console.cpp\<close>): the arguments of a command, the registry of commands, and the
  commands that change teams, levels and battlepoints.

  A command gets the raw text behind its name. An argument that the text does not have leaves its variable as it is; for an
  integer that is whatever the memory holds, an argument of the model (\<open>uninit\<close>). The game's \<^verbatim>\<open>SetTeam\<close> is the effect
  \<open>Set_Team\<close> with the index of the player in the list of players. The random numbers of a shuffle are an argument.
\<close>

section \<open>Arguments\<close>

text \<open>\<^verbatim>\<open>getline\<close> up to the next space: it fails at the end of the text.\<close>

definition next_token :: "string \<Rightarrow> (string \<times> string) option" where
  "next_token s = (if s = [] then None
    else Some (takeWhile (\<lambda>c. c \<noteq> CHR '' '') s, tl (dropWhile (\<lambda>c. c \<noteq> CHR '' '') s)))"

definition read_string :: "string \<Rightarrow> string \<times> string" where
  "read_string s = (case next_token s of None \<Rightarrow> ('''', s)
    | Some (t, r) \<Rightarrow> (takeWhile (\<lambda>c. \<not> is_space c) (dropWhile is_space t), r))"

text \<open>\<^verbatim>\<open>>>\<close> to an integer of 32 bits: 0 where there is no number, the nearest bound where it does not fit.\<close>

definition scan_int :: "string \<Rightarrow> int" where
  "scan_int t =
    (case split_sign (dropWhile is_space t) of
       (neg, r) \<Rightarrow> (let v = (if neg then - int (digits_val (takeWhile is_digit r)) else int (digits_val (takeWhile is_digit r)))
          in max (- (2 ^ 31)) (min (2 ^ 31 - 1) v)))"

definition read_int :: "int \<Rightarrow> string \<Rightarrow> int \<times> string" where
  "read_int uninit s = (case next_token s of None \<Rightarrow> (uninit, s)
    | Some (t, r) \<Rightarrow> (if dropWhile is_space t = [] then 0 else scan_int t, r))"

text \<open>\<^verbatim>\<open>>>\<close> to an unsigned integer of \<open>w\<close> bits: a value that does not fit is the largest one, a sign negates.\<close>

definition scan_unsigned :: "nat \<Rightarrow> string \<Rightarrow> nat" where
  "scan_unsigned w t =
    (case split_sign (dropWhile is_space t) of
       (neg, r) \<Rightarrow> (let v = digits_val (takeWhile is_digit r)
          in if v \<ge> 2 ^ w then 2 ^ w - 1 else if neg then (2 ^ w - v) mod 2 ^ w else v))"

definition read_unsigned :: "nat \<Rightarrow> nat \<Rightarrow> string \<Rightarrow> nat \<times> string" where
  "read_unsigned w uninit s = (case next_token s of None \<Rightarrow> (uninit, s)
    | Some (t, r) \<Rightarrow> (if dropWhile is_space t = [] then 0 else scan_unsigned w t, r))"

definition show_int :: "int \<Rightarrow> string" where
  "show_int i = (if i < 0 then ''-'' @ dec_digits (nat (- i)) else dec_digits (nat i))"


section \<open>Registry\<close>

record instance_method =
  im_name :: string
  im_groupName :: string
  im_description :: string
  im_func :: nat

definition registerInstanceMethod :: "nat \<Rightarrow> string \<Rightarrow> string \<Rightarrow> instance_method list \<Rightarrow> instance_method list" where
  "registerInstanceMethod method name groupName ms =
    (if \<exists>m \<in> set ms. im_name m = name
     then update_first (\<lambda>m. im_name m = name) (\<lambda>m. m\<lparr>im_func := method\<rparr>) ms
     else ms @ [\<lparr>im_name = name, im_groupName = groupName, im_description = '''', im_func = method\<rparr>])"

fun UnregisterCommand :: "string \<Rightarrow> instance_method list \<Rightarrow> instance_method list" where
  "UnregisterCommand name [] = []"
| "UnregisterCommand name (m # ms) = (if im_name m \<noteq> name then m # UnregisterCommand name ms else ms)"

definition ConsoleRegistryExecuteConsoleCommandHk :: "string \<Rightarrow> string option" where
  "ConsoleRegistryExecuteConsoleCommandHk cmdString = (if cmdString = ''ingame|clear'' then Some ''clear'' else None)"


section \<open>Levels\<close>

definition LoadLevelCommand :: "level_options \<Rightarrow> string \<Rightarrow> program \<Rightarrow> program result" where
  "LoadLevelCommand lo args p =
    (case read_string args of (level, r) \<Rightarrow> case read_string r of (mode, _) \<Rightarrow>
       LoadNextLevel lo level (Some mode) '''' '''' True p)"

definition LoadSPLevelCommand :: "level_options \<Rightarrow> string \<Rightarrow> program \<Rightarrow> program result" where
  "LoadSPLevelCommand lo args p =
    (case read_string args of (level, r) \<Rightarrow> case read_string r of (startPoint, r) \<Rightarrow> case read_string r of (initialSubLevel, _) \<Rightarrow>
       LoadNextLevel lo level (Some ''Campaign'') startPoint initialSubLevel True p)"

definition AddLevelCommand :: "string \<Rightarrow> program \<Rightarrow> program" where
  "AddLevelCommand args p =
    (case read_string args of (level, r) \<Rightarrow> case read_string r of (mode, _) \<Rightarrow>
       on_server (\<lambda>s. s\<lparr>sv_mapRotation := AddEntry level mode (sv_mapRotation s)\<rparr>) p)"

definition BroadcastCommand :: "server_player \<Rightarrow> string \<Rightarrow> bool \<Rightarrow> program \<Rightarrow> string \<times> program" where
  "BroadcastCommand dummy args cancelled p =
    (if \<not> IsRunning p then (''This is a server command, and you aren't running a server!'', p)
     else ('''', Server_BroadcastMessage dummy args ''ADMIN'' Chat_Admin cancelled p))"

text \<open>The literal \<^verbatim>\<open>""\<close> is passed for the parameter \<^verbatim>\<open>bool spectate\<close>: a pointer that is not null is true.\<close>

definition JoinServerCommand :: "level_options \<Rightarrow> string option \<Rightarrow> string option \<Rightarrow> nat \<Rightarrow> string \<Rightarrow> program \<Rightarrow> string \<times> program result" where
  "JoinServerCommand lo onlineMode response uninit args p =
    (case read_string args of (ip, r) \<Rightarrow> case read_unsigned 16 uninit r of (port, _) \<Rightarrow>
       (''Connecting to '' @ ip @ '':'' @ dec_digits port @ ''...'',
        JoinServer lo onlineMode response None [] '''' ip (word_of_nat port) True False True p))"


section \<open>Teams\<close>

text \<open>The hook on \<^verbatim>\<open>SetTeam\<close>. \<open>eng i team\<close> is what the game's function does to the players.\<close>

type_synonym team_engine = "nat \<Rightarrow> int \<Rightarrow> player_manager \<Rightarrow> player_manager"

definition ServerPlayerSetTeamIdHk :: "team_engine \<Rightarrow> nat \<Rightarrow> server_player \<Rightarrow> int \<Rightarrow> program \<Rightarrow> program result" where
  "ServerPlayerSetTeamIdHk eng i inst teamId p =
    (let p = emit (Set_Team i teamId)
               (on_server (\<lambda>s. s\<lparr>sv_playerManager := map_option (eng i teamId) (sv_playerManager s)\<rparr>) p)
     in if \<not> IsAIPlayer inst then SendPlayerList p else Inr p)"

fun set_teams :: "team_engine \<Rightarrow> ((nat \<times> server_player) \<times> int) list \<Rightarrow> program \<Rightarrow> program result" where
  "set_teams eng [] p = Inr p"
| "set_teams eng (((i, pl), team) # ts) p =
    (case ServerPlayerSetTeamIdHk eng i pl team p of Inl e \<Rightarrow> Inl e | Inr p \<Rightarrow> set_teams eng ts p)"

definition reply :: "string \<Rightarrow> program result \<Rightarrow> (string \<times> program) result" where
  "reply text r = (case r of Inl e \<Rightarrow> Inl e | Inr p \<Rightarrow> Inr (text, p))"

definition SetTeamCommand :: "team_engine \<Rightarrow> int \<Rightarrow> string \<Rightarrow> program \<Rightarrow> (string \<times> program) result" where
  "SetTeamCommand eng uninit args p =
    (case read_string args of (playerName, r) \<Rightarrow> case read_int uninit r of (team, _) \<Rightarrow>
       (case sv_playerManager (pg_server p) of
          None \<Rightarrow> Inl Null_Deref
        | Some pm \<Rightarrow>
            (case GetPlayer_name playerName pm of
               Inl e \<Rightarrow> Inl e
             | Inr None \<Rightarrow> Inr (''Couldn't find player '' @ playerName, p)
             | Inr (Some i) \<Rightarrow>
                 (case pm_players pm ! i of
                    None \<Rightarrow> Inl Null_Deref
                  | Some pl \<Rightarrow> reply (''Set '' @ playerName @ '' to team '' @ show_int team) (ServerPlayerSetTeamIdHk eng i pl team p)))))"

definition SetTeamByIndexCommand :: "team_engine \<Rightarrow> int \<Rightarrow> int \<Rightarrow> string \<Rightarrow> program \<Rightarrow> (string \<times> program) result" where
  "SetTeamByIndexCommand eng uninit uninit2 args p =
    (case read_int uninit args of (index, r) \<Rightarrow> case read_int uninit2 r of (team, _) \<Rightarrow>
       (case sv_playerManager (pg_server p) of
          None \<Rightarrow> Inl Null_Deref
        | Some pm \<Rightarrow>
            if length (pm_players pm) \<le> unat (word_of_int index :: u64) then Inr (''Player index out of bounds'', p)
            else case pm_players pm ! nat index of
                   None \<Rightarrow> Inr (''Couldn't find player at '' @ show_int index, p)
                 | Some pl \<Rightarrow> reply (''Set '' @ pl_name pl @ '' to team '' @ show_int team)
                     (ServerPlayerSetTeamIdHk eng (nat index) pl team p)))"

definition SetTeamByIdCommand :: "team_engine \<Rightarrow> nat \<Rightarrow> int \<Rightarrow> string \<Rightarrow> program \<Rightarrow> (string \<times> program) result" where
  "SetTeamByIdCommand eng uninit uninit2 args p =
    (case read_unsigned 64 uninit args of (i, r) \<Rightarrow> case read_int uninit2 r of (team, _) \<Rightarrow>
       (case sv_playerManager (pg_server p) of
          None \<Rightarrow> Inl Null_Deref
        | Some pm \<Rightarrow>
            (case GetPlayer_id (word_of_nat i) False pm of
               Inl e \<Rightarrow> Inl e
             | Inr None \<Rightarrow> Inr (''Couldn't find player '' @ dec_digits i, p)
             | Inr (Some j) \<Rightarrow>
                 (case pm_players pm ! j of
                    None \<Rightarrow> Inl Null_Deref
                  | Some pl \<Rightarrow> reply (''Set '' @ pl_name pl @ '' to team '' @ show_int team)
                      (ServerPlayerSetTeamIdHk eng j pl team p)))))"

text \<open>The players that the two commands below look at: not null and not a bot, with their indices.\<close>

definition real_players :: "server_player option list \<Rightarrow> (nat \<times> server_player) list" where
  "real_players ps =
    map (\<lambda>(i, q). (i, the q)) (filter (\<lambda>(i, q). \<not> (q = None \<or> IsAIPlayer (the q))) (enumerate 0 ps))"

definition FullTeamSwapCommand :: "team_engine \<Rightarrow> player_manager \<Rightarrow> program \<Rightarrow> (string \<times> program) result" where
  "FullTeamSwapCommand eng pm p =
    reply ''Successfully swapped both teams to the opposite side''
      (set_teams eng (map (\<lambda>(i, pl). ((i, pl), if pl_teamId pl \<noteq> 1 then 1 else 2)) (real_players (pm_players pm))) p)"

definition swap :: "nat \<Rightarrow> nat \<Rightarrow> 'a list \<Rightarrow> 'a list" where
  "swap i j xs = xs[i := xs ! j, j := xs ! i]"

definition team_list :: "nat \<Rightarrow> int list" where
  "team_list n = replicate (n - n div 2) 1 @ replicate (n div 2) 2"

text \<open>\<open>shuffle_loop k\<close>: the rounds from \<open>i = k - 1\<close> down to 0, with the random number \<open>rand i\<close> in round \<open>i\<close>.\<close>

primrec shuffle_loop :: "(nat \<Rightarrow> nat) \<Rightarrow> nat \<Rightarrow> int list \<Rightarrow> int list" where
  "shuffle_loop rand 0 xs = xs"
| "shuffle_loop rand (Suc i) xs = shuffle_loop rand i (swap i (rand i mod (i + 1)) xs)"

definition ShuffleTeamsCommand ::
  "team_engine \<Rightarrow> (nat \<Rightarrow> nat) \<Rightarrow> player_manager \<Rightarrow> program \<Rightarrow> (string \<times> program) result" where
  "ShuffleTeamsCommand eng rand pm p =
    (let players = real_players (pm_players pm);
         playerCount = length players;
         randomTeamList = shuffle_loop rand playerCount (team_list playerCount)
     in reply ''Successfully shuffled teams.'' (set_teams eng (zip players randomTeamList) p))"


section \<open>Battlepoints\<close>

text \<open>The result is the text and the call of the game's \<^verbatim>\<open>SetBattlepoints\<close>, which takes an unsigned number, or \<^verbatim>\<open>AddBattlepoints\<close>;
  \<open>points\<close> is what a player has after the call.\<close>

definition SetBattlepointsCommand :: "int \<Rightarrow> string \<Rightarrow> program \<Rightarrow> (string \<times> (nat \<times> u32) option) result" where
  "SetBattlepointsCommand uninit args p =
    (case read_string args of (playerName, r) \<Rightarrow> case read_int uninit r of (amount, _) \<Rightarrow>
       if \<not> IsRunning p then Inr (''This is a server command, and you aren't running a server!'', None)
       else case sv_playerManager (pg_server p) of
              None \<Rightarrow> Inl Null_Deref
            | Some pm \<Rightarrow>
                (case GetPlayer_name playerName pm of
                   Inl e \<Rightarrow> Inl e
                 | Inr None \<Rightarrow> Inr (''Couldn't find player '' @ playerName, None)
                 | Inr (Some i) \<Rightarrow> Inr (''Set '' @ playerName @ [CHR 0x27] @ ''s battlepoints to '' @ show_int amount, Some (i, word_of_int amount))))"

definition GiveBattlepointsCommand ::
  "(nat \<Rightarrow> int \<Rightarrow> u32) \<Rightarrow> int \<Rightarrow> string \<Rightarrow> program \<Rightarrow> (string \<times> (nat \<times> int) option) result" where
  "GiveBattlepointsCommand points uninit args p =
    (case read_string args of (playerName, r) \<Rightarrow> case read_int uninit r of (amount, _) \<Rightarrow>
       if \<not> IsRunning p then Inr (''This is a server command, and you aren't running a server!'', None)
       else case sv_playerManager (pg_server p) of
              None \<Rightarrow> Inl Null_Deref
            | Some pm \<Rightarrow>
                (case GetPlayer_name playerName pm of
                   Inl e \<Rightarrow> Inl e
                 | Inr None \<Rightarrow> Inr (''Couldn't find player '' @ playerName, None)
                 | Inr (Some i) \<Rightarrow>
                     Inr (''Gave '' @ playerName @ '' '' @ show_int amount @ '' battlepoints, now has '' @
                       dec_digits (unat (points i amount)) @ '' total'', Some (i, amount))))"



section \<open>Shuffling\<close>

lemma length_swap [simp]: "length (swap i j xs) = length xs"
  by (simp add: swap_def)

lemma mset_swap_list: "i < length xs \<Longrightarrow> j < length xs \<Longrightarrow> mset (swap i j xs) = mset xs"
  by (simp add: swap_def mset_swap)

lemma take_swap: "i < n \<Longrightarrow> j < n \<Longrightarrow> take n (swap i j xs) = swap i j (take n xs)"
  by (simp add: swap_def take_update_swap)

lemma drop_swap: "i < n \<Longrightarrow> j < n \<Longrightarrow> drop n (swap i j xs) = drop n xs"
  by (simp add: swap_def)

lemma shuffle_loop_mset: "k \<le> length xs \<Longrightarrow> mset (shuffle_loop rand k xs) = mset xs \<and> length (shuffle_loop rand k xs) = length xs"
proof (induction k arbitrary: xs)
  case (Suc i)
  have "rand i mod (i + 1) < length xs" using Suc.prems by (simp add: order_less_le_trans [OF mod_less_divisor])
  then show ?case using Suc mset_swap_list [of i xs "rand i mod (i + 1)"] by simp
qed simp

lemma shuffle_loop_cong: "(\<And>i. i < k \<Longrightarrow> rand i = rand' i) \<Longrightarrow> shuffle_loop rand k xs = shuffle_loop rand' k xs"
  by (induction k arbitrary: xs) simp_all

text \<open>Every arrangement is the result of some random numbers.\<close>

lemma shuffle_loop_onto:
  assumes "k \<le> length xs" "length ys = length xs" "mset (take k xs) = mset (take k ys)" "drop k xs = drop k ys"
  shows "\<exists>rand. (\<forall>i. rand i \<le> i) \<and> shuffle_loop rand k xs = ys"
  using assms
proof (induction k arbitrary: xs)
  case 0
  then show ?case by (intro exI [of _ "\<lambda>_. 0"]) simp
next
  case (Suc i)
  have "ys ! i \<in> set (take (Suc i) ys)" using Suc.prems by (auto simp: in_set_conv_nth intro!: exI [of _ i])
  then have "ys ! i \<in> set (take (Suc i) xs)" using Suc.prems(3) by (metis set_mset_mset)
  then obtain j where j: "j \<le> i" "xs ! j = ys ! i" using Suc.prems(1) by (auto simp: in_set_conv_nth less_Suc_eq_le)
  let ?xs = "swap i j xs"
  have nth: "?xs ! i = ys ! i" using j Suc.prems(1) by (cases "j = i") (simp_all add: swap_def)
  have "mset (take (Suc i) ?xs) = mset (take (Suc i) ys)"
    using Suc.prems j(1) by (simp add: take_swap mset_swap_list)
  then have "mset (take i ?xs) = mset (take i ys)"
    using nth Suc.prems by (simp add: take_Suc_conv_app_nth)
  moreover have "drop (Suc i) ?xs = drop (Suc i) ys" using Suc.prems(4) j(1) by (simp add: drop_swap)
  then have "drop i ?xs = drop i ys" using nth Suc.prems by (simp add: Cons_nth_drop_Suc [symmetric])
  ultimately obtain rand where rand: "\<forall>i. rand i \<le> i" "shuffle_loop rand i ?xs = ys"
    using Suc.IH [of ?xs] Suc.prems by auto
  have "shuffle_loop (rand(i := j)) i ?xs = shuffle_loop rand i ?xs" by (rule shuffle_loop_cong) simp
  then show ?case using rand j(1) by (intro exI [of _ "rand(i := j)"]) (simp del: fun_upd_apply, simp)
qed


section \<open>Setting teams\<close>

definition team_of :: "effect \<Rightarrow> (nat \<times> int) list" where
  "team_of e = (case e of Set_Team i t \<Rightarrow> [(i, t)] | _ \<Rightarrow> [])"

definition team_calls :: "program \<Rightarrow> (nat \<times> int) list" where
  "team_calls p = concat (map team_of (pg_log p))"

definition manager_ok :: "program \<Rightarrow> bool" where
  "manager_ok p \<longleftrightarrow> (\<exists>pm. sv_playerManager (pg_server p) = Some pm \<and> None \<notin> set (pm_players pm))"

definition engine_ok :: "team_engine \<Rightarrow> bool" where
  "engine_ok eng \<longleftrightarrow> (\<forall>i t pm. None \<notin> set (pm_players pm) \<longrightarrow> None \<notin> set (pm_players (eng i t pm)))"

lemma SendPlayerList_teams: "SendPlayerList p = Inr p' \<Longrightarrow> team_calls p' = team_calls p"
  by (auto simp: SendPlayerList_def team_calls_def team_of_def split: if_splits option.splits sum.splits)

lemma SetTeamIdHk_calls:
  assumes "manager_ok p" "engine_ok eng"
  shows "\<exists>p'. ServerPlayerSetTeamIdHk eng i pl t p = Inr p' \<and> manager_ok p' \<and> team_calls p' = team_calls p @ [(i, t)]"
proof -
  let ?p = "emit (Set_Team i t) (on_server (\<lambda>s. s\<lparr>sv_playerManager := map_option (eng i t) (sv_playerManager s)\<rparr>) p)"
  obtain pm where pm: "sv_playerManager (pg_server p) = Some pm" "None \<notin> set (pm_players pm)"
    using assms(1) by (auto simp: manager_ok_def)
  then have q: "sv_playerManager (pg_server ?p) = Some (eng i t pm)" "None \<notin> set (pm_players (eng i t pm))"
    using assms(2) by (simp_all add: engine_ok_def)
  then have ok: "manager_ok ?p" unfolding manager_ok_def by blast
  have calls: "team_calls ?p = team_calls p @ [(i, t)]" by (simp add: team_calls_def team_of_def)
  obtain p' where "SendPlayerList ?p = Inr p'" "pg_server p' = pg_server ?p" using SendPlayerList_total [OF q] by blast
  then show ?thesis
    using ok calls SendPlayerList_teams [of ?p] by (simp add: ServerPlayerSetTeamIdHk_def Let_def manager_ok_def)
qed

lemma set_teams_calls:
  assumes "manager_ok p" "engine_ok eng"
  shows "\<exists>p'. set_teams eng ts p = Inr p' \<and> manager_ok p' \<and> team_calls p' = team_calls p @ map (\<lambda>((i, _), t). (i, t)) ts"
  using assms(1)
proof (induction ts arbitrary: p)
  case (Cons x ts)
  obtain i pl t where x: "x = ((i, pl), t)" by (metis surj_pair)
  obtain q where q: "ServerPlayerSetTeamIdHk eng i pl t p = Inr q" "manager_ok q" "team_calls q = team_calls p @ [(i, t)]"
    using SetTeamIdHk_calls [OF Cons.prems assms(2)] by blast
  show ?case using Cons.IH [OF q(2)] q x by auto
qed simp

lemma distinct_real_players: "distinct (map fst (real_players ps))"
proof -
  have "map fst (real_players ps) = map fst (filter (\<lambda>(i, q). \<not> (q = None \<or> IsAIPlayer (the q))) (enumerate 0 ps))"
    by (simp add: real_players_def comp_def split_def)
  then show ?thesis by (simp add: distinct_map_filter)
qed

lemma set_real_players:
  "(i, p) \<in> set (real_players ps) \<longleftrightarrow> i < length ps \<and> ps ! i = Some p \<and> \<not> IsAIPlayer p"
  by (auto simp: real_players_def in_set_enumerate_eq image_iff intro!: bexI [of _ "(i, Some p)"])


section \<open>The registry as a map\<close>

text \<open>What a registry of named entries promises, and what every sequence of its operations gives.\<close>

datatype ('k, 'g, 'v) registry_op = Put 'k 'g 'v | Del 'k

fun map_run :: "('k, 'g, 'v) registry_op list \<Rightarrow> ('k \<rightharpoonup> 'v) \<Rightarrow> ('k \<rightharpoonup> 'v)" where
  "map_run [] m = m"
| "map_run (Put k g v # ops) m = map_run ops (m(k \<mapsto> v))"
| "map_run (Del k # ops) m = map_run ops (m(k := None))"

locale registry =
  fixes valid :: "'r \<Rightarrow> bool"
    and lookup :: "'r \<Rightarrow> 'k \<rightharpoonup> 'v"
    and put :: "'k \<Rightarrow> 'g \<Rightarrow> 'v \<Rightarrow> 'r \<Rightarrow> 'r"
    and del :: "'k \<Rightarrow> 'r \<Rightarrow> 'r"
  assumes valid_put: "valid r \<Longrightarrow> valid (put k g v r)"
    and valid_del: "valid r \<Longrightarrow> valid (del k r)"
    and lookup_put: "valid r \<Longrightarrow> lookup (put k g v r) = (lookup r)(k \<mapsto> v)"
    and lookup_del: "valid r \<Longrightarrow> lookup (del k r) = (lookup r)(k := None)"
begin

fun registry_run :: "('k, 'g, 'v) registry_op list \<Rightarrow> 'r \<Rightarrow> 'r" where
  "registry_run [] r = r"
| "registry_run (Put k g v # ops) r = registry_run ops (put k g v r)"
| "registry_run (Del k # ops) r = registry_run ops (del k r)"

lemma registry_run_map: "valid r \<Longrightarrow> valid (registry_run ops r) \<and> lookup (registry_run ops r) = map_run ops (lookup r)"
  by (induction ops r rule: registry_run.induct) (simp_all add: valid_put valid_del lookup_put lookup_del)

end

definition command_lookup :: "instance_method list \<Rightarrow> string \<Rightarrow> nat option" where
  "command_lookup ms name = map_option im_func (find (\<lambda>m. im_name m = name) ms)"

definition distinct_commands :: "instance_method list \<Rightarrow> bool" where
  "distinct_commands ms \<longleftrightarrow> distinct (map im_name ms)"

lemma map_name_update_first [simp]:
  "map im_name (update_first P (\<lambda>m. m\<lparr>im_func := f\<rparr>) ms) = map im_name ms"
  by (induction ms) auto

lemma names_Unregister: "map im_name (UnregisterCommand name ms) = remove1 name (map im_name ms)"
  by (induction name ms rule: UnregisterCommand.induct) auto

lemma find_name_None: "find (\<lambda>m. im_name m = n) ms = None \<longleftrightarrow> n \<notin> set (map im_name ms)"
  by (auto simp: find_None_iff)

lemma lookup_register: "command_lookup (registerInstanceMethod f name g ms) = (command_lookup ms)(name \<mapsto> f)"
proof (cases "\<exists>m \<in> set ms. im_name m = name")
  case True
  then obtain x where x: "find (\<lambda>m. im_name m = name) ms = Some x"
    by (cases "find (\<lambda>m. im_name m = name) ms") (auto simp: find_None_iff)
  have "map_option im_func (find (\<lambda>m. im_name m = n) (update_first (\<lambda>m. im_name m = name) (\<lambda>m. m\<lparr>im_func := f\<rparr>) ms)) =
      (if n = name then Some f else map_option im_func (find (\<lambda>m. im_name m = n) ms))" for n
  proof (cases "n = name")
    case True
    then show ?thesis using x find_update_first [of "\<lambda>m. im_name m = name" "\<lambda>m. m\<lparr>im_func := f\<rparr>" ms] by simp
  next
    case False
    then show ?thesis
      using find_update_first_other [of "\<lambda>m. im_name m = name" "\<lambda>m. im_name m = n" "\<lambda>m. m\<lparr>im_func := f\<rparr>" ms] by simp
  qed
  then show ?thesis using True by (simp add: fun_eq_iff command_lookup_def registerInstanceMethod_def)
next
  case False
  then have "find (\<lambda>m. im_name m = name) ms = None" by (auto simp: find_None_iff)
  then show ?thesis
    using False by (auto simp: fun_eq_iff command_lookup_def registerInstanceMethod_def find_append split: option.split)
qed

lemma lookup_unregister:
  assumes "distinct_commands ms"
  shows "command_lookup (UnregisterCommand name ms) = (command_lookup ms)(name := None)"
proof -
  have "map_option im_func (find (\<lambda>m. im_name m = n) (UnregisterCommand name ms)) =
      (if n = name then None else map_option im_func (find (\<lambda>m. im_name m = n) ms))" for n
    using assms unfolding distinct_commands_def
    by (induction ms) (auto simp: find_None_iff, metis imageI)
  then show ?thesis by (simp add: fun_eq_iff command_lookup_def)
qed

interpretation commands: registry distinct_commands command_lookup "\<lambda>name g f. registerInstanceMethod f name g" UnregisterCommand
proof unfold_locales
  fix r k f and g :: string
  assume "distinct_commands r"
  then show "distinct_commands (registerInstanceMethod f k g r)"
    by (auto simp: distinct_commands_def registerInstanceMethod_def)
next
  fix r k
  assume "distinct_commands r"
  then show "distinct_commands (UnregisterCommand k r)" by (simp add: distinct_commands_def names_Unregister)
qed (simp_all add: lookup_register lookup_unregister)


section \<open>Properties\<close>

text \<open>C22: A shuffle is fair in size. Whatever the random numbers, the command sets the team of every player that is not a bot exactly
  once and of nobody else, and of the \<open>n\<close> players \<open>n - n div 2\<close> go to team 1 and \<open>n div 2\<close> to team 2.\<close>

theorem shuffle_balanced:
  assumes "manager_ok p" "engine_ok eng"
  shows "\<exists>p' ts. ShuffleTeamsCommand eng rand pm p = Inr (''Successfully shuffled teams.'', p') \<and>
    team_calls p' = team_calls p @ zip (map fst (real_players (pm_players pm))) ts \<and>
    distinct (map fst (real_players (pm_players pm))) \<and>
    mset ts = replicate_mset (length (real_players (pm_players pm)) - length (real_players (pm_players pm)) div 2) 1 +
      replicate_mset (length (real_players (pm_players pm)) div 2) 2"
proof -
  let ?ps = "real_players (pm_players pm)"
  let ?ts = "shuffle_loop rand (length ?ps) (team_list (length ?ps))"
  have "length (team_list n) = n" for n by (simp add: team_list_def)
  then have ts: "mset ?ts = mset (team_list (length ?ps))" "length ?ts = length ?ps"
    using shuffle_loop_mset [of "length ?ps" "team_list (length ?ps)" rand] by simp_all
  obtain p' where "set_teams eng (zip ?ps ?ts) p = Inr p'"
      "team_calls p' = team_calls p @ map (\<lambda>((i, _), t). (i, t)) (zip ?ps ?ts)"
    using set_teams_calls [OF assms] by blast
  moreover have "map (\<lambda>((i, _), t). (i, t)) (zip ?ps ?ts) = zip (map fst ?ps) ?ts"
    by (simp add: zip_map1 split_def comp_def)
  moreover have "mset ?ts = replicate_mset (length ?ps - length ?ps div 2) 1 + replicate_mset (length ?ps div 2) 2"
    unfolding ts(1) by (simp add: team_list_def)
  ultimately show ?thesis
    using distinct_real_players by (intro exI [of _ p'] exI [of _ ?ts]) (simp add: ShuffleTeamsCommand_def reply_def Let_def)
qed

text \<open>Three players, one of them a bot.\<close>

definition sample_manager :: player_manager where
  "sample_manager = \<lparr>pm_players = [Some (sample_player ''Rey''), Some ((sample_player ''Bot'')\<lparr>pl_localPlayerId := 0xFF\<rparr>),
    Some (sample_player ''Finn'')], pm_spectators = []\<rparr>"

definition sample_engine :: team_engine where
  "sample_engine i t pm = pm\<lparr>pm_players := (pm_players pm)[i := map_option (\<lambda>pl. pl\<lparr>pl_teamId := t\<rparr>) (pm_players pm ! i)]\<rparr>"

definition sample_match :: program where
  "sample_match = on_server (\<lambda>s. s\<lparr>sv_playerManager := Some sample_manager\<rparr>) sample_program"

lemma sample_match_ok: "manager_ok sample_match"
  by (simp add: manager_ok_def sample_match_def sample_manager_def)

lemma sample_engine_ok: "engine_ok sample_engine"
proof -
  have "None \<notin> set (pm_players (sample_engine i t pm))" if "None \<notin> set (pm_players pm)" for i t pm
  proof (cases "i < length (pm_players pm)")
    case True
    then have "pm_players pm ! i \<noteq> None" using that by (metis nth_mem)
    moreover have "set (pm_players (sample_engine i t pm)) \<subseteq>
        insert (map_option (\<lambda>pl. pl\<lparr>pl_teamId := t\<rparr>) (pm_players pm ! i)) (set (pm_players pm))"
      unfolding sample_engine_def using set_update_subset_insert by simp
    ultimately show ?thesis using that by auto
  next
    case False
    then show ?thesis using that by (simp add: sample_engine_def list_update_beyond not_less)
  qed
  then show ?thesis by (simp add: engine_ok_def)
qed

lemma real_sample: "real_players (pm_players sample_manager) = [(0, sample_player ''Rey''), (2, sample_player ''Finn'')]"
  by (simp add: real_players_def sample_manager_def IsAIPlayer_def sample_player_def)

theorem shuffle_balanced_witness:
  "\<exists>p' ts. ShuffleTeamsCommand sample_engine (\<lambda>_. 41) sample_manager sample_match = Inr (''Successfully shuffled teams.'', p') \<and>
    team_calls p' = team_calls sample_match @ zip [0, 2] ts \<and> mset ts = {#2, 1#}"
  using shuffle_balanced [OF sample_match_ok sample_engine_ok, of "\<lambda>_. 41" sample_manager]
  by (auto simp: real_sample)

text \<open>A shuffle leaves nothing out: every way to divide the players into teams of these sizes is the result of some
  random numbers.\<close>

theorem shuffle_reaches_all:
  assumes "mset ts = mset (team_list (length (real_players (pm_players pm))))" "manager_ok p" "engine_ok eng"
  shows "\<exists>rand p'. ShuffleTeamsCommand eng rand pm p = Inr (''Successfully shuffled teams.'', p') \<and>
    team_calls p' = team_calls p @ zip (map fst (real_players (pm_players pm))) ts"
proof -
  let ?ps = "real_players (pm_players pm)"
  have "length (team_list (length ?ps)) = length ?ps" by (simp add: team_list_def)
  moreover have "length ts = length (team_list (length ?ps))" using assms(1) by (rule mset_eq_length)
  ultimately obtain rand where rand: "shuffle_loop rand (length ?ps) (team_list (length ?ps)) = ts"
    using shuffle_loop_onto [of "length ?ps" "team_list (length ?ps)" ts] assms(1) by auto
  obtain p' where "set_teams eng (zip ?ps ts) p = Inr p'"
      "team_calls p' = team_calls p @ map (\<lambda>((i, _), t). (i, t)) (zip ?ps ts)"
    using set_teams_calls [OF assms(2,3)] by blast
  moreover have "map (\<lambda>((i, _), t). (i, t)) (zip ?ps ts) = zip (map fst ?ps) ts"
    by (simp add: zip_map1 split_def comp_def)
  ultimately show ?thesis
    by (intro exI [of _ rand] exI [of _ p']) (simp add: ShuffleTeamsCommand_def reply_def Let_def rand)
qed

text \<open>C26: The registry of commands is a map from names to functions: after any sequence of registrations and removals, starting
  with distinct names, the names are distinct and every name has the function that was registered last and not
  removed.\<close>

theorem registry_refines_map:
  assumes "distinct_commands ms"
  shows "distinct_commands (commands.registry_run ops ms) \<and>
    command_lookup (commands.registry_run ops ms) = map_run ops (command_lookup ms)"
  using commands.registry_run_map [OF assms] .

theorem registry_refines_map_witness:
  "command_lookup (commands.registry_run [Put ''SetTeam'' ''Kyber'' 4, Put ''SetTeam'' ''Kyber'' 5, Del ''Restart''] []) = [''SetTeam'' \<mapsto> 5]"
  using registry_refines_map [of "[]" "[Put ''SetTeam'' ''Kyber'' 4, Put ''SetTeam'' ''Kyber'' 5, Del ''Restart'']"]
  by (simp add: distinct_commands_def fun_eq_iff command_lookup_def)

end
