(* ===== verification/Shader_Depot.thy ===== *)
theory Shader_Depot
  imports Byte_Buffer
begin

text \<open>
  Shader block depots (\<^verbatim>\<open>Module/Source/ModLoader/ResourceMerger.cpp\<close>): the blocks of a depot, how they are read and
  written, the blocks a mod replaces (\<^verbatim>\<open>ModifiedShaderBlockDepot\<close>) and the hook that rebuilds a depot of the game with the
  replaced blocks.

  The blocks are objects on the heap, and a block may point to others of its depot: \<open>sb_heap\<close> is the list of all objects
  allocated so far, an address is a position in it, and a deleted object is \<open>None\<close>. A null pointer is the address \<open>None\<close>.
  A body is polymorphic in its references: addresses in memory, 32-bit positions in a file.
\<close>

unbundle bit_operations_syntax

section \<open>Parameters\<close>

record parameter_entry =
  p_nameHash :: u32
  p_typeHash :: u32
  p_used :: u16
  p_value :: bytes
  p_parameterHash :: u64

definition ITexture :: u32 where "ITexture = 0xad0abfd3"

definition name_hash :: "u16 \<Rightarrow> u64 \<Rightarrow> u32" where
  "name_hash n h = push_bit 16 (ucast n) OR ucast (drop_bit 48 h AND 0xFFFF)"

text \<open>\<^verbatim>\<open>resize\<close> with a negative size throws.\<close>

definition ParameterEntry :: "byte_buffer \<Rightarrow> (parameter_entry \<times> byte_buffer) result" where
  "ParameterEntry =
    then_read (\<lambda>b. Inr (getLong b)) (\<lambda>h.
    then_read (\<lambda>b. Inr (getInt b)) (\<lambda>t.
    then_read (\<lambda>b. Inr (getShort b)) (\<lambda>u.
    then_read (\<lambda>b. Inr (getShort b)) (\<lambda>n.
    then_read (\<lambda>b. Inr (getInt b)) (\<lambda>sz.
    let sz = (if t = ITexture then 16 else sz) in
    if sint sz < 0 then (\<lambda>_. Inl Out_Of_Bounds)
    else then_read (\<lambda>b. Inr (getBytes (unat sz) b)) (\<lambda>v.
    give \<lparr>p_nameHash = name_hash n h, p_typeHash = t, p_used = u, p_value = v, p_parameterHash = h\<rparr>))))))"

definition param_Write :: "parameter_entry \<Rightarrow> byte_buffer \<Rightarrow> byte_buffer" where
  "param_Write p b =
    putBytes (p_value p)
      (putInt (if p_typeHash p = ITexture then 1 else word_of_nat (length (p_value p)))
        (putShort (ucast (drop_bit 16 (p_nameHash p)))
          (putShort (p_used p) (putInt (p_typeHash p) (putLong (p_parameterHash p) b)))))"


section \<open>Padding\<close>

text \<open>The two loops run until the position is a multiple of the alignment; for a power of two that takes fewer steps than
  the alignment.\<close>

fun pad_loop :: "nat \<Rightarrow> nat \<Rightarrow> byte_buffer \<Rightarrow> byte_buffer" where
  "pad_loop 0 a b = b"
| "pad_loop (Suc k) a b = (if wpos b mod a \<noteq> 0 then pad_loop k a (bb_put 0 b) else b)"

definition WritePadding :: "nat \<Rightarrow> byte_buffer \<Rightarrow> byte_buffer" where
  "WritePadding a b = pad_loop a a b"

fun skip_loop :: "nat \<Rightarrow> nat \<Rightarrow> byte_buffer \<Rightarrow> byte_buffer" where
  "skip_loop 0 a b = b"
| "skip_loop (Suc k) a b = (if rpos b mod a \<noteq> 0 then skip_loop k a (setReadPos (pos_add (rpos b) 1) b) else b)"

definition ReadPadding :: "nat \<Rightarrow> byte_buffer \<Rightarrow> byte_buffer" where
  "ReadPadding a b = skip_loop a a b"


section \<open>Blocks\<close>

datatype 'r sb_body =
    Entry_Block "'r list"
  | Persistent_Block "parameter_entry list"
  | Static_Block "'r list"
  | Mesh_Block bytes u32 "parameter_entry list"
  | Variation_Block "(bytes \<times> u32) list"

record 'r sb_object =
  so_index :: u32
  so_hash :: u64
  so_body :: "'r sb_body"

type_synonym address = "nat option"
type_synonym sb_heap = "address sb_object option list"

text \<open>\<^verbatim>\<open>new\<close> for the five types of block; for another number the pointer stays null.\<close>

definition new_block :: "u64 \<Rightarrow> address sb_object option" where
  "new_block t =
    map_option (\<lambda>body. \<lparr>so_index = 0, so_hash = 0, so_body = body\<rparr>)
      (if t = 0 then Some (Entry_Block [])
       else if t = 1 then Some (Persistent_Block [])
       else if t = 2 then Some (Static_Block [])
       else if t = 3 then Some (Mesh_Block (replicate 16 0) 0 [])
       else if t = 4 then Some (Variation_Block [])
       else None)"

definition alloc_block :: "u64 \<Rightarrow> sb_heap \<Rightarrow> address \<times> sb_heap" where
  "alloc_block t h = (case new_block t of None \<Rightarrow> (None, h) | Some ob \<Rightarrow> (Some (length h), h @ [Some ob]))"

text \<open>The object at an address.\<close>

definition deref :: "sb_heap \<Rightarrow> address \<Rightarrow> address sb_object result" where
  "deref h a =
    (case a of
       None \<Rightarrow> Inl Null_Deref
     | Some i \<Rightarrow> if i < length h then (case h ! i of None \<Rightarrow> Inl Freed_Access | Some ob \<Rightarrow> Inr ob) else Inl Out_Of_Bounds)"

definition store :: "address \<Rightarrow> address sb_object \<Rightarrow> sb_heap \<Rightarrow> sb_heap" where
  "store a ob h = (case a of None \<Rightarrow> h | Some i \<Rightarrow> h[i := Some ob])"

definition free :: "address \<Rightarrow> sb_heap \<Rightarrow> sb_heap" where
  "free a h = (case a of None \<Rightarrow> h | Some i \<Rightarrow> h[i := None])"

text \<open>The counted loops compare a 32-bit counter with a 64-bit count: they never end on a count of \<open>2 ^ 32\<close> or more.\<close>

definition counted :: "u64 \<Rightarrow> (byte_buffer \<Rightarrow> ('a \<times> byte_buffer) result) \<Rightarrow> byte_buffer \<Rightarrow> ('a list \<times> byte_buffer) result" where
  "counted n dec = (if unat n < 2 ^ 32 then read_n dec (unat n) else (\<lambda>_. Inl Out_Of_Fuel))"

text \<open>\<^verbatim>\<open>(*entries)[index]\<close>, where the list of entries may be a null pointer.\<close>

definition read_ref :: "address list option \<Rightarrow> byte_buffer \<Rightarrow> (address \<times> byte_buffer) result" where
  "read_ref entries =
    then_read (\<lambda>b. Inr (getInt b)) (\<lambda>index.
      case entries of
        None \<Rightarrow> (\<lambda>_. Inl Null_Deref)
      | Some es \<Rightarrow> if 0 \<le> sint index \<and> unat index < length es then give (es ! unat index) else (\<lambda>_. Inl Out_Of_Bounds))"

definition jump :: "u64 \<Rightarrow> (byte_buffer \<Rightarrow> ('a \<times> byte_buffer) result) \<Rightarrow> byte_buffer \<Rightarrow> ('a \<times> byte_buffer) result" where
  "jump offset k b = k (setReadPos (unat (ucast offset :: u32)) b)"

definition read_variation :: "byte_buffer \<Rightarrow> ((bytes \<times> u32) \<times> byte_buffer) result" where
  "read_variation =
    then_read (\<lambda>b. Inr (getBytes 16 b)) (\<lambda>guid. then_read (\<lambda>b. Inr (getInt b)) (\<lambda>i. give (guid, i)))"

text \<open>\<^verbatim>\<open>Read\<close> of the five classes, behind the hash: the offset and size of the contents, then the contents, which are
  appended to what the object has. An entry block is a static block.\<close>

definition read_static :: "address list option \<Rightarrow> (address list \<Rightarrow> address sb_body) \<Rightarrow> address list \<Rightarrow> byte_buffer \<Rightarrow>
    (address sb_body \<times> byte_buffer) result" where
  "read_static entries block rs =
    then_read (\<lambda>b. Inr (getLong b)) (\<lambda>offset. then_read (\<lambda>b. Inr (getLong b)) (\<lambda>n.
      jump offset (then_read (counted n (read_ref entries)) (\<lambda>xs. give (block (rs @ xs))))))"

definition read_persistent :: "parameter_entry list \<Rightarrow> byte_buffer \<Rightarrow> (address sb_body \<times> byte_buffer) result" where
  "read_persistent ps =
    then_read (\<lambda>b. Inr (getLong b)) (\<lambda>offset. then_read (\<lambda>b. Inr (getLong b)) (\<lambda>n.
      jump offset (then_read (\<lambda>b. Inr (getInt b)) (\<lambda>count.
        then_read (read_n ParameterEntry (unat count)) (\<lambda>xs. give (Persistent_Block (ps @ xs)))))))"

definition read_mesh :: "parameter_entry list \<Rightarrow> byte_buffer \<Rightarrow> (address sb_body \<times> byte_buffer) result" where
  "read_mesh ps =
    then_read (\<lambda>b. Inr (getLong b)) (\<lambda>offset. then_read (\<lambda>b. Inr (getInt b)) (\<lambda>n.
      then_read (\<lambda>b. Inr (getInt b)) (\<lambda>lod. then_read (\<lambda>b. Inr (getBytes 16 b)) (\<lambda>guid.
        jump offset (then_read (\<lambda>b. Inr (getInt b)) (\<lambda>count.
          then_read (read_n ParameterEntry (unat count)) (\<lambda>xs. give (Mesh_Block guid lod (ps @ xs)))))))))"

definition read_variations :: "(bytes \<times> u32) list \<Rightarrow> byte_buffer \<Rightarrow> (address sb_body \<times> byte_buffer) result" where
  "read_variations vs =
    then_read (\<lambda>b. Inr (getLong b)) (\<lambda>offset. then_read (\<lambda>b. Inr (getLong b)) (\<lambda>n.
      jump offset (then_read (counted n read_variation) (\<lambda>xs. give (Variation_Block (vs @ xs))))))"

definition read_body :: "address list option \<Rightarrow> address sb_body \<Rightarrow> byte_buffer \<Rightarrow> (address sb_body \<times> byte_buffer) result" where
  "read_body entries body =
    (case body of
       Entry_Block rs \<Rightarrow> read_static entries Entry_Block rs
     | Static_Block rs \<Rightarrow> read_static entries Static_Block rs
     | Persistent_Block ps \<Rightarrow> read_persistent ps
     | Mesh_Block _ _ ps \<Rightarrow> read_mesh ps
     | Variation_Block vs \<Rightarrow> read_variations vs)"

lemmas read_body_defs = read_body_def read_static_def read_persistent_def read_mesh_def read_variations_def

definition sb_Read :: "address list option \<Rightarrow> address sb_object \<Rightarrow> byte_buffer \<Rightarrow> (address sb_object \<times> byte_buffer) result" where
  "sb_Read entries ob =
    then_read (\<lambda>b. Inr (getLong b)) (\<lambda>hash.
      then_read (read_body entries (so_body ob)) (\<lambda>body. give (ob\<lparr>so_hash := hash, so_body := body\<rparr>)))"

text \<open>\<^verbatim>\<open>Write\<close> of the five classes: the contents, padding, the position of the block, its hash, an entry of the relocation
  table, and the offset and size of the contents. The references are written as the positions of the objects they point to.\<close>

fun write_refs :: "sb_heap \<Rightarrow> address list \<Rightarrow> byte_buffer \<Rightarrow> byte_buffer result" where
  "write_refs h [] b = Inr b"
| "write_refs h (a # as) b = (case deref h a of Inl e \<Rightarrow> Inl e | Inr ob \<Rightarrow> write_refs h as (putInt (so_index ob) b))"

definition write_params :: "parameter_entry list \<Rightarrow> byte_buffer \<Rightarrow> byte_buffer" where
  "write_params ps b = fold param_Write ps (putInt (word_of_nat (length ps)) b)"

definition write_variations :: "(bytes \<times> u32) list \<Rightarrow> byte_buffer \<Rightarrow> byte_buffer" where
  "write_variations vs b = fold (\<lambda>(guid, i) b. putInt i (putBytes guid b)) vs b"

definition write_contents :: "sb_heap \<Rightarrow> address sb_body \<Rightarrow> byte_buffer \<Rightarrow> byte_buffer result" where
  "write_contents h body b =
    (case body of
       Entry_Block as \<Rightarrow> write_refs h as b
     | Static_Block as \<Rightarrow> write_refs h as b
     | Persistent_Block ps \<Rightarrow> Inr (write_params ps b)
     | Mesh_Block guid lod ps \<Rightarrow> Inr (write_params ps b)
     | Variation_Block vs \<Rightarrow> Inr (write_variations vs b))"

text \<open>The fields behind the hash: \<open>sz\<close> is the number of bytes written before the padding.\<close>

definition write_tail :: "'r sb_body \<Rightarrow> nat \<Rightarrow> u64 \<Rightarrow> byte_buffer \<Rightarrow> byte_buffer" where
  "write_tail body offset sz b =
    (let b = putLong (word_of_nat offset) b
     in case body of
          Entry_Block as \<Rightarrow> putLong (word_of_nat (length as)) b
        | Static_Block as \<Rightarrow> putLong (word_of_nat (length as)) b
        | Persistent_Block ps \<Rightarrow> putLong sz b
        | Mesh_Block guid lod ps \<Rightarrow> putBytes guid (putInt lod (putInt (ucast sz) b))
        | Variation_Block vs \<Rightarrow> putLong (word_of_nat (length vs)) b)"

definition sb_Write :: "sb_heap \<Rightarrow> address sb_object \<Rightarrow> byte_buffer \<times> u32 list \<Rightarrow> (nat \<times> byte_buffer \<times> u32 list) result" where
  "sb_Write h ob w =
    (case w of (b0, table) \<Rightarrow>
       let offset = wpos b0
       in case write_contents h (so_body ob) b0 of
            Inl e \<Rightarrow> Inl e
          | Inr b1 \<Rightarrow>
              let b2 = WritePadding 8 b1;
                  b3 = putLong (so_hash ob) b2
              in Inr (wpos b2, write_tail (so_body ob) offset (word_of_nat (wpos b1) - word_of_nat offset) b3, table @ [word_of_nat (wpos b3)]))"


section \<open>The blocks of the mods\<close>

record modified_depot =
  d_resources :: "address list"
  d_hashes :: "u64 list"

text \<open>\<^verbatim>\<open>eastl::find(...) - begin()\<close>: the length of the list when there is no such element.\<close>

fun index_of :: "'a \<Rightarrow> 'a list \<Rightarrow> nat" where
  "index_of x [] = 0"
| "index_of x (y # ys) = (if x = y then 0 else Suc (index_of x ys))"

definition ContainsHash :: "u64 \<Rightarrow> modified_depot \<Rightarrow> bool" where
  "ContainsHash hash d \<longleftrightarrow> index_of hash (d_hashes d) \<noteq> length (d_hashes d)"

definition GetResource :: "u64 \<Rightarrow> modified_depot \<Rightarrow> address" where
  "GetResource hash d =
    (let i = index_of hash (d_hashes d) in if i \<noteq> length (d_hashes d) then d_resources d ! i else None)"

definition AddResource :: "u64 \<Rightarrow> address \<Rightarrow> modified_depot \<Rightarrow> modified_depot" where
  "AddResource hash a d =
    (let i = index_of hash (d_hashes d);
         d = (if i = length (d_hashes d) then d\<lparr>d_hashes := d_hashes d @ [hash], d_resources := d_resources d @ [None]\<rparr> else d)
     in d\<lparr>d_resources := (d_resources d)[i := a]\<rparr>)"

text \<open>The table of a depot: offset and type of every block, with an object for each.\<close>

fun read_table :: "nat \<Rightarrow> sb_heap \<Rightarrow> byte_buffer \<Rightarrow> (u64 list \<times> address list) \<times> sb_heap \<times> byte_buffer" where
  "read_table 0 h b = (([], []), h, b)"
| "read_table (Suc n) h b =
    (case getLong b of (offset, b1) \<Rightarrow> case getLong b1 of (t, b2) \<Rightarrow> case alloc_block t h of (a, h1) \<Rightarrow>
     case read_table n h1 b2 of ((os, as), h2, b3) \<Rightarrow> ((offset # os, a # as), h2, b3))"

text \<open>Reading the blocks of a mod, whose references have no list to look them up in. A block of an unknown type is a trap.\<close>

fun load_blocks :: "u64 list \<Rightarrow> address list \<Rightarrow> sb_heap \<Rightarrow> byte_buffer \<Rightarrow> (u64 list \<times> sb_heap \<times> byte_buffer) result" where
  "load_blocks (offset # os) (a # as) h b =
    (if a = None then Inl Unimplemented
     else case deref h a of
       Inl e \<Rightarrow> Inl e
     | Inr ob \<Rightarrow>
         (case sb_Read None ob (setReadPos (unat (ucast offset :: u32)) b) of
            Inl e \<Rightarrow> Inl e
          | Inr (ob, b1) \<Rightarrow>
              (case load_blocks os as (store a ob h) b1 of
                 Inl e \<Rightarrow> Inl e
               | Inr (hashes, h2, b2) \<Rightarrow> Inr (so_hash ob # hashes, h2, b2))))"
| "load_blocks _ _ h b = Inr ([], h, b)"

definition replace_blocks :: "u64 list \<Rightarrow> address list \<Rightarrow> modified_depot \<Rightarrow> modified_depot" where
  "replace_blocks hashes resources d =
    d\<lparr>d_resources := map2 (\<lambda>hash a. let i = index_of hash hashes in if i \<noteq> length hashes then resources ! i else a)
      (d_hashes d) (d_resources d)\<rparr>"

definition add_blocks :: "u64 list \<Rightarrow> address list \<Rightarrow> modified_depot \<Rightarrow> modified_depot" where
  "add_blocks hashes resources d =
    fold (\<lambda>(hash, a) d. if \<not> ContainsHash hash d then AddResource hash a d else d) (zip hashes resources) d"

definition depot_Load :: "byte_buffer \<Rightarrow> modified_depot \<times> sb_heap \<Rightarrow> (modified_depot \<times> sb_heap) result" where
  "depot_Load b s =
    (case s of (d, h) \<Rightarrow> case getInt b of (count, b) \<Rightarrow>
     case read_table (unat count) h (ReadPadding 16 b) of ((offsets, resources), h, b) \<Rightarrow>
     (case load_blocks offsets resources h b of
        Inl e \<Rightarrow> Inl e
      | Inr (hashes, h, b) \<Rightarrow> Inr (add_blocks hashes resources (replace_blocks hashes resources d), h)))"


section \<open>Rebuilding a depot\<close>

text \<open>The loop that reads the blocks of the game's depot and puts the blocks of the mods in their place.\<close>

definition fix_block :: "modified_depot \<Rightarrow> nat \<Rightarrow> u64 \<Rightarrow> address list \<times> sb_heap \<times> byte_buffer \<Rightarrow> (address list \<times> sb_heap \<times> byte_buffer) result" where
  "fix_block d i offset s =
    (case s of (resources, h, b) \<Rightarrow>
     (case deref h (resources ! i) of
        Inl e \<Rightarrow> Inl e
      | Inr ob \<Rightarrow>
          (case sb_Read (Some resources) ob (setReadPos (unat (ucast offset :: u32)) b) of
             Inl e \<Rightarrow> Inl e
           | Inr (ob, b) \<Rightarrow>
               let h = store (resources ! i) ob h;
                   existing = GetResource (so_hash ob) d;
                   (resources, h) =
                     (if ContainsHash (so_hash ob) d \<and> existing \<noteq> None
                      then (resources[i := existing], free (resources ! i) h)
                      else (resources, h))
               in case deref h (resources ! i) of
                    Inl e \<Rightarrow> Inl e
                  | Inr ob \<Rightarrow> Inr (resources, store (resources ! i) (ob\<lparr>so_index := word_of_nat i\<rparr>) h, b))))"

fun fix_loop :: "modified_depot \<Rightarrow> nat \<Rightarrow> u64 list \<Rightarrow> address list \<times> sb_heap \<times> byte_buffer \<Rightarrow> (address list \<times> sb_heap \<times> byte_buffer) result" where
  "fix_loop d i [] s = Inr s"
| "fix_loop d i (offset # os) s = (case fix_block d i offset s of Inl e \<Rightarrow> Inl e | Inr s \<Rightarrow> fix_loop d (Suc i) os s)"

fun write_blocks :: "sb_heap \<Rightarrow> nat \<Rightarrow> address list \<Rightarrow> byte_buffer \<times> u32 list \<Rightarrow> (nat list \<times> byte_buffer \<times> u32 list) result" where
  "write_blocks h i [] (b, table) = Inr ([], b, table)"
| "write_blocks h i (a # as) (b, table) =
    (case deref h a of
       Inl e \<Rightarrow> Inl e
     | Inr ob \<Rightarrow>
         (case sb_Write h ob (b, table) of
            Inl e \<Rightarrow> Inl e
          | Inr (start, b, table) \<Rightarrow>
              (case write_blocks h (Suc i) as (b, table @ [word_of_nat (i * 16)]) of
                 Inl e \<Rightarrow> Inl e
               | Inr (starts, b, table) \<Rightarrow> Inr (start # starts, b, table))))"

definition sb_type :: "'r sb_body \<Rightarrow> u64" where
  "sb_type body =
    (case body of Entry_Block _ \<Rightarrow> 0 | Persistent_Block _ \<Rightarrow> 1 | Static_Block _ \<Rightarrow> 2 | Mesh_Block _ _ _ \<Rightarrow> 3 | Variation_Block _ \<Rightarrow> 4)"

text \<open>The table, written last.\<close>

fun write_table :: "sb_heap \<Rightarrow> nat list \<Rightarrow> address list \<Rightarrow> byte_buffer \<Rightarrow> byte_buffer result" where
  "write_table h (start # starts) (a # as) b =
    (case deref h a of
       Inl e \<Rightarrow> Inl e
     | Inr ob \<Rightarrow> write_table h starts as (putLong (sb_type (so_body ob)) (putLong (word_of_nat start) b)))"
| "write_table h _ _ b = Inr b"

text \<open>The hook, without the call of the game's own function: what it puts in place of the two ranges and of the counts in
  the meta data.\<close>

record fixed_depot =
  fd_data :: bytes
  fd_reloc :: "u32 list"
  fd_fullSize :: u32
  fd_relocTableCount :: u32
  fd_sbResourceCount :: u32

definition write_depot :: "sb_heap \<Rightarrow> address list \<Rightarrow> fixed_depot result" where
  "write_depot h resources =
    (case write_blocks h 0 resources (fold (\<lambda>_ b. putLong 0 (putLong 0 b)) resources bb_new, []) of
       Inl e \<Rightarrow> Inl e
     | Inr (starts, w, table) \<Rightarrow>
         let w = WritePadding 16 w;
             fullSize = wpos w
         in case write_table h starts resources (setWritePos 0 w) of
              Inl e \<Rightarrow> Inl e
            | Inr w \<Rightarrow> Inr \<lparr>fd_data = take fullSize (buf w), fd_reloc = table, fd_fullSize = word_of_nat fullSize,
                fd_relocTableCount = word_of_nat (length table * 4), fd_sbResourceCount = word_of_nat (length resources)\<rparr>)"

definition FixupTurboBulk :: "modified_depot \<times> sb_heap \<Rightarrow> u32 \<Rightarrow> bytes \<Rightarrow> fixed_depot result" where
  "FixupTurboBulk s sbResourceCount ea =
    (case s of (d, h) \<Rightarrow>
     case read_table (unat sbResourceCount) h (bb_of_array ea) of ((offsets, resources), h, b) \<Rightarrow>
     (case fix_loop d 0 offsets (resources, h, b) of
        Inl e \<Rightarrow> Inl e
      | Inr (resources, h, b) \<Rightarrow> write_depot h resources))"

section \<open>Appending\<close>

text \<open>A function on buffers \<open>appends\<close> a byte string, which may be empty.\<close>

definition appends :: "(byte_buffer \<Rightarrow> byte_buffer) \<Rightarrow> bytes \<Rightarrow> bool" where
  "appends f ys \<longleftrightarrow> (\<forall>b xs. holds b xs \<longrightarrow> length xs + length ys < 2 ^ 32 \<longrightarrow> holds (f b) (xs @ ys))"

lemma appendsD: "appends f ys \<Longrightarrow> holds b xs \<Longrightarrow> length xs + length ys < 2 ^ 32 \<Longrightarrow> holds (f b) (xs @ ys)"
  by (simp add: appends_def)

lemma appends_basic:
  "appends (putBytes ys) ys" "appends (putLong w) (bytes64 w)" "appends (putInt v) (bytes32 v)" "appends (putShort u) (bytes16 u)"
  by (simp_all add: appends_def holds_putBytes holds_putLong holds_putInt holds_putShort)

lemma appends_comp: "appends f xs \<Longrightarrow> appends g ys \<Longrightarrow> appends (\<lambda>b. g (f b)) (xs @ ys)"
  unfolding appends_def by (metis (no_types, lifting) add.assoc add_lessD1 append.assoc length_append)

lemma appends_fold: "(\<And>x. x \<in> set xs \<Longrightarrow> appends (f x) (enc x)) \<Longrightarrow> appends (fold f xs) (concat (map enc xs))"
proof (induction xs)
  case Nil
  then show ?case by (simp add: appends_def)
next
  case (Cons x xs)
  then have "appends (\<lambda>b. fold f xs (f x b)) (enc x @ concat (map enc xs))" by (intro appends_comp) auto
  then show ?case by (simp add: comp_def)
qed

lemma holds_wpos: "holds b xs \<Longrightarrow> wpos b = length xs"
  by (simp add: holds_def at_end_def)

definition align_len :: "nat \<Rightarrow> nat \<Rightarrow> nat" where
  "align_len a n = (a - n mod a) mod a"

lemma align_len_less: "0 < a \<Longrightarrow> align_len a n < a"
  by (simp add: align_len_def)

lemma align_len_Suc: "n mod a \<noteq> 0 \<Longrightarrow> 0 < a \<Longrightarrow> align_len a n = Suc (align_len a (Suc n))"
proof -
  assume a: "n mod a \<noteq> 0" "0 < a"
  have "n mod a < a" using a(2) by simp
  then show ?thesis using a by (cases "Suc (n mod a) = a") (simp_all add: align_len_def mod_Suc Suc_diff_Suc)
qed

lemma holds_pad_loop:
  assumes "holds b xs" "length xs + align_len a (length xs) < 2 ^ 32" "align_len a (length xs) \<le> k" "0 < a"
  shows "holds (pad_loop k a b) (xs @ replicate (align_len a (length xs)) 0)"
  using assms
proof (induction k arbitrary: b xs)
  case (Suc k)
  show ?case
  proof (cases "length xs mod a = 0")
    case True
    then show ?thesis using Suc.prems by (simp add: holds_wpos align_len_def)
  next
    case False
    note p = align_len_Suc [OF False Suc.prems(4)]
    have "holds (bb_put 0 b) (xs @ [0])" using Suc.prems p by (intro holds_put) auto
    then have "holds (pad_loop k a (bb_put 0 b)) ((xs @ [0]) @ replicate (align_len a (length (xs @ [0]))) 0)"
      using Suc.prems p by (intro Suc.IH) auto
    then show ?thesis using False Suc.prems(1) p by (simp add: holds_wpos)
  qed
qed simp

lemma holds_WritePadding:
  assumes "holds b xs" "length xs + align_len a (length xs) < 2 ^ 32" "0 < a"
  shows "holds (WritePadding a b) (xs @ replicate (align_len a (length xs)) 0)"
  unfolding WritePadding_def using assms align_len_less [OF assms(3), of "length xs"] by (intro holds_pad_loop) simp_all


section \<open>Files\<close>

text \<open>What a parameter and the contents of a block are in a file.\<close>

definition param_enc :: "parameter_entry \<Rightarrow> bytes" where
  "param_enc p = bytes64 (p_parameterHash p) @ bytes32 (p_typeHash p) @ bytes16 (p_used p) @
    bytes16 (ucast (drop_bit 16 (p_nameHash p))) @
    bytes32 (if p_typeHash p = ITexture then 1 else word_of_nat (length (p_value p))) @ p_value p"

definition param_ok :: "parameter_entry \<Rightarrow> bool" where
  "param_ok p \<longleftrightarrow> p_nameHash p = name_hash (ucast (drop_bit 16 (p_nameHash p))) (p_parameterHash p) \<and>
    (if p_typeHash p = ITexture then length (p_value p) = 16 else length (p_value p) < 2 ^ 31)"

fun body_enc :: "u32 sb_body \<Rightarrow> bytes" where
  "body_enc (Entry_Block is) = concat (map bytes32 is)"
| "body_enc (Static_Block is) = concat (map bytes32 is)"
| "body_enc (Persistent_Block ps) = bytes32 (word_of_nat (length ps)) @ concat (map param_enc ps)"
| "body_enc (Mesh_Block guid lod ps) = bytes32 (word_of_nat (length ps)) @ concat (map param_enc ps)"
| "body_enc (Variation_Block vs) = concat (map (\<lambda>(guid, i). guid @ bytes32 i) vs)"

fun tail_enc :: "'r sb_body \<Rightarrow> u64 \<Rightarrow> bytes" where
  "tail_enc (Entry_Block is) sz = bytes64 (word_of_nat (length is))"
| "tail_enc (Static_Block is) sz = bytes64 (word_of_nat (length is))"
| "tail_enc (Persistent_Block ps) sz = bytes64 sz"
| "tail_enc (Mesh_Block guid lod ps) sz = bytes32 (ucast sz) @ bytes32 lod @ guid"
| "tail_enc (Variation_Block vs) sz = bytes64 (word_of_nat (length vs))"

fun body_ok :: "'r sb_body \<Rightarrow> bool" where
  "body_ok (Entry_Block is) \<longleftrightarrow> length is < 2 ^ 32"
| "body_ok (Static_Block is) \<longleftrightarrow> length is < 2 ^ 32"
| "body_ok (Persistent_Block ps) \<longleftrightarrow> length ps < 2 ^ 32 \<and> list_all param_ok ps"
| "body_ok (Mesh_Block guid lod ps) \<longleftrightarrow> length guid = 16 \<and> length ps < 2 ^ 32 \<and> list_all param_ok ps"
| "body_ok (Variation_Block vs) \<longleftrightarrow> length vs < 2 ^ 32 \<and> list_all (\<lambda>v. length (fst v) = 16) vs"

type_synonym sb_value = "u64 \<times> u32 sb_body"

text \<open>The block \<open>v\<close> stands at the position \<open>off\<close> of a file, and neither its header nor its contents begin before \<open>lo\<close>.\<close>

definition block_at :: "nat \<Rightarrow> bytes \<Rightarrow> nat \<Rightarrow> sb_value \<Rightarrow> bool" where
  "block_at lo B off v \<longleftrightarrow> lo \<le> off \<and> off < 2 ^ 32 \<and>
    (\<exists>at sz. lo \<le> at \<and> at < 2 ^ 32 \<and>
      prefix (bytes64 (fst v) @ bytes64 (word_of_nat at) @ tail_enc (snd v) sz) (drop off B) \<and>
      prefix (body_enc (snd v)) (drop at B))"

lemma block_at_mono: "block_at lo B off v \<Longrightarrow> lo' \<le> lo \<Longrightarrow> block_at lo' B off v"
  unfolding block_at_def by (meson order_trans)

lemma block_at_cong: "block_at lo B off v \<Longrightarrow> (\<And>i. lo \<le> i \<Longrightarrow> drop i B = drop i C) \<Longrightarrow> block_at lo C off v"
  unfolding block_at_def by metis

lemma prefix_drop_more: "prefix xs (drop i B) \<Longrightarrow> prefix xs (drop i (B @ C))"
  by (cases "i \<le> length B") (auto simp: prefix_def)

lemma block_at_append: "block_at lo B off v \<Longrightarrow> block_at lo (B @ C) off v"
  unfolding block_at_def by (meson prefix_drop_more)

text \<open>The table: the offset and the type of every block.\<close>

definition table_enc :: "nat list \<Rightarrow> sb_value list \<Rightarrow> bytes" where
  "table_enc offs vs = concat (map2 (\<lambda>off v. bytes64 (word_of_nat off) @ bytes64 (sb_type (snd v))) offs vs)"

definition depot_at :: "bytes \<Rightarrow> nat \<Rightarrow> sb_value list \<Rightarrow> bool" where
  "depot_at B pos vs \<longleftrightarrow> length B < 2 ^ 32 \<and>
    (\<exists>offs. length offs = length vs \<and> prefix (table_enc offs vs) (drop pos B) \<and>
      list_all2 (block_at 0 B) offs vs)"


section \<open>Reading\<close>

lemma sint_nonneg_small: "n < 2 ^ 31 \<Longrightarrow> \<not> sint (word_of_nat n :: u32) < 0"
  by (simp add: sint_small)

lemma decodes_ParameterEntry:
  assumes "param_ok p"
  shows "decodes ParameterEntry p (param_enc p)"
proof -
  let ?sz = "if p_typeHash p = ITexture then 16 else if p_typeHash p = ITexture then 1 else word_of_nat (length (p_value p)) :: u32"
  have sz: "\<not> sint ?sz < 0" "unat ?sz = length (p_value p)"
    using assms by (auto simp: param_ok_def sint_nonneg_small unat_small split: if_splits)
  show ?thesis
    unfolding ParameterEntry_def param_enc_def Let_def
    by (intro int_step) (simp only: sz if_False, rule decodes_last [OF decodes_bytes], use assms in \<open>simp_all add: param_ok_def\<close>)
qed

lemma decodes_read_n2:
  assumes "list_all2 (\<lambda>x y. decodes dec y (enc x)) xs ys" "n = length xs"
  shows "decodes (read_n dec n) ys (concat (map enc xs))"
  using assms
proof (induction xs ys arbitrary: n rule: list_all2_induct)
  case Nil
  then show ?case by (simp add: decodes_def)
next
  case (Cons x xs y ys)
  then show ?case by (simp add: decodes_def at_read_append)
qed

lemma decodes_params: "list_all param_ok ps \<Longrightarrow> n = length ps \<Longrightarrow> decodes (read_n ParameterEntry n) ps (concat (map param_enc ps))"
  by (rule decodes_read_n) (auto simp: list_all_iff decodes_ParameterEntry)

lemma decodes_variation: "length (fst v) = 16 \<Longrightarrow> decodes read_variation v ((\<lambda>(guid, i). guid @ bytes32 i) v)"
  unfolding read_variation_def by (cases v) (auto intro!: decodes_then decodes_last decodes_rules)

definition ref_to :: "address list option \<Rightarrow> u32 \<Rightarrow> address \<Rightarrow> bool" where
  "ref_to entries i a \<longleftrightarrow> (case entries of None \<Rightarrow> False | Some es \<Rightarrow> 0 \<le> sint i \<and> unat i < length es \<and> es ! unat i = a)"

lemma decodes_ref: "ref_to entries i a \<Longrightarrow> decodes (read_ref entries) a (bytes32 i)"
  by (auto simp: read_ref_def ref_to_def decodes_def then_read_def getInt_at give_def split: option.splits)

lemma decodes_refs: "list_all2 (ref_to entries) is as \<Longrightarrow> length is < 2 ^ 32 \<Longrightarrow>
    decodes (counted (word_of_nat (length is)) (read_ref entries)) as (concat (map bytes32 is))"
  unfolding counted_def by (auto simp: unat_small intro!: decodes_read_n2 decodes_ref elim: list_all2_mono)

text \<open>A reader that follows offsets: it returns \<open>x\<close> and leaves the contents of the buffer alone.\<close>

definition reads_to :: "(byte_buffer \<Rightarrow> ('a \<times> byte_buffer) result) \<Rightarrow> 'a \<Rightarrow> byte_buffer \<Rightarrow> bool" where
  "reads_to dec x b \<longleftrightarrow> (\<exists>b'. dec b = Inr (x, b') \<and> buf b' = buf b)"

lemma reads_decodes: "decodes dec x xs \<Longrightarrow> at_read b xs \<Longrightarrow> reads_to dec x b"
  by (auto simp: reads_to_def decodes_def)

lemma reads_then:
  assumes "decodes dec y xs" "at_read b (xs @ ys)" "\<And>c. buf c = buf b \<Longrightarrow> at_read c ys \<Longrightarrow> reads_to (k y) x c"
  shows "reads_to (then_read dec k) x b"
  using assms(1,2) assms(3) [of "advance (length xs) b"] by (auto simp: reads_to_def decodes_def then_read_def at_read_append)

lemma reads_give: "reads_to dec y b \<Longrightarrow> f y = x \<Longrightarrow> reads_to (then_read dec (\<lambda>z. give (f z))) x b"
  by (auto simp: reads_to_def then_read_def give_def)

lemma setReadPos_sel [simp]: "buf (setReadPos i b) = buf b" "rpos (setReadPos i b) = i"
  by (simp_all add: setReadPos_def)

lemma low_word: "i < 2 ^ 32 \<Longrightarrow> unat (ucast (word_of_nat i :: u64) :: u32) = i"
proof -
  assume i: "i < 2 ^ 32"
  have "(ucast (word_of_nat i :: u64) :: u32) = word_of_nat (unat (word_of_nat i :: u64))" by simp
  also have "\<dots> = word_of_nat i" using i by (subst unat_small) simp_all
  finally show ?thesis using i by (simp only: unat_small)
qed

lemma reads_jump: "i < 2 ^ 32 \<Longrightarrow> reads_to k x (setReadPos i b) \<Longrightarrow> reads_to (jump (word_of_nat i) k) x b"
  by (simp only: jump_def reads_to_def low_word setReadPos_sel)

lemma at_read_setReadPos: "length (buf b) < 2 ^ 32 \<Longrightarrow> prefix xs (drop i (buf b)) \<Longrightarrow> at_read (setReadPos i b) xs"
  by (simp add: at_read_def)

lemma decodes_variations: "list_all (\<lambda>v. length (fst v) = 16) vs \<Longrightarrow> length vs < 2 ^ 32 \<Longrightarrow>
    decodes (counted (word_of_nat (length vs)) read_variation) vs (concat (map (\<lambda>(guid, i). guid @ bytes32 i) vs))"
  unfolding counted_def by (auto simp: unat_small list_all_iff decodes_variation intro!: decodes_read_n)

lemma reads_params:
  assumes "at_read b (bytes32 (word_of_nat (length ps)) @ concat (map param_enc ps))" "length ps < 2 ^ 32" "list_all param_ok ps" "f ps = x"
  shows "reads_to (then_read (\<lambda>b. Inr (getInt b)) (\<lambda>count. then_read (read_n ParameterEntry (unat count)) (\<lambda>xs. give (f xs)))) x b"
  by (rule reads_then [OF decodes_ints(2) assms(1)], rule reads_give [OF reads_decodes])
    (use assms in \<open>auto simp: unat_small intro: decodes_params\<close>)

lemma reads_offset:
  assumes "at_read b (bytes64 (word_of_nat at) @ bytes64 n)" "at < 2 ^ 32" "prefix xs (drop at (buf b))"
    "\<And>c. at_read c xs \<Longrightarrow> reads_to (k n) x c"
  shows "reads_to (then_read (\<lambda>b. Inr (getLong b)) (\<lambda>offset. then_read (\<lambda>b. Inr (getLong b)) (\<lambda>n. jump offset (k n)))) x b"
proof -
  have j: "reads_to (jump (word_of_nat at) (k n)) x c" if "buf c = buf b" for c
    using that assms(1,3) by (intro reads_jump assms(2,4) at_read_setReadPos) (simp_all add: at_read_append at_read_def)
  have t: "reads_to (then_read (\<lambda>b. Inr (getLong b)) (\<lambda>n. jump (word_of_nat at) (k n))) x c"
    if "buf c = buf b" "at_read c (bytes64 n)" for c
    using that j by (intro reads_then [OF decodes_ints(1), of _ _ "[]"]) simp_all
  show ?thesis by (rule reads_then [OF decodes_ints(1) assms(1)]) (rule t)
qed

lemma reads_counted:
  assumes "at_read b (bytes64 (word_of_nat at) @ bytes64 n)" "at < 2 ^ 32" "prefix xs (drop at (buf b))"
    "decodes (counted n dec) ys xs" "f ys = x"
  shows "reads_to (then_read (\<lambda>b. Inr (getLong b)) (\<lambda>offset. then_read (\<lambda>b. Inr (getLong b)) (\<lambda>n.
    jump offset (then_read (counted n dec) (\<lambda>xs. give (f xs)))))) x b"
  by (rule reads_offset [OF assms(1-3)], rule reads_give [OF reads_decodes [OF assms(4)]]) (auto simp: assms(5))

lemma reads_body:
  assumes "at_read b (bytes64 (word_of_nat at) @ tail_enc v sz)" "at < 2 ^ 32" "prefix (body_enc v) (drop at (buf b))"
    "body_ok v" "rel_sb_body (ref_to entries) v v'" "new_block (sb_type v) = Some ob"
  shows "reads_to (read_body entries (so_body ob)) v' b"
proof (cases v)
  case (Entry_Block rs)
  then obtain as where as: "v' = Entry_Block as" "list_all2 (ref_to entries) rs as" using assms(5) by (cases v') auto
  have ob: "so_body ob = Entry_Block []" using assms(6) Entry_Block by (auto simp: new_block_def sb_type_def)
  show ?thesis unfolding read_body_defs ob sb_body.case
    by (rule reads_counted [OF _ assms(2) _ decodes_refs [OF as(2)]]) (use assms(1,3,4) Entry_Block as in simp_all)
next
  case (Static_Block rs)
  then obtain as where as: "v' = Static_Block as" "list_all2 (ref_to entries) rs as" using assms(5) by (cases v') auto
  have ob: "so_body ob = Static_Block []" using assms(6) Static_Block by (auto simp: new_block_def sb_type_def)
  show ?thesis unfolding read_body_defs ob sb_body.case
    by (rule reads_counted [OF _ assms(2) _ decodes_refs [OF as(2)]]) (use assms(1,3,4) Static_Block as in simp_all)
next
  case (Persistent_Block ps)
  then have v': "v' = Persistent_Block ps" using assms(5) by (cases v') auto
  have ob: "so_body ob = Persistent_Block []" using assms(6) Persistent_Block by (auto simp: new_block_def sb_type_def)
  show ?thesis unfolding read_body_defs ob sb_body.case
    by (rule reads_offset [OF _ assms(2,3)], use assms(1) Persistent_Block in simp)
      (rule reads_params, use assms(4) Persistent_Block v' in simp_all)
next
  case (Variation_Block vs)
  then have v': "v' = Variation_Block vs" using assms(5) by (cases v') auto
  have ob: "so_body ob = Variation_Block []" using assms(6) Variation_Block by (auto simp: new_block_def sb_type_def)
  show ?thesis unfolding read_body_defs ob sb_body.case
    by (rule reads_counted [OF _ assms(2) _ decodes_variations]) (use assms(1,3,4) Variation_Block v' in simp_all)
next
  case (Mesh_Block guid lod ps)
  then have v': "v' = Mesh_Block guid lod ps" using assms(5) by (cases v') auto
  have j: "reads_to (jump (word_of_nat at) (then_read (\<lambda>b. Inr (getInt b)) (\<lambda>count.
      then_read (read_n ParameterEntry (unat count)) (\<lambda>xs. give (Mesh_Block guid lod ([] @ xs)))))) v' c" if "buf c = buf b" for c
    using that assms(1,3,4) Mesh_Block v'
    by (intro reads_jump assms(2) reads_params at_read_setReadPos) (auto simp: at_read_append at_read_def)
  have ob: "so_body ob = Mesh_Block (replicate 16 0) 0 []" using assms(6) Mesh_Block by (auto simp: sb_type_def new_block_def)
  have g: "16 = length guid" and t: "at_read b (bytes64 (word_of_nat at) @ bytes32 (ucast sz) @ bytes32 lod @ guid @ [])"
    using assms(1,4) Mesh_Block by simp_all
  show ?thesis unfolding read_body_defs ob sb_body.case
    by (rule reads_then [OF decodes_ints(1) t], rule reads_then [OF decodes_ints(2)], assumption,
        rule reads_then [OF decodes_ints(2)], assumption, rule reads_then [OF decodes_bytes [OF g]], assumption, rule j) simp
qed

lemma sb_Read_block:
  assumes "block_at lo (buf b) off v" "length (buf b) < 2 ^ 32" "body_ok (snd v)"
    "rel_sb_body (ref_to entries) (snd v) body" "new_block (sb_type (snd v)) = Some ob"
  shows "\<exists>b'. sb_Read entries ob (setReadPos off b) = Inr (ob\<lparr>so_hash := fst v, so_body := body\<rparr>, b') \<and> buf b' = buf b"
proof -
  obtain at sz where "at < 2 ^ 32" and a: "prefix (bytes64 (fst v) @ bytes64 (word_of_nat at) @ tail_enc (snd v) sz) (drop off (buf b))"
    "prefix (body_enc (snd v)) (drop at (buf b))"
    using assms(1) unfolding block_at_def by auto
  moreover have "at_read (setReadPos off b) (bytes64 (fst v) @ bytes64 (word_of_nat at) @ tail_enc (snd v) sz)"
    using assms(2) a(1) by (rule at_read_setReadPos)
  ultimately have "reads_to (sb_Read entries ob) (ob\<lparr>so_hash := fst v, so_body := body\<rparr>) (setReadPos off b)"
    unfolding sb_Read_def
    by (elim reads_then [OF decodes_ints(1)]) (auto intro!: reads_give reads_body [OF _ _ _ assms(3-5)])
  then show ?thesis by (auto simp: reads_to_def)
qed

section \<open>Writing\<close>

text \<open>The bytes that \<^verbatim>\<open>Write\<close> appends at position \<open>p\<close>, the position of the header, and the image of a whole depot.\<close>

definition header_pos :: "nat \<Rightarrow> sb_value \<Rightarrow> nat" where
  "header_pos p v = (let n = p + length (body_enc (snd v)) in n + align_len 8 n)"

definition block_bytes :: "nat \<Rightarrow> sb_value \<Rightarrow> bytes" where
  "block_bytes p v =
    (let n = length (body_enc (snd v))
     in body_enc (snd v) @ replicate (align_len 8 (p + n)) 0 @
        bytes64 (fst v) @ bytes64 (word_of_nat p) @ tail_enc (snd v) (word_of_nat (p + n) - word_of_nat p))"

fun blocks_bytes :: "nat \<Rightarrow> sb_value list \<Rightarrow> bytes" where
  "blocks_bytes p [] = []"
| "blocks_bytes p (v # vs) = block_bytes p v @ blocks_bytes (p + length (block_bytes p v)) vs"

fun block_starts :: "nat \<Rightarrow> sb_value list \<Rightarrow> nat list" where
  "block_starts p [] = []"
| "block_starts p (v # vs) = header_pos p v # block_starts (p + length (block_bytes p v)) vs"

definition depot_image :: "sb_value list \<Rightarrow> bytes" where
  "depot_image vs =
    (let p = 16 * length vs; n = p + length (blocks_bytes p vs)
     in table_enc (block_starts p vs) vs @ blocks_bytes p vs @ replicate (align_len 16 n) 0)"

definition reloc_entries :: "nat \<Rightarrow> nat list \<Rightarrow> u32 list" where
  "reloc_entries i starts = concat (map2 (\<lambda>i s. [word_of_nat (s + 8), word_of_nat (i * 16)]) [i..<i + length starts] starts)"

lemma appends_param: "appends (param_Write p) (param_enc p)"
proof -
  have "appends (\<lambda>b. param_Write p b) (((((bytes64 (p_parameterHash p) @ bytes32 (p_typeHash p)) @ bytes16 (p_used p)) @
      bytes16 (ucast (drop_bit 16 (p_nameHash p)))) @
      bytes32 (if p_typeHash p = ITexture then 1 else word_of_nat (length (p_value p)))) @ p_value p)"
    unfolding param_Write_def by (intro appends_comp appends_basic)
  then show ?thesis by (simp add: param_enc_def)
qed

lemma appends_params: "appends (write_params ps) (bytes32 (word_of_nat (length ps)) @ concat (map param_enc ps))"
proof -
  have "appends (fold param_Write ps) (concat (map param_enc ps))" by (rule appends_fold) (rule appends_param)
  then show ?thesis
    unfolding write_params_def [abs_def] using appends_comp [OF appends_basic(3)] by blast
qed

lemma appends_variations: "appends (write_variations vs) (concat (map (\<lambda>(guid, i). guid @ bytes32 i) vs))"
proof -
  have "appends (\<lambda>b. putInt i (putBytes guid b)) (guid @ bytes32 i)" for guid i
    by (intro appends_comp appends_basic)
  then show ?thesis unfolding write_variations_def [abs_def]
    using appends_fold [of vs "\<lambda>(guid, i) b. putInt i (putBytes guid b)" "\<lambda>(guid, i). guid @ bytes32 i"] by (auto simp: split_def)
qed

definition points :: "sb_heap \<Rightarrow> address \<Rightarrow> u32 \<Rightarrow> bool" where
  "points h a i \<longleftrightarrow> (\<exists>ob. deref h a = Inr ob \<and> so_index ob = i)"

lemma write_refs_bytes:
  assumes "list_all2 (points h) as rs" "holds b xs" "length xs + 4 * length rs < 2 ^ 32"
  shows "\<exists>b'. write_refs h as b = Inr b' \<and> holds b' (xs @ concat (map bytes32 rs))"
  using assms
proof (induction as rs arbitrary: b xs rule: list_all2_induct)
  case (Cons a as r rs)
  then obtain ob where ob: "deref h a = Inr ob" "so_index ob = r" by (auto simp: points_def)
  have "holds (putInt r b) (xs @ bytes32 r)" using Cons.prems by (intro holds_putInt) auto
  then obtain b' where "write_refs h as (putInt r b) = Inr b'" "holds b' ((xs @ bytes32 r) @ concat (map bytes32 rs))"
    using Cons.IH [of "putInt r b" "xs @ bytes32 r"] Cons.prems by auto
  then show ?case using ob by auto
qed simp

lemma write_contents_bytes:
  assumes "rel_sb_body (points h) body v" "holds b xs" "length xs + length (body_enc v) < 2 ^ 32"
  shows "\<exists>b'. write_contents h body b = Inr b' \<and> holds b' (xs @ body_enc v)"
proof (cases body)
  case (Entry_Block as)
  then show ?thesis using assms write_refs_bytes [of h as _ b xs] by (cases v) (auto simp: write_contents_def)
next
  case (Static_Block as)
  then show ?thesis using assms write_refs_bytes [of h as _ b xs] by (cases v) (auto simp: write_contents_def)
next
  case (Persistent_Block ps)
  then show ?thesis using assms appendsD [OF appends_params, of b xs ps] by (cases v) (auto simp: write_contents_def)
next
  case (Mesh_Block guid lod ps)
  then show ?thesis using assms appendsD [OF appends_params, of b xs ps] by (cases v) (auto simp: write_contents_def)
next
  case (Variation_Block vs)
  then show ?thesis using assms appendsD [OF appends_variations, of b xs vs] by (cases v) (auto simp: write_contents_def)
qed

lemma tail_enc_rel: "rel_sb_body R body v \<Longrightarrow> tail_enc body sz = tail_enc v sz"
  by (cases body; cases v) (auto dest: list_all2_lengthD)

lemma appends_tail: "appends (write_tail body off sz) (bytes64 (word_of_nat off) @ tail_enc body sz)"
proof (cases body)
  case (Mesh_Block guid lod ps)
  have "appends (\<lambda>b. putBytes guid (putInt lod (putInt (ucast sz) (putLong (word_of_nat off) b))))
      (((bytes64 (word_of_nat off) @ bytes32 (ucast sz)) @ bytes32 lod) @ guid)"
    by (intro appends_comp appends_basic)
  then show ?thesis using Mesh_Block by (simp add: write_tail_def [abs_def] Let_def)
qed (simp_all add: write_tail_def [abs_def] Let_def appends_comp [OF appends_basic(2) appends_basic(2)])

lemma sb_Write_bytes:
  assumes "rel_sb_body (points h) (so_body ob) (snd v)" "so_hash ob = fst v" "holds b xs"
    "length xs + length (block_bytes (length xs) v) < 2 ^ 32"
  shows "\<exists>b'. sb_Write h ob (b, table) = Inr (header_pos (length xs) v, b', table @ [word_of_nat (header_pos (length xs) v + 8)]) \<and>
    holds b' (xs @ block_bytes (length xs) v)"
proof -
  let ?p = "length xs" and ?n = "length (body_enc (snd v))"
  let ?sz = "word_of_nat (?p + ?n) - word_of_nat ?p :: u64"
  have len: "?p + ?n + align_len 8 (?p + ?n) + 8 + (8 + length (tail_enc (snd v) ?sz)) < 2 ^ 32"
    using assms(4) by (simp add: block_bytes_def Let_def)
  obtain b1 where b1: "write_contents h (so_body ob) b = Inr b1" "holds b1 (xs @ body_enc (snd v))"
    using write_contents_bytes [OF assms(1,3)] len by auto
  let ?b2 = "WritePadding 8 b1"
  have b2: "holds ?b2 ((xs @ body_enc (snd v)) @ replicate (align_len 8 (?p + ?n)) 0)"
    using holds_WritePadding [OF b1(2), of 8] len by simp
  have b3: "holds (putLong (fst v) ?b2) (((xs @ body_enc (snd v)) @ replicate (align_len 8 (?p + ?n)) 0) @ bytes64 (fst v))"
    using len by (intro holds_putLong b2) simp
  have "holds (write_tail (so_body ob) ?p ?sz (putLong (fst v) ?b2))
      ((((xs @ body_enc (snd v)) @ replicate (align_len 8 (?p + ?n)) 0) @ bytes64 (fst v)) @
        bytes64 (word_of_nat ?p) @ tail_enc (so_body ob) ?sz)"
    using len tail_enc_rel [OF assms(1)] by (intro appendsD [OF appends_tail b3]) simp
  then show ?thesis
    using b1 assms(2) holds_wpos [OF assms(3)] holds_wpos [OF b1(2)] holds_wpos [OF b2] holds_wpos [OF b3]
    by (simp add: sb_Write_def Let_def header_pos_def block_bytes_def tail_enc_rel [OF assms(1)])
qed

definition block_rel :: "sb_heap \<Rightarrow> address \<Rightarrow> sb_value \<Rightarrow> bool" where
  "block_rel h a v \<longleftrightarrow> (\<exists>ob. deref h a = Inr ob \<and> so_hash ob = fst v \<and> rel_sb_body (points h) (so_body ob) (snd v))"

lemma reloc_entries_Cons: "reloc_entries i (s # ss) = [word_of_nat (s + 8), word_of_nat (i * 16)] @ reloc_entries (Suc i) ss"
  by (simp add: reloc_entries_def upt_conv_Cons del: upt_Suc)

lemma write_blocks_bytes:
  assumes "list_all2 (block_rel h) as vs" "holds b xs" "length xs + length (blocks_bytes (length xs) vs) < 2 ^ 32"
  shows "\<exists>b'. write_blocks h i as (b, table) =
      Inr (block_starts (length xs) vs, b', table @ reloc_entries i (block_starts (length xs) vs)) \<and>
    holds b' (xs @ blocks_bytes (length xs) vs)"
  using assms
proof (induction as vs arbitrary: i b xs table rule: list_all2_induct)
  case Nil
  then show ?case by (simp add: reloc_entries_def)
next
  case (Cons a as v vs)
  obtain ob where ob: "deref h a = Inr ob" "so_hash ob = fst v" "rel_sb_body (points h) (so_body ob) (snd v)"
    using Cons.hyps(1) by (auto simp: block_rel_def)
  let ?p = "header_pos (length xs) v"
  obtain b1 where b1: "sb_Write h ob (b, table) = Inr (?p, b1, table @ [word_of_nat (?p + 8)])"
    "holds b1 (xs @ block_bytes (length xs) v)"
    using sb_Write_bytes [OF ob(3,2) Cons.prems(1)] Cons.prems(2) by auto
  then show ?case
    using ob(1) Cons.IH [OF b1(2), of "Suc i" "table @ [word_of_nat (?p + 8)] @ [word_of_nat (i * 16)]"] Cons.prems(2)
    by (auto simp: reloc_entries_Cons)
qed

lemma block_at_block_bytes:
  assumes "p = length xs" "p + length (block_bytes p v) < 2 ^ 32"
  shows "block_at p (xs @ block_bytes p v @ zs) (header_pos p v) v"
proof -
  let ?n = "length (body_enc (snd v))" and ?B = "xs @ block_bytes p v @ zs"
  let ?sz = "word_of_nat (p + ?n) - word_of_nat p :: u64"
  let ?H = "bytes64 (fst v) @ bytes64 (word_of_nat p) @ tail_enc (snd v) ?sz"
  have "?B = (xs @ body_enc (snd v) @ replicate (align_len 8 (p + ?n)) 0) @ ?H @ zs"
    by (simp add: block_bytes_def Let_def)
  moreover have "length (xs @ body_enc (snd v) @ replicate (align_len 8 (p + ?n)) 0) = header_pos p v"
    using assms(1) by (simp add: header_pos_def Let_def)
  ultimately have "drop (header_pos p v) ?B = ?H @ zs" by (metis append_eq_conv_conj)
  moreover have "drop p ?B = body_enc (snd v) @ drop ?n (block_bytes p v) @ zs"
    using assms(1) by (simp add: block_bytes_def Let_def)
  moreover have "p \<le> header_pos p v" "header_pos p v < 2 ^ 32" "p < 2 ^ 32"
    using assms(2) by (simp_all add: header_pos_def block_bytes_def Let_def)
  ultimately show ?thesis unfolding block_at_def by (metis append.assoc order_refl prefixI)
qed

lemma blocks_at_blocks_bytes:
  assumes "p = length xs" "p + length (blocks_bytes p vs) < 2 ^ 32"
  shows "list_all2 (block_at p (xs @ blocks_bytes p vs @ zs)) (block_starts p vs) vs"
  using assms
proof (induction vs arbitrary: p xs)
  case (Cons v vs)
  let ?b = "block_bytes p v"
  have "block_at p (xs @ ?b @ (blocks_bytes (p + length ?b) vs @ zs)) (header_pos p v) v"
    using Cons.prems by (intro block_at_block_bytes) auto
  moreover have "list_all2 (block_at (p + length ?b) ((xs @ ?b) @ blocks_bytes (p + length ?b) vs @ zs))
      (block_starts (p + length ?b) vs) vs"
    using Cons.prems by (intro Cons.IH) auto
  ultimately show ?case by (auto elim!: list_all2_mono block_at_mono)
qed simp

lemma length_block_starts [simp]: "length (block_starts p vs) = length vs"
  by (induction vs arbitrary: p) auto

lemma table_enc_Cons [simp]:
  "table_enc (o' # os) (v # vs) = bytes64 (word_of_nat o') @ bytes64 (sb_type (snd v)) @ table_enc os vs" "table_enc [] vs = []"
  by (simp_all add: table_enc_def)

lemma length_table_enc: "length os = length vs \<Longrightarrow> length (table_enc os vs) = 16 * length vs"
  by (induction os vs rule: list_induct2) auto

lemma depot_at_image:
  assumes "length (depot_image vs) < 2 ^ 32"
  shows "depot_at (depot_image vs) 0 vs"
proof -
  let ?p = "16 * length vs"
  let ?T = "table_enc (block_starts ?p vs) vs"
  have T: "length ?T = ?p" by (simp add: length_table_enc)
  have "depot_image vs = ?T @ blocks_bytes ?p vs @ replicate (align_len 16 (?p + length (blocks_bytes ?p vs))) 0"
    by (simp add: depot_image_def Let_def)
  moreover have "list_all2 (block_at ?p (?T @ blocks_bytes ?p vs @ replicate (align_len 16 (?p + length (blocks_bytes ?p vs))) 0))
      (block_starts ?p vs) vs"
    using assms T by (intro blocks_at_blocks_bytes) (simp_all add: depot_image_def Let_def)
  ultimately show ?thesis
    using assms unfolding depot_at_def by (auto intro!: exI [of _ "block_starts ?p vs"] elim!: list_all2_mono block_at_mono)
qed

text \<open>Going back to the table.\<close>

definition inside :: "byte_buffer \<Rightarrow> bytes \<Rightarrow> bytes \<Rightarrow> bool" where
  "inside b T X \<longleftrightarrow> buf b = T @ drop (length T) X \<and> wpos b = length T \<and> length T \<le> length X \<and> length X < 2 ^ 32"

lemma inside_putBytes: "inside b T X \<Longrightarrow> length T + length ys \<le> length X \<Longrightarrow> inside (putBytes ys b) (T @ ys) X"
  by (simp add: inside_def putBytes_def pos_add_def bb_size_def overwrite_def Let_def add.commute)

lemma write_table_inside:
  assumes "list_all2 (block_rel h) as vs" "length starts = length vs" "inside b T X" "length T + 16 * length vs \<le> length X"
  shows "\<exists>b'. write_table h starts as b = Inr b' \<and> inside b' (T @ table_enc starts vs) X"
  using assms
proof (induction as vs arbitrary: b T starts rule: list_all2_induct)
  case (Cons a as v vs)
  then obtain s ss where s: "starts = s # ss" "length ss = length vs" by (cases starts) auto
  obtain ob where ob: "deref h a = Inr ob" "rel_sb_body (points h) (so_body ob) (snd v)"
    using Cons.hyps(1) by (auto simp: block_rel_def)
  have t: "sb_type (so_body ob) = sb_type (snd v)" using ob(2) by (cases "so_body ob"; cases "snd v") (auto simp: sb_type_def)
  have "inside (putLong (sb_type (snd v)) (putLong (word_of_nat s) b)) ((T @ bytes64 (word_of_nat s)) @ bytes64 (sb_type (snd v))) X"
    using Cons.prems(2,3) unfolding putLong_def by (intro inside_putBytes) simp_all
  then show ?case using Cons.IH [OF s(2)] Cons.prems(3) ob(1) s(1) t by fastforce
qed simp

text \<open>The rebuilt depot.\<close>

definition depot_result :: "sb_value list \<Rightarrow> fixed_depot" where
  "depot_result vs = (let reloc = reloc_entries 0 (block_starts (16 * length vs) vs) in
    \<lparr>fd_data = depot_image vs, fd_reloc = reloc, fd_fullSize = word_of_nat (length (depot_image vs)),
     fd_relocTableCount = word_of_nat (length reloc * 4), fd_sbResourceCount = word_of_nat (length vs)\<rparr>)"

lemma write_depot_result:
  assumes "list_all2 (block_rel h) as vs" "length (depot_image vs) < 2 ^ 32"
  shows "write_depot h as = Inr (depot_result vs)"
proof -
  let ?p = "16 * length vs" and ?b0 = "fold (\<lambda>_ b. putLong 0 (putLong 0 b)) as bb_new"
  let ?n = "?p + length (blocks_bytes ?p vs)" and ?Z = "concat (map (\<lambda>_. bytes64 0 @ bytes64 0) as)"
  have n: "length as = length vs" using assms(1) by (rule list_all2_lengthD)
  have len: "?n + align_len 16 ?n < 2 ^ 32" using assms(2) by (simp add: depot_image_def Let_def length_table_enc)
  have Z: "length ?Z = ?p" unfolding n [symmetric] by (induction as) auto
  have "appends (fold (\<lambda>_ b. putLong 0 (putLong 0 b)) as) ?Z"
    by (rule appends_fold) (intro appends_comp appends_basic)
  then have b0: "holds ?b0 ?Z" using appendsD [of _ _ bb_new "[]"] Z len by simp
  then obtain w where w: "write_blocks h 0 as (?b0, []) = Inr (block_starts ?p vs, w, reloc_entries 0 (block_starts ?p vs))"
    "holds w (?Z @ blocks_bytes ?p vs)"
    using write_blocks_bytes [OF assms(1) b0, of 0 "[]"] len Z by auto
  let ?X = "?Z @ blocks_bytes ?p vs @ replicate (align_len 16 ?n) 0" and ?T = "table_enc (block_starts ?p vs) vs"
  have w': "holds (WritePadding 16 w) ?X" using holds_WritePadding [OF w(2), of 16] Z len by simp
  have "inside (setWritePos 0 (WritePadding 16 w)) [] ?X"
    using w' len Z by (simp add: inside_def setWritePos_def holds_def)
  then obtain w2 where w2: "write_table h (block_starts ?p vs) as (setWritePos 0 (WritePadding 16 w)) = Inr w2" "inside w2 ?T ?X"
    using write_table_inside [OF assms(1), of "block_starts ?p vs" _ "[]" ?X] Z by auto
  have "buf w2 = depot_image vs"
    using w2(2) Z by (simp add: inside_def length_table_enc depot_image_def Let_def)
  moreover have "wpos (WritePadding 16 w) = length (depot_image vs)"
    using holds_wpos [OF w'] Z by (simp add: depot_image_def Let_def length_table_enc)
  ultimately show ?thesis
    using w(1) w2(1) n by (simp add: write_depot_def depot_result_def Let_def)
qed

end
