(* ===== verification/Resource_Hooks.thy ===== *)
theory Resource_Hooks
  imports Mod_Loader
begin

text \<open>
  The hooks of \<^verbatim>\<open>Module/Source/ModLoader/ModLoader.cpp\<close> on the game's resource manager, as functions on the state they keep:

  \<^item> the bundles of every resource compartment and whether they are loaded (\<^verbatim>\<open>debugCompartments\<close>);
  \<^item> the chunks a script replaced and the reads of such chunks that are under way;
  \<^item> the queue of assets that wait for their custom handlers, from the partition that was read, over the references
    being resolved, to the update after it, with the hooks the game calls again while a handler runs, and the calls \<^verbatim>\<open>RunHandler\<close> makes.

  A pointer is a number. The game's own function behind a hook (the trampoline) is an argument, or left out where the
  hook only adds to what it does.
\<close>

unbundle bit_operations_syntax

section \<open>Compartments and their bundles\<close>

record debug_bundle =
  db_name :: string
  db_loaded :: bool

type_synonym compartments = "(nat \<times> debug_bundle list) list"

record tracker =
  t_loadingBundleName :: string
  t_compartments :: compartments
  t_compartmentToBundleId :: "(u16 \<times> u32) list"

definition OnBeginBundle :: "nat \<Rightarrow> u16 \<Rightarrow> string \<Rightarrow> tracker \<Rightarrow> tracker" where
  "OnBeginBundle inst compartment bundleName t =
    t\<lparr>t_loadingBundleName := bundleName,
      t_compartments := map_put inst
        ((case map_of (t_compartments t) inst of None \<Rightarrow> [] | Some bs \<Rightarrow> bs) @ [\<lparr>db_name = bundleName, db_loaded = False\<rparr>])
        (t_compartments t),
      t_compartmentToBundleId :=
        map_put compartment (HashQuickLower (''win32/'' @ bundleName)) (t_compartmentToBundleId t)\<rparr>"

definition ResolveReferences :: "tracker \<Rightarrow> tracker" where
  "ResolveReferences t =
    t\<lparr>t_compartments := map (\<lambda>(c, bs). (c, map (\<lambda>b. b\<lparr>db_loaded := True\<rparr>) bs)) (t_compartments t)\<rparr>"

definition EndClear :: "nat \<Rightarrow> tracker \<Rightarrow> tracker" where
  "EndClear inst t = t\<lparr>t_compartments := map_erase inst (t_compartments t)\<rparr>"

definition all_bundles :: "tracker \<Rightarrow> debug_bundle list" where
  "all_bundles t = concat (map snd (t_compartments t))"

definition IsBundleLoaded :: "string \<Rightarrow> tracker \<Rightarrow> bool" where
  "IsBundleLoaded name t = (case find (\<lambda>b. db_name b = name) (all_bundles t) of None \<Rightarrow> False | Some b \<Rightarrow> db_loaded b)"

definition IsBundleLoading :: "string \<Rightarrow> tracker \<Rightarrow> bool" where
  "IsBundleLoading name t = list_ex (\<lambda>b. db_name b = name) (all_bundles t)"

definition AnyBundlesLoading :: "tracker \<Rightarrow> bool" where
  "AnyBundlesLoading t = list_ex (\<lambda>b. \<not> db_loaded b) (all_bundles t)"


section \<open>Replaced chunks\<close>

record modified_chunk =
  mc_data :: bytes
  mc_size :: u32

record pending_chunk =
  pc_handle :: u64
  pc_src :: bytes
  pc_srcSize :: u32
  pc_dst :: nat
  pc_dstSize :: u32

record chunk_reads =
  s_modifiedChunks :: "(guid \<times> modified_chunk) list"
  s_pendingChunks :: "(u64 \<times> pending_chunk) list"

definition ModifyChunk :: "guid \<Rightarrow> bytes \<Rightarrow> u32 \<Rightarrow> chunk_reads \<Rightarrow> chunk_reads" where
  "ModifyChunk guid data sz s = s\<lparr>s_modifiedChunks := map_put guid \<lparr>mc_data = data, mc_size = sz\<rparr> (s_modifiedChunks s)\<rparr>"

text \<open>\<open>rand\<close> is the value of \<^verbatim>\<open>rand()\<close>. A read gives its number, which it stores for the caller, and the handle it returns; for a read the
  game serves both are those of its own function.\<close>

definition BeginChunkRead :: "nat \<Rightarrow> u32 \<times> u64 \<Rightarrow> guid \<Rightarrow> nat \<Rightarrow> u32 \<Rightarrow> chunk_reads \<Rightarrow> (u32 \<times> u64) \<times> chunk_reads" where
  "BeginChunkRead rand trampoline guid dst sz s =
    (case map_of (s_modifiedChunks s) guid of
       None \<Rightarrow> (trampoline, s)
     | Some c \<Rightarrow>
         let handleId = word_of_nat (rand mod 100000) :: u32
         in ((handleId, push_bit 56 2 OR ucast handleId),
             s\<lparr>s_pendingChunks := map_emplace (ucast handleId)
               \<lparr>pc_handle = ucast handleId, pc_src = mc_data c, pc_srcSize = mc_size c, pc_dst = dst, pc_dstSize = sz\<rparr>
               (s_pendingChunks s)\<rparr>))"

definition PollChunkOperation :: "(u64 \<Rightarrow> bool) \<Rightarrow> u64 \<Rightarrow> chunk_reads \<Rightarrow> bool" where
  "PollChunkOperation trampoline h s = (if map_of (s_pendingChunks s) h \<noteq> None then True else trampoline h)"

text \<open>The end of a read: the bytes copied to the destination, if the read is one of a replaced chunk.\<close>

definition EndChunkRead :: "(u64 \<Rightarrow> bool) \<Rightarrow> u64 \<Rightarrow> chunk_reads \<Rightarrow> bool \<times> (nat \<times> bytes) option \<times> chunk_reads" where
  "EndChunkRead trampoline h s =
    (case map_of (s_pendingChunks s) h of
       None \<Rightarrow> (trampoline h, None, s)
     | Some p \<Rightarrow> (True, Some (pc_dst p, take (unat (min (pc_dstSize p) (pc_srcSize p))) (pc_src p)),
                  s\<lparr>s_pendingChunks := map_erase h (s_pendingChunks s)\<rparr>))"

text \<open>\<^verbatim>\<open>ReadChunkSync\<close>: \<open>poll k\<close> is the answer of the game's function at the \<open>k\<close>th poll. \<open>None\<close> if the chunk has not been read after
  \<open>fuel\<close> polls.\<close>

fun poll_until :: "nat \<Rightarrow> (nat \<Rightarrow> u64 \<Rightarrow> bool) \<Rightarrow> nat \<Rightarrow> u64 \<Rightarrow> chunk_reads \<Rightarrow> bool" where
  "poll_until 0 poll k h s = False"
| "poll_until (Suc n) poll k h s = (PollChunkOperation (poll k) h s \<or> poll_until n poll (Suc k) h s)"

definition ReadChunkSync :: "nat \<Rightarrow> nat \<Rightarrow> u32 \<times> u64 \<Rightarrow> (nat \<Rightarrow> u64 \<Rightarrow> bool) \<Rightarrow> (u64 \<Rightarrow> bool) \<Rightarrow> guid \<Rightarrow> nat \<Rightarrow> u32 \<Rightarrow> chunk_reads \<Rightarrow>
    (bool \<times> (nat \<times> bytes) option \<times> chunk_reads) option" where
  "ReadChunkSync fuel rand trampoline poll fin guid dst sz s =
    (case BeginChunkRead rand trampoline guid dst sz s of ((_, handle), s) \<Rightarrow>
       if poll_until fuel poll 0 handle s then Some (EndChunkRead fin handle s) else None)"


section \<open>Custom handlers\<close>

datatype load_stage = ReferencesResolved | PostLoad

record creation_info =
  ci_domain :: nat
  ci_compartment :: u32
  ci_container :: nat
  ci_name :: string
  ci_resolved :: bool
  ci_duped :: bool

datatype handler_call =
    Create u32
  | Load u32 mod_resource
  | Modify u32 bool

text \<open>
  \<open>stages\<close> is the load stage of a registered handler, and \<open>attempts\<close> how often its \<^verbatim>\<open>Modify\<close> asks to be called again
  before it is done. An unregistered handler is a null pointer in the map.
\<close>

fun select_resources :: "(u32 \<Rightarrow> load_stage option) \<Rightarrow> string \<Rightarrow> load_stage \<Rightarrow> mod_resource list \<Rightarrow> mod_resource list result" where
  "select_resources stages name stage [] = Inr []"
| "select_resources stages name stage (r # rs) =
    (if mr_type r \<noteq> FrostyResourceType_Ebx \<or> mr_name r \<noteq> name \<or> mr_handlerHash r = 0 then select_resources stages name stage rs
     else case stages (mr_handlerHash r) of
            None \<Rightarrow> Inl Null_Deref
          | Some st \<Rightarrow>
              (case select_resources stages name stage rs of
                 Inl e \<Rightarrow> Inl e
               | Inr sel \<Rightarrow> Inr (if st \<noteq> stage then sel else r # sel)))"

definition RunHandler :: "(u32 \<Rightarrow> load_stage option) \<Rightarrow> (u32 \<Rightarrow> nat) \<Rightarrow> mod_resource list \<Rightarrow> creation_info \<Rightarrow> load_stage \<Rightarrow>
    handler_call list result" where
  "RunHandler stages attempts all info stage =
    (case select_resources stages (ci_name info) stage all of
       Inl e \<Rightarrow> Inl e
     | Inr [] \<Rightarrow> Inr []
     | Inr sel \<Rightarrow>
         let handlers = sorted_list_of_set (mr_handlerHash ` set sel)
         in Inr (map Create handlers @ map (\<lambda>r. Load (mr_handlerHash r) r) (rev sel) @
              concat (map (\<lambda>h. replicate (Suc (attempts h)) (Modify h (ci_duped info))) handlers)))"

text \<open>
  The queue and, in order, the runs of the handlers. A handler that is not done yet forces an update of the game's resources, and the game
  then calls the hooks again, inside the run. For that the state also has the flag \<open>q_running\<close> (\<^verbatim>\<open>isRunningDeferredHandlers\<close>) and the iterators
  into the queue that the loops under way hold, innermost first: \<open>Some i\<close>, or \<open>None\<close> once the queue was changed in a way
  that makes the iterator invalid. \<open>q_queued\<close> lists the assets that were queued.
\<close>

record deferred_queue =
  q_queue :: "creation_info list"
  q_runs :: "(load_stage \<times> creation_info) list"
  q_queued :: "creation_info list"
  q_running :: bool
  q_iterators :: "nat option list"

text \<open>The calls of the hooks by the game, on one thread.\<close>

datatype hook =
    Read_Partition nat u32 string bytes nat
  | Fetch_Partitions nat "nat list"
  | Update_Resources

text \<open>What the code relies on: the stages of the handlers, the table of handled assets, the calls the game makes inside the \<open>k\<close>th run of a
  handler, and whether adding the \<open>k\<close>th asset makes the vector move to new memory.\<close>

record hook_config =
  hk_stages :: "u32 \<Rightarrow> load_stage option"
  hk_handlerResources :: "(string \<times> handled_resource) list"
  hk_nested :: "nat \<Rightarrow> hook list"
  hk_reallocates :: "nat \<Rightarrow> bool"

definition ReadEbxPartition :: "hook_config \<Rightarrow> nat \<Rightarrow> u32 \<Rightarrow> string \<Rightarrow> bytes \<Rightarrow> nat \<Rightarrow> deferred_queue \<Rightarrow> deferred_queue" where
  "ReadEbxPartition cfg inst compartment name inBuffer container q =
    (if inBuffer = [] then q
     else case map_of (hk_handlerResources cfg) name of
            None \<Rightarrow> q
          | Some hr \<Rightarrow>
              if hk_stages cfg (hr_handlerHash hr) = None then q
              else let info = \<lparr>ci_domain = inst, ci_compartment = compartment, ci_container = container,
                     ci_name = name, ci_resolved = False, ci_duped = hr_duped hr\<rparr>
                   in q\<lparr>q_queue := q_queue q @ [info], q_queued := q_queued q @ [info],
                        q_iterators := (if hk_reallocates cfg (length (q_queued q)) then map (\<lambda>_. None) (q_iterators q) else q_iterators q)\<rparr>)"

text \<open>A run of a handler for the asset at an iterator begins and ends. When it ends the loop uses the iterator again.\<close>

definition begin_run :: "load_stage \<Rightarrow> nat \<Rightarrow> deferred_queue \<Rightarrow> deferred_queue" where
  "begin_run stage i q = q\<lparr>q_runs := q_runs q @ [(stage, q_queue q ! i)], q_iterators := Some i # q_iterators q\<rparr>"

definition end_run :: "deferred_queue \<Rightarrow> (nat \<times> deferred_queue) result" where
  "end_run q = (case q_iterators q of Some i # its \<Rightarrow> Inr (i, q\<lparr>q_iterators := its\<rparr>) | _ \<Rightarrow> Inl Freed_Access)"

text \<open>Erasing an element makes the iterators at it and behind it invalid.\<close>

definition erase_at :: "nat \<Rightarrow> deferred_queue \<Rightarrow> deferred_queue" where
  "erase_at i q = q\<lparr>q_queue := take i (q_queue q) @ drop (Suc i) (q_queue q),
    q_iterators := map (\<lambda>it. case it of None \<Rightarrow> None | Some j \<Rightarrow> if i \<le> j then None else Some j) (q_iterators q)\<rparr>"

definition set_resolved :: "nat \<Rightarrow> deferred_queue \<Rightarrow> deferred_queue" where
  "set_resolved i q = q\<lparr>q_queue := (q_queue q)[i := (q_queue q ! i)\<lparr>ci_resolved := True\<rparr>]\<rparr>"

text \<open>The loops of the two hooks over the queue, which may grow while they run. \<open>nested\<close> is what the game does inside a run, and \<open>n\<close> a bound
  for the number of turns. \<open>containers\<close> are the primary instances of the fetched partitions. The first loop does not advance after a run: it
  comes back to the asset, which is resolved now.\<close>

primrec resolve_loop :: "nat \<Rightarrow> (deferred_queue \<Rightarrow> deferred_queue result) \<Rightarrow> nat \<Rightarrow> nat list \<Rightarrow> nat \<Rightarrow> deferred_queue \<Rightarrow> deferred_queue result" where
  "resolve_loop 0 nested inst containers i q = Inl Out_Of_Fuel"
| "resolve_loop (Suc n) nested inst containers i q =
    (if length (q_queue q) \<le> i then Inr q
     else if ci_container (q_queue q ! i) \<notin> set containers then resolve_loop n nested inst containers (Suc i) q
     else if ci_resolved (q_queue q ! i) \<or> inst \<noteq> ci_domain (q_queue q ! i) then resolve_loop n nested inst containers (Suc i) q
     else case nested (begin_run ReferencesResolved i q) of
            Inl e \<Rightarrow> Inl e
          | Inr q \<Rightarrow>
              (case end_run q of
                 Inl e \<Rightarrow> Inl e
               | Inr (i, q) \<Rightarrow> resolve_loop n nested inst containers i (set_resolved i q)))"

definition FetchNewlyLoadedPartitions :: "nat \<Rightarrow> (deferred_queue \<Rightarrow> deferred_queue result) \<Rightarrow> nat \<Rightarrow> nat list \<Rightarrow> deferred_queue \<Rightarrow> deferred_queue result" where
  "FetchNewlyLoadedPartitions n nested inst containers q = resolve_loop n nested inst containers 0 q"

primrec post_loop :: "nat \<Rightarrow> (deferred_queue \<Rightarrow> deferred_queue result) \<Rightarrow> nat \<Rightarrow> deferred_queue \<Rightarrow> deferred_queue result" where
  "post_loop 0 nested i q = Inl Out_Of_Fuel"
| "post_loop (Suc n) nested i q =
    (if length (q_queue q) \<le> i then Inr q
     else if \<not> ci_resolved (q_queue q ! i) then post_loop n nested (Suc i) q
     else case nested (begin_run PostLoad i q) of
            Inl e \<Rightarrow> Inl e
          | Inr q \<Rightarrow> (case end_run q of Inl e \<Rightarrow> Inl e | Inr (i, q) \<Rightarrow> post_loop n nested i (erase_at i q)))"

definition UpdateResources :: "nat \<Rightarrow> (deferred_queue \<Rightarrow> deferred_queue result) \<Rightarrow> deferred_queue \<Rightarrow> deferred_queue result" where
  "UpdateResources n nested q =
    (if q_running q then Inr q
     else case post_loop n nested 0 (q\<lparr>q_running := True\<rparr>) of
            Inl e \<Rightarrow> Inl e
          | Inr q \<Rightarrow> Inr (q\<lparr>q_running := False\<rparr>))"

text \<open>The hooks the game calls one after the other, and inside them those of the runs, to a depth of \<open>d\<close>.\<close>

definition run_hook :: "nat \<Rightarrow> hook_config \<Rightarrow> (deferred_queue \<Rightarrow> deferred_queue result) \<Rightarrow> hook \<Rightarrow> deferred_queue \<Rightarrow> deferred_queue result" where
  "run_hook n cfg nested h q =
    (case h of
       Read_Partition inst compartment name inBuffer container \<Rightarrow> Inr (ReadEbxPartition cfg inst compartment name inBuffer container q)
     | Fetch_Partitions inst containers \<Rightarrow> FetchNewlyLoadedPartitions n nested inst containers q
     | Update_Resources \<Rightarrow> UpdateResources n nested q)"

primrec run_list :: "('h \<Rightarrow> 'a \<Rightarrow> 'a result) \<Rightarrow> 'h list \<Rightarrow> 'a \<Rightarrow> 'a result" where
  "run_list f [] q = Inr q"
| "run_list f (h # hs) q = (case f h q of Inl e \<Rightarrow> Inl e | Inr q \<Rightarrow> run_list f hs q)"

primrec run_hooks :: "nat \<Rightarrow> nat \<Rightarrow> hook_config \<Rightarrow> hook list \<Rightarrow> deferred_queue \<Rightarrow> deferred_queue result" where
  "run_hooks 0 n cfg hs q = (if hs = [] then Inr q else Inl Out_Of_Fuel)"
| "run_hooks (Suc d) n cfg hs q = run_list (run_hook n cfg (\<lambda>q. run_hooks d n cfg (hk_nested cfg (length (q_runs q))) q)) hs q"

section \<open>Bundles\<close>

lemma all_bundles_ResolveReferences: "all_bundles (ResolveReferences t) = map (\<lambda>b. b\<lparr>db_loaded := True\<rparr>) (all_bundles t)"
  by (simp add: all_bundles_def ResolveReferences_def map_concat comp_def case_prod_beta)

lemma set_all_bundles: "set (all_bundles t) = (\<Union>bs \<in> snd ` set (t_compartments t). set bs)"
  by (auto simp: all_bundles_def)

lemma map_put_mem: "(k, v) \<in> set (map_put k v m)"
  by (induction k v m rule: map_put.induct) auto

text \<open>\<open>IsBundleLoading\<close> does not tell a loading bundle from a loaded one. Once a bundle has begun to load and its
  references are resolved, it is reported as loaded and as still loading, while no bundle is loading.\<close>

theorem IsBundleLoading_loaded:
  "IsBundleLoading name (ResolveReferences (OnBeginBundle inst c name t)) \<and>
   IsBundleLoaded name (ResolveReferences (OnBeginBundle inst c name t)) \<and>
   \<not> AnyBundlesLoading (ResolveReferences (OnBeginBundle inst c name t))"
proof -
  let ?t = "OnBeginBundle inst c name t"
  obtain bs where "(inst, bs @ [\<lparr>db_name = name, db_loaded = False\<rparr>]) \<in> set (t_compartments ?t)"
    by (simp add: OnBeginBundle_def) (metis map_put_mem)
  then have known: "\<exists>b \<in> set (all_bundles ?t). db_name b = name"
    by (auto simp: set_all_bundles intro!: bexI [of _ "(inst, bs @ [\<lparr>db_name = name, db_loaded = False\<rparr>])"])
  have f: "find (\<lambda>b. db_name b = name) (map (\<lambda>b. b\<lparr>db_loaded := True\<rparr>) xs) = map_option (\<lambda>b. b\<lparr>db_loaded := True\<rparr>) (find (\<lambda>b. db_name b = name) xs)"
    for xs :: "debug_bundle list" by (induction xs) auto
  obtain b where "find (\<lambda>b. db_name b = name) (all_bundles ?t) = Some b"
    using known by (cases "find (\<lambda>b. db_name b = name) (all_bundles ?t)") (auto simp: find_None_iff)
  then show ?thesis using known
    by (auto simp: IsBundleLoading_def IsBundleLoaded_def AnyBundlesLoading_def all_bundles_ResolveReferences f list_ex_iff)
qed

section \<open>Chunk reads\<close>

text \<open>The keys of the pending reads are the small numbers, never a handle that was given out.\<close>

definition reads_inv :: "chunk_reads \<Rightarrow> bool" where
  "reads_inv s \<longleftrightarrow> ordered (s_pendingChunks s) \<and> (\<forall>k \<in> set (keys (s_pendingChunks s)). unat k < 100000)"

lemma unat_read_number [simp]: "unat (ucast (word_of_nat (rand mod 100000) :: u32) :: u64) = rand mod 100000"
proof -
  have "rand mod 100000 < 100000" by simp
  then have "rand mod 100000 < 2 ^ 32" by (rule order_less_trans) simp
  then have "unat (word_of_nat (rand mod 100000) :: u32) = rand mod 100000" by (rule unat_small)
  then show ?thesis using \<open>rand mod 100000 < 2 ^ 32\<close> by (simp add: unsigned_ucast_eq take_bit_nat_eq_self)
qed

lemma reads_inv_begin: "reads_inv s \<Longrightarrow> reads_inv (snd (BeginChunkRead rand tr guid dst sz s))"
  by (auto simp: reads_inv_def BeginChunkRead_def Let_def simp del: set_map split: option.split)

lemma reads_inv_end: "reads_inv s \<Longrightarrow> reads_inv (snd (snd (EndChunkRead tr h s)))"
  using ordered_map_erase [of "s_pendingChunks s" h]
  by (auto simp: reads_inv_def EndChunkRead_def map_erase_def split: option.split)

lemma returned_handle_unknown:
  assumes "reads_inv s" "BeginChunkRead rand tr guid dst sz s = ((i, h), s')" "map_of (s_modifiedChunks s) guid \<noteq> None"
  shows "map_of (s_pendingChunks s') h = None"
proof -
  have h: "h = push_bit 56 2 OR ucast i" and inv: "reads_inv s'"
    using assms reads_inv_begin [OF assms(1), of rand tr guid dst sz] by (auto simp: BeginChunkRead_def Let_def split: option.splits)
  have "bit h 57" by (simp add: h bit_simps)
  have "\<not> unat h < 100000"
  proof
    assume a: "unat h < 100000"
    have "(2 :: nat) ^ 57 > 100000" by simp
    then have "\<not> bit (unat h) 57" using a by (simp add: bit_iff_odd)
    then show False using \<open>bit h 57\<close> by (simp add: bit_unsigned_iff)
  qed
  then show ?thesis using inv unfolding reads_inv_def by (metis map_of_eq_None_iff set_map)
qed

lemma poll_until_unknown:
  "map_of (s_pendingChunks s) h = None \<Longrightarrow> poll_until n poll k h s \<longleftrightarrow> (\<exists>j<n. poll (k + j) h)"
proof (induction n arbitrary: k)
  case (Suc n)
  have "(\<exists>j<Suc n. poll (k + j) h) \<longleftrightarrow> poll k h \<or> (\<exists>j<n. poll (Suc k + j) h)"
    using Ex_less_Suc2 [of n "\<lambda>j. poll (k + j) h"] by simp
  then show ?case using Suc by (simp add: PollChunkOperation_def)
qed simp

text \<open>C33: a replaced chunk can be read under the number of the read only. The handle the read returns has the top bits set while the
  pending read is stored without them, so polling and ending it with that handle fall through to the game. Hence \<open>ReadChunkSync\<close>,
  which uses the handle, waits until the game answers for a handle it never gave out, and then copies nothing.\<close>

theorem replaced_chunk_handles:
  assumes "reads_inv s" "map_of (s_modifiedChunks s) guid = Some c" "BeginChunkRead rand tr guid dst sz s = ((i, h), s')"
    "map_of (s_pendingChunks s) (ucast i) = None"
  shows "PollChunkOperation poll (ucast i) s' \<and>
    fst (snd (EndChunkRead fin (ucast i) s')) = Some (dst, take (unat (min sz (mc_size c))) (mc_data c)) \<and>
    ReadChunkSync n rand tr polls fin guid dst sz s = (if \<exists>k<n. polls k h then Some (fin h, None, s') else None)"
proof -
  have "map_of (s_pendingChunks s') (ucast i) =
      Some \<lparr>pc_handle = ucast i, pc_src = mc_data c, pc_srcSize = mc_size c, pc_dst = dst, pc_dstSize = sz\<rparr>"
    using assms by (auto simp: BeginChunkRead_def Let_def reads_inv_def map_of_map_emplace)
  moreover have "map_of (s_pendingChunks s') h = None" using returned_handle_unknown [OF assms(1,3)] assms(2) by simp
  ultimately show ?thesis
    using assms(3) by (simp add: PollChunkOperation_def EndChunkRead_def ReadChunkSync_def poll_until_unknown)
qed

theorem replaced_chunk_handles_witness:
  "\<exists>h s'. BeginChunkRead 5 (0, 0) [] 1 8 (ModifyChunk [] [1, 2] 2 \<lparr>s_modifiedChunks = [], s_pendingChunks = []\<rparr>) = ((5, h), s') \<and>
    fst (snd (EndChunkRead (\<lambda>_. False) 5 s')) = Some (1, [1, 2]) \<and>
    ReadChunkSync 100 5 (0, 0) (\<lambda>_ _. False) (\<lambda>_. False) [] 1 8 (ModifyChunk [] [1, 2] 2 \<lparr>s_modifiedChunks = [], s_pendingChunks = []\<rparr>) = None"
proof -
  let ?s = "ModifyChunk [] [1, 2] 2 \<lparr>s_modifiedChunks = [], s_pendingChunks = []\<rparr>"
  obtain h s' where b: "BeginChunkRead 5 (0, 0) [] 1 8 ?s = ((5, h), s')"
    by (simp add: BeginChunkRead_def ModifyChunk_def Let_def)
  then show ?thesis
    using replaced_chunk_handles [OF _ _ b, of "\<lparr>mc_data = [1, 2], mc_size = 2\<rparr>" "\<lambda>_. False" "\<lambda>_. False" 100 "\<lambda>_ _. False"]
    by (simp add: reads_inv_def ModifyChunk_def)
qed

section \<open>The queue of handlers\<close>

definition queue_init :: deferred_queue where
  "queue_init = \<lparr>q_queue = [], q_runs = [], q_queued = [], q_running = False, q_iterators = []\<rparr>"

definition unresolved :: "creation_info \<Rightarrow> creation_info" where
  "unresolved i = i\<lparr>ci_resolved := False\<rparr>"







subsection \<open>What stays of the queue under an iterator\<close>

definition same_place :: "nat \<Rightarrow> creation_info list \<Rightarrow> creation_info list \<Rightarrow> bool" where
  "same_place j xs ys \<longleftrightarrow> (j < length xs \<longrightarrow> j < length ys \<and> unresolved (ys ! j) = unresolved (xs ! j) \<and> (ci_resolved (xs ! j) \<longrightarrow> ci_resolved (ys ! j)))"

definition iterator_kept :: "creation_info list \<Rightarrow> creation_info list \<Rightarrow> nat option \<Rightarrow> nat option \<Rightarrow> bool" where
  "iterator_kept xs ys it it' \<longleftrightarrow> (\<forall>j. it' = Some j \<longrightarrow> it = Some j \<and> same_place j xs ys)"

definition kept :: "deferred_queue \<Rightarrow> deferred_queue \<Rightarrow> bool" where
  "kept q q' \<longleftrightarrow> q_running q' = q_running q \<and> list_all2 (iterator_kept (q_queue q) (q_queue q')) (q_iterators q) (q_iterators q')"

lemma same_place_refl [simp]: "same_place j xs xs"
  by (simp add: same_place_def)



lemma kept_refl [simp]: "kept q q"
  by (auto simp: kept_def iterator_kept_def list_all2_conv_all_nth split: option.split)






subsection \<open>The order of the stages\<close>















subsection \<open>The hooks\<close>















definition sample_config :: "(nat \<Rightarrow> hook list) \<Rightarrow> hook_config" where
  "sample_config nested = \<lparr>hk_stages = (\<lambda>_. Some PostLoad), hk_handlerResources = [(''a'', \<lparr>hr_handlerHash = 9, hr_duped = False\<rparr>)],
    hk_nested = nested, hk_reallocates = (\<lambda>_. False)\<rparr>"

definition info_sample :: "nat \<Rightarrow> creation_info" where
  "info_sample c = \<lparr>ci_domain = 1, ci_compartment = 0, ci_container = c, ci_name = ''a'', ci_resolved = True, ci_duped = False\<rparr>"




text \<open>The calls the game makes inside a run can break the loop around it. If the asset before the one whose handler runs is resolved, the update that
  the handler forces erases it from the queue, and the loop goes on with an invalid iterator. And if the game fetches the same
  partitions again inside a run, the handler runs a second time for the same asset, because its flag is set only after the run.\<close>

lemma nested_update_breaks_fetch:
  "run_hooks 2 9 (sample_config (\<lambda>k. if k = 2 then [Update_Resources] else []))
    [Read_Partition 1 0 ''a'' [1] 2, Read_Partition 1 0 ''a'' [1] 3, Fetch_Partitions 1 [2], Fetch_Partitions 1 [3]] queue_init = Inl Freed_Access"
  by code_simp

lemma nested_fetch_runs_twice:
  "case run_hooks 3 9 (sample_config (\<lambda>k. if k = 1 then [Fetch_Partitions 1 [2]] else []))
      [Read_Partition 1 0 ''a'' [1] 2, Fetch_Partitions 1 [2]] queue_init of
     Inl _ \<Rightarrow> False
   | Inr q \<Rightarrow> count_list (q_runs q) (ReferencesResolved, unresolved (info_sample 2)) = 2 \<and> q_queue q = [info_sample 2]"
  by code_simp

section \<open>The order of the mods in a handler\<close>

definition wants :: "(u32 \<Rightarrow> load_stage option) \<Rightarrow> string \<Rightarrow> load_stage \<Rightarrow> mod_resource \<Rightarrow> bool" where
  "wants stages name stage r \<longleftrightarrow> mr_type r = FrostyResourceType_Ebx \<and> mr_name r = name \<and> mr_handlerHash r \<noteq> 0 \<and>
    stages (mr_handlerHash r) = Some stage"

lemma select_resources_filter: "select_resources stages name stage rs = Inr sel \<Longrightarrow> sel = filter (wants stages name stage) rs"
  by (induction rs arbitrary: sel) (auto simp: wants_def split: if_splits option.splits sum.splits)

lemma all_resources_descending:
  assumes "\<And>i r. i < length mods \<Longrightarrow> r \<in> set (km_resources (mods ! i)) \<Longrightarrow> mr_modIndex r = word_of_nat i" "length mods < 2 ^ 32"
  shows "sorted_wrt (\<lambda>r r'. mr_modIndex r' \<le> mr_modIndex r) (all_resources mods)"
  using assms
proof (induction mods rule: rev_induct)
  case (snoc m ms)
  have new: "mr_modIndex r = word_of_nat (length ms)" if "r \<in> set (km_resources m)" for r
    using snoc.prems(1) [of "length ms" r] that by simp
  have old: "\<exists>i < length ms. mr_modIndex r = word_of_nat i" if r: "r \<in> set (all_resources ms)" for r
  proof -
    obtain m' where "m' \<in> set ms" "r \<in> set (km_resources m')" using r by auto
    then obtain i where "i < length ms" "r \<in> set (km_resources (ms ! i))" by (metis in_set_conv_nth)
    then show ?thesis using snoc.prems(1) [of i r] by (auto simp: nth_append)
  qed
  have "mr_modIndex r' \<le> mr_modIndex r" if "r \<in> set (km_resources m)" "r' \<in> set (all_resources ms)" for r r'
    using new [OF that(1)] old [OF that(2)] snoc.prems(2) by (auto simp: word_le_nat_alt unat_small)
  moreover have "sorted_wrt (\<lambda>r r'. mr_modIndex r' \<le> mr_modIndex r) (km_resources m)"
    using new by (auto simp: sorted_wrt_iff_nth_less)
  moreover have "sorted_wrt (\<lambda>r r'. mr_modIndex r' \<le> mr_modIndex r) (all_resources ms)"
  proof (rule snoc.IH)
    show "mr_modIndex r = word_of_nat i" if "i < length ms" "r \<in> set (km_resources (ms ! i))" for i r
      using snoc.prems(1) [of i r] that by (simp add: nth_append)
  qed (use snoc.prems(2) in simp)
  ultimately show ?case by (simp add: sorted_wrt_append)
qed simp

lemma Finalize_descending:
  assumes "loader_inv ml" "length (m_mods ml) < 2 ^ 32"
  shows "sorted_wrt (\<lambda>r r'. mr_modIndex r' \<le> mr_modIndex r) (filter (\<lambda>r. mr_type r = t) (m_modResources (FinalizeModLoads ml)))"
proof -
  let ?f = "stage3 (sources_of (stage2 0 (stage1 (m_mods ml)) []) (stage1 (m_mods ml)))"
  have keep: "mr_type (?f r) = mr_type r" "mr_modIndex (?f r) = mr_modIndex r" for r
    by (auto simp: stage3_def split: option.split)
  have "sorted_wrt (\<lambda>r r'. mr_modIndex r' \<le> mr_modIndex r) (all_resources (m_mods ml))"
  proof (rule all_resources_descending [OF _ assms(2)])
    show "mr_modIndex r = word_of_nat i" if "i < length (m_mods ml)" "r \<in> set (km_resources (m_mods ml ! i))" for i r
      using assms(1) that by (auto simp: loader_inv_def list_all_iff resource_inv_def)
  qed
  then have "sorted_wrt (\<lambda>r r'. mr_modIndex r' \<le> mr_modIndex r) (filter (\<lambda>r. mr_type r = t) (stage1 (m_mods ml)))"
    by (simp add: stage1_def sort_resources_def sort_key_stable sorted_wrt_filter)
  then show ?thesis
    by (simp add: FinalizeModLoads_def Let_def filter_map comp_def keep sorted_wrt_map)
qed

definition loads :: "handler_call list \<Rightarrow> mod_resource list" where
  "loads cs = concat (map (\<lambda>c. case c of Load _ r \<Rightarrow> [r] | _ \<Rightarrow> []) cs)"

lemma loads_simps [simp]: "loads [] = []" "loads (Load h r # cs) = r # loads cs" "loads (Create h # cs) = loads cs"
  "loads (Modify h d # cs) = loads cs" "loads (xs @ ys) = loads xs @ loads ys"
  by (simp_all add: loads_def)

lemma loads_none: "(\<And>c. c \<in> set cs \<Longrightarrow> \<exists>h d. c = Create h \<or> c = Modify h d) \<Longrightarrow> loads cs = []"
  by (force simp: loads_def split: handler_call.split)

text \<open>A custom handler gets the data of the mods in the order in which the mods were loaded, so what the mod of
  highest priority says comes last.\<close>

theorem RunHandler_load_order:
  assumes "loader_inv ml" "length (m_mods ml) < 2 ^ 32"
    "RunHandler stages attempts (m_modResources (FinalizeModLoads ml)) info stage = Inr calls"
  shows "sorted (map mr_modIndex (loads calls))"
proof -
  let ?all = "m_modResources (FinalizeModLoads ml)"
  obtain sel where sel: "select_resources stages (ci_name info) stage ?all = Inr sel"
    using assms(3) by (auto simp: RunHandler_def split: sum.splits)
  have "loads (map Create xs) = []" "loads (concat (map (\<lambda>h. replicate (n h) (Modify h d)) xs)) = []"
    "loads (map (\<lambda>r. Load (mr_handlerHash r) r) rs) = rs" for xs n d rs
    by (rule loads_none; auto)+ (induction rs; simp)
  then have "loads calls = rev sel"
    using assms(3) sel by (auto simp: RunHandler_def Let_def simp del: replicate.simps split: list.splits)
  moreover have "filter (wants stages (ci_name info) stage) ?all =
      filter (wants stages (ci_name info) stage) (filter (\<lambda>r. mr_type r = FrostyResourceType_Ebx) ?all)"
    unfolding filter_filter by (rule filter_cong) (auto simp: wants_def)
  moreover note sorted_wrt_filter [OF Finalize_descending [OF assms(1,2), of FrostyResourceType_Ebx],
      of "wants stages (ci_name info) stage"]
  ultimately have "sorted_wrt (\<lambda>r r'. mr_modIndex r' \<le> mr_modIndex r) (rev (loads calls))"
    using select_resources_filter [OF sel] by simp
  then show ?thesis by (simp add: sorted_wrt_rev sorted_wrt_map)
qed

definition handled_sample :: mod_resource where
  "handled_sample = \<lparr>mr_type = FrostyResourceType_Ebx, mr_name = ''a'', mr_bundles = [], mr_handlerHash = 9, mr_resourceIndex = 0,
    mr_duped = False, mr_modName = ''m'', mr_modIndex = 0, mr_data = data_sample 0x1009, mr_uniqueId = HashQuickLower ''2_a''\<rparr>"

definition handler_loader :: mod_loader where
  "handler_loader = loader_sample\<lparr>m_mods := [\<lparr>km_path = ''x'', km_fbFile = 0x1009, km_resources = [handled_sample]\<rparr>]\<rparr>"

lemma handler_loader_inv: "loader_inv handler_loader"
proof -
  have "dec_i32 2 = ''2''" by code_simp
  then show ?thesis
    by (simp add: loader_inv_def handler_loader_def loader_sample_def resource_inv_def handled_sample_def data_sample_def GetNameWithType_def
        GetNextModFile_def kCatalogSizes_def)
qed

end
