(* ===== verification/Depot_Merge.thy ===== *)
theory Depot_Merge
  imports Shader_Depot Resource_Hooks
begin

text \<open>
  Correctness of the hook that rebuilds a shader block depot (\<^verbatim>\<open>Module/Source/ModLoader/ResourceMerger.cpp\<close>), and the blocks it
  collects from the loaded mods (\<^verbatim>\<open>ModifiedShaderBlockDepot::Collect\<close>).

  \<open>fix_inv\<close> describes the objects in memory after every step of the loop over the blocks of the game's depot; from it follow
  what is written in the end, and the case in which a block that is kept points to one that was deleted. \<open>depot_inv\<close> is the
  invariant of the mods' blocks, which loading a mod file keeps.
\<close>

unbundle bit_operations_syntax

section \<open>The loop over the blocks\<close>

lemma new_block_sb_type: "\<exists>ob. new_block (sb_type v) = Some ob \<and> so_index ob = 0 \<and> so_hash ob = 0"
  by (cases v) (simp_all add: new_block_def sb_type_def)

lemma read_table_at:
  assumes "length offs = length vs" "at_read b (table_enc offs vs)"
  shows "read_table (length vs) h b =
    ((map word_of_nat offs, map (\<lambda>k. Some (length h + k)) [0..<length vs]), h @ map (\<lambda>v. new_block (sb_type (snd v))) vs,
      advance (16 * length vs) b)"
  using assms
proof (induction offs vs arbitrary: h b rule: list_induct2)
  case (Cons off offs v vs)
  obtain ob where ob: "new_block (sb_type (snd v)) = Some ob" using new_block_sb_type by blast
  have a: "at_read b (bytes64 (word_of_nat off))" "at_read (advance 8 b) (bytes64 (sb_type (snd v)))"
    "at_read (advance 16 b) (table_enc offs vs)"
    using Cons.prems by (simp_all add: at_read_append)
  have "map (\<lambda>k. Some (Suc (length h) + k)) [0..<length vs] = map (\<lambda>k. Some (length h + k)) [1..<Suc (length vs)]"
    by (rule nth_equalityI) (simp_all del: upt_Suc)
  then show ?case
    using Cons.IH [OF a(3), of "h @ [Some ob]"] getLong_at [OF a(1)] getLong_at [OF a(2)] ob
    by (simp add: alloc_block_def upt_conv_Cons del: upt_Suc)
qed simp

text \<open>The invariant of the mods' blocks: one object for every hash, and no references.\<close>

definition depot_inv :: "modified_depot \<Rightarrow> sb_heap \<Rightarrow> bool" where
  "depot_inv d h \<longleftrightarrow> length (d_resources d) = length (d_hashes d) \<and> distinct (d_hashes d) \<and> distinct (d_resources d) \<and>
    (\<forall>k < length (d_hashes d). \<exists>a ob. d_resources d ! k = Some a \<and> a < length h \<and> h ! a = Some ob \<and>
      so_hash ob = d_hashes d ! k \<and> body_ok (so_body ob) \<and> set_sb_body (so_body ob) = {})"

lemma index_of_less: "index_of x xs \<le> length xs" "index_of x xs \<noteq> length xs \<longleftrightarrow> x \<in> set xs"
  by (induction xs) auto

lemma index_of_nth: "x \<in> set xs \<Longrightarrow> index_of x xs < length xs \<and> xs ! index_of x xs = x"
  by (induction xs) auto

lemma ContainsHash_iff: "ContainsHash hash d \<longleftrightarrow> hash \<in> set (d_hashes d)"
  by (simp add: ContainsHash_def index_of_less(2))

lemma GetResource_obj:
  assumes "depot_inv d h" "ContainsHash hash d"
  shows "\<exists>a ob. GetResource hash d = Some a \<and> a < length h \<and> h ! a = Some ob \<and> so_hash ob = hash \<and>
    body_ok (so_body ob) \<and> set_sb_body (so_body ob) = {}"
  using assms index_of_nth [of hash "d_hashes d"] unfolding GetResource_def depot_inv_def Let_def
  by (auto simp: ContainsHash_iff)

lemma GetResource_inj:
  assumes "depot_inv d h" "ContainsHash x d" "ContainsHash y d" "GetResource x d = GetResource y d"
  shows "x = y"
proof -
  have "index_of x (d_hashes d) < length (d_hashes d)" "d_hashes d ! index_of x (d_hashes d) = x"
    "index_of y (d_hashes d) < length (d_hashes d)" "d_hashes d ! index_of y (d_hashes d) = y"
    using assms(2,3) by (simp_all add: ContainsHash_iff index_of_nth)
  then show ?thesis
    using assms(1,4) unfolding GetResource_def depot_inv_def Let_def by (metis nth_eq_iff_index_eq order_less_irrefl)
qed

text \<open>The value of a block of a mod, and the depot with the blocks of the mods in place.\<close>

definition mod_value :: "modified_depot \<Rightarrow> sb_heap \<Rightarrow> u64 \<Rightarrow> u32 sb_body" where
  "mod_value d h hash = (case deref h (GetResource hash d) of Inr ob \<Rightarrow> map_sb_body (\<lambda>_. 0) (so_body ob) | Inl _ \<Rightarrow> Entry_Block [])"

definition merge_value :: "modified_depot \<Rightarrow> sb_heap \<Rightarrow> sb_value \<Rightarrow> sb_value" where
  "merge_value d h v = (if ContainsHash (fst v) d then (fst v, mod_value d h (fst v)) else v)"

definition final_addr :: "modified_depot \<Rightarrow> nat \<Rightarrow> sb_value list \<Rightarrow> nat \<Rightarrow> address" where
  "final_addr d base vs k = (if ContainsHash (fst (vs ! k)) d then GetResource (fst (vs ! k)) d else Some (base + k))"

definition addr_at :: "modified_depot \<Rightarrow> nat \<Rightarrow> sb_value list \<Rightarrow> nat \<Rightarrow> address list" where
  "addr_at d base vs j = map (\<lambda>k. if k < j then final_addr d base vs k else Some (base + k)) [0..<length vs]"

text \<open>The object of the \<open>k\<close>-th block, which refers to the blocks before it as they are after the loop, and to itself and the
  blocks behind it as they were before.\<close>

definition block_obj :: "modified_depot \<Rightarrow> nat \<Rightarrow> sb_value list \<Rightarrow> nat \<Rightarrow> address sb_object" where
  "block_obj d base vs k =
    \<lparr>so_index = word_of_nat k, so_hash = fst (vs ! k), so_body = map_sb_body (\<lambda>r. addr_at d base vs k ! unat r) (snd (vs ! k))\<rparr>"

definition fix_inv :: "modified_depot \<Rightarrow> sb_heap \<Rightarrow> sb_value list \<Rightarrow> nat \<Rightarrow> address list \<Rightarrow> sb_heap \<Rightarrow> bool" where
  "fix_inv d h0 vs j rs h \<longleftrightarrow> rs = addr_at d (length h0) vs j \<and> length h = length h0 + length vs \<and>
    (\<forall>k < length vs. h ! (length h0 + k) =
      (if j \<le> k then new_block (sb_type (snd (vs ! k)))
       else if ContainsHash (fst (vs ! k)) d then None else Some (block_obj d (length h0) vs k))) \<and>
    (\<forall>k < length vs. \<forall>a. ContainsHash (fst (vs ! k)) d \<longrightarrow> GetResource (fst (vs ! k)) d = Some a \<longrightarrow>
      h ! a = (if k < j then map_option (\<lambda>ob. ob\<lparr>so_index := word_of_nat k\<rparr>) (h0 ! a) else h0 ! a))"

definition refs_ok :: "nat \<Rightarrow> u32 sb_body \<Rightarrow> bool" where
  "refs_ok n body \<longleftrightarrow> (\<forall>r \<in> set_sb_body body. 0 \<le> sint r \<and> unat r < n)"

lemma length_addr_at [simp]: "length (addr_at d base vs j) = length vs"
  by (simp add: addr_at_def)

lemma addr_at_nth: "k < length vs \<Longrightarrow> addr_at d base vs j ! k = (if k < j then final_addr d base vs k else Some (base + k))"
  by (simp add: addr_at_def)

lemma addr_at_Suc: "j < length vs \<Longrightarrow> (addr_at d base vs j)[j := final_addr d base vs j] = addr_at d base vs (Suc j)"
  by (rule nth_equalityI) (auto simp: addr_at_nth nth_list_update less_Suc_eq)

lemma rel_refs: "refs_ok (length es) v \<Longrightarrow> rel_sb_body (ref_to (Some es)) v (map_sb_body (\<lambda>r. es ! unat r) v)"
  by (simp add: sb_body.rel_map) (rule sb_body.rel_refl_strong, simp add: refs_ok_def ref_to_def)

lemma deref_at: "i < length h \<Longrightarrow> h ! i = Some ob \<Longrightarrow> deref h (Some i) = Inr ob"
  by (simp add: deref_def)

lemma fix_block_read:
  assumes "fix_inv d h0 vs j rs h" "j < length vs" "buf b = B" "length B < 2 ^ 32" "block_at 0 B off (vs ! j)"
    "body_ok (snd (vs ! j))" "refs_ok (length vs) (snd (vs ! j))"
  shows "\<exists>ob b'. deref h (rs ! j) = Inr ob \<and> buf b' = B \<and>
    sb_Read (Some rs) ob (setReadPos (unat (ucast (word_of_nat off :: u64) :: u32)) b) =
      Inr (\<lparr>so_index = 0, so_hash = fst (vs ! j), so_body = map_sb_body (\<lambda>r. rs ! unat r) (snd (vs ! j))\<rparr>, b')"
proof -
  obtain ob where ob: "new_block (sb_type (snd (vs ! j))) = Some ob" "so_index ob = 0" using new_block_sb_type by blast
  have rs: "rs = addr_at d (length h0) vs j" "rs ! j = Some (length h0 + j)" "h ! (length h0 + j) = Some ob" "length h0 + j < length h"
    using assms(1,2) ob(1) by (auto simp: fix_inv_def addr_at_nth)
  have off: "unat (ucast (word_of_nat off :: u64) :: u32) = off" using assms(5) by (intro low_word) (simp add: block_at_def)
  have "rel_sb_body (ref_to (Some rs)) (snd (vs ! j)) (map_sb_body (\<lambda>r. rs ! unat r) (snd (vs ! j)))"
    using assms(7) rs(1) by (intro rel_refs) simp
  then obtain b' where "sb_Read (Some rs) ob (setReadPos off b) =
      Inr (ob\<lparr>so_hash := fst (vs ! j), so_body := map_sb_body (\<lambda>r. rs ! unat r) (snd (vs ! j))\<rparr>, b')" "buf b' = B"
    using sb_Read_block [of 0 b off "vs ! j"] assms(3-6) ob(1) by metis
  then show ?thesis using rs ob(2) deref_at [OF rs(4,3)] unfolding off by auto
qed

lemma fix_block_step:
  assumes "fix_inv d h0 vs j rs h" "j < length vs" "depot_inv d h0" "distinct (map fst vs)"
    "buf b = B" "length B < 2 ^ 32" "block_at 0 B off (vs ! j)" "body_ok (snd (vs ! j))" "refs_ok (length vs) (snd (vs ! j))"
  shows "\<exists>rs' h' b'. fix_block d j (word_of_nat off) (rs, h, b) = Inr (rs', h', b') \<and> fix_inv d h0 vs (Suc j) rs' h' \<and> buf b' = B"
proof -
  let ?n = "length h0" and ?hash = "fst (vs ! j)"
  let ?ob = "\<lparr>so_index = 0, so_hash = ?hash, so_body = map_sb_body (\<lambda>r. rs ! unat r) (snd (vs ! j))\<rparr>"
  note inv = assms(1) [unfolded fix_inv_def]
  obtain ob b' where r: "deref h (rs ! j) = Inr ob" "buf b' = B"
    "sb_Read (Some rs) ob (setReadPos (unat (ucast (word_of_nat off :: u64) :: u32)) b) = Inr (?ob, b')"
    using fix_block_read [OF assms(1,2,5-9)] by blast
  have j: "rs ! j = Some (?n + j)" "?n + j < length h" using inv assms(2) by (auto simp: addr_at_nth)
  have other: "fst (vs ! k) \<noteq> ?hash" if "k < length vs" "k \<noteq> j" for k
    using assms(2,4) that by (metis distinct_map inj_on_eq_iff nth_eq_iff_index_eq nth_mem)
  show ?thesis
  proof (cases "ContainsHash ?hash d")
    case True
    obtain a old where a: "GetResource ?hash d = Some a" "a < ?n" "h0 ! a = Some old"
      using GetResource_obj [OF assms(3) True] by blast
    have ha: "h ! a = Some old" using inv assms(2) True a by auto
    let ?h = "h[?n + j := None, a := Some (old\<lparr>so_index := word_of_nat j\<rparr>)]"
    have "fix_block d j (word_of_nat off) (rs, h, b) = Inr (rs[j := Some a], ?h, b')"
      using r j True a ha assms(2) inv by (simp add: fix_block_def store_def free_def deref_def Let_def)
    moreover have "rs[j := Some a] = addr_at d ?n vs (Suc j)"
      using inv assms(2) addr_at_Suc [of j vs d ?n] True a(1) by (simp add: final_addr_def)
    moreover have "?h ! c = (if k < Suc j then map_option (\<lambda>ob. ob\<lparr>so_index := word_of_nat k\<rparr>) (h0 ! c) else h0 ! c)"
      if c: "k < length vs" "ContainsHash (fst (vs ! k)) d" "GetResource (fst (vs ! k)) d = Some c" for k c
    proof (cases "k = j")
      case True
      then show ?thesis using a c j(2) by auto
    next
      case False
      then have "c \<noteq> a" using other [OF c(1)] GetResource_inj [OF assms(3) c(2) True] c(3) a(1) by metis
      moreover have "c < ?n" using GetResource_obj [OF assms(3) c(2)] c(3) by auto
      ultimately show ?thesis using inv c False by (auto simp: less_Suc_eq)
    qed
    moreover have "?h ! (?n + k) =
        (if Suc j \<le> k then new_block (sb_type (snd (vs ! k)))
         else if ContainsHash (fst (vs ! k)) d then None else Some (block_obj d ?n vs k))" if "k < length vs" for k
      using inv that a(2) True j(2) by (cases "k = j") (auto simp: nth_list_update)
    ultimately show ?thesis using r(2) inv unfolding fix_inv_def by auto
  next
    case False
    let ?h = "h[?n + j := Some (?ob\<lparr>so_index := word_of_nat j\<rparr>)]"
    have "fix_block d j (word_of_nat off) (rs, h, b) = Inr (rs, ?h, b')"
      using r j False by (simp add: fix_block_def store_def free_def deref_def Let_def)
    moreover have "rs = addr_at d ?n vs (Suc j)"
      using inv assms(2) addr_at_Suc [of j vs d ?n] False j(1) by (metis final_addr_def list_update_id)
    moreover have "?h ! c = (if k < Suc j then map_option (\<lambda>ob. ob\<lparr>so_index := word_of_nat k\<rparr>) (h0 ! c) else h0 ! c)"
      if c: "k < length vs" "ContainsHash (fst (vs ! k)) d" "GetResource (fst (vs ! k)) d = Some c" for k c
    proof -
      have "k \<noteq> j" "c < ?n" using False c GetResource_obj [OF assms(3) c(2)] by auto
      then show ?thesis using inv c by (auto simp: less_Suc_eq)
    qed
    moreover have "?h ! (?n + k) =
        (if Suc j \<le> k then new_block (sb_type (snd (vs ! k)))
         else if ContainsHash (fst (vs ! k)) d then None else Some (block_obj d ?n vs k))" if "k < length vs" for k
      using inv that False j(2) by (cases "k = j") (auto simp: nth_list_update block_obj_def)
    ultimately show ?thesis using r(2) inv unfolding fix_inv_def by auto
  qed
qed

lemma fix_loop_inv:
  assumes "fix_inv d h0 vs j rs h" "depot_inv d h0" "distinct (map fst vs)" "buf b = B" "length B < 2 ^ 32"
    "list_all2 (block_at 0 B) offs (drop j vs)" "\<forall>v \<in> set vs. body_ok (snd v) \<and> refs_ok (length vs) (snd v)" "j \<le> length vs"
  shows "\<exists>rs' h' b'. fix_loop d j (map word_of_nat offs) (rs, h, b) = Inr (rs', h', b') \<and> fix_inv d h0 vs (length vs) rs' h'"
  using assms(1,4,6,8)
proof (induction offs arbitrary: j rs h b)
  case Nil
  then have "j = length vs" by simp
  then show ?case using Nil.prems(1) by simp
next
  case (Cons off offs)
  then have j: "j < length vs" by (cases "j < length vs") simp_all
  then have "drop j vs = vs ! j # drop (Suc j) vs" by (simp add: Cons_nth_drop_Suc)
  then have "block_at 0 B off (vs ! j)" and rest: "list_all2 (block_at 0 B) offs (drop (Suc j) vs)"
    using Cons.prems(3) by simp_all
  then obtain rs' h' b' where "fix_block d j (word_of_nat off) (rs, h, b) = Inr (rs', h', b')"
    "fix_inv d h0 vs (Suc j) rs' h'" "buf b' = B"
    using fix_block_step [OF Cons.prems(1) j assms(2,3) Cons.prems(2) assms(5)] assms(7) j by (meson nth_mem)
  then show ?case using Cons.IH [of "Suc j" rs' h' b'] rest j by auto
qed

section \<open>After the loop\<close>

text \<open>A block that is kept must not refer to a block behind it that a mod replaces.\<close>

definition refs_kept :: "modified_depot \<Rightarrow> sb_value list \<Rightarrow> bool" where
  "refs_kept d vs \<longleftrightarrow> (\<forall>k < length vs. \<not> ContainsHash (fst (vs ! k)) d \<longrightarrow>
    (\<forall>r \<in> set_sb_body (snd (vs ! k)). k \<le> unat r \<longrightarrow> \<not> ContainsHash (fst (vs ! unat r)) d))"

lemma final_deref:
  assumes "fix_inv d h0 vs (length vs) rs h" "depot_inv d h0" "k < length vs"
  shows "\<exists>ob. deref h (final_addr d (length h0) vs k) = Inr ob \<and> so_index ob = word_of_nat k \<and> so_hash ob = fst (vs ! k) \<and>
    (if ContainsHash (fst (vs ! k)) d then set_sb_body (so_body ob) = {} \<and> map_sb_body (\<lambda>_. 0) (so_body ob) = mod_value d h0 (fst (vs ! k))
     else ob = block_obj d (length h0) vs k)"
proof (cases "ContainsHash (fst (vs ! k)) d")
  case True
  then obtain a ob where a: "GetResource (fst (vs ! k)) d = Some a" "a < length h0" "h0 ! a = Some ob" "so_hash ob = fst (vs ! k)"
    "set_sb_body (so_body ob) = {}"
    using GetResource_obj [OF assms(2)] by blast
  then have "h ! a = Some (ob\<lparr>so_index := word_of_nat k\<rparr>)" "a < length h"
    using assms(1,3) True by (auto simp: fix_inv_def)
  then show ?thesis using True a by (simp add: final_addr_def deref_def mod_value_def)
next
  case False
  then have "h ! (length h0 + k) = Some (block_obj d (length h0) vs k)" "length h0 + k < length h"
    using assms(1,3) by (auto simp: fix_inv_def)
  then show ?thesis using False by (simp add: final_addr_def deref_def block_obj_def)
qed

lemma points_final:
  assumes "fix_inv d h0 vs (length vs) rs h" "depot_inv d h0" "unat r < length vs"
  shows "points h (final_addr d (length h0) vs (unat r)) r"
  using final_deref [OF assms] by (auto simp: points_def)

lemma final_block_rel:
  assumes "fix_inv d h0 vs (length vs) rs h" "depot_inv d h0" "refs_kept d vs" "k < length vs" "refs_ok (length vs) (snd (vs ! k))"
  shows "block_rel h (final_addr d (length h0) vs k) (merge_value d h0 (vs ! k))"
proof -
  obtain ob where ob: "deref h (final_addr d (length h0) vs k) = Inr ob" "so_hash ob = fst (vs ! k)"
    "if ContainsHash (fst (vs ! k)) d then set_sb_body (so_body ob) = {} \<and> map_sb_body (\<lambda>_. 0) (so_body ob) = mod_value d h0 (fst (vs ! k))
     else ob = block_obj d (length h0) vs k"
    using final_deref [OF assms(1,2,4)] by blast
  show ?thesis
  proof (cases "ContainsHash (fst (vs ! k)) d")
    case True
    then have none: "set_sb_body (so_body ob) = {}" using ob(3) by simp
    have "rel_sb_body (points h) (so_body ob) (map_sb_body (\<lambda>_. 0) (so_body ob))"
      by (simp add: sb_body.rel_map) (rule sb_body.rel_refl_strong, simp add: none)
    then show ?thesis using ob True by (simp add: block_rel_def merge_value_def)
  next
    case False
    have "points h (addr_at d (length h0) vs k ! unat r) r" if r: "r \<in> set_sb_body (snd (vs ! k))" for r
    proof -
      have "unat r < length vs" using assms(5) r by (simp add: refs_ok_def)
      moreover have "k \<le> unat r \<Longrightarrow> \<not> ContainsHash (fst (vs ! unat r)) d"
        using assms(3,4) False r by (simp add: refs_kept_def)
      ultimately show ?thesis
        using points_final [OF assms(1,2), of r] by (cases "unat r < k") (auto simp: addr_at_nth final_addr_def)
    qed
    then have "rel_sb_body (points h) (so_body ob) (snd (vs ! k))"
      using ob(3) False by (simp add: block_obj_def sb_body.rel_map) (rule sb_body.rel_refl_strong, simp)
    then show ?thesis using ob False by (simp add: block_rel_def merge_value_def)
  qed
qed

lemma fix_inv_start:
  assumes "depot_inv d h"
  shows "fix_inv d h vs 0 (map (\<lambda>k. Some (length h + k)) [0..<length vs]) (h @ map (\<lambda>v. new_block (sb_type (snd v))) vs)"
  using GetResource_obj [OF assms] by (fastforce simp: fix_inv_def addr_at_def nth_append)

definition game_depot :: "bytes \<Rightarrow> sb_value list \<Rightarrow> bool" where
  "game_depot ea vs \<longleftrightarrow> depot_at ea 0 vs \<and> length vs < 2 ^ 32 \<and> distinct (map fst vs) \<and>
    (\<forall>v \<in> set vs. body_ok (snd v) \<and> refs_ok (length vs) (snd v))"

text \<open>The reading half of the hook.\<close>

lemma Fixup_reads:
  assumes "depot_inv d h0" "game_depot ea vs"
  shows "\<exists>rs h. fix_inv d h0 vs (length vs) rs h \<and> FixupTurboBulk (d, h0) (word_of_nat (length vs)) ea = write_depot h rs"
proof -
  obtain offs where offs: "length offs = length vs" "prefix (table_enc offs vs) ea" "list_all2 (block_at 0 ea) offs vs" "length ea < 2 ^ 32"
    using assms(2) by (auto simp: game_depot_def depot_at_def)
  have "at_read (bb_of_array ea) (table_enc offs vs)" using offs(2,4) by (simp add: at_read_def)
  note t = read_table_at [OF offs(1) this, of h0]
  have "\<exists>rs' h' b'. fix_loop d 0 (map word_of_nat offs) (map (\<lambda>k. Some (length h0 + k)) [0..<length vs],
      h0 @ map (\<lambda>v. new_block (sb_type (snd v))) vs, advance (16 * length vs) (bb_of_array ea)) = Inr (rs', h', b') \<and>
      fix_inv d h0 vs (length vs) rs' h'"
    using assms(2) offs(3,4)
    by (intro fix_loop_inv [OF fix_inv_start [OF assms(1)] assms(1)]) (auto simp: game_depot_def)
  moreover have "unat (word_of_nat (length vs) :: u32) = length vs" using assms(2) by (simp add: game_depot_def unat_small)
  ultimately show ?thesis using t by (fastforce simp: FixupTurboBulk_def)
qed

lemma fix_inv_addrs: "fix_inv d h0 vs (length vs) rs h \<Longrightarrow> rs = map (final_addr d (length h0) vs) [0..<length vs]"
  by (simp add: fix_inv_def addr_at_def)

lemma Fixup_merges:
  assumes "depot_inv d h" "game_depot ea vs" "refs_kept d vs" "length (depot_image (map (merge_value d h) vs)) < 2 ^ 32"
  shows "FixupTurboBulk (d, h) (word_of_nat (length vs)) ea = Inr (depot_result (map (merge_value d h) vs))"
proof -
  obtain rs h' where r: "fix_inv d h vs (length vs) rs h'" "FixupTurboBulk (d, h) (word_of_nat (length vs)) ea = write_depot h' rs"
    using Fixup_reads [OF assms(1,2)] by blast
  have "list_all2 (block_rel h') rs (map (merge_value d h) vs)"
    using final_block_rel [OF r(1) assms(1,3)] assms(2) unfolding fix_inv_addrs [OF r(1)]
    by (auto simp: list_all2_conv_all_nth game_depot_def)
  then show ?thesis using r(2) write_depot_result assms(4) by simp
qed

section \<open>References to deleted blocks\<close>

definition live_or_freed :: "sb_heap \<Rightarrow> address \<Rightarrow> bool" where
  "live_or_freed h a \<longleftrightarrow> deref h a = Inl Freed_Access \<or> (\<exists>ob. deref h a = Inr ob)"

lemma write_refs_freed:
  "(\<And>a. a \<in> set as \<Longrightarrow> live_or_freed h a) \<Longrightarrow> (\<exists>b'. write_refs h as b = Inr b') \<or> write_refs h as b = Inl Freed_Access"
  by (induction as arbitrary: b) (fastforce simp: live_or_freed_def split: sum.splits)+

lemma write_refs_freed_one:
  "(\<And>a. a \<in> set as \<Longrightarrow> live_or_freed h a) \<Longrightarrow> deref h x = Inl Freed_Access \<Longrightarrow> x \<in> set as \<Longrightarrow> write_refs h as b = Inl Freed_Access"
  by (induction as arbitrary: b) (fastforce simp: live_or_freed_def split: sum.splits)+

lemma sb_Write_freed:
  assumes "\<And>a. a \<in> set_sb_body (so_body ob) \<Longrightarrow> live_or_freed h a"
  shows "(\<exists>r. sb_Write h ob w = Inr r) \<or> sb_Write h ob w = Inl Freed_Access"
    and "x \<in> set_sb_body (so_body ob) \<Longrightarrow> deref h x = Inl Freed_Access \<Longrightarrow> sb_Write h ob w = Inl Freed_Access"
proof -
  have "(\<exists>b'. write_contents h (so_body ob) b = Inr b') \<or> write_contents h (so_body ob) b = Inl Freed_Access" for b
    using assms write_refs_freed [of _ h b] by (cases "so_body ob") (auto simp: write_contents_def)
  then show "(\<exists>r. sb_Write h ob w = Inr r) \<or> sb_Write h ob w = Inl Freed_Access"
    by (cases w) (metis (no_types, lifting) case_prod_conv old.sum.simps(5,6) sb_Write_def)
  assume x: "x \<in> set_sb_body (so_body ob)" "deref h x = Inl Freed_Access"
  have "write_contents h (so_body ob) b = Inl Freed_Access" for b
    using assms x write_refs_freed_one [of _ h x b] by (cases "so_body ob") (auto simp: write_contents_def)
  then show "sb_Write h ob w = Inl Freed_Access" by (cases w) (simp add: sb_Write_def Let_def)
qed

lemma write_blocks_freed:
  assumes "\<And>a. a \<in> set as \<Longrightarrow> \<exists>ob. deref h a = Inr ob \<and> (\<forall>c \<in> set_sb_body (so_body ob). live_or_freed h c)"
    "a \<in> set as" "deref h a = Inr ob" "x \<in> set_sb_body (so_body ob)" "deref h x = Inl Freed_Access"
  shows "write_blocks h i as w = Inl Freed_Access"
  using assms(1,2)
proof (induction as arbitrary: i w)
  case (Cons c cs)
  obtain oc where oc: "deref h c = Inr oc" "\<forall>c \<in> set_sb_body (so_body oc). live_or_freed h c" using Cons.prems(1) [of c] by auto
  show ?case
  proof (cases "a \<in> set cs")
    case True
    then have "write_blocks h i cs w = Inl Freed_Access" for i w using Cons.IH Cons.prems(1) by simp
    then show ?thesis using sb_Write_freed(1) [of oc h w] oc by (cases w) (auto split: sum.splits)
  next
    case False
    then have "oc = ob" using Cons.prems(2) oc(1) assms(3) by simp
    then show ?thesis using sb_Write_freed(2) [of oc h x w] oc assms(4,5) by (cases w) auto
  qed
qed simp

lemma Fixup_frees:
  assumes "depot_inv d h" "game_depot ea vs" "\<not> refs_kept d vs"
  shows "FixupTurboBulk (d, h) (word_of_nat (length vs)) ea = Inl Freed_Access"
proof -
  obtain k r where k: "k < length vs" "\<not> ContainsHash (fst (vs ! k)) d" "r \<in> set_sb_body (snd (vs ! k))" "k \<le> unat r"
    "ContainsHash (fst (vs ! unat r)) d"
    using assms(3) by (auto simp: refs_kept_def)
  obtain rs h' where r: "fix_inv d h vs (length vs) rs h'" "FixupTurboBulk (d, h) (word_of_nat (length vs)) ea = write_depot h' rs"
    using Fixup_reads [OF assms(1,2)] by blast
  have refs: "unat q < length vs" if "i < length vs" "q \<in> set_sb_body (snd (vs ! i))" for i q
    using assms(2) that by (auto simp: game_depot_def refs_ok_def)
  have base: "live_or_freed h' (Some (length h + i))" "ContainsHash (fst (vs ! i)) d \<Longrightarrow> deref h' (Some (length h + i)) = Inl Freed_Access"
    if "i < length vs" for i
    using r(1) that by (auto simp: fix_inv_def deref_def live_or_freed_def)
  have final: "live_or_freed h' (final_addr d (length h) vs i)" if "i < length vs" for i
    using final_deref [OF r(1) assms(1) that] by (auto simp: live_or_freed_def)
  have all: "\<exists>ob. deref h' a = Inr ob \<and> (\<forall>c \<in> set_sb_body (so_body ob). live_or_freed h' c)" if a: "a \<in> set rs" for a
  proof -
    obtain i where i: "i < length vs" "a = final_addr d (length h) vs i" using a fix_inv_addrs [OF r(1)] by auto
    have "live_or_freed h' (addr_at d (length h) vs i ! unat q)" if "q \<in> set_sb_body (snd (vs ! i))" for q
      using refs [OF i(1) that] base(1) final by (auto simp: addr_at_nth)
    then show ?thesis using final_deref [OF r(1) assms(1) i(1)] i(2)
      by (auto simp: block_obj_def sb_body.set_map split: if_splits)
  qed
  have "k \<noteq> unat r" using k(2,5) by auto
  then have "addr_at d (length h) vs k ! unat r = Some (length h + unat r)"
    using refs [OF k(1,3)] k(4) by (simp add: addr_at_nth)
  moreover have "deref h' (Some (length h + unat r)) = Inl Freed_Access" using base(2) refs [OF k(1,3)] k(5) by blast
  moreover have "deref h' (final_addr d (length h) vs k) = Inr (block_obj d (length h) vs k)"
    using final_deref [OF r(1) assms(1) k(1)] k(2) by auto
  moreover have "final_addr d (length h) vs k \<in> set rs" using k(1) fix_inv_addrs [OF r(1)] by simp
  moreover have "addr_at d (length h) vs k ! unat r \<in> set_sb_body (so_body (block_obj d (length h) vs k))"
    using k(3) by (simp add: block_obj_def sb_body.set_map)
  ultimately have "write_blocks h' i rs w = Inl Freed_Access" for i w using all by (intro write_blocks_freed) auto
  then show ?thesis using r(2) by (simp add: write_depot_def)
qed

section \<open>Loading the blocks of a mod\<close>

lemma skip_loop_pos:
  assumes "rpos b + align_len a (rpos b) < 2 ^ 32" "align_len a (rpos b) \<le> k" "0 < a"
  shows "skip_loop k a b = setReadPos (rpos b + align_len a (rpos b)) b"
  using assms
proof (induction k arbitrary: b)
  case 0
  then show ?case by (simp add: setReadPos_def)
next
  case (Suc k)
  show ?case
  proof (cases "rpos b mod a = 0")
    case True
    then show ?thesis by (simp add: align_len_def setReadPos_def)
  next
    case False
    note p = align_len_Suc [OF False Suc.prems(3)]
    then have "pos_add (rpos b) 1 = Suc (rpos b)" using Suc.prems(1) by (simp add: pos_add_def)
    moreover have "skip_loop k a (setReadPos (Suc (rpos b)) b) = setReadPos (Suc (rpos b) + align_len a (Suc (rpos b))) (setReadPos (Suc (rpos b)) b)"
      using Suc.IH [of "setReadPos (Suc (rpos b)) b"] Suc.prems p by simp
    ultimately show ?thesis using False p by (simp add: setReadPos_def)
  qed
qed

definition mod_file :: "bytes \<Rightarrow> sb_value list \<Rightarrow> bool" where
  "mod_file ea vs \<longleftrightarrow> prefix (bytes32 (word_of_nat (length vs))) ea \<and> depot_at ea 16 vs \<and> length vs < 2 ^ 32 \<and>
    distinct (map fst vs) \<and> (\<forall>v \<in> set vs. body_ok (snd v) \<and> set_sb_body (snd v) = {})"

definition mod_obj :: "sb_value \<Rightarrow> address sb_object" where
  "mod_obj v = \<lparr>so_index = 0, so_hash = fst v, so_body = map_sb_body (\<lambda>_. None) (snd v)\<rparr>"

lemma sb_Read_mod:
  assumes "block_at 0 (buf b) off v" "length (buf b) < 2 ^ 32" "body_ok (snd v)" "set_sb_body (snd v) = {}"
    "new_block (sb_type (snd v)) = Some ob"
  shows "\<exists>b'. sb_Read None ob (setReadPos off b) = Inr (mod_obj v, b') \<and> buf b' = buf b"
proof -
  have "rel_sb_body (ref_to None) (snd v) (map_sb_body (\<lambda>_. None) (snd v))"
    by (simp add: sb_body.rel_map) (rule sb_body.rel_refl_strong, simp add: assms(4))
  from sb_Read_block [OF assms(1-3) this assms(5)] show ?thesis
    using new_block_sb_type [of "snd v"] assms(5) by (auto simp: mod_obj_def)
qed

lemma load_blocks_at:
  assumes "list_all2 (block_at 0 B) offs vs" "\<forall>v \<in> set vs. body_ok (snd v) \<and> set_sb_body (snd v) = {}" "buf b = B" "length B < 2 ^ 32"
  shows "\<exists>b'. load_blocks (map word_of_nat offs) (map (\<lambda>k. Some (length h + k)) [0..<length vs])
      (h @ map (\<lambda>v. new_block (sb_type (snd v))) vs) b =
    Inr (map fst vs, h @ map (\<lambda>v. Some (mod_obj v)) vs, b')"
  using assms
proof (induction offs vs arbitrary: h b rule: list_all2_induct)
  case (Cons off offs v vs)
  obtain ob where ob: "new_block (sb_type (snd v)) = Some ob" using new_block_sb_type by blast
  have off: "unat (ucast (word_of_nat off :: u64) :: u32) = off" using Cons.hyps(1) by (intro low_word) (simp add: block_at_def)
  obtain b1 where b1: "sb_Read None ob (setReadPos off b) = Inr (mod_obj v, b1)" "buf b1 = B"
    using sb_Read_mod [of b off v ob] Cons.hyps(1) Cons.prems ob by auto
  have a: "map (\<lambda>k. Some (length h + k)) [0..<length (v # vs)] =
      Some (length h) # map (\<lambda>k. Some (length (h @ [Some (mod_obj v)]) + k)) [0..<length vs]"
    by (simp add: upt_conv_Cons map_Suc_upt [symmetric] comp_def del: upt_Suc)
  obtain b2 where "load_blocks (map word_of_nat offs) (map (\<lambda>k. Some (length (h @ [Some (mod_obj v)]) + k)) [0..<length vs])
      ((h @ [Some (mod_obj v)]) @ map (\<lambda>v. new_block (sb_type (snd v))) vs) b1 =
      Inr (map fst vs, (h @ [Some (mod_obj v)]) @ map (\<lambda>v. Some (mod_obj v)) vs, b2)"
    using Cons.IH [OF _ b1(2) Cons.prems(3), of "h @ [Some (mod_obj v)]"] Cons.prems(1) by auto
  then show ?case
    unfolding a using b1 ob by (simp add: off deref_def store_def list_update_append mod_obj_def [of v])
qed simp

text \<open>The depot as a map from hashes to addresses.\<close>

definition keyed :: "modified_depot \<Rightarrow> bool" where
  "keyed d \<longleftrightarrow> length (d_resources d) = length (d_hashes d) \<and> distinct (d_hashes d)"

lemma index_of_append: "index_of x (xs @ ys) = (if x \<in> set xs then index_of x xs else length xs + index_of x ys)"
  by (induction xs) auto

lemma index_of_distinct: "distinct xs \<Longrightarrow> k < length xs \<Longrightarrow> index_of (xs ! k) xs = k"
  by (metis index_of_nth nth_eq_iff_index_eq nth_mem)

lemma keyed_resources: "keyed d \<Longrightarrow> d_resources d = map (\<lambda>x. GetResource x d) (d_hashes d)"
  by (rule nth_equalityI) (auto simp: keyed_def GetResource_def index_of_distinct)

lemma GetResource_replace:
  assumes "keyed d" "x \<in> set (d_hashes d)"
  shows "GetResource x (replace_blocks hashes rs d) = (if x \<in> set hashes then rs ! index_of x hashes else GetResource x d)"
  using assms index_of_nth [OF assms(2)] index_of_less(2) [of x hashes]
  by (auto simp: GetResource_def replace_blocks_def keyed_def Let_def)

lemma keyed_replace: "keyed d \<Longrightarrow> keyed (replace_blocks hashes rs d) \<and> d_hashes (replace_blocks hashes rs d) = d_hashes d"
  by (simp add: keyed_def replace_blocks_def)

lemma AddResource_new:
  assumes "keyed d" "x \<notin> set (d_hashes d)"
  shows "keyed (AddResource x a d)" "d_hashes (AddResource x a d) = d_hashes d @ [x]"
    "GetResource y (AddResource x a d) = (if y = x then a else GetResource y d)"
proof -
  have i: "index_of x (d_hashes d) = length (d_hashes d)" using assms(2) index_of_less(2) by metis
  then show "keyed (AddResource x a d)" "d_hashes (AddResource x a d) = d_hashes d @ [x]"
    using assms by (simp_all add: AddResource_def keyed_def)
  show "GetResource y (AddResource x a d) = (if y = x then a else GetResource y d)"
    using assms i index_of_less [of y "d_hashes d"]
    by (auto simp: AddResource_def GetResource_def keyed_def Let_def index_of_append nth_append nth_list_update)
qed

lemma add_blocks_spec:
  assumes "keyed d" "length hashes = length rs"
  shows "keyed (add_blocks hashes rs d) \<and> set (d_hashes (add_blocks hashes rs d)) = set (d_hashes d) \<union> set hashes \<and>
    GetResource y (add_blocks hashes rs d) =
      (if y \<in> set hashes - set (d_hashes d) then rs ! index_of y hashes else GetResource y d)"
  using assms(2,1)
proof (induction hashes rs arbitrary: d rule: list_induct2)
  case (Cons x hashes a rs)
  show ?case
  proof (cases "x \<in> set (d_hashes d)")
    case True
    then have "add_blocks (x # hashes) (a # rs) d = add_blocks hashes rs d" by (simp add: add_blocks_def ContainsHash_iff)
    then show ?thesis using True Cons by auto
  next
    case False
    then have "add_blocks (x # hashes) (a # rs) d = add_blocks hashes rs (AddResource x a d)"
      by (simp add: add_blocks_def ContainsHash_iff)
    then show ?thesis using False Cons.IH [OF AddResource_new(1) [OF Cons.prems False]] AddResource_new [OF Cons.prems False] by auto
  qed
qed (simp add: add_blocks_def)

lemma depot_invI:
  assumes "keyed d" "\<And>x. x \<in> set (d_hashes d) \<Longrightarrow> \<exists>a ob. GetResource x d = Some a \<and> a < length h \<and> h ! a = Some ob \<and>
      so_hash ob = x \<and> body_ok (so_body ob) \<and> set_sb_body (so_body ob) = {}"
  shows "depot_inv d h"
proof -
  have r: "d_resources d = map (\<lambda>x. GetResource x d) (d_hashes d)" using assms(1) by (rule keyed_resources)
  have "inj_on (\<lambda>x. GetResource x d) (set (d_hashes d))"
    by (rule inj_onI) (metis assms(2) option.inject)
  then have "distinct (d_resources d)" unfolding r using assms(1) by (simp add: distinct_map keyed_def)
  moreover have "\<exists>a ob. d_resources d ! k = Some a \<and> a < length h \<and> h ! a = Some ob \<and>
      so_hash ob = d_hashes d ! k \<and> body_ok (so_body ob) \<and> set_sb_body (so_body ob) = {}" if "k < length (d_hashes d)" for k
    using that assms(2) [of "d_hashes d ! k"] by (simp add: r)
  ultimately show ?thesis using assms(1) by (simp add: depot_inv_def keyed_def)
qed

text \<open>The blocks a mod file gives, by their hash.\<close>

lemma mod_file_reads:
  assumes "mod_file ea vs"
  shows "depot_Load (bb_of_array ea) (d, h) =
    (let rs = map (\<lambda>k. Some (length h + k)) [0..<length vs]
     in Inr (add_blocks (map fst vs) rs (replace_blocks (map fst vs) rs d), h @ map (\<lambda>v. Some (mod_obj v)) vs))"
proof -
  let ?b = "bb_of_array ea" and ?n = "word_of_nat (length vs) :: u32"
  obtain offs where offs: "length offs = length vs" "prefix (table_enc offs vs) (drop 16 ea)" "list_all2 (block_at 0 ea) offs vs"
    "length ea < 2 ^ 32" and ok: "prefix (bytes32 ?n) ea" "length vs < 2 ^ 32" "\<forall>v \<in> set vs. body_ok (snd v) \<and> set_sb_body (snd v) = {}"
    using assms by (auto simp: mod_file_def depot_at_def)
  have g: "getInt ?b = (?n, advance 4 ?b)" using ok(1) offs(4) by (intro getInt_at) (simp add: at_read_def)
  have p: "ReadPadding 16 (advance 4 ?b) = setReadPos 16 (advance 4 ?b)"
    using offs(4) skip_loop_pos [of "advance 4 ?b" 16 16] by (simp add: ReadPadding_def align_len_def)
  have "at_read (setReadPos 16 (advance 4 ?b)) (table_enc offs vs)" using offs(2,4) by (simp add: at_read_def)
  note t = read_table_at [OF offs(1) this, of h]
  obtain b' where "load_blocks (map word_of_nat offs) (map (\<lambda>k. Some (length h + k)) [0..<length vs])
      (h @ map (\<lambda>v. new_block (sb_type (snd v))) vs) (advance (16 * length vs) (setReadPos 16 (advance 4 ?b))) =
      Inr (map fst vs, h @ map (\<lambda>v. Some (mod_obj v)) vs, b')"
    using load_blocks_at [OF offs(3) ok(3), of "advance (16 * length vs) (setReadPos 16 (advance 4 ?b))" h] offs(4) by auto
  then show ?thesis using ok(2) by (simp add: depot_Load_def g p t unat_small Let_def)
qed

lemma mod_value_app: "GetResource x d = Some a \<Longrightarrow> a < length h \<Longrightarrow> mod_value d (h @ h') x = mod_value d h x"
  by (simp add: mod_value_def deref_def nth_append)

text \<open>Loading a mod file keeps the invariant; the blocks of the file replace those of the files before it.\<close>

lemma depot_Load_file:
  assumes "depot_inv d h" "mod_file ea vs"
  shows "\<exists>d' h'. depot_Load (bb_of_array ea) (d, h) = Inr (d', h') \<and> depot_inv d' h' \<and>
    (\<forall>x. ContainsHash x d' \<longleftrightarrow> ContainsHash x d \<or> x \<in> fst ` set vs) \<and>
    (\<forall>x. ContainsHash x d' \<longrightarrow> mod_value d' h' x = (case map_of vs x of Some v \<Rightarrow> v | None \<Rightarrow> mod_value d h x))"
proof -
  let ?rs = "map (\<lambda>k. Some (length h + k)) [0..<length vs]" and ?hs = "map fst vs" and ?h = "h @ map (\<lambda>v. Some (mod_obj v)) vs"
  let ?d1 = "replace_blocks ?hs ?rs d"
  let ?d2 = "add_blocks ?hs ?rs ?d1"
  have k: "keyed d" using assms(1) by (simp add: depot_inv_def keyed_def)
  note k1 = keyed_replace [OF k, of ?hs ?rs]
  have len: "length ?hs = length ?rs" by simp
  have d2: "keyed ?d2" "set (d_hashes ?d2) = set (d_hashes d) \<union> fst ` set vs"
    using add_blocks_spec [OF conjunct1 [OF k1] len] k1 by auto
  have get: "GetResource x ?d2 = (if x \<in> set ?hs then Some (length h + index_of x ?hs) else GetResource x d)"
    if "x \<in> set (d_hashes ?d2)" for x
  proof -
    have "?rs ! index_of x ?hs = Some (length h + index_of x ?hs)" if "x \<in> set ?hs" using index_of_nth [OF that] by simp
    then show ?thesis
      using that d2(2) add_blocks_spec [OF conjunct1 [OF k1] len, of x] GetResource_replace [OF k, of x ?hs ?rs] k1
      by (cases "x \<in> set (d_hashes d)") auto
  qed
  have new: "?h ! (length h + index_of x ?hs) = Some (mod_obj (vs ! index_of x ?hs))" "index_of x ?hs < length vs"
    "fst (vs ! index_of x ?hs) = x" "vs ! index_of x ?hs \<in> set vs" if "x \<in> set ?hs" for x
    using index_of_nth [OF that] by (auto simp: nth_append)
  have "depot_inv ?d2 ?h"
  proof (rule depot_invI [OF d2(1)])
    fix x assume x: "x \<in> set (d_hashes ?d2)"
    show "\<exists>a ob. GetResource x ?d2 = Some a \<and> a < length ?h \<and> ?h ! a = Some ob \<and> so_hash ob = x \<and> body_ok (so_body ob) \<and>
        set_sb_body (so_body ob) = {}"
    proof (cases "x \<in> set ?hs")
      case True
      have "body_ok (map_sb_body f v)" if "body_ok v" for v :: "u32 sb_body" and f :: "u32 \<Rightarrow> address" using that by (cases v) auto
      then show ?thesis using True get [OF x] new [OF True] assms(2)
        by (auto simp: mod_obj_def mod_file_def sb_body.set_map)
    next
      case False
      then show ?thesis
        using get [OF x] x d2(2) GetResource_obj [OF assms(1), of x] by (auto simp: ContainsHash_iff nth_append)
    qed
  qed
  moreover have "mod_value ?d2 ?h x = (case map_of vs x of Some v \<Rightarrow> v | None \<Rightarrow> mod_value d h x)" if x: "x \<in> set (d_hashes ?d2)" for x
  proof (cases "x \<in> set ?hs")
    case True
    have "map_of vs x = Some (snd (vs ! index_of x ?hs))"
      using assms(2) new(3,4) [OF True] by (intro map_of_is_SomeI) (simp add: mod_file_def, metis prod.collapse)
    moreover have "map_sb_body (\<lambda>_. 0) (map_sb_body (\<lambda>_. None :: address) v) = v" if "set_sb_body v = {}" for v :: "u32 sb_body"
      by (simp add: sb_body.map_comp) (rule sb_body.map_ident_strong, simp add: that)
    ultimately show ?thesis
      using True get [OF x] new [OF True] assms(2) by (auto simp: mod_value_def deref_def mod_obj_def mod_file_def)
  next
    case False
    then have "map_of vs x = None" by (simp add: map_of_eq_None_iff)
    then show ?thesis
      using False get [OF x] x d2(2) GetResource_obj [OF assms(1), of x]
      by (auto simp: ContainsHash_iff mod_value_def deref_def nth_append)
  qed
  ultimately show ?thesis
    using mod_file_reads [OF assms(2), of d h] d2(2) by (auto simp: Let_def ContainsHash_iff)
qed


section \<open>Collecting the blocks\<close>

text \<open>The data of a resource as a buffer; the size is truncated to 32 bits. From a null pointer the first buffer of \<^verbatim>\<open>Collect\<close> is empty and the second one, which starts
  one byte behind it, reads at the address 1 unless its size is 0.\<close>

definition resource_bytes :: "mod_resource_data \<Rightarrow> bytes result" where
  "resource_bytes rd =
    (case md_buffer rd of
       None \<Rightarrow> if (ucast (md_size rd) :: u32) = 1 then Inr [] else Inl Null_Deref
     | Some bs \<Rightarrow>
         let n = unat (ucast (md_size rd) :: u32)
         in if n \<le> length bs then Inr (take n bs) else Inl Out_Of_Bounds)"

fun Collect_loop :: "string \<Rightarrow> mod_resource list \<Rightarrow> modified_depot \<times> sb_heap \<Rightarrow> (modified_depot \<times> sb_heap) result" where
  "Collect_loop name [] s = Inr s"
| "Collect_loop name (r # rs) s =
    (if mr_type r \<noteq> FrostyResourceType_Res \<or> mr_name r \<noteq> name then Collect_loop name rs s
     else if mr_handlerHash r = 0 then Collect_loop name rs s
     else case resource_bytes (mr_data r) of
       Inl e \<Rightarrow> Inl e
     | Inr bs \<Rightarrow>
         (case getNullTerminatedString (bb_of_array bs) of
            Inl e \<Rightarrow> Inl e
          | Inr (typeName, _) \<Rightarrow>
              (case depot_Load (bb_of_array (drop (length typeName + 1) bs)) s of
                 Inl e \<Rightarrow> Inl e
               | Inr s \<Rightarrow> Collect_loop name rs s)))"

definition depot_Collect :: "string \<Rightarrow> mod_resource list \<Rightarrow> (modified_depot \<times> sb_heap) result" where
  "depot_Collect name resources = Collect_loop name resources (\<lparr>d_resources = [], d_hashes = []\<rparr>, [])"

definition depot_resource :: "string \<Rightarrow> mod_resource \<Rightarrow> bool" where
  "depot_resource name r \<longleftrightarrow> mr_type r = FrostyResourceType_Res \<and> mr_name r = name \<and> mr_handlerHash r \<noteq> 0"

text \<open>A resource whose data are a type name and a file with the blocks \<open>vs\<close>.\<close>

definition holds_blocks :: "mod_resource \<Rightarrow> sb_value list \<Rightarrow> bool" where
  "holds_blocks r vs \<longleftrightarrow> (\<exists>n f. NUL \<notin> set n \<and> resource_bytes (mr_data r) = Inr (str_bytes n @ 0 # f) \<and>
    length n + 1 + length f < 2 ^ 32 \<and> mod_file f vs)"

lemma collect_one:
  assumes "depot_resource name r" "holds_blocks r vs" "depot_inv d h"
  shows "\<exists>d' h'. Collect_loop name (r # rs) (d, h) = Collect_loop name rs (d', h') \<and> depot_inv d' h' \<and>
    (\<forall>x. ContainsHash x d' \<longleftrightarrow> ContainsHash x d \<or> x \<in> fst ` set vs) \<and>
    (\<forall>x. ContainsHash x d' \<longrightarrow> mod_value d' h' x = (case map_of vs x of Some v \<Rightarrow> v | None \<Rightarrow> mod_value d h x))"
proof -
  obtain n f where n: "NUL \<notin> set n" "resource_bytes (mr_data r) = Inr (str_bytes n @ 0 # f)" "length n + 1 + length f < 2 ^ 32" "mod_file f vs"
    using assms(2) by (auto simp: holds_blocks_def)
  let ?b = "bb_of_array (str_bytes n @ 0 # f)"
  have "getNullTerminatedString ?b = Inr (n, advance (Suc (length n)) ?b)"
    using n(1,3) by (intro getNullTerminatedString_at) (simp_all add: at_read_def)
  moreover have "drop (length n + 1) (str_bytes n @ 0 # f) = f" by simp
  ultimately have "Collect_loop name (r # rs) (d, h) =
      (case depot_Load (bb_of_array f) (d, h) of Inl e \<Rightarrow> Inl e | Inr s \<Rightarrow> Collect_loop name rs s)"
    using assms(1) n(2) by (simp add: depot_resource_def)
  moreover obtain d' h' where "depot_Load (bb_of_array f) (d, h) = Inr (d', h')" and new: "depot_inv d' h'"
    "\<forall>x. ContainsHash x d' \<longleftrightarrow> ContainsHash x d \<or> x \<in> fst ` set vs"
    "\<forall>x. ContainsHash x d' \<longrightarrow> mod_value d' h' x = (case map_of vs x of Some v \<Rightarrow> v | None \<Rightarrow> mod_value d h x)"
    using depot_Load_file [OF assms(3) n(4)] by (elim exE conjE)
  ultimately have "Collect_loop name (r # rs) (d, h) = Collect_loop name rs (d', h')" by (simp only: sum.case)
  then show ?thesis using new by (intro exI conjI)
qed

lemma Collect_loop_last:
  assumes "\<forall>r \<in> set rs. depot_resource name r \<longrightarrow> holds_blocks r (vals r)" "depot_inv d h"
  shows "\<exists>d' h'. Collect_loop name rs (d, h) = Inr (d', h') \<and> depot_inv d' h' \<and>
    (\<forall>x. ContainsHash x d' \<longleftrightarrow> ContainsHash x d \<or> (\<exists>r \<in> set rs. depot_resource name r \<and> x \<in> fst ` set (vals r))) \<and>
    (\<forall>x. ContainsHash x d' \<longrightarrow> mod_value d' h' x =
      (case find (\<lambda>r. depot_resource name r \<and> x \<in> fst ` set (vals r)) (rev rs) of
         Some r \<Rightarrow> the (map_of (vals r) x) | None \<Rightarrow> mod_value d h x))"
  using assms
proof (induction rs arbitrary: d h)
  case (Cons r rs)
  show ?case
  proof (cases "depot_resource name r")
    case False
    then have eq: "Collect_loop name (r # rs) (d, h) = Collect_loop name rs (d, h)" by (auto simp: depot_resource_def)
    have f: "find (\<lambda>r. depot_resource name r \<and> x \<in> fst ` set (vals r)) (rev (r # rs)) =
        find (\<lambda>r. depot_resource name r \<and> x \<in> fst ` set (vals r)) (rev rs)" for x
      using False by (simp add: find_append split: option.split)
    have s: "(\<exists>q \<in> set (r # rs). depot_resource name q \<and> x \<in> fst ` set (vals q)) \<longleftrightarrow>
        (\<exists>q \<in> set rs. depot_resource name q \<and> x \<in> fst ` set (vals q))" for x
      using False by auto
    show ?thesis unfolding eq f s using Cons.prems(1) by (intro Cons.IH [OF _ Cons.prems(2)]) simp
  next
    case True
    obtain d1 h1 where d1: "Collect_loop name (r # rs) (d, h) = Collect_loop name rs (d1, h1)" "depot_inv d1 h1"
      "\<forall>x. ContainsHash x d1 \<longleftrightarrow> ContainsHash x d \<or> x \<in> fst ` set (vals r)"
      "\<forall>x. ContainsHash x d1 \<longrightarrow> mod_value d1 h1 x = (case map_of (vals r) x of Some v \<Rightarrow> v | None \<Rightarrow> mod_value d h x)"
      using collect_one [OF True Cons.prems(1) [rule_format, OF list.set_intros(1) True] Cons.prems(2), of rs] by (elim exE conjE)
    have rest: "\<forall>q \<in> set rs. depot_resource name q \<longrightarrow> holds_blocks q (vals q)" using Cons.prems(1) by simp
    obtain d2 h2 where d2: "Collect_loop name rs (d1, h1) = Inr (d2, h2)" "depot_inv d2 h2"
      "\<forall>x. ContainsHash x d2 \<longleftrightarrow> ContainsHash x d1 \<or> (\<exists>r \<in> set rs. depot_resource name r \<and> x \<in> fst ` set (vals r))"
      "\<forall>x. ContainsHash x d2 \<longrightarrow> mod_value d2 h2 x =
        (case find (\<lambda>r. depot_resource name r \<and> x \<in> fst ` set (vals r)) (rev rs) of
           Some r \<Rightarrow> the (map_of (vals r) x) | None \<Rightarrow> mod_value d1 h1 x)"
      using Cons.IH [OF rest d1(2)] by (elim exE conjE)
    have "mod_value d2 h2 x =
        (case find (\<lambda>r. depot_resource name r \<and> x \<in> fst ` set (vals r)) (rev (r # rs)) of
           Some r \<Rightarrow> the (map_of (vals r) x) | None \<Rightarrow> mod_value d h x)" if x: "ContainsHash x d2" for x
    proof (cases "find (\<lambda>r. depot_resource name r \<and> x \<in> fst ` set (vals r)) (rev rs)")
      case None
      then have "ContainsHash x d1" using d2(3) [rule_format, of x] x by (auto simp: find_None_iff)
      then have "mod_value d1 h1 x = (case map_of (vals r) x of Some v \<Rightarrow> v | None \<Rightarrow> mod_value d h x)" by (rule d1(4) [rule_format])
      then show ?thesis using d2(4) [rule_format, OF x] None True map_of_eq_None_iff [of "vals r" x]
        by (cases "map_of (vals r) x") (auto simp: find_append)
    next
      case (Some r')
      then show ?thesis using d2(4) [rule_format, OF x] by (simp add: find_append)
    qed
    moreover have "ContainsHash x d2 \<longleftrightarrow> ContainsHash x d \<or> (\<exists>q \<in> set (r # rs). depot_resource name q \<and> x \<in> fst ` set (vals q))" for x
      using d1(3) [rule_format, of x] d2(3) [rule_format, of x] True by auto
    moreover have "Collect_loop name (r # rs) (d, h) = Inr (d2, h2)" using d1(1) d2(1) by (rule trans)
    ultimately show ?thesis using d2(2) by (intro exI conjI allI impI)
  qed
qed simp

lemma find_filter_hd: "find P xs = (case filter P xs of [] \<Rightarrow> None | y # _ \<Rightarrow> Some y)"
  by (induction xs) auto

lemma find_rev_last:
  fixes f :: "'a \<Rightarrow> 'b::linorder"
  assumes "sorted_wrt (\<lambda>r q. f q \<le> f r) (filter P xs)" "x \<in> set xs" "P x" "\<And>y. y \<in> set xs \<Longrightarrow> P y \<Longrightarrow> y = x \<or> f x < f y"
  shows "find P (rev xs) = Some x"
proof -
  have x: "x \<in> set (filter P xs)" using assms(2,3) by simp
  then obtain ys y where ys: "filter P xs = ys @ [y]" by (cases "filter P xs" rule: rev_cases) auto
  then have "y = x \<or> f y \<le> f x" using assms(1) x by (auto simp: sorted_wrt_append)
  moreover have "y \<in> set (filter P xs)" using ys by simp
  then have "y \<in> set xs" "P y" by simp_all
  ultimately have "y = x" using assms(4) [of y] by auto
  then show ?thesis using ys by (simp add: find_filter_hd rev_filter [symmetric])
qed

lemma depot_inv_empty: "depot_inv \<lparr>d_resources = [], d_hashes = []\<rparr> h"
  by (simp add: depot_inv_def)


section \<open>Properties\<close>

text \<open>C4: The hook rebuilds the depot. For a depot of the game whose blocks have distinct hashes, and blocks of mods that satisfy
  their invariant, it succeeds and writes a depot that holds, block for block and in the same order, the mods' block where there
  is one with that hash and the game's block otherwise, with all references intact, together with the relocation table and the
  counts of that depot.\<close>

theorem depot_rebuilt:
  assumes "depot_inv d h" "game_depot ea vs" "refs_kept d vs" "length (depot_image (map (merge_value d h) vs)) < 2 ^ 32"
  shows "FixupTurboBulk (d, h) (word_of_nat (length vs)) ea = Inr (depot_result (map (merge_value d h) vs)) \<and>
    depot_at (fd_data (depot_result (map (merge_value d h) vs))) 0 (map (merge_value d h) vs)"
  using Fixup_merges [OF assms] depot_at_image [OF assms(4)] by (simp add: depot_result_def Let_def)

definition variation_sample :: sb_value where "variation_sample = (5, Variation_Block [])"
definition static_sample :: "u32 \<Rightarrow> sb_value" where "static_sample r = (6, Static_Block [r])"

definition depot_sample :: "modified_depot \<times> sb_heap" where
  "depot_sample = (\<lparr>d_resources = [Some 0], d_hashes = [5]\<rparr>,
    [Some \<lparr>so_index = 0, so_hash = 5, so_body = Variation_Block [(replicate 16 1, 7)]\<rparr>])"

lemma depot_sample_inv: "depot_inv (fst depot_sample) (snd depot_sample)"
  by (simp add: depot_inv_def depot_sample_def)

text \<open>A bound on the size of a depot that does not need the positions of its blocks.\<close>

lemma length_tail_enc: "length (tail_enc b sz) = length (tail_enc b 0)"
  by (cases b) simp_all

definition block_size :: "sb_value \<Rightarrow> nat" where
  "block_size v = length (body_enc (snd v)) + length (tail_enc (snd v) 0) + 24"

lemma length_blocks_le: "length (blocks_bytes p vs) \<le> sum_list (map block_size vs)"
proof (induction vs arbitrary: p)
  case (Cons v vs)
  have "length (block_bytes p v) \<le> block_size v"
    using align_len_less [of 8 "p + length (body_enc (snd v))"] length_tail_enc [of "snd v" "word_of_nat (length (body_enc (snd v)))"]
    by (simp add: block_bytes_def block_size_def Let_def)
  then show ?case using Cons [of "p + length (block_bytes p v)"] by simp
qed simp

lemma length_depot_image_le: "length (depot_image vs) \<le> 16 * length vs + sum_list (map block_size vs) + 16"
  using length_blocks_le [of "16 * length vs" vs] align_len_less [of 16 "16 * length vs + length (blocks_bytes (16 * length vs) vs)"]
  by (simp add: depot_image_def Let_def length_table_enc)

lemma length_sample_images:
  "length (depot_image [variation_sample, static_sample 0]) < 2 ^ 32" "length (depot_image [static_sample 1, variation_sample]) < 2 ^ 32"
  "length (depot_image [(5, Variation_Block [(replicate 16 1, 7)]), static_sample 0]) < 2 ^ 32"
  by (rule order.strict_trans1 [OF length_depot_image_le], simp add: block_size_def variation_sample_def static_sample_def)+

lemma game_samples:
  "game_depot (depot_image [variation_sample, static_sample 0]) [variation_sample, static_sample 0]"
  "game_depot (depot_image [static_sample 1, variation_sample]) [static_sample 1, variation_sample]"
  using depot_at_image [OF length_sample_images(1)] depot_at_image [OF length_sample_images(2)]
  by (simp_all add: game_depot_def variation_sample_def static_sample_def refs_ok_def)

lemma merged_sample: "map (merge_value (fst depot_sample) (snd depot_sample)) [variation_sample, static_sample 0] =
    [(5, Variation_Block [(replicate 16 1, 7)]), static_sample 0]"
  by (simp add: merge_value_def mod_value_def depot_sample_def variation_sample_def static_sample_def ContainsHash_iff
      GetResource_def deref_def)

theorem depot_rebuilt_witness:
  "FixupTurboBulk depot_sample 2 (depot_image [variation_sample, static_sample 0]) =
    Inr (depot_result [(5, Variation_Block [(replicate 16 1, 7)]), static_sample 0])"
proof -
  have "refs_kept (fst depot_sample) [variation_sample, static_sample 0]"
    by (simp add: refs_kept_def variation_sample_def static_sample_def depot_sample_def ContainsHash_iff less_Suc_eq)
  from depot_rebuilt [OF depot_sample_inv game_samples(1) this, unfolded merged_sample, OF length_sample_images(3)] show ?thesis by simp
qed

text \<open>C19: Without blocks of mods the hook leaves a depot as it is, byte for byte.\<close>

theorem depot_unchanged:
  assumes "length (depot_image vs) < 2 ^ 32" "length vs < 2 ^ 32" "distinct (map fst vs)"
    "\<And>v. v \<in> set vs \<Longrightarrow> body_ok (snd v) \<and> refs_ok (length vs) (snd v)"
  shows "\<exists>fixed. FixupTurboBulk (\<lparr>d_resources = [], d_hashes = []\<rparr>, h) (word_of_nat (length vs)) (depot_image vs) = Inr fixed \<and>
    fd_data fixed = depot_image vs \<and> fd_sbResourceCount fixed = word_of_nat (length vs)"
proof -
  let ?d = "\<lparr>d_resources = [], d_hashes = []\<rparr>"
  have "game_depot (depot_image vs) vs" using depot_at_image [OF assms(1)] assms by (simp add: game_depot_def)
  moreover have "map (merge_value ?d h) vs = vs" by (simp add: merge_value_def ContainsHash_iff map_idI)
  moreover have "refs_kept ?d vs" by (simp add: refs_kept_def ContainsHash_iff)
  ultimately show ?thesis
    using Fixup_merges [OF depot_inv_empty, of "depot_image vs" vs h] assms(1) by (simp add: depot_result_def Let_def)
qed

theorem depot_unchanged_witness:
  "\<exists>fixed. FixupTurboBulk (\<lparr>d_resources = [], d_hashes = []\<rparr>, []) 2 (depot_image [variation_sample, static_sample 0]) = Inr fixed \<and>
    fd_data fixed = depot_image [variation_sample, static_sample 0]"
  using depot_unchanged [OF length_sample_images(1), of "[]"]
  by (fastforce simp: variation_sample_def static_sample_def refs_ok_def)

text \<open>C30: A block that is kept and points to a block behind it which a mod replaces makes the hook read memory it has
  deleted.\<close>

theorem depot_use_after_free:
  assumes "depot_inv d h" "game_depot ea vs" "\<not> refs_kept d vs"
  shows "FixupTurboBulk (d, h) (word_of_nat (length vs)) ea = Inl Freed_Access"
  using assms by (rule Fixup_frees)

theorem depot_use_after_free_witness:
  "FixupTurboBulk depot_sample 2 (depot_image [static_sample 1, variation_sample]) = Inl Freed_Access"
proof -
  have "\<not> refs_kept (fst depot_sample) [static_sample 1, variation_sample]"
    by (simp add: refs_kept_def variation_sample_def static_sample_def depot_sample_def ContainsHash_iff less_Suc_eq)
  from depot_use_after_free [OF depot_sample_inv game_samples(2) this] show ?thesis by simp
qed

text \<open>C31: Of several mods that bring a block with the same hash, the one that was loaded first determines it. For all other
  resources it is the mod that was loaded last.\<close>

theorem depot_first_mod_wins:
  assumes "loader_inv ml" "length (m_mods ml) < 2 ^ 32"
    "\<And>q. q \<in> set (m_modResources (FinalizeModLoads ml)) \<Longrightarrow> depot_resource name q \<Longrightarrow> holds_blocks q (vals q)"
    "r \<in> set (m_modResources (FinalizeModLoads ml))" "depot_resource name r" "map_of (vals r) x = Some v"
    "\<And>q. q \<in> set (m_modResources (FinalizeModLoads ml)) \<Longrightarrow> depot_resource name q \<Longrightarrow> x \<in> fst ` set (vals q) \<Longrightarrow>
      q = r \<or> mr_modIndex r < mr_modIndex q"
  shows "\<exists>d h. depot_Collect name (m_modResources (FinalizeModLoads ml)) = Inr (d, h) \<and> depot_inv d h \<and>
    ContainsHash x d \<and> mod_value d h x = v"
proof -
  let ?all = "m_modResources (FinalizeModLoads ml)" and ?P = "\<lambda>r. depot_resource name r \<and> x \<in> fst ` set (vals r)"
  have x: "x \<in> fst ` set (vals r)" using assms(6) by (metis fst_conv image_eqI map_of_SomeD)
  have blocks: "\<forall>q \<in> set ?all. depot_resource name q \<longrightarrow> holds_blocks q (vals q)" using assms(3) by blast
  obtain d h where d: "depot_Collect name ?all = Inr (d, h)" "depot_inv d h"
    "\<forall>x. ContainsHash x d \<longleftrightarrow> ContainsHash x \<lparr>d_resources = [], d_hashes = []\<rparr> \<or> (\<exists>r \<in> set ?all. depot_resource name r \<and> x \<in> fst ` set (vals r))"
    "\<forall>x. ContainsHash x d \<longrightarrow> mod_value d h x =
      (case find (\<lambda>r. depot_resource name r \<and> x \<in> fst ` set (vals r)) (rev ?all) of
         Some r \<Rightarrow> the (map_of (vals r) x) | None \<Rightarrow> mod_value \<lparr>d_resources = [], d_hashes = []\<rparr> [] x)"
    unfolding depot_Collect_def using Collect_loop_last [OF blocks depot_inv_empty [of "[]"]] by (elim exE conjE)
  have "filter ?P ?all = filter ?P (filter (\<lambda>r. mr_type r = FrostyResourceType_Res) ?all)"
    unfolding filter_filter by (rule filter_cong) (auto simp: depot_resource_def)
  then have "sorted_wrt (\<lambda>r q. mr_modIndex q \<le> mr_modIndex r) (filter ?P ?all)"
    using sorted_wrt_filter [OF Finalize_descending [OF assms(1,2), of FrostyResourceType_Res], of ?P] by simp
  then have "find ?P (rev ?all) = Some r" using assms(4,5,7) x by (intro find_rev_last) auto
  moreover have "ContainsHash x d" using d(3) [rule_format, of x] assms(4,5) x by auto
  ultimately show ?thesis using d(1,2) d(4) [rule_format, of x] assms(6) by auto
qed

text \<open>A mod with a depot resource that has one block.\<close>

definition mod_file_sample :: bytes where
  "mod_file_sample = bytes32 1 @ replicate 12 0 @ bytes64 32 @ bytes64 4 @ bytes64 5 @ bytes64 32 @ bytes64 0"

definition depot_mod_sample :: mod_resource where
  "depot_mod_sample = handled_sample\<lparr>mr_type := FrostyResourceType_Res, mr_uniqueId := HashQuickLower ''3_a'',
    mr_data := (data_sample 0x1009)\<lparr>md_size := 58, md_buffer := Some (str_bytes ''t'' @ 0 # mod_file_sample)\<rparr>\<rparr>"

definition depot_loader :: mod_loader where
  "depot_loader = loader_sample\<lparr>m_mods := [\<lparr>km_path = ''x'', km_fbFile = 0x1009, km_resources = [depot_mod_sample]\<rparr>]\<rparr>"

lemma mod_file_sample: "mod_file mod_file_sample [variation_sample]"
proof -
  have "block_at 0 mod_file_sample 32 variation_sample"
    unfolding block_at_def by (intro conjI exI [of _ 32] exI [of _ 0]) (simp_all add: mod_file_sample_def variation_sample_def)
  then show ?thesis
    by (auto simp: mod_file_def depot_at_def mod_file_sample_def variation_sample_def sb_type_def intro!: exI [of _ "[32]"])
qed

lemma depot_loader_inv: "loader_inv depot_loader"
proof -
  have "dec_i32 3 = ''3''" by code_simp
  then show ?thesis
    by (simp add: loader_inv_def depot_loader_def loader_sample_def resource_inv_def depot_mod_sample_def handled_sample_def data_sample_def
        GetNameWithType_def GetNextModFile_def kCatalogSizes_def)
qed

lemma depot_loader_resources: "m_modResources (FinalizeModLoads depot_loader) = [depot_mod_sample]"
  by (simp add: FinalizeModLoads_def stage1_def sort_resources_def depot_loader_def depot_mod_sample_def handled_sample_def
      has_data_def stage3_def Let_def)

theorem depot_first_mod_wins_witness:
  "\<exists>d h. depot_Collect ''a'' (m_modResources (FinalizeModLoads depot_loader)) = Inr (d, h) \<and> depot_inv d h \<and>
    ContainsHash 5 d \<and> mod_value d h 5 = Variation_Block []"
proof -
  have "resource_bytes (mr_data depot_mod_sample) = Inr (str_bytes ''t'' @ 0 # mod_file_sample)"
    by (simp add: resource_bytes_def depot_mod_sample_def Let_def mod_file_sample_def)
  then have "holds_blocks depot_mod_sample [variation_sample]"
    unfolding holds_blocks_def using mod_file_sample
    by (intro exI [of _ "''t''"] exI [of _ mod_file_sample]) (simp add: NUL_def mod_file_sample_def)
  moreover have "depot_resource ''a'' depot_mod_sample" by (simp add: depot_resource_def depot_mod_sample_def handled_sample_def)
  moreover have "length (m_mods depot_loader) < 2 ^ 32" by (simp add: depot_loader_def)
  ultimately show ?thesis
    by (intro depot_first_mod_wins [OF depot_loader_inv, where vals = "\<lambda>_. [variation_sample]" and r = depot_mod_sample])
      (simp_all add: depot_loader_resources variation_sample_def)
qed

end
