(* ===== verification/Localization.thy ===== *)
theory Localization
  imports Resource_Hooks
begin

text \<open>
  Texts of the game that mods change (\<^verbatim>\<open>ModLoader/Handlers/LocalizationHandler.cpp\<close>). A chunk of the game holds all texts of a
  language: a table of identifiers and offsets, and the texts as bytes that end with 0. A byte below \<open>0x80\<close> is a character;
  other characters are indices into a histogram of the language, one byte or a pair of a shift and an offset.

  \<open>read_loc_chunk\<close> and \<open>write_loc_chunk\<close> are the two halves of \<^verbatim>\<open>ModifyChunk\<close>. A wide string is its list of 16-bit units; the two maps
  are ordered lists. \<^verbatim>\<open>wchar_t\<close> and \<^verbatim>\<open>char16_t\<close> have 16 bits and \<^verbatim>\<open>char\<close> is signed, as on the target of the module.
\<close>

section \<open>Wide strings in a buffer\<close>

text \<open>\<^verbatim>\<open>getNullTerminatedWideString\<close> and \<^verbatim>\<open>getNullTerminatedWideStringAsAscii\<close> use the read with a bounds check, which gives 0
  behind the end: they stop there at the latest.\<close>

fun scan_wide :: "bytes \<Rightarrow> u16 list \<times> nat" where
  "scan_wide (x # y # xs) =
    (if word16 [x, y] = 0 then ([], 2) else (case scan_wide xs of (s, n) \<Rightarrow> (word16 [x, y] # s, n + 2)))"
| "scan_wide _ = ([], 2)"

fun scan_ascii :: "bytes \<Rightarrow> u16 list \<times> nat" where
  "scan_ascii [] = ([], 1)"
| "scan_ascii (x # xs) = (if x = 0 then ([], 1) else (case scan_ascii xs of (s, n) \<Rightarrow> (scast x # s, n + 1)))"

definition getNullTerminatedWideString :: "byte_buffer \<Rightarrow> u16 list \<times> byte_buffer" where
  "getNullTerminatedWideString b =
    (case scan_wide (drop (rpos b) (buf b)) of (s, n) \<Rightarrow> (s, b\<lparr>rpos := pos_add (rpos b) n\<rparr>))"

definition getNullTerminatedWideStringAsAscii :: "byte_buffer \<Rightarrow> u16 list \<times> byte_buffer" where
  "getNullTerminatedWideStringAsAscii b =
    (case scan_ascii (drop (rpos b) (buf b)) of (s, n) \<Rightarrow> (s, b\<lparr>rpos := pos_add (rpos b) n\<rparr>))"

text \<open>What \<^verbatim>\<open>putNullTerminatedWideString\<close> writes of a string: the low bytes up to the first that is 0.\<close>

definition low_bytes :: "u16 list \<Rightarrow> bytes" where
  "low_bytes s = takeWhile (\<lambda>x. x \<noteq> 0) (map ucast s)"

definition putNullTerminatedWideString :: "u16 list \<Rightarrow> byte_buffer \<Rightarrow> byte_buffer" where
  "putNullTerminatedWideString s b = fold bb_put (low_bytes s @ [0]) b"

definition putBuffer :: "byte_buffer \<Rightarrow> byte_buffer \<Rightarrow> byte_buffer" where
  "putBuffer src b = fold bb_put (take (bb_size src) (buf src)) b"


section \<open>Texts of a mod\<close>

type_synonym texts = "(u32 \<times> u16 list) list"

primrec load_texts :: "nat \<Rightarrow> byte_buffer \<Rightarrow> texts \<Rightarrow> texts \<times> byte_buffer" where
  "load_texts 0 b strings = (strings, b)"
| "load_texts (Suc n) b strings =
    (case getInt b of (hash, b) \<Rightarrow> case getNullTerminatedWideString b of (str, b) \<Rightarrow>
       load_texts n b (map_put hash str strings))"

definition Localization_Load :: "byte_buffer \<Rightarrow> texts \<Rightarrow> texts" where
  "Localization_Load b strings =
    (case getInt b of (magic, b) \<Rightarrow> case (if magic \<noteq> 0xABCD0001 then (magic, b) else getInt b) of (count, b) \<Rightarrow>
       fst (load_texts (nat (sint count)) b strings))"


section \<open>The histogram\<close>

primrec read_units :: "nat \<Rightarrow> bytes \<Rightarrow> u16 list result" where
  "read_units 0 bs = Inr []"
| "read_units (Suc n) bs =
    (if length bs < 2 then Inl Out_Of_Bounds
     else case read_units n (drop 2 bs) of Inl e \<Rightarrow> Inl e | Inr us \<Rightarrow> Inr (word16 (take 2 bs) # us))"

definition ModifyHistogram :: "bytes \<Rightarrow> u16 list result" where
  "ModifyHistogram histogramData =
    (if length histogramData < 12 then Inl Out_Of_Bounds
     else read_units (unat (word32 (take 4 (drop 4 histogramData)) div 2)) (drop 12 histogramData))"

definition histogram_shifts :: "u16 list \<Rightarrow> u8 list result" where
  "histogram_shifts values =
    (if length values \<le> 0x1FE then Inl Out_Of_Bounds
     else Inr (map word_of_nat (filter (\<lambda>i. values ! i < 0x80) (rev [0x80..<0x1FF]))))"

text \<open>One unit of a text. The difference of index and shift is signed, so it can be negative.\<close>

definition shifted :: "u16 list \<Rightarrow> nat \<Rightarrow> u8 \<Rightarrow> int" where
  "shifted values index shift = int index - int (unat (values ! unat shift)) * 2 ^ 7"

definition encode_unit :: "u16 list \<Rightarrow> u8 list \<Rightarrow> u16 \<Rightarrow> u16 list" where
  "encode_unit values shifts b =
    (if b < 0x80 then [b]
     else case find (\<lambda>i. values ! i = b) [0..<length values] of
            None \<Rightarrow> []
          | Some index \<Rightarrow>
              if index \<le> 0xFF then [ucast (word_of_nat index :: u8)]
              else case find (\<lambda>shift. shifted values index shift < 0x80) shifts of
                     None \<Rightarrow> []
                   | Some shift \<Rightarrow> [ucast shift, ucast (word_of_int (shifted values index shift + 0x80) :: u8)])"

definition encode_text :: "u16 list \<Rightarrow> u8 list \<Rightarrow> u16 list \<Rightarrow> u16 list" where
  "encode_text values shifts s = concat (map (encode_unit values shifts) s)"


section \<open>The chunk\<close>

record loc_chunk =
  lc_tag :: string
  lc_ids :: "u32 list"
  lc_strings :: texts

definition read_loc_pair :: "byte_buffer \<Rightarrow> ((u32 \<times> u32) \<times> byte_buffer) result" where
  "read_loc_pair b = (case getInt b of (i, b) \<Rightarrow> case getInt b of (off, b) \<Rightarrow> Inr ((i, off), b))"

definition read_text :: "u32 \<Rightarrow> byte_buffer \<Rightarrow> u32 \<times> u32 \<Rightarrow> u16 list" where
  "read_text stringsOffset b e = fst (getNullTerminatedWideStringAsAscii (setReadPos (unat (stringsOffset + snd e + 8)) b))"

definition read_loc_chunk :: "bytes \<Rightarrow> loc_chunk option result" where
  "read_loc_chunk chunk =
    (case getInt (bb_of_array chunk) of (magic, b) \<Rightarrow>
       if magic \<noteq> 0x00039000 then Inr None
       else case getInt b of (sz, b) \<Rightarrow> case getInt b of (count, b) \<Rightarrow> case getInt b of (dataOffset, b) \<Rightarrow>
            case getInt b of (stringsOffset, b) \<Rightarrow>
              (case getNullTerminatedString b of
                 Inl e \<Rightarrow> Inl e
               | Inr (tag, b) \<Rightarrow>
                   if sint count < 0 then Inl Bad_Format
                   else case read_n read_loc_pair (nat (sint count)) (setReadPos (unat (dataOffset + 8)) b) of
                          Inl e \<Rightarrow> Inl e
                        | Inr (es, b) \<Rightarrow>
                            Inr (Some \<lparr>lc_tag = tag, lc_ids = map fst es,
                              lc_strings = fold (\<lambda>e. map_put (fst e) (read_text stringsOffset b e)) es []\<rparr>)))"

definition merge_texts :: "u16 list \<Rightarrow> u8 list \<Rightarrow> texts \<Rightarrow> u32 list \<times> texts \<Rightarrow> u32 list \<times> texts" where
  "merge_texts values shifts texts c =
    fold (\<lambda>(i, s) (ids, strings). (if i \<in> set ids then ids else ids @ [i], map_put i (encode_text values shifts s) strings)) texts c"

definition text_at :: "texts \<Rightarrow> u32 \<Rightarrow> u16 list" where
  "text_at strings i = (case map_of strings i of None \<Rightarrow> [] | Some s \<Rightarrow> s)"

primrec write_texts :: "texts \<Rightarrow> u32 list \<Rightarrow> byte_buffer \<Rightarrow> u32 list \<times> byte_buffer" where
  "write_texts strings [] b = ([], b)"
| "write_texts strings (i # is) b =
    (case write_texts strings is (putNullTerminatedWideString (text_at strings i) b) of
       (offsets, b') \<Rightarrow> (word_of_nat (wpos b) # offsets, b'))"

definition pad_to :: "nat \<Rightarrow> byte_buffer \<Rightarrow> byte_buffer" where
  "pad_to n b = fold bb_put (replicate (n - wpos b) 0) b"

definition write_loc_chunk :: "string \<Rightarrow> u32 list \<Rightarrow> texts \<Rightarrow> bytes" where
  "write_loc_chunk tag ids strings =
    (let ids = sort ids;
         n = word_of_nat (length ids) :: u32;
         (offsets, stringBuf) = write_texts strings ids bb_new;
         b = putInt 0xDEADBEEF (putInt 0x00039000 bb_new);
         b = putInt (0x8C + 8 * n) (putInt 0x8C (putInt n b));
         b = pad_to (0x8C + 8) (putNullTerminatedString tag b);
         b = fold (\<lambda>(i, off) b. putInt off (putInt i b)) (zip ids offsets) b;
         b = putBuffer stringBuf b;
         sz = word_of_nat (wpos b) - 8
     in buf (putInt sz (setWritePos 4 b)))"

definition Localization_ModifyChunk :: "bytes \<Rightarrow> texts \<Rightarrow> u16 list \<Rightarrow> bytes result" where
  "Localization_ModifyChunk chunk texts values =
    (case read_loc_chunk chunk of
       Inl e \<Rightarrow> Inl e
     | Inr None \<Rightarrow> Inr []
     | Inr (Some c) \<Rightarrow>
         (case histogram_shifts values of
            Inl e \<Rightarrow> Inl e
          | Inr shifts \<Rightarrow>
              (case merge_texts values shifts texts (lc_ids c, lc_strings c) of
                 (ids, strings) \<Rightarrow> Inr (write_loc_chunk (lc_tag c) ids strings))))"

text \<open>\<^verbatim>\<open>Modify\<close>: \<open>chunkData\<close> gives the contents of the buffer after \<^verbatim>\<open>ReadChunkSync\<close>.\<close>

record text_database =
  td_HistogramChunk :: guid
  td_HistogramChunkSize :: u32
  td_BinaryChunk :: guid
  td_BinaryChunkSize :: u32

definition Localization_Modify :: "(guid \<Rightarrow> u32 \<Rightarrow> bytes) \<Rightarrow> text_database \<Rightarrow> texts \<Rightarrow> chunk_reads \<Rightarrow> (text_database \<times> chunk_reads) result" where
  "Localization_Modify chunkData db texts s =
    (case ModifyHistogram (chunkData (td_HistogramChunk db) (td_HistogramChunkSize db)) of
       Inl e \<Rightarrow> Inl e
     | Inr values \<Rightarrow>
         (case Localization_ModifyChunk (chunkData (td_BinaryChunk db) (td_BinaryChunkSize db)) texts values of
            Inl e \<Rightarrow> Inl e
          | Inr chunk \<Rightarrow>
              let n = word_of_nat (length chunk) :: u32
              in Inr (db\<lparr>td_BinaryChunkSize := n\<rparr>, ModifyChunk (td_BinaryChunk db) chunk n s)))"


section \<open>What is written\<close>

definition text_bytes :: "u16 list \<Rightarrow> bytes" where
  "text_bytes s = low_bytes s @ [0]"

definition texts_bytes :: "texts \<Rightarrow> u32 list \<Rightarrow> bytes" where
  "texts_bytes strings ids = concat (map (\<lambda>i. text_bytes (text_at strings i)) ids)"

fun text_starts :: "texts \<Rightarrow> nat \<Rightarrow> u32 list \<Rightarrow> nat list" where
  "text_starts strings p [] = []"
| "text_starts strings p (i # is) = p # text_starts strings (p + length (text_bytes (text_at strings i))) is"

definition pair_bytes :: "u32 \<times> u32 \<Rightarrow> bytes" where
  "pair_bytes e = bytes32 (fst e) @ bytes32 (snd e)"

definition chunk_table :: "texts \<Rightarrow> u32 list \<Rightarrow> (u32 \<times> u32) list" where
  "chunk_table strings ids = zip ids (map word_of_nat (text_starts strings 0 ids))"

definition chunk_header :: "string \<Rightarrow> u32 \<Rightarrow> u32 \<Rightarrow> bytes" where
  "chunk_header tag sz n = bytes32 0x00039000 @ bytes32 sz @ bytes32 n @ bytes32 0x8C @ bytes32 (0x8C + 8 * n) @
    str_bytes tag @ [0] @ replicate (127 - length tag) 0"

definition chunk_body :: "texts \<Rightarrow> u32 list \<Rightarrow> bytes" where
  "chunk_body strings ids = concat (map pair_bytes (chunk_table strings ids)) @ texts_bytes strings ids"

lemma low_bytes_no_zero [simp]: "0 \<notin> set (low_bytes s)"
  by (auto simp: low_bytes_def dest: set_takeWhileD)

lemma length_text_starts [simp]: "length (text_starts strings p ids) = length ids"
  by (induction strings p ids rule: text_starts.induct) auto

lemma length_chunk_table [simp]: "length (chunk_table strings ids) = length ids" "map fst (chunk_table strings ids) = ids"
  by (simp_all add: chunk_table_def)

lemma length_pairs [simp]: "length (concat (map pair_bytes es)) = 8 * length es"
  by (induction es) (auto simp: pair_bytes_def)

lemma length_chunk_header [simp]: "length tag \<le> 127 \<Longrightarrow> length (chunk_header tag sz n) = 148"
  by (simp add: chunk_header_def)

lemma length_texts_ge: "length ids \<le> length (texts_bytes strings ids)"
  by (induction ids) (auto simp: texts_bytes_def text_bytes_def)

lemma write_texts_holds:
  assumes "holds b xs" "length xs + length (texts_bytes strings ids) < 2 ^ 32"
  shows "fst (write_texts strings ids b) = map word_of_nat (text_starts strings (length xs) ids) \<and>
    holds (snd (write_texts strings ids b)) (xs @ texts_bytes strings ids)"
  using assms
proof (induction ids arbitrary: b xs)
  case Nil
  then show ?case by (simp add: texts_bytes_def)
next
  case (Cons i ids)
  let ?t = "text_bytes (text_at strings i)"
  have "holds (putNullTerminatedWideString (text_at strings i) b) (xs @ ?t)"
    using Cons.prems holds_fold_put [of b xs ?t]
    by (simp add: putNullTerminatedWideString_def texts_bytes_def text_bytes_def)
  moreover have "wpos b = length xs" using Cons.prems(1) by (simp add: holds_def at_end_def)
  ultimately show ?case
    using Cons.IH [of "putNullTerminatedWideString (text_at strings i) b" "xs @ ?t"] Cons.prems(2)
    by (simp add: split_def texts_bytes_def ac_simps)
qed

lemma put_pairs_holds:
  assumes "holds b xs" "length xs + 8 * length es < 2 ^ 32"
  shows "holds (fold (\<lambda>(i, off) b. putInt off (putInt i b)) es b) (xs @ concat (map pair_bytes es))"
  using assms
proof (induction es arbitrary: b xs)
  case (Cons e es)
  obtain i off where e: "e = (i, off)" by fastforce
  have "holds (putInt off (putInt i b)) ((xs @ bytes32 i) @ bytes32 off)"
    using Cons.prems by (intro holds_putInt) simp_all
  then show ?case using Cons.IH [of "putInt off (putInt i b)" "(xs @ bytes32 i) @ bytes32 off"] Cons.prems(2)
    by (simp add: e pair_bytes_def)
qed simp

lemma write_loc_chunk_image:
  assumes "length tag \<le> 127" "NUL \<notin> set tag" "148 + length (chunk_body strings (sort ids)) < 2 ^ 32"
  shows "write_loc_chunk tag ids strings =
    chunk_header tag (word_of_nat (148 + length (chunk_body strings (sort ids))) - 8) (word_of_nat (length ids)) @
      chunk_body strings (sort ids)"
proof -
  let ?ids = "sort ids" and ?n = "word_of_nat (length ids) :: u32"
  let ?texts = "texts_bytes strings ?ids"
  have bound: "148 + 8 * length ids + length ?texts < 2 ^ 32"
    using assms(3) by (simp add: chunk_body_def)
  have tag: "cstr tag = tag" using assms(2) by (auto simp: cstr_def takeWhile_eq_all_conv)
  define t where "t = write_texts strings ?ids bb_new"
  have t: "fst t = map word_of_nat (text_starts strings 0 ?ids)" "holds (snd t) ?texts"
    using write_texts_holds [of bb_new "[]" strings ?ids] bound by (simp_all add: t_def)
  define b1 where "b1 = putInt (0x8C + 8 * ?n) (putInt 0x8C (putInt ?n (putInt 0xDEADBEEF (putInt 0x00039000 bb_new))))"
  have "holds b1 (((([] @ bytes32 0x00039000) @ bytes32 0xDEADBEEF) @ bytes32 ?n) @ bytes32 0x8C @ bytes32 (0x8C + 8 * ?n))"
    unfolding b1_def append_assoc [symmetric] by (intro holds_putInt) simp_all
  then have b1: "holds b1 (bytes32 0x00039000 @ bytes32 0xDEADBEEF @ bytes32 ?n @ bytes32 0x8C @ bytes32 (0x8C + 8 * ?n))" by simp
  define b2 where "b2 = pad_to (0x8C + 8) (putNullTerminatedString tag b1)"
  have "holds (putNullTerminatedString tag b1) ((bytes32 0x00039000 @ bytes32 0xDEADBEEF @ bytes32 ?n @ bytes32 0x8C @
      bytes32 (0x8C + 8 * ?n)) @ str_bytes tag @ [0])" (is "holds ?b ?xs")
    using holds_putString [OF b1, of tag] assms(1) by (simp add: tag)
  moreover from this have "wpos ?b = 21 + length tag" by (simp add: holds_def at_end_def)
  ultimately have b2: "holds b2 (chunk_header tag 0xDEADBEEF ?n)"
    using holds_fold_put [of ?b ?xs "replicate (127 - length tag) 0"] assms(1)
    by (simp add: b2_def pad_to_def chunk_header_def)
  define b3 where "b3 = fold (\<lambda>(i, off) b. putInt off (putInt i b)) (zip ?ids (fst t)) b2"
  have b3: "holds b3 (chunk_header tag 0xDEADBEEF ?n @ concat (map pair_bytes (chunk_table strings ?ids)))"
    using put_pairs_holds [OF b2, of "chunk_table strings ?ids"] assms(1) bound by (simp add: b3_def t(1) chunk_table_def)
  moreover have "take (bb_size (snd t)) (buf (snd t)) = ?texts"
    using t(2) bound by (simp add: holds_def bb_size_def)
  ultimately have b4: "holds (putBuffer (snd t) b3) (chunk_header tag 0xDEADBEEF ?n @ chunk_body strings ?ids)"
    using holds_fold_put [OF b3, of ?texts] assms(1) bound by (simp add: putBuffer_def chunk_body_def)
  let ?b = "putBuffer (snd t) b3"
  have w: "wpos ?b = 148 + length (chunk_body strings ?ids)" using b4 assms(1) by (simp add: holds_def at_end_def)
  have "write_loc_chunk tag ids strings = buf (putInt (word_of_nat (wpos ?b) - 8) (setWritePos 4 ?b))"
    by (simp add: write_loc_chunk_def Let_def split_def t_def b1_def b2_def b3_def)
  also have "\<dots> = overwrite 4 (bytes32 (word_of_nat (wpos ?b) - 8)) (buf ?b)"
    using putBytes_inside [of 4 "bytes32 (word_of_nat (wpos ?b) - 8)" ?b] b4 assms(1,3)
    by (simp add: putInt_def setWritePos_def holds_def)
  also have "\<dots> = chunk_header tag (word_of_nat (wpos ?b) - 8) ?n @ chunk_body strings ?ids"
    using b4 by (simp add: holds_def overwrite_def chunk_header_def)
  finally show ?thesis using w by simp
qed

section \<open>What is read back\<close>

lemma scan_ascii_text: "0 \<notin> set xs \<Longrightarrow> scan_ascii (xs @ 0 # ys) = (map scast xs, length xs + 1)"
  by (induction xs) (auto split: prod.splits)

lemma read_loc_pair_decodes: "decodes read_loc_pair e (pair_bytes e)"
  by (auto simp: decodes_def read_loc_pair_def pair_bytes_def at_read_append getInt_at)

lemma decodes_loc_pairs: "decodes (read_n read_loc_pair (length es)) es (concat (map pair_bytes es))"
  by (rule decodes_read_n) (simp_all add: list_all_iff read_loc_pair_decodes)

lemma texts_bytes_at:
  assumes "k < length ids"
  shows "\<exists>ys. drop (text_starts strings p ids ! k - p) (texts_bytes strings ids) = text_bytes (text_at strings (ids ! k)) @ ys \<and>
    p \<le> text_starts strings p ids ! k \<and> text_starts strings p ids ! k < p + length (texts_bytes strings ids)"
  using assms
proof (induction ids arbitrary: k p)
  case (Cons i ids)
  let ?n = "length (text_bytes (text_at strings i))"
  show ?case
  proof (cases k)
    case 0
    then show ?thesis by (auto simp: texts_bytes_def text_bytes_def)
  next
    case (Suc j)
    then obtain ys where ys: "drop (text_starts strings (p + ?n) ids ! j - (p + ?n)) (texts_bytes strings ids) =
        text_bytes (text_at strings (ids ! j)) @ ys" "p + ?n \<le> text_starts strings (p + ?n) ids ! j"
        "text_starts strings (p + ?n) ids ! j < p + ?n + length (texts_bytes strings ids)"
      using Cons.IH [of j "p + ?n"] Cons.prems by auto
    then have "text_starts strings (p + ?n) ids ! j - p - ?n = text_starts strings (p + ?n) ids ! j - (p + ?n)" by simp
    then show ?thesis using ys Suc by (auto simp: texts_bytes_def)
  qed
qed simp

definition sext_text :: "u16 list \<Rightarrow> u16 list" where
  "sext_text s = map scast (low_bytes s)"

lemma read_text_image:
  assumes "buf b = hdr @ concat (map pair_bytes (chunk_table strings ids)) @ texts_bytes strings ids" "length hdr = 148"
    "length (buf b) < 2 ^ 32" "k < length ids"
  shows "read_text (0x8C + 8 * word_of_nat (length ids)) b (chunk_table strings ids ! k) = sext_text (text_at strings (ids ! k))"
proof -
  let ?s = "text_starts strings 0 ids ! k"
  obtain ys where ys: "drop ?s (texts_bytes strings ids) = text_bytes (text_at strings (ids ! k)) @ ys"
      "?s < length (texts_bytes strings ids)"
    using texts_bytes_at [OF assms(4), of strings 0] by auto
  have "148 + 8 * length ids + ?s < 2 ^ 32" using assms ys(2) by simp
  then have "unat (word_of_nat (148 + 8 * length ids + ?s) :: u32) = 148 + 8 * length ids + ?s" by (rule unat_small)
  moreover have "(0x8C + 8 * word_of_nat (length ids) + word_of_nat ?s + 8 :: u32) = word_of_nat (148 + 8 * length ids + ?s)"
    by simp
  moreover have "snd (chunk_table strings ids ! k) = word_of_nat ?s" using assms(4) by (simp add: chunk_table_def)
  ultimately have "unat (0x8C + 8 * word_of_nat (length ids) + snd (chunk_table strings ids ! k) + 8 :: u32) =
      148 + 8 * length ids + ?s" by metis
  then show ?thesis
    using assms(1,2) ys(1)
    by (simp add: read_text_def getNullTerminatedWideStringAsAscii_def setReadPos_def text_bytes_def scan_ascii_text sext_text_def)
qed

lemma fold_map_put_map_of:
  assumes "\<And>e. e \<in> set es \<Longrightarrow> f e = g (fst e)"
  shows "map_of (fold (\<lambda>e. map_put (fst e) (f e)) es m) i = (if i \<in> fst ` set es then Some (g i) else map_of m i)"
  using assms by (induction es arbitrary: m) auto

lemma at_read_head: "at_read b (x # xs) \<Longrightarrow> at_read b [x]"
  using at_read_append [of b "[x]" xs] by simp

lemma read_write_loc_chunk:
  assumes "length tag \<le> 127" "NUL \<notin> set tag" "148 + length (chunk_body strings (sort ids)) < 2 ^ 31"
  shows "\<exists>c. read_loc_chunk (write_loc_chunk tag ids strings) = Inr (Some c) \<and> lc_tag c = tag \<and> lc_ids c = sort ids \<and>
    (\<forall>i. map_of (lc_strings c) i = (if i \<in> set ids then Some (sext_text (text_at strings i)) else None))"
proof -
  let ?ids = "sort ids" and ?n = "word_of_nat (length ids) :: u32"
  let ?sz = "word_of_nat (148 + length (chunk_body strings ?ids)) - 8 :: u32"
  let ?hdr = "chunk_header tag ?sz ?n"
  define b where "b = bb_of_array (write_loc_chunk tag ids strings)"
  have image: "write_loc_chunk tag ids strings = ?hdr @ chunk_body strings ?ids"
    using write_loc_chunk_image [OF assms(1,2)] assms(3) by simp
  have len: "length (?hdr @ chunk_body strings ?ids) < 2 ^ 32" using assms(1,3) by simp
  have b: "at_read b (?hdr @ chunk_body strings ?ids)" "buf b = ?hdr @ chunk_body strings ?ids" "rpos b = 0"
    using at_read_bb_of_array [OF len] len by (simp_all add: b_def image)
  have n: "sint ?n = int (length ids)"
    using assms(3) by (intro sint_small) (simp add: chunk_body_def)
  have at: "at_read b (bytes32 0x00039000)" "at_read (advance 4 b) (bytes32 ?sz)" "at_read (advance 8 b) (bytes32 ?n)"
    "at_read (advance 12 b) (bytes32 0x8C)" "at_read (advance 16 b) (bytes32 (0x8C + 8 * ?n))"
    "at_read (advance 20 b) (str_bytes tag @ [0])"
    using b(1) by (auto simp: chunk_header_def at_read_append dest: at_read_head)
  have hdr: "getInt b = (0x00039000, advance 4 b)" "getInt (advance 4 b) = (?sz, advance 8 b)" "getInt (advance 8 b) = (?n, advance 12 b)"
    "getInt (advance 12 b) = (0x8C, advance 16 b)" "getInt (advance 16 b) = (0x8C + 8 * ?n, advance 20 b)"
    "getNullTerminatedString (advance 20 b) = Inr (tag, advance (21 + length tag) b)"
    using at(1-5) [THEN getInt_at] getNullTerminatedString_at [OF at(6) assms(2)] by simp_all
  let ?b = "setReadPos 148 (advance (21 + length tag) b)"
  have "at_read ?b (chunk_body strings ?ids)" using b len assms(1) by (simp add: at_read_def setReadPos_def)
  then have "at_read ?b (concat (map pair_bytes (chunk_table strings ?ids)))" by (simp add: chunk_body_def at_read_append)
  then have table: "read_n read_loc_pair (length ids) ?b = Inr (chunk_table strings ?ids, advance (8 * length ids) ?b)"
    using decodes_loc_pairs [of "chunk_table strings ?ids"] by (simp add: decodes_def)
  let ?b' = "advance (8 * length ids) ?b"
  have tx: "read_text (0x8C + 8 * ?n) ?b' e = sext_text (text_at strings (fst e))" if e: "e \<in> set (chunk_table strings ?ids)" for e
  proof -
    obtain k where k: "k < length ?ids" "e = chunk_table strings ?ids ! k" using e by (auto simp: in_set_conv_nth)
    then have "fst e = ?ids ! k" by (simp add: chunk_table_def)
    then show ?thesis
      using read_text_image [of ?b' ?hdr strings ?ids k] k b(2) len assms(1)
      by (simp add: setReadPos_def advance_def chunk_body_def)
  qed
  have "fst ` set (chunk_table strings ?ids) = set ids"
    using length_chunk_table(2) [of strings ?ids] by (metis set_map set_sort)
  then have "map_of (fold (\<lambda>e. map_put (fst e) (read_text (0x8C + 8 * ?n) ?b' e)) (chunk_table strings ?ids) []) i =
      (if i \<in> set ids then Some (sext_text (text_at strings i)) else None)" for i
    using fold_map_put_map_of [of "chunk_table strings ?ids" "read_text (0x8C + 8 * ?n) ?b'" "\<lambda>i. sext_text (text_at strings i)" "[]" i] tx
    by simp
  then show ?thesis
    using hdr table n by (simp add: read_loc_chunk_def b_def [symmetric])
qed


section \<open>Merging the texts of a mod\<close>

lemma find_upt_Some:
  assumes "find P [0..<n] = Some k"
  shows "k < n" "P k"
  using assms by (auto simp: find_Some_iff)

lemma scan_string_no_NUL: "scan_string xs = Inr (s, n) \<Longrightarrow> NUL \<notin> set s"
proof (induction xs arbitrary: s n)
  case (Cons x xs)
  have "char_of_byte x \<noteq> NUL" if "x \<noteq> 0" using that byte_of_char_of_byte [of x] byte_of_eq_0_iff by metis
  then show ?case using Cons by (auto split: if_splits sum.splits)
qed simp

lemma scan_ascii_no_zero: "\<exists>xs :: u8 list. fst (scan_ascii bs) = map scast xs \<and> 0 \<notin> set xs"
proof (induction bs)
  case (Cons x bs)
  then obtain xs :: "u8 list" where "fst (scan_ascii bs) = map scast xs" "0 \<notin> set xs" by auto
  then show ?case by (cases "x = 0") (auto simp: split_def intro: exI [of _ "x # xs"])
qed simp

lemma ucast_scast_byte [simp]: "ucast (scast (x :: u8) :: u16) = x"
  by (rule bit_word_eqI) (auto simp: bit_simps)

lemma sext_text_read [simp]: "sext_text (read_text off b e) = read_text off b e"
proof -
  obtain xs :: "u8 list" where xs: "read_text off b e = map scast xs" "0 \<notin> set xs"
    using scan_ascii_no_zero by (auto simp: read_text_def getNullTerminatedWideStringAsAscii_def split_def)
  then have "low_bytes (map scast xs) = xs" by (auto simp: low_bytes_def o_def takeWhile_eq_all_conv)
  then show ?thesis by (simp add: xs(1) sext_text_def)
qed

lemma fold_map_put_keys: "set (keys (fold (\<lambda>e. map_put (fst e) (f e)) es m)) = set (keys es) \<union> set (keys m)"
  by (induction es arbitrary: m) (simp_all add: set_keys_map_put del: set_map)

lemma fold_map_put_range:
  "map_of (fold (\<lambda>e. map_put (fst e) (f e)) es m) i = Some s \<Longrightarrow> s \<in> range f \<or> map_of m i = Some s"
proof (induction es arbitrary: m)
  case (Cons e es)
  then show ?case using Cons.IH [of "map_put (fst e) (f e) m"] by (auto split: if_splits)
qed simp

lemma read_loc_chunk_facts:
  assumes "read_loc_chunk chunk = Inr (Some c)"
  shows "NUL \<notin> set (lc_tag c)" "set (keys (lc_strings c)) = set (lc_ids c)"
    "map_of (lc_strings c) i = Some s \<Longrightarrow> sext_text s = s"
proof -
  show "NUL \<notin> set (lc_tag c)"
    using assms by (auto simp: read_loc_chunk_def getNullTerminatedString_def dest: scan_string_no_NUL split: prod.splits if_splits sum.splits)
  show "set (keys (lc_strings c)) = set (lc_ids c)"
    using assms by (auto simp: read_loc_chunk_def fold_map_put_keys simp del: set_map split: prod.splits if_splits sum.splits)
  show "map_of (lc_strings c) i = Some s \<Longrightarrow> sext_text s = s"
    using assms by (auto simp: read_loc_chunk_def dest!: fold_map_put_range split: prod.splits if_splits sum.splits)
qed

text \<open>The texts of the mods have one entry per identifier.\<close>

lemma load_texts_ordered: "ordered strings \<Longrightarrow> ordered (fst (load_texts n b strings))"
  by (induction n arbitrary: b strings) (simp_all add: split_def)

lemma Localization_Load_distinct: "ordered strings \<Longrightarrow> distinct (keys (Localization_Load b strings))"
  using load_texts_ordered strict_sorted_iff by (auto simp: Localization_Load_def split_def simp del: set_map)

lemma merge_texts_ids:
  "set (fst (merge_texts values shifts texts c)) = set (fst c) \<union> set (keys texts)"
  unfolding merge_texts_def by (induction texts arbitrary: c) (auto simp: split_def)

lemma merge_texts_fold:
  "snd (merge_texts values shifts texts c) = fold (\<lambda>e. map_put (fst e) (encode_text values shifts (snd e))) texts (snd c)"
  unfolding merge_texts_def by (induction texts arbitrary: c) (auto simp: split_def)

lemma merge_texts_strings:
  assumes "distinct (keys texts)"
  shows "map_of (snd (merge_texts values shifts texts c)) i =
    (case map_of texts i of Some s \<Rightarrow> Some (encode_text values shifts s) | None \<Rightarrow> map_of (snd c) i)"
proof -
  have "map_of texts (fst e) = Some (snd e)" if "e \<in> set texts" for e
    using assms that by (cases e) (simp add: map_of_eq_Some_iff)
  then show ?thesis
    unfolding merge_texts_fold
    using fold_map_put_map_of [of texts "\<lambda>e. encode_text values shifts (snd e)" "\<lambda>i. encode_text values shifts (the (map_of texts i))" "snd c" i]
    by (cases "i \<in> fst ` set texts") (auto simp: map_of_eq_None_iff [THEN iffD2])
qed

lemma sum_list_sort: "(\<Sum>x\<leftarrow>sort xs. f x) = (\<Sum>x\<leftarrow>xs. f x :: nat)" for xs :: "u32 list"
proof (induction xs)
  case (Cons x xs)
  have "(\<Sum>y\<leftarrow>insort x ys. f y) = f x + (\<Sum>y\<leftarrow>ys. f y)" for ys by (induction ys) auto
  then show ?case using Cons by (simp add: sort_key_def)
qed simp

lemma chunk_body_bound: "length (chunk_body strings ids) \<le> (\<Sum>i\<leftarrow>ids. 9 + length (text_at strings i))"
proof -
  have "length (low_bytes s) \<le> length s" for s
    using length_takeWhile_le [of _ "map ucast s :: u8 list"] by (simp add: low_bytes_def)
  then have "8 * length ids + length (texts_bytes strings ids) \<le> (\<Sum>i\<leftarrow>ids. 9 + length (text_at strings i))"
    by (induction ids) (simp_all add: texts_bytes_def text_bytes_def add_mono algebra_simps)
  then show ?thesis by (simp add: chunk_body_def)
qed

text \<open>C10: a merged chunk reads back with the same tag and with its identifiers in order: those of the game's chunk and those of
  the mods. A text that mods change is the encoding of their text, every other text is the one of the game's chunk. This needs
  a tag that fits into its 128 bytes and a chunk below 2 GB.\<close>

theorem Localization_ModifyChunk_merges:
  assumes "read_loc_chunk chunk = Inr (Some c)" "length (lc_tag c) \<le> 127" "histogram_shifts values = Inr shifts"
    "distinct (keys texts)" "merge_texts values shifts texts (lc_ids c, lc_strings c) = (ids, strings)"
    "148 + (\<Sum>i\<leftarrow>ids. 9 + length (text_at strings i)) < 2 ^ 31"
  shows "\<exists>out c'. Localization_ModifyChunk chunk texts values = Inr out \<and> read_loc_chunk out = Inr (Some c') \<and> lc_tag c' = lc_tag c \<and>
    sorted (lc_ids c') \<and> set (lc_ids c') = set (lc_ids c) \<union> set (keys texts) \<and>
    (\<forall>i. map_of (lc_strings c') i =
      (case map_of texts i of Some s \<Rightarrow> Some (sext_text (encode_text values shifts s)) | None \<Rightarrow> map_of (lc_strings c) i))"
proof -
  note rf = read_loc_chunk_facts [OF assms(1)]
  have ids: "set ids = set (lc_ids c) \<union> set (keys texts)"
    using merge_texts_ids [of "values" shifts texts "(lc_ids c, lc_strings c)"] assms(5) by simp
  have strs: "map_of strings i = (case map_of texts i of Some s \<Rightarrow> Some (encode_text values shifts s) | None \<Rightarrow> map_of (lc_strings c) i)" for i
    using merge_texts_strings [OF assms(4), of "values" shifts "(lc_ids c, lc_strings c)" i] assms(5)
    by (simp split: option.split)
  have "(\<Sum>i\<leftarrow>sort ids. 9 + length (text_at strings i)) = (\<Sum>i\<leftarrow>ids. 9 + length (text_at strings i))"
    by (rule sum_list_sort)
  then have "148 + length (chunk_body strings (sort ids)) < 2 ^ 31"
    using chunk_body_bound [of strings "sort ids"] assms(6) by simp
  then obtain c' where c': "read_loc_chunk (write_loc_chunk (lc_tag c) ids strings) = Inr (Some c')" "lc_tag c' = lc_tag c" "lc_ids c' = sort ids"
      "map_of (lc_strings c') i = (if i \<in> set ids then Some (sext_text (text_at strings i)) else None)" for i
    using read_write_loc_chunk [OF assms(2) rf(1)] by blast
  have "map_of (lc_strings c') i =
      (case map_of texts i of Some s \<Rightarrow> Some (sext_text (encode_text values shifts s)) | None \<Rightarrow> map_of (lc_strings c) i)" for i
  proof (cases "map_of texts i")
    case None
    then have "i \<in> set ids \<longleftrightarrow> map_of (lc_strings c) i \<noteq> None"
      using ids rf(2) [symmetric] by (simp add: map_of_eq_None_iff)
    then show ?thesis using None c'(4) [of i] strs [of i] rf(3) [of i] by (auto simp: text_at_def)
  next
    case (Some s)
    then have "i \<in> set ids" using ids by (auto dest: map_of_SomeD intro: rev_image_eqI)
    then show ?thesis using Some c'(4) [of i] strs [of i] by (simp add: text_at_def)
  qed
  then show ?thesis using assms(1,3,5) c'(1-3) ids by (simp add: Localization_ModifyChunk_def)
qed

text \<open>Where the chunk of the game does not start with the magic number, it is replaced by an empty one: all texts are gone.\<close>

lemma Localization_Modify_bad_header:
  assumes "ModifyHistogram (chunkData (td_HistogramChunk db) (td_HistogramChunkSize db)) = Inr values"
    "fst (getInt (bb_of_array (chunkData (td_BinaryChunk db) (td_BinaryChunkSize db)))) \<noteq> 0x00039000"
  shows "Localization_Modify chunkData db texts s =
    Inr (db\<lparr>td_BinaryChunkSize := 0\<rparr>, ModifyChunk (td_BinaryChunk db) [] 0 s)"
  using assms by (simp add: Localization_Modify_def Localization_ModifyChunk_def read_loc_chunk_def split_def)

text \<open>The merged chunk is the one that reads of the chunk get, in full and with the size the database announces.\<close>

lemma Localization_Modify_installs:
  assumes "ModifyHistogram (chunkData (td_HistogramChunk db) (td_HistogramChunkSize db)) = Inr values"
    "Localization_ModifyChunk (chunkData (td_BinaryChunk db) (td_BinaryChunkSize db)) texts values = Inr out" "length out < 2 ^ 32"
  shows "\<exists>db' s'. Localization_Modify chunkData db texts s = Inr (db', s') \<and> unat (td_BinaryChunkSize db') = length out \<and>
    map_of (s_modifiedChunks s') (td_BinaryChunk db) = Some \<lparr>mc_data = out, mc_size = td_BinaryChunkSize db'\<rparr>"
  using assms by (simp add: Localization_Modify_def ModifyChunk_def Let_def unat_small)


section \<open>The encoding of characters\<close>

text \<open>The format as the histogram describes it: a byte from \<open>0x80\<close> on is the character of its index, unless that entry is below
  \<open>0x80\<close>: then it is a shift, and the next byte selects one of the 128 characters behind it.\<close>

fun decode_text :: "u16 list \<Rightarrow> u8 list \<Rightarrow> u16 list" where
  "decode_text values [] = []"
| "decode_text values (x # xs) =
    (if x < 0x80 then ucast x # decode_text values xs
     else if 0x80 \<le> values ! unat x then values ! unat x # decode_text values xs
     else case xs of [] \<Rightarrow> []
          | y # ys \<Rightarrow> values ! (unat (values ! unat x) * 128 + (unat y - 0x80)) # decode_text values ys)"

definition histogram_ok :: "u16 list \<Rightarrow> bool" where
  "histogram_ok values \<longleftrightarrow> list_all (\<lambda>v. v < 0x80) (take 0x80 values) \<and> list_all (\<lambda>v. 0x80 \<le> v) (drop 0x100 values)"

definition encodable :: "u16 list \<Rightarrow> u8 list \<Rightarrow> u16 \<Rightarrow> bool" where
  "encodable values shifts b \<longleftrightarrow> b \<noteq> 0 \<and> (b < 0x80 \<or>
    (case find (\<lambda>i. values ! i = b) [0..<length values] of
       None \<Rightarrow> True
     | Some index \<Rightarrow> index \<le> 0xFF \<or>
         (case find (\<lambda>shift. shifted values index shift < 0x80) shifts of None \<Rightarrow> False | Some shift \<Rightarrow> 0 \<le> shifted values index shift)))"

lemma find_upt_None: "find (\<lambda>i. xs ! i = x) [0..<length xs] = None \<longleftrightarrow> x \<notin> set xs"
  by (auto simp: find_None_iff in_set_conv_nth)

lemma shift_facts:
  assumes "histogram_ok values" "histogram_shifts values = Inr shifts" "s \<in> set shifts"
  shows "0x80 \<le> unat s" "values ! unat s < 0x80"
proof -
  obtain i where i: "0x80 \<le> i" "i < 0x1FF" "values ! i < 0x80" "s = word_of_nat i" "0x1FF \<le> length values"
    using assms(2,3) by (auto simp: histogram_shifts_def simp del: upt_rec_numeral split: if_splits)
  have "i < 0x100"
  proof (rule ccontr)
    assume "\<not> i < 0x100"
    then have "drop 0x100 values ! (i - 0x100) = values ! i" "i - 0x100 < length (drop 0x100 values)" using i by simp_all
    then have "0x80 \<le> values ! i" using assms(1) unfolding histogram_ok_def list_all_length by metis
    then show False using i(3) by simp
  qed
  then have "unat s = i" using i(4) by (simp add: unat_u8_of_nat)
  then show "0x80 \<le> unat s" "values ! unat s < 0x80" using i by simp_all
qed

lemma ucast_byte_unit [simp]: "ucast (ucast (x :: u8) :: u16) = x"
  by (rule bit_word_eqI) (auto simp: bit_simps)

lemma ucast_small_unit: "b < 0x80 \<Longrightarrow> unat (ucast (b :: u16) :: u8) = unat b"
  by (simp add: unsigned_ucast_eq word_less_nat_alt take_bit_nat_eq_self)

lemma unat_unit_of_byte [simp]: "unat (ucast (x :: u8) :: u16) = unat x"
  using u8_less_256 [of x] by (simp add: unsigned_ucast_eq take_bit_nat_eq_self)

text \<open>The bytes of one unit: none of them is 0, and they decode to the unit.\<close>

lemma encode_unit_decodes:
  assumes "histogram_ok values" "histogram_shifts values = Inr shifts" "encodable values shifts b"
  shows "\<exists>xs. map ucast (encode_unit values shifts b) = xs \<and> 0 \<notin> set xs \<and>
    decode_text values (xs @ ys) = (if b < 0x80 \<or> b \<in> set values then [b] else []) @ decode_text values ys"
proof (cases "b < 0x80 \<or> b \<notin> set values")
  case True
  have "ucast (ucast b :: u8) = b \<and> ucast b \<noteq> (0 :: u8) \<and> (ucast b :: u8) < 0x80" if "b < 0x80"
    using assms(3) that ucast_small_unit [OF that]
    by (auto simp: encodable_def word_less_nat_alt word_unat_eq_iff)
  then show ?thesis using True by (auto simp: encode_unit_def find_upt_None [THEN iffD2])
next
  case False
  then have b: "\<not> b < 0x80" "b \<in> set values" by auto
  then obtain index where index: "find (\<lambda>i. values ! i = b) [0..<length values] = Some index"
    using find_upt_None [of "values" b] by auto
  note at = find_upt_Some [OF index]
  have "\<not> index < 0x80"
  proof
    assume "index < 0x80"
    then have "take 0x80 values ! index = b" "index < length (take 0x80 values)" using at by simp_all
    then show False using assms(1) b(1) unfolding histogram_ok_def list_all_length by metis
  qed
  show ?thesis
  proof (cases "index \<le> 0xFF")
    case True
    then have "unat (word_of_nat index :: u8) = index" by (simp add: unat_u8_of_nat)
    then show ?thesis using True b index at \<open>\<not> index < 0x80\<close>
      by (auto simp: encode_unit_def word_less_nat_alt word_le_nat_alt word_unat_eq_iff unat_u8_of_nat)
  next
    case F: False
    then obtain s where s: "find (\<lambda>shift. shifted values index shift < 0x80) shifts = Some s" "0 \<le> shifted values index s"
      using assms(3) b index by (auto simp: encodable_def split: option.splits)
    then have "s \<in> set shifts" "shifted values index s < 0x80" by (auto simp: find_Some_iff in_set_conv_nth)
    note sf = shift_facts [OF assms(1,2) \<open>s \<in> set shifts\<close>]
    define d where "d = nat (shifted values index s)"
    have d: "d < 0x80" "shifted values index s = int d"
      using s(2) \<open>shifted values index s < 0x80\<close> by (simp_all add: d_def)
    then have "int index = int (unat (values ! unat s) * 128 + d)" by (simp add: shifted_def)
    then have i: "index = unat (values ! unat s) * 128 + d" by (simp only: of_nat_eq_iff)
    have y: "unat (word_of_int (shifted values index s + 0x80) :: u8) = d + 0x80"
      using d(1) unat_u8_of_nat [of "d + 0x80"] by (simp add: d(2))
    show ?thesis
      using F b index s(1) sf i at y by (auto simp: encode_unit_def word_less_nat_alt word_le_nat_alt word_unat_eq_iff)
  qed
qed

text \<open>C11: encoding a text and decoding it again gives the text less the characters that the histogram does not have, for every
  histogram whose shifts are single bytes and a text whose characters are encodable: each that has no byte of its own gets a
  shift with a difference that is not negative.\<close>

theorem decode_encode_text:
  assumes "histogram_ok values" "histogram_shifts values = Inr shifts" "list_all (encodable values shifts) s"
  shows "decode_text values (low_bytes (encode_text values shifts s)) = filter (\<lambda>b. b < 0x80 \<or> b \<in> set values) s"
proof -
  have "decode_text values (map ucast (encode_text values shifts s)) = filter (\<lambda>b. b < 0x80 \<or> b \<in> set values) s \<and>
      0 \<notin> set (map ucast (encode_text values shifts s) :: u8 list)"
    using assms(3)
  proof (induction s)
    case (Cons b s)
    then show ?case
      using encode_unit_decodes [OF assms(1,2), of b "map ucast (encode_text values shifts s)"]
      by (auto simp: encode_text_def)
  qed (simp add: encode_text_def)
  moreover from this have "low_bytes (encode_text values shifts s) = map ucast (encode_text values shifts s)"
    by (auto simp: low_bytes_def takeWhile_eq_all_conv)
  ultimately show ?thesis by simp
qed


section \<open>Concrete chunks\<close>

text \<open>A histogram with characters \<open>0x480\<close> to \<open>0x5FF\<close> at the indices from \<open>0x80\<close> on, except for two shifts at \<open>0xFE\<close> and \<open>0xFF\<close>.\<close>

definition sample_unit :: "nat \<Rightarrow> u16" where
  "sample_unit i = word_of_nat (if i < 0x80 then i else 0x400 + i)"

definition sample_values :: "u16 \<Rightarrow> u16 \<Rightarrow> u16 list" where
  "sample_values x y = map (\<lambda>i. if i = 0xFE then x else if i = 0xFF then y else sample_unit i) [0..<0x200]"

lemma length_sample_values [simp]: "length (sample_values x y) = 0x200"
  by (simp add: sample_values_def del: upt_rec_numeral)

lemma nth_sample_values [simp]: "i < 0x200 \<Longrightarrow> sample_values x y ! i =
    (if i = 0xFE then x else if i = 0xFF then y else sample_unit i)"
  by (simp add: sample_values_def del: upt_rec_numeral)

lemma unat_sample_unit: "i < 0x200 \<Longrightarrow> unat (sample_unit i) = (if i < 0x80 then i else 0x400 + i)"
  by (auto simp: sample_unit_def unat_of_nat take_bit_nat_eq_self)

lemma sample_histogram_ok: "histogram_ok (sample_values x y)"
proof -
  have "sample_values x y ! i < 0x80" if "i < 0x80" for i
    using that unat_sample_unit [of i] by (simp add: word_less_nat_alt)
  moreover have "0x80 \<le> sample_values x y ! (0x100 + i)" if "i < 0x100" for i
    using that unat_sample_unit [of "0x100 + i"] by (simp add: word_le_nat_alt)
  ultimately show ?thesis by (simp add: histogram_ok_def list_all_length)
qed

lemma sample_shifts:
  assumes "x < 0x80" "y < 0x80"
  shows "histogram_shifts (sample_values x y) = Inr [0xFF, 0xFE]"
proof -
  let ?P = "\<lambda>i. sample_values x y ! i < 0x80"
  have P: "?P i \<longleftrightarrow> i \<in> {0xFE, 0xFF}" if "0x80 \<le> i" "i < 0x1FF" for i
    using that unat_sample_unit [of i] assms by (auto simp: word_less_nat_alt)
  have "filter ?P [0x80..<0xFE] = []" "filter ?P [0x100..<0x1FF] = []"
    using P by (auto simp: filter_empty_conv simp del: upt_rec_numeral nth_sample_values)
  moreover have "[0x80..<0x1FF] = [0x80..<0xFE] @ [0xFE, 0xFF] @ [0x100..<(0x1FF::nat)]"
    by (simp add: upt_rec_numeral)
  ultimately have "filter ?P (rev [0x80..<0x1FF]) = [0xFF, 0xFE]"
    using P [of "0xFE"] P [of "0xFF"] by (simp add: rev_filter [symmetric] del: upt_rec_numeral nth_sample_values)
  then show ?thesis by (simp add: histogram_shifts_def del: upt_rec_numeral)
qed

lemma sample_find:
  assumes "x < 0x80" "y < 0x80" "0x80 \<le> i" "i < 0x200" "i \<notin> {0xFE, 0xFF}"
  shows "find (\<lambda>k. sample_values x y ! k = sample_unit i) [0..<0x200] = Some i"
proof -
  have "sample_values x y ! k \<noteq> sample_unit i" if "k < i" for k
    using that assms unat_sample_unit [of k] unat_sample_unit [of i]
    by (auto simp: word_less_nat_alt word_unat_eq_iff split: if_splits)
  then show ?thesis
    using assms by (auto simp: find_Some_iff simp del: upt_rec_numeral intro!: exI [of _ i])
qed

lemma sample_units:
  "sample_unit 0x41 = 0x41" "sample_unit 0x90 = 0x490" "sample_unit 0x100 = 0x500" "sample_unit 0x1A0 = 0x5A0"
  by (simp_all add: sample_unit_def)

lemmas sample_at = sample_find [of _ _ "0x90", unfolded sample_units] sample_find [of _ _ "0x100", unfolded sample_units]
  sample_find [of _ _ "0x1A0", unfolded sample_units]

lemma sample_missing: "x < 0x80 \<Longrightarrow> y < 0x80 \<Longrightarrow> 0x700 \<notin> set (sample_values x y)"
  using unat_sample_unit by (fastforce simp: in_set_conv_nth word_less_nat_alt word_unat_eq_iff split: if_splits)

text \<open>The characters of the text below: one with a byte of its own, two behind the two shifts and one that the histogram lacks.\<close>

theorem decode_encode_text_witness:
  "decode_text (sample_values 3 2) (low_bytes (encode_text (sample_values 3 2) [0xFF, 0xFE] [0x41, 0x490, 0x500, 0x5A0, 0x700])) =
    [0x41, 0x490, 0x500, 0x5A0]"
proof -
  have none: "find (\<lambda>i. sample_values 3 2 ! i = 0x700) [0..<0x200] = None"
    using sample_missing [of 3 2] find_upt_None [of "sample_values 3 2" "0x700"] by (simp del: upt_rec_numeral)
  have mem: "0x490 \<in> set (sample_values 3 2)" "0x500 \<in> set (sample_values 3 2)" "0x5A0 \<in> set (sample_values 3 2)"
    using nth_mem [of "0x90" "sample_values 3 2"] nth_mem [of "0x100" "sample_values 3 2"] nth_mem [of "0x1A0" "sample_values 3 2"]
    by (simp_all add: sample_units)
  have "list_all (encodable (sample_values 3 2) [0xFF, 0xFE]) [0x41, 0x490, 0x500, 0x5A0, 0x700]"
    by (simp add: encodable_def sample_at none shifted_def del: upt_rec_numeral)
  then show ?thesis
    using decode_encode_text [OF sample_histogram_ok sample_shifts] sample_missing [of 3 2] mem by simp
qed

text \<open>With the two shifts the other way round the first one is taken for the character \<open>0x500\<close>, whose difference to it is negative.
  The second byte of the pair is 0: the text ends there.\<close>

lemma histogram_order_matters:
  "encode_text (sample_values 2 3) [0xFF, 0xFE] [0x41, 0x500, 0x42] = [0x41, 0xFF, 0, 0x42]"
  "decode_text (sample_values 2 3) (low_bytes [0x41, 0xFF, 0, 0x42]) = [0x41]"
  by (simp_all add: encode_text_def encode_unit_def sample_at shifted_def low_bytes_def sample_units del: upt_rec_numeral)

definition sample_chunk :: bytes where
  "sample_chunk = write_loc_chunk ''en'' [9, 7] [(7, [0x41, 0x42]), (9, [0x43])]"

lemma read_sample_chunk:
  "\<exists>c. read_loc_chunk sample_chunk = Inr (Some c) \<and> lc_tag c = ''en'' \<and> lc_ids c = [7, 9] \<and>
    (\<forall>i. map_of (lc_strings c) i = (if i = 7 then Some [0x41, 0x42] else if i = 9 then Some [0x43] else None))"
proof -
  let ?t = "[(7, [0x41, 0x42]), (9, [0x43])] :: texts"
  have "sext_text (text_at ?t i) = (if i = 7 then [0x41, 0x42] else if i = 9 then [0x43] else [])" for i
    by (simp add: text_at_def sext_text_def low_bytes_def)
  moreover have "length (chunk_body ?t (sort [9, 7])) < 100"
    using chunk_body_bound [of ?t "sort [9, 7]"] by (simp add: text_at_def)
  ultimately obtain c where "read_loc_chunk sample_chunk = Inr (Some c)" "lc_tag c = ''en''" "lc_ids c = sort [9, 7]"
      "map_of (lc_strings c) i = (if i \<in> set [9, 7] then Some (if i = 7 then [0x41, 0x42] else if i = 9 then [0x43] else []) else None)" for i
    using read_write_loc_chunk [of "''en''" ?t "[9, 7]"] by (auto simp: sample_chunk_def NUL_def)
  then show ?thesis by (intro exI [of _ c]) simp
qed

theorem Localization_ModifyChunk_merges_witness:
  "\<exists>out c'. Localization_ModifyChunk sample_chunk [(8, [0x45]), (9, [0x44])] (sample_values 3 2) = Inr out \<and> read_loc_chunk out = Inr (Some c') \<and>
    lc_tag c' = ''en'' \<and> set (lc_ids c') = {7, 8, 9} \<and> map_of (lc_strings c') 7 = Some [0x41, 0x42] \<and>
    map_of (lc_strings c') 8 = Some [0x45] \<and> map_of (lc_strings c') 9 = Some [0x44]"
proof -
  let ?texts = "[(8, [0x45]), (9, [0x44])] :: texts" and ?v = "sample_values 3 2" and ?s = "[0xFF, 0xFE] :: u8 list"
  obtain c where c: "read_loc_chunk sample_chunk = Inr (Some c)" "lc_tag c = ''en''" "lc_ids c = [7, 9]"
      "map_of (lc_strings c) i = (if i = 7 then Some [0x41, 0x42] else if i = 9 then Some [0x43] else None)" for i
    using read_sample_chunk by blast
  define strings where "strings = snd (merge_texts ?v ?s ?texts (lc_ids c, lc_strings c))"
  have m: "merge_texts ?v ?s ?texts (lc_ids c, lc_strings c) = ([7, 9, 8], strings)"
    by (simp add: strings_def merge_texts_def c(3))
  have enc: "encode_text ?v ?s [0x45] = [0x45]" "encode_text ?v ?s [0x44] = [0x44]"
    by (simp_all add: encode_text_def encode_unit_def)
  have "map_of strings i = (if i = 8 then Some [0x45] else if i = 9 then Some [0x44] else if i = 7 then Some [0x41, 0x42] else None)" for i
    unfolding strings_def by (subst merge_texts_strings) (simp_all add: c(4) enc)
  then have "148 + (\<Sum>i\<leftarrow>[7, 9, 8]. 9 + length (text_at strings i)) < 2 ^ 31" by (simp add: text_at_def)
  from Localization_ModifyChunk_merges [OF c(1) _ sample_shifts _ m this] obtain out c' where
    "Localization_ModifyChunk sample_chunk ?texts ?v = Inr out" "read_loc_chunk out = Inr (Some c')" "lc_tag c' = ''en''" "set (lc_ids c') = {7, 9} \<union> {8, 9}"
    "map_of (lc_strings c') i = (case map_of ?texts i of Some s \<Rightarrow> Some (sext_text (encode_text ?v ?s s)) | None \<Rightarrow> map_of (lc_strings c) i)" for i
    by (auto simp: c(2,3))
  then show ?thesis by (auto simp: c(4) enc sext_text_def low_bytes_def intro!: exI [of _ out] exI [of _ c'])
qed

end
