(* ===== verification/Asset_Handlers.thy ===== *)
theory Asset_Handlers
  imports Resource_Hooks
begin

text \<open>
  The handlers of single asset types (\<^verbatim>\<open>ModLoader/CustomAssetHandler.cpp\<close>, \<^verbatim>\<open>ModLoader/Handlers\<close>), other than the texts. A handler has a
  \<^verbatim>\<open>Load\<close>, which reads the data of one mod into the data of all mods, and a \<^verbatim>\<open>Modify\<close>, which changes the asset of the game.

  An object of the game is a number and a pointer to one an option. \<^verbatim>\<open>Modify\<close> returns what becomes of the asset and the objects it
  calls \<^verbatim>\<open>addRef\<close> on, in order. An array of the game is a list; \<^verbatim>\<open>FBArray::extend\<close> fills it up with zeros.
\<close>

section \<open>References\<close>

record import_ref =
  partitionGuid :: guid
  instanceGuid :: guid

text \<open>What the game knows of a domain: its own lookup of partitions, the partitions the hooks saw, and their instances.\<close>

record asset_domain =
  ad_findPartition :: "guid \<Rightarrow> nat option"
  ad_loadedPartitions :: "(guid \<times> nat) list"
  ad_findInstance :: "nat \<Rightarrow> guid \<Rightarrow> nat option"

definition findDataContainer :: "asset_domain \<Rightarrow> import_ref \<Rightarrow> nat option" where
  "findDataContainer d ref =
    (if Guid_IsZero (partitionGuid ref) then None
     else case (case ad_findPartition d (partitionGuid ref) of
                  None \<Rightarrow> map_of (ad_loadedPartitions d) (partitionGuid ref)
                | Some p \<Rightarrow> Some p) of
            None \<Rightarrow> None
          | Some p \<Rightarrow> ad_findInstance d p (instanceGuid ref))"

definition parseReference :: "byte_buffer \<Rightarrow> (import_ref \<times> byte_buffer) result" where
  "parseReference =
    then_read (\<lambda>b. Inr (FromFrostyLE_buf b)) (\<lambda>classGuid. then_read (\<lambda>b. Inr (FromFrostyLE_buf b)) (\<lambda>fileGuid.
      give \<lparr>partitionGuid = fileGuid, instanceGuid = classGuid\<rparr>))"

definition parseReference2 :: "byte_buffer \<Rightarrow> (import_ref \<times> byte_buffer) result" where
  "parseReference2 =
    then_read (\<lambda>b. Inr (FromFrostyLE_buf b)) (\<lambda>fileGuid. then_read (\<lambda>b. Inr (FromFrostyLE_buf b)) (\<lambda>classGuid.
      give \<lparr>partitionGuid = fileGuid, instanceGuid = classGuid\<rparr>))"

text \<open>A loop over a signed count, and one after \<^verbatim>\<open>reserve\<close>, which throws on a negative count.\<close>

definition read_list :: "(byte_buffer \<Rightarrow> ('a \<times> byte_buffer) result) \<Rightarrow> byte_buffer \<Rightarrow> ('a list \<times> byte_buffer) result" where
  "read_list dec = then_read (\<lambda>b. Inr (getInt b)) (\<lambda>count. read_n dec (nat (sint count)))"

definition reserve_list :: "(byte_buffer \<Rightarrow> ('a \<times> byte_buffer) result) \<Rightarrow> byte_buffer \<Rightarrow> ('a list \<times> byte_buffer) result" where
  "reserve_list dec = then_read (\<lambda>b. Inr (getInt b))
    (\<lambda>count. if sint count < 0 then (\<lambda>_. Inl Bad_Format) else read_n dec (nat (sint count)))"

text \<open>Arrays of the game.\<close>

definition fb_extend :: "'a \<Rightarrow> nat \<Rightarrow> 'a list \<Rightarrow> 'a list" where
  "fb_extend zero amount xs = xs @ replicate amount zero"

text \<open>The loop of \<^verbatim>\<open>RunHandler\<close> over the data of the mods: it skips the name in front and calls \<^verbatim>\<open>Load\<close>.\<close>

primrec load_all :: "('d \<Rightarrow> byte_buffer \<Rightarrow> ('d \<times> byte_buffer) result) \<Rightarrow> bytes list \<Rightarrow> 'd \<Rightarrow> 'd result" where
  "load_all load [] data = Inr data"
| "load_all load (bs # bss) data =
    (case getNullTerminatedString (bb_of_array bs) of
       Inl e \<Rightarrow> Inl e
     | Inr (_, b) \<Rightarrow> (case load data b of Inl e \<Rightarrow> Inl e | Inr (data', _) \<Rightarrow> load_all load bss data'))"


section \<open>Network registry\<close>

definition NetworkRegistry_Load :: "import_ref list \<Rightarrow> byte_buffer \<Rightarrow> (import_ref list \<times> byte_buffer) result" where
  "NetworkRegistry_Load values = then_read (read_list parseReference) (\<lambda>refs. give (values @ refs))"

text \<open>The loop over the array: a null pointer becomes the first element.\<close>

definition fill_nulls :: "nat option list \<Rightarrow> nat option list" where
  "fill_nulls objects = map (\<lambda>ob. if ob = None then objects ! 0 else ob) objects"

primrec set_objects :: "asset_domain \<Rightarrow> nat \<Rightarrow> import_ref list \<Rightarrow> nat option list \<Rightarrow> nat option list" where
  "set_objects d i [] objects = objects"
| "set_objects d i (r # rs) objects =
    set_objects d (Suc i) rs (case findDataContainer d r of None \<Rightarrow> objects | Some ob \<Rightarrow> objects[i := Some ob])"

definition NetworkRegistry_Modify :: "asset_domain \<Rightarrow> bool \<Rightarrow> import_ref list \<Rightarrow> nat option list \<Rightarrow> bool \<times> nat option list" where
  "NetworkRegistry_Modify d clearRequired values objects =
    (let objects = (if clearRequired then [] else fill_nulls objects)
     in (True, set_objects d (length objects) values (fb_extend None (length values) objects)))"


section \<open>Menu data and profile options\<close>

definition UIMetaData_Load :: "import_ref list \<Rightarrow> byte_buffer \<Rightarrow> (import_ref list \<times> byte_buffer) result" where
  "UIMetaData_Load values = then_read (read_list parseReference) (\<lambda>refs. give (values @ refs))"

primrec set_assets :: "asset_domain \<Rightarrow> nat \<Rightarrow> import_ref list \<Rightarrow> nat option list \<Rightarrow> (nat option list \<times> nat list) result" where
  "set_assets d i [] assets = Inr (assets, [])"
| "set_assets d i (r # rs) assets =
    (case findDataContainer d r of
       None \<Rightarrow> Inl Null_Deref
     | Some ob \<Rightarrow>
         (case set_assets d (Suc i) rs (assets[i := Some ob]) of
            Inl e \<Rightarrow> Inl e
          | Inr (assets', refs) \<Rightarrow> Inr (assets', ob # refs)))"

definition UIMetaData_Modify :: "asset_domain \<Rightarrow> import_ref list \<Rightarrow> nat option list \<Rightarrow> (bool \<times> nat option list \<times> nat list) result" where
  "UIMetaData_Modify d values assets =
    (if None \<in> set assets then Inr (False, assets, [])
     else case set_assets d (length assets) values (fb_extend None (length values) assets) of
            Inl e \<Rightarrow> Inl e
          | Inr (assets', refs) \<Rightarrow> Inr (True, assets', refs))"

definition ProfileOptions_Load :: "import_ref list \<Rightarrow> byte_buffer \<Rightarrow> (import_ref list \<times> byte_buffer) result" where
  "ProfileOptions_Load values = then_read (read_list parseReference) (\<lambda>refs. give (values @ refs))"

definition ProfileOptions_Modify :: "asset_domain \<Rightarrow> import_ref list \<Rightarrow> nat option list \<Rightarrow> (bool \<times> nat option list \<times> nat list) result" where
  "ProfileOptions_Modify d values assets =
    (if None \<in> set assets then Inr (False, assets, [])
     else case set_assets d (length assets) values (fb_extend None (length values) assets) of
            Inl e \<Rightarrow> Inl e
          | Inr (assets', refs) \<Rightarrow> Inr (True, assets', refs))"


section \<open>Mesh variations\<close>

record texture_data =
  tx_value :: import_ref
  tx_parameterName :: string

record material_data =
  mt_material :: import_ref
  mt_materialVariation :: import_ref
  mt_materialId :: u64
  mt_textureParameters :: "texture_data list"
  mt_surfaceShaderGuid :: guid
  mt_surfaceShaderId :: u32

record mesh_entry =
  me_mesh :: import_ref
  me_materials :: "material_data list"
  me_variationAssetNameHash :: u32

definition read_texture :: "byte_buffer \<Rightarrow> (texture_data \<times> byte_buffer) result" where
  "read_texture =
    then_read parseReference (\<lambda>value. then_read getNullTerminatedString (\<lambda>name. give \<lparr>tx_value = value, tx_parameterName = name\<rparr>))"

definition read_material :: "byte_buffer \<Rightarrow> (material_data \<times> byte_buffer) result" where
  "read_material =
    then_read parseReference (\<lambda>material. then_read parseReference (\<lambda>variation. then_read (\<lambda>b. Inr (getLong b)) (\<lambda>materialId.
    then_read (\<lambda>b. Inr (FromFrostyLE_buf b)) (\<lambda>guid. then_read (\<lambda>b. Inr (getInt b)) (\<lambda>shaderId. then_read (read_list read_texture) (\<lambda>textures.
      give \<lparr>mt_material = material, mt_materialVariation = variation, mt_materialId = materialId, mt_textureParameters = textures,
        mt_surfaceShaderGuid = guid, mt_surfaceShaderId = shaderId\<rparr>))))))"

definition read_mesh_entry :: "byte_buffer \<Rightarrow> (mesh_entry \<times> byte_buffer) result" where
  "read_mesh_entry =
    then_read parseReference (\<lambda>mesh. then_read (\<lambda>b. Inr (getInt b)) (\<lambda>hash. then_read (read_list read_material) (\<lambda>materials.
      give \<lparr>me_mesh = mesh, me_materials = materials, me_variationAssetNameHash = hash\<rparr>)))"

definition MeshVariation_Load :: "mesh_entry list \<Rightarrow> byte_buffer \<Rightarrow> (mesh_entry list \<times> byte_buffer) result" where
  "MeshVariation_Load values = then_read (read_list read_mesh_entry) (\<lambda>es. give (values @ es))"

record real_texture =
  rx_Value :: "nat option"
  rx_ParameterName :: string

record real_material =
  rm_Material :: "nat option"
  rm_MaterialVariation :: "nat option"
  rm_MaterialId :: u64
  rm_TextureParameters :: "real_texture list"
  rm_SurfaceShaderGuid :: guid
  rm_SurfaceShaderId :: u32

record real_entry =
  re_Mesh :: "nat option"
  re_Materials :: "real_material list"
  re_VariationAssetNameHash :: u32

record mesh_database =
  mv_Entries :: "real_entry list"
  mv_RedirectEntries :: "nat list"

definition real_texture_of :: "asset_domain \<Rightarrow> texture_data \<Rightarrow> real_texture" where
  "real_texture_of d t = \<lparr>rx_Value = findDataContainer d (tx_value t), rx_ParameterName = tx_parameterName t\<rparr>"

definition real_material_of :: "asset_domain \<Rightarrow> material_data \<Rightarrow> real_material" where
  "real_material_of d m = \<lparr>rm_Material = findDataContainer d (mt_material m),
    rm_MaterialVariation = findDataContainer d (mt_materialVariation m), rm_MaterialId = mt_materialId m,
    rm_TextureParameters = map (real_texture_of d) (mt_textureParameters m),
    rm_SurfaceShaderGuid = mt_surfaceShaderGuid m, rm_SurfaceShaderId = mt_surfaceShaderId m\<rparr>"

definition real_entry_of :: "asset_domain \<Rightarrow> mesh_entry \<Rightarrow> real_entry" where
  "real_entry_of d e = \<lparr>re_Mesh = findDataContainer d (me_mesh e), re_Materials = map (real_material_of d) (me_materials e),
    re_VariationAssetNameHash = me_variationAssetNameHash e\<rparr>"

text \<open>The objects an entry calls \<^verbatim>\<open>addRef\<close> on: the mesh, and for every material the material and its textures.\<close>

definition entry_refs :: "real_entry \<Rightarrow> nat list" where
  "entry_refs e = map the (filter (\<lambda>p. p \<noteq> None) (re_Mesh e #
    concat (map (\<lambda>m. rm_Material m # map rx_Value (rm_TextureParameters m)) (re_Materials e))))"

definition zero_entry :: real_entry where
  "zero_entry = \<lparr>re_Mesh = None, re_Materials = [], re_VariationAssetNameHash = 0\<rparr>"

primrec set_entries :: "asset_domain \<Rightarrow> nat \<Rightarrow> mesh_entry list \<Rightarrow> real_entry list \<Rightarrow> real_entry list \<times> nat list" where
  "set_entries d i [] entries = (entries, [])"
| "set_entries d i (e # es) entries =
    (case set_entries d (Suc i) es (entries[i := real_entry_of d e]) of (entries', refs) \<Rightarrow> (entries', entry_refs (real_entry_of d e) @ refs))"

definition MeshVariation_Modify :: "asset_domain \<Rightarrow> bool \<Rightarrow> mesh_entry list \<Rightarrow> mesh_database \<Rightarrow> bool \<times> mesh_database \<times> nat list" where
  "MeshVariation_Modify d clearRequired values db =
    (let db = (if clearRequired then \<lparr>mv_Entries = [], mv_RedirectEntries = []\<rparr> else db)
     in case set_entries d (length (mv_Entries db)) values (fb_extend zero_entry (length values) (mv_Entries db)) of
          (entries, refs) \<Rightarrow> (True, db\<lparr>mv_Entries := entries\<rparr>, refs))"

section \<open>Teams\<close>

record team_kit =
  tk_kitRef :: import_ref
  tk_classIdentifier :: u32
  tk_gpIdentifier :: u32

record team_merge =
  ws_isAdded :: bool
  ws_partitionGuid :: guid
  ws_rootInstanceGuid :: guid
  ws_internalId :: u32
  ws_wsFaction :: import_ref
  ws_wsPlanetId :: u32
  ws_soldiers :: "team_kit list"
  ws_apSoldiers :: "import_ref list"
  ws_specialSoldiers :: "team_kit list"
  ws_apSpecialSoldiers :: "import_ref list"
  ws_heroes :: "team_kit list"
  ws_apHeroes :: "import_ref list"
  ws_vehicles :: "team_kit list"
  ws_apVehicles :: "import_ref list"
  ws_heroVehicles :: "team_kit list"
  ws_apHeroVehicles :: "import_ref list"
  ws_allPlayerAbilities :: "import_ref list"

definition bytesRemaining :: "byte_buffer \<Rightarrow> u32" where
  "bytesRemaining b = word_of_nat (bb_size b) - word_of_nat (rpos b)"

text \<open>One section of the old format: a counted list, added to a field of the data.\<close>

definition legacy_kit :: "byte_buffer \<Rightarrow> (team_kit \<times> byte_buffer) result" where
  "legacy_kit =
    then_read parseReference (\<lambda>ref. then_read (\<lambda>b. Inr (getInt b)) (\<lambda>c. then_read (\<lambda>b. Inr (getInt b)) (\<lambda>g.
      give \<lparr>tk_kitRef = ref, tk_classIdentifier = c, tk_gpIdentifier = g\<rparr>)))"

definition legacy_section :: "(byte_buffer \<Rightarrow> ('a \<times> byte_buffer) result) \<Rightarrow> (('a list \<Rightarrow> 'a list) \<Rightarrow> team_merge \<Rightarrow> team_merge) \<Rightarrow>
    team_merge \<Rightarrow> byte_buffer \<Rightarrow> (team_merge \<times> byte_buffer) result" where
  "legacy_section dec upd data = then_read (reserve_list dec) (\<lambda>xs. give (upd (\<lambda>ys. ys @ xs) data))"

definition legacy_lists :: "team_merge \<Rightarrow> byte_buffer \<Rightarrow> (team_merge \<times> byte_buffer) result" where
  "legacy_lists data =
    then_read parseReference2 (\<lambda>faction.
    then_read (legacy_section legacy_kit ws_soldiers_update (data\<lparr>ws_wsFaction := faction\<rparr>)) (\<lambda>data.
    then_read (legacy_section parseReference ws_apSoldiers_update data) (\<lambda>data.
    then_read (legacy_section legacy_kit ws_specialSoldiers_update data) (\<lambda>data.
    then_read (legacy_section parseReference ws_apSpecialSoldiers_update data) (\<lambda>data.
    then_read (legacy_section legacy_kit ws_heroes_update data) (\<lambda>data.
    then_read (legacy_section parseReference ws_apHeroes_update data) (\<lambda>data.
    then_read (legacy_section legacy_kit ws_vehicles_update data) (\<lambda>data.
    then_read (legacy_section parseReference ws_apVehicles_update data) (\<lambda>data.
    then_read (legacy_section legacy_kit ws_heroVehicles_update data) (\<lambda>data.
      legacy_section parseReference ws_apHeroVehicles_update data))))))))))"

definition LoadLegacy :: "team_merge \<Rightarrow> byte_buffer \<Rightarrow> (team_merge \<times> byte_buffer) result" where
  "LoadLegacy data = then_read (legacy_lists data) (\<lambda>data b.
    if bytesRemaining b = 0
    then give (data\<lparr>ws_wsFaction := \<lparr>partitionGuid = instanceGuid (ws_wsFaction data), instanceGuid = partitionGuid (ws_wsFaction data)\<rparr>\<rparr>) b
    else give data b)"

definition read_kit :: "byte_buffer \<Rightarrow> (team_kit \<times> byte_buffer) result" where
  "read_kit =
    then_read parseReference2 (\<lambda>ref. then_read (\<lambda>b. Inr (getInt b)) (\<lambda>c. then_read (\<lambda>b. Inr (getInt b)) (\<lambda>g.
    then_read (\<lambda>b. Inr (bb_get b)) (\<lambda>_. give \<lparr>tk_kitRef = ref, tk_classIdentifier = c, tk_gpIdentifier = g\<rparr>))))"

definition ReadTeamDataKitReferences :: "byte_buffer \<Rightarrow> (team_kit list \<times> byte_buffer) result" where
  "ReadTeamDataKitReferences = reserve_list read_kit"

definition ReadPointerRefs :: "byte_buffer \<Rightarrow> (import_ref list \<times> byte_buffer) result" where
  "ReadPointerRefs = reserve_list parseReference2"

definition read_lists :: "team_merge \<Rightarrow> byte_buffer \<Rightarrow> (team_merge \<times> byte_buffer) result" where
  "read_lists data =
    then_read ReadTeamDataKitReferences (\<lambda>soldiers. then_read ReadPointerRefs (\<lambda>apSoldiers.
    then_read ReadTeamDataKitReferences (\<lambda>heroes. then_read ReadPointerRefs (\<lambda>apHeroes.
    then_read ReadTeamDataKitReferences (\<lambda>special. then_read ReadPointerRefs (\<lambda>apSpecial.
    then_read ReadTeamDataKitReferences (\<lambda>vehicles. then_read ReadPointerRefs (\<lambda>apVehicles.
    then_read ReadTeamDataKitReferences (\<lambda>heroVehicles. then_read ReadPointerRefs (\<lambda>apHeroVehicles.
      give (data\<lparr>ws_soldiers := soldiers, ws_apSoldiers := apSoldiers, ws_heroes := heroes, ws_apHeroes := apHeroes,
        ws_specialSoldiers := special, ws_apSpecialSoldiers := apSpecial, ws_vehicles := vehicles, ws_apVehicles := apVehicles,
        ws_heroVehicles := heroVehicles, ws_apHeroVehicles := apHeroVehicles\<rparr>)))))))))))"

definition read_added :: "team_merge \<Rightarrow> byte_buffer \<Rightarrow> (team_merge \<times> byte_buffer) result" where
  "read_added data =
    then_read (\<lambda>b. Inr (FromFrostyLE_buf b)) (\<lambda>g. then_read (\<lambda>b. Inr (FromFrostyLE_buf b)) (\<lambda>root. then_read (\<lambda>b. Inr (getInt b)) (\<lambda>i.
      give (data\<lparr>ws_partitionGuid := g, ws_rootInstanceGuid := root, ws_internalId := i\<rparr>))))"

definition kHandlerVersion :: int where "kHandlerVersion = 3"

definition read_version :: "team_merge \<Rightarrow> byte_buffer \<Rightarrow> (team_merge \<times> byte_buffer) result" where
  "read_version data =
    then_read (\<lambda>b. Inr (bb_get b)) (\<lambda>added.
      let data = data\<lparr>ws_isAdded := (added = 1)\<rparr>
      in then_read (if ws_isAdded data then read_added data else give data) (\<lambda>data.
         then_read (\<lambda>b. Inr (getInt b)) (\<lambda>planet.
         then_read (read_lists (data\<lparr>ws_wsPlanetId := planet\<rparr>)) (\<lambda>data.
           if ws_isAdded data then then_read ReadPointerRefs (\<lambda>abilities. give (data\<lparr>ws_allPlayerAbilities := abilities\<rparr>))
           else give data))))"

definition WSTeamData_Load :: "team_merge \<Rightarrow> byte_buffer \<Rightarrow> (team_merge \<times> byte_buffer) result" where
  "WSTeamData_Load data =
    then_read (LoadLegacy data) (\<lambda>data b.
      if bytesRemaining b = 0 then give data b
      else then_read getNullTerminatedString (\<lambda>magic. then_read (\<lambda>b. Inr (getInt b)) (\<lambda>version.
        if magic \<noteq> ''MopMagicMopMagic'' \<or> sint version > kHandlerVersion then give data
        else if version = 2 then give data
        else read_version data)) b)"

text \<open>The asset. The collections of kits, characters and classes are pointers.\<close>

record team_asset =
  td_WSFaction :: "nat option"
  td_WSPlanetId :: u32
  td_Soldiers :: "nat option list option"
  td_AutoPlayerSoldiers :: "nat option list option"
  td_SoldierIdCollection :: "(u32 \<times> u32) list option"
  td_TrooperClassIdCollection :: "u32 list option"
  td_SpecialSoldiers :: "nat option list option"
  td_AutoPlayerSpecialSoldiers :: "nat option list option"
  td_SpecialSoldiersIdCollection :: "(u32 \<times> u32) list option"
  td_SpecialClassIdCollection :: "u32 list option"
  td_Heroes :: "nat option list option"
  td_AutoPlayerHeroes :: "nat option list option"
  td_HeroIdCollection :: "(u32 \<times> u32) list option"
  td_HeroClassIdCollection :: "u32 list option"
  td_Vehicles :: "nat option list option"
  td_AutoPlayerVehicles :: "nat option list option"
  td_VehicleIdCollection :: "(u32 \<times> u32) list option"
  td_VehicleClassIdCollection :: "u32 list option"
  td_HeroVehicles :: "nat option list option"
  td_AutoPlayerHeroVehicles :: "nat option list option"
  td_HeroVehicleIdCollection :: "(u32 \<times> u32) list option"
  td_HeroVehicleClassIdCollection :: "u32 list option"
  td_AllPlayerAbilities :: "nat option list"

definition same_ref :: "import_ref \<Rightarrow> import_ref \<Rightarrow> bool" where
  "same_ref a b \<longleftrightarrow> Guid_Equals (partitionGuid a) (partitionGuid b) \<and> Guid_Equals (instanceGuid a) (instanceGuid b)"

definition same_kit :: "team_kit \<Rightarrow> team_kit \<Rightarrow> bool" where
  "same_kit a b \<longleftrightarrow> same_ref (tk_kitRef a) (tk_kitRef b) \<and> tk_classIdentifier a = tk_classIdentifier b \<and>
    tk_gpIdentifier a = tk_gpIdentifier b"

primrec dedup :: "('a \<Rightarrow> 'a \<Rightarrow> bool) \<Rightarrow> 'a list \<Rightarrow> 'a list \<Rightarrow> 'a list" where
  "dedup same unique [] = unique"
| "dedup same unique (x # xs) = dedup same (if list_ex (\<lambda>y. same y x) unique then unique else unique @ [x]) xs"

definition removeDuplicates_kits :: "team_kit list \<Rightarrow> team_kit list" where
  "removeDuplicates_kits source = dedup same_kit [] source"

definition removeDuplicates_refs :: "import_ref list \<Rightarrow> import_ref list" where
  "removeDuplicates_refs source = dedup same_ref [] source"

definition logged_classes :: "team_kit list \<Rightarrow> u32 list" where
  "logged_classes source = dedup (=) [] (map tk_classIdentifier source)"

definition MergeKits :: "asset_domain \<Rightarrow> team_kit list \<Rightarrow> nat option list \<times> (u32 \<times> u32) list \<times> u32 list" where
  "MergeKits d source =
    (map (\<lambda>k. findDataContainer d (tk_kitRef k)) source, map (\<lambda>k. (tk_classIdentifier k, tk_gpIdentifier k)) source, logged_classes source)"

definition implement_merge :: "asset_domain \<Rightarrow> team_kit list \<Rightarrow>
    ((nat option list option \<Rightarrow> nat option list option) \<Rightarrow> team_asset \<Rightarrow> team_asset) \<Rightarrow>
    (((u32 \<times> u32) list option \<Rightarrow> (u32 \<times> u32) list option) \<Rightarrow> team_asset \<Rightarrow> team_asset) \<Rightarrow>
    ((u32 list option \<Rightarrow> u32 list option) \<Rightarrow> team_asset \<Rightarrow> team_asset) \<Rightarrow> team_asset \<Rightarrow> team_asset" where
  "implement_merge d source kitList idCollection classIdCollection t =
    (if source = [] then t
     else case MergeKits d (removeDuplicates_kits source) of (kits, ids, classes) \<Rightarrow>
       classIdCollection (\<lambda>_. Some classes) (idCollection (\<lambda>_. Some ids) (kitList (\<lambda>_. Some kits) t)))"

definition implement_merge_ap :: "asset_domain \<Rightarrow> import_ref list \<Rightarrow>
    ((nat option list option \<Rightarrow> nat option list option) \<Rightarrow> team_asset \<Rightarrow> team_asset) \<Rightarrow> team_asset \<Rightarrow> team_asset" where
  "implement_merge_ap d source kitList t =
    (if source = [] then t else kitList (\<lambda>_. Some (map (findDataContainer d) (removeDuplicates_refs source))) t)"

text \<open>The identifiers a reader of a duplicated asset takes over.\<close>

definition WSTeamData_PreModify :: "team_merge \<Rightarrow> guid \<times> guid \<Rightarrow> guid \<times> guid" where
  "WSTeamData_PreModify data reader = (if \<not> ws_isAdded data then reader else (ws_partitionGuid data, ws_rootInstanceGuid data))"

definition WSTeamData_Modify :: "asset_domain \<Rightarrow> team_merge \<Rightarrow> team_asset \<Rightarrow> team_asset" where
  "WSTeamData_Modify d data t =
    (let t = (if ws_isAdded data then t\<lparr>td_WSFaction := findDataContainer d (ws_wsFaction data), td_WSPlanetId := ws_wsPlanetId data\<rparr> else t);
         t = implement_merge d (ws_soldiers data) td_Soldiers_update td_SoldierIdCollection_update td_TrooperClassIdCollection_update t;
         t = implement_merge_ap d (ws_apSoldiers data) td_AutoPlayerSoldiers_update t;
         t = implement_merge d (ws_specialSoldiers data) td_SpecialSoldiers_update td_SpecialSoldiersIdCollection_update td_SpecialClassIdCollection_update t;
         t = implement_merge_ap d (ws_apSpecialSoldiers data) td_AutoPlayerSpecialSoldiers_update t;
         t = implement_merge d (ws_heroes data) td_Heroes_update td_HeroIdCollection_update td_HeroClassIdCollection_update t;
         t = implement_merge_ap d (ws_apHeroes data) td_AutoPlayerHeroes_update t;
         t = implement_merge d (ws_vehicles data) td_Vehicles_update td_VehicleIdCollection_update td_VehicleClassIdCollection_update t;
         t = implement_merge_ap d (ws_apVehicles data) td_AutoPlayerVehicles_update t;
         t = implement_merge d (ws_heroVehicles data) td_HeroVehicles_update td_HeroVehicleIdCollection_update td_HeroVehicleClassIdCollection_update t;
         t = implement_merge_ap d (ws_apHeroVehicles data) td_AutoPlayerHeroVehicles_update t
     in if ws_allPlayerAbilities data = [] then t
        else t\<lparr>td_AllPlayerAbilities := map (findDataContainer d) (ws_allPlayerAbilities data)\<rparr>)"

section \<open>Loading encoded data\<close>

definition ref_ok :: "import_ref \<Rightarrow> bool" where
  "ref_ok r \<longleftrightarrow> guid_ok (partitionGuid r) \<and> guid_ok (instanceGuid r)"

definition iref_enc :: "import_ref \<Rightarrow> bytes" where
  "iref_enc r = ToFrostyLE (instanceGuid r) @ ToFrostyLE (partitionGuid r)"

definition ref2_enc :: "import_ref \<Rightarrow> bytes" where
  "ref2_enc r = ToFrostyLE (partitionGuid r) @ ToFrostyLE (instanceGuid r)"

definition list_enc :: "('a \<Rightarrow> bytes) \<Rightarrow> 'a list \<Rightarrow> bytes" where
  "list_enc enc xs = bytes32 (word_of_nat (length xs)) @ concat (map enc xs)"

lemma decodes_guid: "guid_ok g \<Longrightarrow> decodes (\<lambda>b. Inr (FromFrostyLE_buf b)) g (ToFrostyLE g)"
  by (simp add: decodes_def guid_le.dec_enc)

lemmas guid_step = decodes_then [OF decodes_guid]

lemma decodes_parseReference [decodes_rules]: "ref_ok r \<Longrightarrow> decodes parseReference r (iref_enc r)"
  unfolding parseReference_def iref_enc_def
  by (rule guid_step, simp add: ref_ok_def, rule decodes_last [OF decodes_guid]) (simp_all add: ref_ok_def)

lemma decodes_parseReference2 [decodes_rules]: "ref_ok r \<Longrightarrow> decodes parseReference2 r (ref2_enc r)"
  unfolding parseReference2_def ref2_enc_def
  by (rule guid_step, simp add: ref_ok_def, rule decodes_last [OF decodes_guid]) (simp_all add: ref_ok_def)

lemma decodes_read_list:
  assumes "list_all (\<lambda>x. decodes dec x (enc x)) xs" "length xs < 2 ^ 31"
  shows "decodes (read_list dec) xs (list_enc enc xs)"
  unfolding read_list_def list_enc_def
  using assms by (intro int_step decodes_read_n) (simp_all add: sint_small)

lemma decodes_reserve_list:
  assumes "list_all (\<lambda>x. decodes dec x (enc x)) xs" "length xs < 2 ^ 31"
  shows "decodes (reserve_list dec) xs (list_enc enc xs)"
proof -
  have "\<not> sint (word_of_nat (length xs) :: u32) < 0" "nat (sint (word_of_nat (length xs) :: u32)) = length xs"
    using assms(2) by (simp_all add: sint_small)
  then show ?thesis
    unfolding reserve_list_def list_enc_def by (intro int_step) (simp only: if_False, rule decodes_read_n, use assms in simp_all)
qed

text \<open>The data of a mod for a handler: a name and what the handler reads.\<close>

lemma handler_file:
  assumes "NUL \<notin> set name" "length name + 1 + length xs < 2 ^ 32"
  shows "getNullTerminatedString (bb_of_array (str_bytes name @ 0 # xs)) = Inr (name, advance (Suc (length name)) (bb_of_array (str_bytes name @ 0 # xs)))"
    "at_read (advance (Suc (length name)) (bb_of_array (str_bytes name @ 0 # xs))) xs"
    "length (buf (advance (Suc (length name)) (bb_of_array (str_bytes name @ 0 # xs)))) =
      rpos (advance (Suc (length name)) (bb_of_array (str_bytes name @ 0 # xs))) + length xs"
proof -
  let ?b = "bb_of_array (str_bytes name @ 0 # xs)"
  have "at_read ?b ((str_bytes name @ [0]) @ xs)" using assms(2) at_read_bb_of_array [of "str_bytes name @ 0 # xs"] by simp
  then have at: "at_read ?b (str_bytes name @ [0])" "at_read (advance (length (str_bytes name @ [0])) ?b) xs"
    by (simp_all only: at_read_append)
  show "getNullTerminatedString ?b = Inr (name, advance (Suc (length name)) ?b)" by (rule getNullTerminatedString_at [OF at(1) assms(1)])
  show "at_read (advance (Suc (length name)) ?b) xs" using at(2) by simp
  show "length (buf (advance (Suc (length name)) ?b)) = rpos (advance (Suc (length name)) ?b) + length xs" using assms(2) by simp
qed

text \<open>A handler whose data is a list and whose \<^verbatim>\<open>Load\<close> adds the values of a mod behind those of the mods before.\<close>

locale list_handler =
  fixes load :: "'v list \<Rightarrow> byte_buffer \<Rightarrow> ('v list \<times> byte_buffer) result"
    and enc :: "'v list \<Rightarrow> bytes"
    and ok :: "'v list \<Rightarrow> bool"
  assumes load_enc: "ok vs \<Longrightarrow> at_read b (enc vs) \<Longrightarrow> \<exists>b'. load acc b = Inr (acc @ vs, b')"
begin

lemma load_all_enc:
  assumes "NUL \<notin> set name" "list_all ok vss" "list_all (\<lambda>vs. length name + length (enc vs) + 1 < 2 ^ 32) vss"
  shows "load_all load (map (\<lambda>vs. str_bytes name @ 0 # enc vs) vss) acc = Inr (acc @ concat vss)"
  using assms(2,3)
proof (induction vss arbitrary: acc)
  case (Cons vs vss)
  then have "length name + 1 + length (enc vs) < 2 ^ 32" by simp
  note fl = handler_file [OF assms(1) this]
  show ?case using fl(1) load_enc [OF _ fl(2), of acc] Cons by auto
qed simp

end

lemma list_handlerI:
  assumes "\<And>vs. ok vs \<Longrightarrow> decodes dec vs (enc vs)"
  shows "list_handler (\<lambda>acc. then_read dec (\<lambda>vs. give (acc @ vs))) enc ok"
  using assms by unfold_locales (simp add: decodes_def then_read_def give_def)

definition irefs_ok :: "import_ref list \<Rightarrow> bool" where
  "irefs_ok rs \<longleftrightarrow> list_all ref_ok rs \<and> length rs < 2 ^ 31"

lemma decodes_ref_list: "irefs_ok rs \<Longrightarrow> decodes (read_list parseReference) rs (list_enc iref_enc rs)"
  by (intro decodes_read_list) (auto simp: irefs_ok_def list_all_iff decodes_parseReference)

interpretation network_registry: list_handler NetworkRegistry_Load "list_enc iref_enc" irefs_ok
  unfolding NetworkRegistry_Load_def by (rule list_handlerI) (rule decodes_ref_list)

interpretation ui_meta_data: list_handler UIMetaData_Load "list_enc iref_enc" irefs_ok
  unfolding UIMetaData_Load_def by (rule list_handlerI) (rule decodes_ref_list)

interpretation profile_options: list_handler ProfileOptions_Load "list_enc iref_enc" irefs_ok
  unfolding ProfileOptions_Load_def by (rule list_handlerI) (rule decodes_ref_list)

definition texture_enc :: "texture_data \<Rightarrow> bytes" where
  "texture_enc t = iref_enc (tx_value t) @ str_bytes (tx_parameterName t) @ [0]"

definition texture_ok :: "texture_data \<Rightarrow> bool" where
  "texture_ok t \<longleftrightarrow> ref_ok (tx_value t) \<and> NUL \<notin> set (tx_parameterName t)"

definition material_enc :: "material_data \<Rightarrow> bytes" where
  "material_enc m = iref_enc (mt_material m) @ iref_enc (mt_materialVariation m) @ bytes64 (mt_materialId m) @
    ToFrostyLE (mt_surfaceShaderGuid m) @ bytes32 (mt_surfaceShaderId m) @ list_enc texture_enc (mt_textureParameters m)"

definition material_ok :: "material_data \<Rightarrow> bool" where
  "material_ok m \<longleftrightarrow> ref_ok (mt_material m) \<and> ref_ok (mt_materialVariation m) \<and> guid_ok (mt_surfaceShaderGuid m) \<and>
    list_all texture_ok (mt_textureParameters m) \<and> length (mt_textureParameters m) < 2 ^ 31"

definition mesh_entry_enc :: "mesh_entry \<Rightarrow> bytes" where
  "mesh_entry_enc e = iref_enc (me_mesh e) @ bytes32 (me_variationAssetNameHash e) @ list_enc material_enc (me_materials e)"

definition mesh_entry_ok :: "mesh_entry \<Rightarrow> bool" where
  "mesh_entry_ok e \<longleftrightarrow> ref_ok (me_mesh e) \<and> list_all material_ok (me_materials e) \<and> length (me_materials e) < 2 ^ 31"

definition mesh_entries_ok :: "mesh_entry list \<Rightarrow> bool" where
  "mesh_entries_ok es \<longleftrightarrow> list_all mesh_entry_ok es \<and> length es < 2 ^ 31"

lemma decodes_texture: "texture_ok t \<Longrightarrow> decodes read_texture t (texture_enc t)"
  unfolding read_texture_def texture_enc_def
  by (rule decodes_then [OF decodes_parseReference], simp add: texture_ok_def, rule decodes_last [OF decodes_string])
    (simp_all add: texture_ok_def)

lemma decodes_material: "material_ok m \<Longrightarrow> decodes read_material m (material_enc m)"
  unfolding read_material_def material_enc_def
  by (rule decodes_then [OF decodes_parseReference], simp add: material_ok_def,
      rule decodes_then [OF decodes_parseReference], simp add: material_ok_def, rule int_step,
      rule guid_step, simp add: material_ok_def, rule int_step, rule decodes_last [OF decodes_read_list])
    (auto simp: material_ok_def list_all_iff decodes_texture)

lemma decodes_mesh_entry: "mesh_entry_ok e \<Longrightarrow> decodes read_mesh_entry e (mesh_entry_enc e)"
  unfolding read_mesh_entry_def mesh_entry_enc_def
  by (rule decodes_then [OF decodes_parseReference], simp add: mesh_entry_ok_def, rule int_step,
      rule decodes_last [OF decodes_read_list]) (auto simp: mesh_entry_ok_def list_all_iff decodes_material)

interpretation mesh_variation: list_handler MeshVariation_Load "list_enc mesh_entry_enc" mesh_entries_ok
  unfolding MeshVariation_Load_def
  by (rule list_handlerI, rule decodes_read_list) (auto simp: mesh_entries_ok_def list_all_iff decodes_mesh_entry)

section \<open>What the handlers do to the assets\<close>

lemma set_objects_append:
  "set_objects d (length xs) rs (xs @ replicate (length rs) None) = xs @ map (findDataContainer d) rs"
proof (induction rs arbitrary: xs)
  case (Cons r rs)
  have "set_objects d (length (xs @ [findDataContainer d r])) rs ((xs @ [findDataContainer d r]) @ replicate (length rs) None) =
      (xs @ [findDataContainer d r]) @ map (findDataContainer d) rs" by (rule Cons.IH)
  then show ?case by (cases "findDataContainer d r") (simp_all add: list_update_append)
qed simp

lemma set_assets_append:
  "set_assets d (length xs) rs (xs @ replicate (length rs) None) =
    (if list_all (\<lambda>r. findDataContainer d r \<noteq> None) rs
     then Inr (xs @ map (findDataContainer d) rs, map (\<lambda>r. the (findDataContainer d r)) rs) else Inl Null_Deref)"
proof (induction rs arbitrary: xs)
  case (Cons r rs)
  show ?case
  proof (cases "findDataContainer d r")
    case (Some ob)
    then show ?thesis using Cons.IH [of "xs @ [Some ob]"] by (simp add: list_update_append)
  qed simp
qed simp

lemma set_entries_append:
  "set_entries d (length xs) es (xs @ replicate (length es) zero_entry) =
    (xs @ map (real_entry_of d) es, concat (map (\<lambda>e. entry_refs (real_entry_of d e)) es))"
proof (induction es arbitrary: xs)
  case (Cons e es)
  show ?case using Cons.IH [of "xs @ [real_entry_of d e]"] by (simp add: list_update_append)
qed simp

text \<open>The menu data handler dereferences a null pointer when one of the references of a mod cannot be resolved; the network
  registry keeps a null pointer in such a place. Otherwise both add the objects of all references behind the ones that are there.
  The menu data handler asks to be called again, without any change, as long as the array has a null pointer, which the network
  registry replaces by its first object.\<close>

theorem unresolved_reference:
  "NetworkRegistry_Modify d clear refs objects = (True, (if clear then [] else fill_nulls objects) @ map (findDataContainer d) refs) \<and>
   UIMetaData_Modify d refs assets =
    (if None \<in> set assets then Inr (False, assets, [])
     else if list_all (\<lambda>r. findDataContainer d r \<noteq> None) refs
     then Inr (True, assets @ map (findDataContainer d) refs, map (\<lambda>r. the (findDataContainer d r)) refs)
     else Inl Null_Deref)"
  by (simp add: NetworkRegistry_Modify_def UIMetaData_Modify_def fb_extend_def set_objects_append set_assets_append)

text \<open>What a reference refers to: the instance of that identifier in the partition, which is the one of the domain with its imports or else one the
  loader has kept for the domain. The zero identifier refers to nothing.\<close>

inductive refers :: "asset_domain \<Rightarrow> import_ref \<Rightarrow> nat \<Rightarrow> bool" for d r where
  in_domain: "\<lbrakk>\<not> Guid_IsZero (partitionGuid r); ad_findPartition d (partitionGuid r) = Some p; ad_findInstance d p (instanceGuid r) = Some ob\<rbrakk> \<Longrightarrow>
    refers d r ob"
| kept: "\<lbrakk>\<not> Guid_IsZero (partitionGuid r); ad_findPartition d (partitionGuid r) = None; map_of (ad_loadedPartitions d) (partitionGuid r) = Some p;
    ad_findInstance d p (instanceGuid r) = Some ob\<rbrakk> \<Longrightarrow> refers d r ob"

definition points_to :: "asset_domain \<Rightarrow> import_ref \<Rightarrow> nat option \<Rightarrow> bool" where
  "points_to d r pointer \<longleftrightarrow> (\<forall>ob. pointer = Some ob \<longleftrightarrow> refers d r ob)"

lemma findDataContainer_points: "points_to d r (findDataContainer d r)"
  by (auto simp: points_to_def findDataContainer_def refers.simps split: option.splits)

text \<open>The entry of the game that a mod's entry describes, field by field.\<close>

definition texture_for :: "asset_domain \<Rightarrow> texture_data \<Rightarrow> real_texture \<Rightarrow> bool" where
  "texture_for d t x \<longleftrightarrow> points_to d (tx_value t) (rx_Value x) \<and> rx_ParameterName x = tx_parameterName t"

definition material_for :: "asset_domain \<Rightarrow> material_data \<Rightarrow> real_material \<Rightarrow> bool" where
  "material_for d m x \<longleftrightarrow> points_to d (mt_material m) (rm_Material x) \<and> points_to d (mt_materialVariation m) (rm_MaterialVariation x) \<and>
    rm_MaterialId x = mt_materialId m \<and> rm_SurfaceShaderGuid x = mt_surfaceShaderGuid m \<and> rm_SurfaceShaderId x = mt_surfaceShaderId m \<and>
    list_all2 (texture_for d) (mt_textureParameters m) (rm_TextureParameters x)"

definition entry_for :: "asset_domain \<Rightarrow> mesh_entry \<Rightarrow> real_entry \<Rightarrow> bool" where
  "entry_for d e x \<longleftrightarrow> points_to d (me_mesh e) (re_Mesh x) \<and> re_VariationAssetNameHash x = me_variationAssetNameHash e \<and>
    list_all2 (material_for d) (me_materials e) (re_Materials x)"

text \<open>How often an entry uses an object as its mesh, as a material or as a texture.\<close>

definition material_uses :: "nat \<Rightarrow> real_material \<Rightarrow> nat" where
  "material_uses ob m = (if rm_Material m = Some ob then 1 else 0) + length (filter (\<lambda>t. rx_Value t = Some ob) (rm_TextureParameters m))"

definition entry_uses :: "nat \<Rightarrow> real_entry \<Rightarrow> nat" where
  "entry_uses ob e = (if re_Mesh e = Some ob then 1 else 0) + sum_list (map (material_uses ob) (re_Materials e))"

lemma real_entry_for: "entry_for d e (real_entry_of d e)"
  by (simp add: entry_for_def material_for_def texture_for_def real_entry_of_def real_material_of_def real_texture_of_def findDataContainer_points
      list_all2_map2 list.rel_refl)

lemma count_the_filter: "count_list (map the (filter (\<lambda>p. p \<noteq> None) ps)) x = count_list ps (Some x)"
  by (induction ps) auto

lemma count_list_concat: "count_list (concat xss) x = sum_list (map (\<lambda>xs. count_list xs x) xss)"
  by (induction xss) auto

lemma count_list_map: "count_list (map f xs) y = length (filter (\<lambda>x. f x = y) xs)"
  by (induction xs) auto

lemma entry_refs_count: "count_list (entry_refs e) ob = entry_uses ob e"
proof -
  have material: "count_list (rm_Material m # map rx_Value (rm_TextureParameters m)) (Some ob) = material_uses ob m" for m
    by (simp add: material_uses_def count_list_map)
  show ?thesis
    unfolding entry_refs_def count_the_filter
    by (simp add: count_list_concat comp_def entry_uses_def material [simplified])
qed

text \<open>C34: the mesh variations of all mods are added to the database behind its own, in the order of the mods, field by field; an asset
  that a mod duplicated loses its own entries first. A reference becomes a pointer to the object it refers to, or a null pointer if
  there is none. Every object gets one reference for each of the added entries' uses of it as the mesh, as a material or as a texture,
  and none for its uses as a material variation, which are stored all the same.\<close>

theorem mesh_variations_added:
  assumes "NUL \<notin> set name" "list_all mesh_entries_ok vss"
    "list_all (\<lambda>vs. length name + length (list_enc mesh_entry_enc vs) + 1 < 2 ^ 32) vss"
  shows "\<exists>values added refs. load_all MeshVariation_Load (map (\<lambda>vs. str_bytes name @ 0 # list_enc mesh_entry_enc vs) vss) [] = Inr values \<and>
    MeshVariation_Modify d clear values db =
      (True, \<lparr>mv_Entries = (if clear then [] else mv_Entries db) @ added, mv_RedirectEntries = (if clear then [] else mv_RedirectEntries db)\<rparr>, refs) \<and>
    list_all2 (entry_for d) (concat vss) added \<and> (\<forall>ob. count_list refs ob = sum_list (map (entry_uses ob) added))"
proof -
  let ?added = "map (real_entry_of d) (concat vss)" and ?refs = "concat (map (\<lambda>e. entry_refs (real_entry_of d e)) (concat vss))"
  have "list_all2 (entry_for d) (concat vss) ?added" by (simp add: list_all2_map2 list.rel_refl real_entry_for)
  moreover have "count_list ?refs ob = sum_list (map (entry_uses ob) ?added)" for ob
    by (simp only: count_list_concat entry_refs_count map_map comp_def)
  moreover have "load_all MeshVariation_Load (map (\<lambda>vs. str_bytes name @ 0 # list_enc mesh_entry_enc vs) vss) [] = Inr (concat vss)"
    using mesh_variation.load_all_enc [OF assms, of "[]"] by simp
  moreover have "MeshVariation_Modify d clear (concat vss) db = (True, \<lparr>mv_Entries = (if clear then [] else mv_Entries db) @ ?added,
      mv_RedirectEntries = (if clear then [] else mv_RedirectEntries db)\<rparr>, ?refs)"
    by (simp add: MeshVariation_Modify_def fb_extend_def set_entries_append)
  ultimately show ?thesis by blast
qed

definition sample_ref :: import_ref where
  "sample_ref = \<lparr>partitionGuid = replicate 16 1, instanceGuid = replicate 16 2\<rparr>"

definition sample_entry :: "u32 \<Rightarrow> mesh_entry" where
  "sample_entry h = \<lparr>me_mesh = sample_ref, me_materials = [\<lparr>mt_material = sample_ref, mt_materialVariation = sample_ref, mt_materialId = 5,
    mt_textureParameters = [\<lparr>tx_value = sample_ref, tx_parameterName = ''t''\<rparr>], mt_surfaceShaderGuid = guid_zero, mt_surfaceShaderId = 6\<rparr>],
    me_variationAssetNameHash = h\<rparr>"

definition sample_domain :: asset_domain where
  "sample_domain = \<lparr>ad_findPartition = (\<lambda>_. None), ad_loadedPartitions = [(replicate 16 1, 3)], ad_findInstance = (\<lambda>p g. Some (p + 4))\<rparr>"

lemma sample_ref_ok: "ref_ok sample_ref" "length (iref_enc sample_ref) = 32" "length (ref2_enc sample_ref) = 32"
  by (simp_all add: ref_ok_def guid_ok_def sample_ref_def iref_enc_def ref2_enc_def ToFrostyLE_def)

lemma find_sample_ref: "findDataContainer sample_domain sample_ref = Some 7"
  by (simp add: findDataContainer_def sample_domain_def sample_ref_def Guid_IsZero_def all_zero_iff)

theorem mesh_variations_added_witness:
  "\<exists>values added refs. load_all MeshVariation_Load (map (\<lambda>vs. str_bytes ''m'' @ 0 # list_enc mesh_entry_enc vs) [[sample_entry 1], [sample_entry 2]]) [] = Inr values \<and>
    MeshVariation_Modify sample_domain True values \<lparr>mv_Entries = [zero_entry], mv_RedirectEntries = [1]\<rparr> =
      (True, \<lparr>mv_Entries = added, mv_RedirectEntries = []\<rparr>, refs) \<and> list_all2 (entry_for sample_domain) [sample_entry 1, sample_entry 2] added"
proof -
  have ok: "mesh_entries_ok [sample_entry h]" for h
    by (simp add: mesh_entries_ok_def mesh_entry_ok_def material_ok_def texture_ok_def sample_entry_def sample_ref_ok guid_ok_def guid_zero_def NUL_def)
  have len: "length (list_enc mesh_entry_enc [sample_entry h]) < 1000" for h
    by (simp add: list_enc_def mesh_entry_enc_def material_enc_def texture_enc_def sample_entry_def sample_ref_ok ToFrostyLE_def guid_zero_def)
  show ?thesis
    using mesh_variations_added [of "''m''" "[[sample_entry 1], [sample_entry 2]]" sample_domain True "\<lparr>mv_Entries = [zero_entry], mv_RedirectEntries = [1]\<rparr>"]
      ok [of 1] ok [of 2] len [of 1] len [of 2]
    by (fastforce simp: NUL_def)
qed

lemma dedup_remdups: "distinct unique \<Longrightarrow> dedup (=) unique xs = rev (remdups (rev (unique @ xs)))"
proof (induction xs arbitrary: unique)
  case (Cons x xs)
  show ?case
  proof (cases "x \<in> set unique")
    case True
    then have "remdups (rev xs @ x # rev unique) = remdups (rev xs @ rev unique)"
      using remdups_append2 [of "rev xs" "x # rev unique"] remdups_append2 [of "rev xs" "rev unique"] by simp
    then show ?thesis using True Cons by (simp add: list_ex_iff)
  next
    case False
    then show ?thesis using Cons.IH [of "unique @ [x]"] Cons.prems by (simp add: list_ex_iff)
  qed
qed (simp add: distinct_remdups_id)

lemma dedup_cong:
  "(\<And>y x. y \<in> set unique \<union> set xs \<Longrightarrow> x \<in> set xs \<Longrightarrow> same y x \<longleftrightarrow> y = x) \<Longrightarrow> dedup same unique xs = dedup (=) unique xs"
proof (induction xs arbitrary: unique)
  case (Cons x xs)
  have "list_ex (\<lambda>y. same y x) unique \<longleftrightarrow> list_ex (\<lambda>y. y = x) unique" using Cons.prems by (auto simp: list_ex_iff)
  moreover have "dedup same (unique @ [x]) xs = dedup (=) (unique @ [x]) xs" "dedup same unique xs = dedup (=) unique xs"
    using Cons.prems by (intro Cons.IH; auto)+
  ultimately show ?case by (simp add: list_ex_iff)
qed simp

definition kit_ok :: "team_kit \<Rightarrow> bool" where
  "kit_ok k \<longleftrightarrow> ref_ok (tk_kitRef k)"

lemma same_ref_iff: "ref_ok a \<Longrightarrow> ref_ok b \<Longrightarrow> same_ref a b \<longleftrightarrow> a = b"
  by (cases a; cases b) (auto simp: same_ref_def ref_ok_def Guid_Equals_iff)

lemma same_kit_iff: "kit_ok a \<Longrightarrow> kit_ok b \<Longrightarrow> same_kit a b \<longleftrightarrow> a = b"
  by (cases a; cases b) (auto simp: same_kit_def kit_ok_def same_ref_iff)

text \<open>C35: \<open>removeDuplicates\<close> keeps the first of equal kits and references, in their order. The lists of a team that are built from
  its result fit together: the kit and the character at the same place come from the same entry, and every class is listed
  once.\<close>

theorem removeDuplicates_stable:
  assumes "list_all kit_ok kits" "list_all ref_ok refs"
  shows "removeDuplicates_kits kits = rev (remdups (rev kits)) \<and> removeDuplicates_refs refs = rev (remdups (rev refs)) \<and>
    MergeKits d (removeDuplicates_kits kits) =
      (map (\<lambda>k. findDataContainer d (tk_kitRef k)) (rev (remdups (rev kits))),
       map (\<lambda>k. (tk_classIdentifier k, tk_gpIdentifier k)) (rev (remdups (rev kits))),
       rev (remdups (map tk_classIdentifier (rev kits))))"
proof -
  have k: "removeDuplicates_kits kits = rev (remdups (rev kits))"
    using assms(1) unfolding removeDuplicates_kits_def
    by (subst dedup_cong) (auto simp: list_all_iff same_kit_iff dedup_remdups)
  have "removeDuplicates_refs refs = rev (remdups (rev refs))"
    using assms(2) unfolding removeDuplicates_refs_def
    by (subst dedup_cong) (auto simp: list_all_iff same_ref_iff dedup_remdups)
  moreover have "logged_classes (rev (remdups (rev kits))) = rev (remdups (map tk_classIdentifier (rev kits)))"
    by (simp add: logged_classes_def dedup_remdups rev_map remdups_map_remdups)
  ultimately show ?thesis using k by (simp add: MergeKits_def)
qed


section \<open>Loading teams\<close>

definition kit1_enc :: "team_kit \<Rightarrow> bytes" where
  "kit1_enc k = iref_enc (tk_kitRef k) @ bytes32 (tk_classIdentifier k) @ bytes32 (tk_gpIdentifier k)"

definition kit2_enc :: "team_kit \<Rightarrow> bytes" where
  "kit2_enc k = ref2_enc (tk_kitRef k) @ bytes32 (tk_classIdentifier k) @ bytes32 (tk_gpIdentifier k) @ [0]"

definition kits_ok :: "team_kit list \<Rightarrow> bool" where
  "kits_ok ks \<longleftrightarrow> list_all kit_ok ks \<and> length ks < 2 ^ 31"

definition team_ok :: "team_merge \<Rightarrow> bool" where
  "team_ok m \<longleftrightarrow> ref_ok (ws_wsFaction m) \<and> guid_ok (ws_partitionGuid m) \<and> guid_ok (ws_rootInstanceGuid m) \<and>
    list_all kits_ok [ws_soldiers m, ws_specialSoldiers m, ws_heroes m, ws_vehicles m, ws_heroVehicles m] \<and>
    list_all irefs_ok [ws_apSoldiers m, ws_apSpecialSoldiers m, ws_apHeroes m, ws_apVehicles m, ws_apHeroVehicles m, ws_allPlayerAbilities m]"

definition legacy_enc :: "team_merge \<Rightarrow> bytes" where
  "legacy_enc m = ref2_enc (ws_wsFaction m) @
    list_enc kit1_enc (ws_soldiers m) @ list_enc iref_enc (ws_apSoldiers m) @
    list_enc kit1_enc (ws_specialSoldiers m) @ list_enc iref_enc (ws_apSpecialSoldiers m) @
    list_enc kit1_enc (ws_heroes m) @ list_enc iref_enc (ws_apHeroes m) @
    list_enc kit1_enc (ws_vehicles m) @ list_enc iref_enc (ws_apVehicles m) @
    list_enc kit1_enc (ws_heroVehicles m) @ list_enc iref_enc (ws_apHeroVehicles m)"

definition lists_enc :: "team_merge \<Rightarrow> bytes" where
  "lists_enc m = list_enc kit2_enc (ws_soldiers m) @ list_enc ref2_enc (ws_apSoldiers m) @
    list_enc kit2_enc (ws_heroes m) @ list_enc ref2_enc (ws_apHeroes m) @
    list_enc kit2_enc (ws_specialSoldiers m) @ list_enc ref2_enc (ws_apSpecialSoldiers m) @
    list_enc kit2_enc (ws_vehicles m) @ list_enc ref2_enc (ws_apVehicles m) @
    list_enc kit2_enc (ws_heroVehicles m) @ list_enc ref2_enc (ws_apHeroVehicles m)"

text \<open>The part a newer mod has behind the old format, for a team that the mod changes or adds.\<close>

definition version_enc :: "team_merge \<Rightarrow> bytes" where
  "version_enc m = [if ws_isAdded m then 1 else 0] @
    (if ws_isAdded m then ToFrostyLE (ws_partitionGuid m) @ ToFrostyLE (ws_rootInstanceGuid m) @ bytes32 (ws_internalId m) else []) @
    bytes32 (ws_wsPlanetId m) @ lists_enc m @ (if ws_isAdded m then list_enc ref2_enc (ws_allPlayerAbilities m) else [])"

definition magic_enc :: bytes where
  "magic_enc = (str_bytes ''MopMagicMopMagic'' @ [0]) @ bytes32 3"

definition with_legacy :: "team_merge \<Rightarrow> team_merge \<Rightarrow> team_merge" where
  "with_legacy m data = data\<lparr>ws_wsFaction := ws_wsFaction m,
    ws_soldiers := ws_soldiers data @ ws_soldiers m, ws_apSoldiers := ws_apSoldiers data @ ws_apSoldiers m,
    ws_specialSoldiers := ws_specialSoldiers data @ ws_specialSoldiers m, ws_apSpecialSoldiers := ws_apSpecialSoldiers data @ ws_apSpecialSoldiers m,
    ws_heroes := ws_heroes data @ ws_heroes m, ws_apHeroes := ws_apHeroes data @ ws_apHeroes m,
    ws_vehicles := ws_vehicles data @ ws_vehicles m, ws_apVehicles := ws_apVehicles data @ ws_apVehicles m,
    ws_heroVehicles := ws_heroVehicles data @ ws_heroVehicles m, ws_apHeroVehicles := ws_apHeroVehicles data @ ws_apHeroVehicles m\<rparr>"

definition with_lists :: "team_merge \<Rightarrow> team_merge \<Rightarrow> team_merge" where
  "with_lists m data = data\<lparr>ws_soldiers := ws_soldiers m, ws_apSoldiers := ws_apSoldiers m,
    ws_specialSoldiers := ws_specialSoldiers m, ws_apSpecialSoldiers := ws_apSpecialSoldiers m, ws_heroes := ws_heroes m, ws_apHeroes := ws_apHeroes m,
    ws_vehicles := ws_vehicles m, ws_apVehicles := ws_apVehicles m, ws_heroVehicles := ws_heroVehicles m, ws_apHeroVehicles := ws_apHeroVehicles m\<rparr>"

definition with_version :: "team_merge \<Rightarrow> team_merge \<Rightarrow> team_merge" where
  "with_version m data =
    (let data = with_lists m (data\<lparr>ws_isAdded := ws_isAdded m, ws_wsPlanetId := ws_wsPlanetId m\<rparr>)
     in if ws_isAdded m then data\<lparr>ws_partitionGuid := ws_partitionGuid m, ws_rootInstanceGuid := ws_rootInstanceGuid m,
          ws_internalId := ws_internalId m, ws_allPlayerAbilities := ws_allPlayerAbilities m\<rparr> else data)"

lemma with_lists_soldiers: "ws_soldiers (with_lists m data) = ws_soldiers m"
  by (simp add: with_lists_def)

lemma decodes_byte: "decodes (\<lambda>b. Inr (bb_get b)) x [x]"
  by (simp add: decodes_def bb_get_at)

lemma decodes_legacy_kit: "kit_ok k \<Longrightarrow> decodes legacy_kit k (kit1_enc k)"
  unfolding legacy_kit_def kit1_enc_def
  by (rule decodes_then [OF decodes_parseReference], simp add: kit_ok_def, rule int_step, rule decodes_last [OF decodes_ints(2)]) simp

lemma decodes_kit: "kit_ok k \<Longrightarrow> decodes read_kit k (kit2_enc k)"
  unfolding read_kit_def kit2_enc_def
  by (rule decodes_then [OF decodes_parseReference2], simp add: kit_ok_def, (rule int_step)+, rule decodes_last [OF decodes_byte]) simp

lemma decodes_legacy_section:
  "list_all (\<lambda>x. decodes dec x (enc x)) xs \<Longrightarrow> length xs < 2 ^ 31 \<Longrightarrow>
    decodes (legacy_section dec upd data) (upd (\<lambda>ys. ys @ xs) data) (list_enc enc xs)"
  unfolding legacy_section_def by (rule decodes_last [OF decodes_reserve_list]) simp_all

lemma decodes_legacy_kits: "kits_ok ks \<Longrightarrow> decodes (legacy_section legacy_kit upd data) (upd (\<lambda>ys. ys @ ks) data) (list_enc kit1_enc ks)"
  by (rule decodes_legacy_section) (auto simp: kits_ok_def list_all_iff decodes_legacy_kit)

lemma decodes_legacy_refs: "irefs_ok rs \<Longrightarrow> decodes (legacy_section parseReference upd data) (upd (\<lambda>ys. ys @ rs) data) (list_enc iref_enc rs)"
  by (rule decodes_legacy_section) (auto simp: irefs_ok_def list_all_iff decodes_parseReference)

lemma decodes_kits: "kits_ok ks \<Longrightarrow> decodes ReadTeamDataKitReferences ks (list_enc kit2_enc ks)"
  unfolding ReadTeamDataKitReferences_def by (rule decodes_reserve_list) (auto simp: kits_ok_def list_all_iff decodes_kit)

lemma decodes_pointers: "irefs_ok rs \<Longrightarrow> decodes ReadPointerRefs rs (list_enc ref2_enc rs)"
  unfolding ReadPointerRefs_def by (rule decodes_reserve_list) (auto simp: irefs_ok_def list_all_iff decodes_parseReference2)

lemma decodes_value: "decodes dec x xs \<Longrightarrow> x = y \<Longrightarrow> decodes dec y xs"
  by simp

lemma team_okD:
  assumes "team_ok m"
  shows "kits_ok (ws_soldiers m)" "kits_ok (ws_specialSoldiers m)" "kits_ok (ws_heroes m)" "kits_ok (ws_vehicles m)" "kits_ok (ws_heroVehicles m)"
    "irefs_ok (ws_apSoldiers m)" "irefs_ok (ws_apSpecialSoldiers m)" "irefs_ok (ws_apHeroes m)" "irefs_ok (ws_apVehicles m)"
    "irefs_ok (ws_apHeroVehicles m)" "irefs_ok (ws_allPlayerAbilities m)" "ref_ok (ws_wsFaction m)" "guid_ok (ws_partitionGuid m)"
    "guid_ok (ws_rootInstanceGuid m)"
  using assms by (simp_all add: team_ok_def)

lemma decodes_legacy_lists:
  assumes "team_ok m"
  shows "decodes (legacy_lists data) (with_legacy m data) (legacy_enc m)"
  unfolding legacy_lists_def legacy_enc_def
  by (rule decodes_value, (rule decodes_then, rule decodes_parseReference2 decodes_legacy_kits decodes_legacy_refs, rule team_okD [OF assms])+,
      rule decodes_legacy_refs, rule team_okD [OF assms]) (simp add: with_legacy_def)

lemma decodes_lists:
  assumes "team_ok m"
  shows "decodes (read_lists data) (with_lists m data) (lists_enc m)"
  unfolding read_lists_def lists_enc_def
  by (rule decodes_value, ((rule decodes_then, rule decodes_kits decodes_pointers, rule team_okD [OF assms])+)?,
      rule decodes_last, rule decodes_pointers, rule team_okD [OF assms], rule refl) (simp add: with_lists_def)

lemma decodes_added:
  assumes "team_ok m"
  shows "decodes (read_added data) (data\<lparr>ws_partitionGuid := ws_partitionGuid m, ws_rootInstanceGuid := ws_rootInstanceGuid m,
    ws_internalId := ws_internalId m\<rparr>) (ToFrostyLE (ws_partitionGuid m) @ ToFrostyLE (ws_rootInstanceGuid m) @ bytes32 (ws_internalId m))"
  unfolding read_added_def
  by (rule guid_step, rule team_okD [OF assms], rule guid_step, rule team_okD [OF assms], rule decodes_last [OF decodes_ints(2)]) simp

text \<open>What follows the identifiers of an added team.\<close>

lemma decodes_version_rest:
  assumes "team_ok m" "ws_isAdded data = ws_isAdded m"
  shows "decodes (then_read (\<lambda>b. Inr (getInt b)) (\<lambda>planet. then_read (read_lists (data\<lparr>ws_wsPlanetId := planet\<rparr>)) (\<lambda>data.
      if ws_isAdded data then then_read ReadPointerRefs (\<lambda>abilities. give (data\<lparr>ws_allPlayerAbilities := abilities\<rparr>)) else give data)))
    (let d = with_lists m (data\<lparr>ws_wsPlanetId := ws_wsPlanetId m\<rparr>)
     in if ws_isAdded m then d\<lparr>ws_allPlayerAbilities := ws_allPlayerAbilities m\<rparr> else d)
    (bytes32 (ws_wsPlanetId m) @ lists_enc m @ (if ws_isAdded m then list_enc ref2_enc (ws_allPlayerAbilities m) else []))"
proof (rule int_step, rule decodes_then, rule decodes_lists [OF assms(1)])
  let ?d = "with_lists m (data\<lparr>ws_wsPlanetId := ws_wsPlanetId m\<rparr>)"
  have added: "ws_isAdded ?d = ws_isAdded m" using assms(2) by (simp add: with_lists_def)
  have "decodes (then_read ReadPointerRefs (\<lambda>abilities. give (?d\<lparr>ws_allPlayerAbilities := abilities\<rparr>)))
      (?d\<lparr>ws_allPlayerAbilities := ws_allPlayerAbilities m\<rparr>) (list_enc ref2_enc (ws_allPlayerAbilities m))"
    by (rule decodes_last [OF decodes_pointers]) (simp_all add: team_okD [OF assms(1)])
  then show "decodes (if ws_isAdded ?d then then_read ReadPointerRefs (\<lambda>abilities. give (?d\<lparr>ws_allPlayerAbilities := abilities\<rparr>)) else give ?d)
      (let d = ?d in if ws_isAdded m then d\<lparr>ws_allPlayerAbilities := ws_allPlayerAbilities m\<rparr> else d)
      (if ws_isAdded m then list_enc ref2_enc (ws_allPlayerAbilities m) else [])"
    by (simp only: added Let_def decodes_give if_True if_False split: if_split) simp
qed

lemma decodes_version:
  assumes "team_ok m"
  shows "decodes (read_version data) (with_version m data) (version_enc m)"
proof -
  let ?d = "data\<lparr>ws_isAdded := ws_isAdded m\<rparr>"
  let ?d1 = "if ws_isAdded m then ?d\<lparr>ws_partitionGuid := ws_partitionGuid m, ws_rootInstanceGuid := ws_rootInstanceGuid m,
    ws_internalId := ws_internalId m\<rparr> else ?d"
  have 0: "((if ws_isAdded m then 1 else 0 :: u8) = 1) = ws_isAdded m" by simp
  have 1: "decodes (if ws_isAdded ?d then read_added ?d else give ?d) ?d1
      (if ws_isAdded m then ToFrostyLE (ws_partitionGuid m) @ ToFrostyLE (ws_rootInstanceGuid m) @ bytes32 (ws_internalId m) else [])"
    using decodes_added [OF assms, of ?d] decodes_give [of ?d] by (cases "ws_isAdded m") simp_all
  note 2 = decodes_then [OF 1 decodes_version_rest [OF assms]]
  have "ws_isAdded ?d1 = ws_isAdded m" by simp
  then show ?thesis
    unfolding read_version_def version_enc_def Let_def
    by (intro decodes_then [OF decodes_byte]) (simp only: 0, rule decodes_value [OF 2], simp_all add: with_version_def with_lists_def Let_def)
qed

text \<open>A buffer that ends with the bytes that are read next.\<close>

lemma bytesRemaining_at:
  assumes "at_read b xs" "length (buf b) = rpos b + length xs"
  shows "bytesRemaining b = 0 \<longleftrightarrow> xs = []"
proof -
  have small: "length (buf b) < 2 ^ 32" using assms(1) by (simp add: at_read_def)
  have "bytesRemaining b = word_of_nat (length xs)"
    using assms(2) small by (simp add: bytesRemaining_def bb_size_def)
  moreover have "unat (word_of_nat (length xs) :: u32) = length xs" using assms(2) small by (intro unat_small) simp
  ultimately show ?thesis by (auto simp: word_unat_eq_iff)
qed

lemma WSTeamData_Load_enc:
  assumes "team_ok l" "team_ok m" "at_read b (legacy_enc l @ magic_enc @ version_enc m)"
    "length (buf b) = rpos b + length (legacy_enc l @ magic_enc @ version_enc m)"
  shows "\<exists>b'. WSTeamData_Load data b = Inr (with_version m (with_legacy l data), b')"
proof -
  let ?b = "advance (length (legacy_enc l)) b"
  have at: "at_read b (legacy_enc l)" "at_read ?b (magic_enc @ version_enc m)" using assms(3) by (simp_all add: at_read_append)
  have "bytesRemaining ?b \<noteq> 0" using bytesRemaining_at [OF at(2)] assms(4) by (simp add: magic_enc_def)
  then have 1: "LoadLegacy data b = Inr (with_legacy l data, ?b)"
    using decodes_legacy_lists [OF assms(1), of data] at(1) by (simp add: LoadLegacy_def then_read_def decodes_def give_def)
  let ?v = "\<lambda>magic version. if magic \<noteq> ''MopMagicMopMagic'' \<or> sint (version :: u32) > kHandlerVersion then give (with_legacy l data)
      else if version = 2 then give (with_legacy l data) else read_version (with_legacy l data)"
  have 2: "?v ''MopMagicMopMagic'' 3 = read_version (with_legacy l data)" by (simp add: kHandlerVersion_def)
  have "decodes (then_read getNullTerminatedString (\<lambda>magic. then_read (\<lambda>b. Inr (getInt b)) (?v magic)))
      (with_version m (with_legacy l data)) (magic_enc @ version_enc m)"
    unfolding magic_enc_def
    by (subst append_assoc, rule decodes_then, rule decodes_string, simp add: NUL_def, rule int_step, subst 2,
        rule decodes_version [OF assms(2)])
  then show ?thesis using 1 \<open>bytesRemaining ?b \<noteq> 0\<close> at(2) by (simp add: WSTeamData_Load_def then_read_def decodes_def)
qed

lemma WSTeamData_Load_legacy:
  assumes "team_ok l" "at_read b (legacy_enc l)" "length (buf b) = rpos b + length (legacy_enc l)"
  shows "\<exists>b'. WSTeamData_Load data b =
    Inr (with_legacy l data\<lparr>ws_wsFaction := \<lparr>partitionGuid = instanceGuid (ws_wsFaction l), instanceGuid = partitionGuid (ws_wsFaction l)\<rparr>\<rparr>, b')"
proof -
  let ?b = "advance (length (legacy_enc l)) b"
  have "at_read ?b []" using assms(2) at_read_append [of b "legacy_enc l" "[]"] by simp
  then have "bytesRemaining ?b = 0" using bytesRemaining_at [of ?b "[]"] assms(3) by simp
  then show ?thesis
    using decodes_legacy_lists [OF assms(1), of data] assms(2)
    by (simp add: WSTeamData_Load_def LoadLegacy_def then_read_def decodes_def give_def with_legacy_def)
qed

lemma load_all_append:
  "load_all load (xs @ ys) data = (case load_all load xs data of Inl e \<Rightarrow> Inl e | Inr d \<Rightarrow> load_all load ys d)"
  by (induction xs arbitrary: data) (auto split: sum.splits prod.splits)

text \<open>Of the mods that change a team, the last one in the newer format determines all kits: whatever the mods before it loaded, also its
  own section in the old format, is dropped. A mod in the old format adds its kits to those of the mods before it instead.\<close>

theorem team_last_mod_wins:
  assumes "load_all WSTeamData_Load bss data = Inr data'" "team_ok l" "team_ok m" "NUL \<notin> set name"
    "length name + 1 + length (legacy_enc l @ magic_enc @ version_enc m) < 2 ^ 32"
  shows "\<exists>new old. load_all WSTeamData_Load (bss @ [str_bytes name @ 0 # legacy_enc l @ magic_enc @ version_enc m]) data = Inr new \<and>
    with_lists m new = new \<and>
    load_all WSTeamData_Load (bss @ [str_bytes name @ 0 # legacy_enc l]) data = Inr old \<and> ws_soldiers old = ws_soldiers data' @ ws_soldiers l"
proof -
  let ?v = "legacy_enc l @ magic_enc @ version_enc m" and ?n = "Suc (length name)"
  note new = handler_file [OF assms(4), of ?v] and old = handler_file [OF assms(4), of "legacy_enc l"]
  obtain b1 where b1: "WSTeamData_Load data' (advance ?n (bb_of_array (str_bytes name @ 0 # ?v))) = Inr (with_version m (with_legacy l data'), b1)"
    using WSTeamData_Load_enc [OF assms(2,3) new(2,3)] assms(5) by auto
  obtain b2 data2 where b2: "WSTeamData_Load data' (advance ?n (bb_of_array (str_bytes name @ 0 # legacy_enc l))) = Inr (data2, b2)"
      "ws_soldiers data2 = ws_soldiers data' @ ws_soldiers l"
    using WSTeamData_Load_legacy [OF assms(2) old(2,3), of data'] assms(5) by (force simp: with_legacy_def)
  have "with_lists m (with_version m x) = with_version m x" for x by (simp add: with_version_def with_lists_def Let_def)
  then show ?thesis using new(1) old(1) b1 b2 assms(1,5) by (simp add: load_all_append)
qed

definition sample_kit :: "u32 \<Rightarrow> team_kit" where
  "sample_kit g = \<lparr>tk_kitRef = sample_ref, tk_classIdentifier = 1, tk_gpIdentifier = g\<rparr>"

theorem removeDuplicates_stable_witness:
  "removeDuplicates_kits [sample_kit 1, sample_kit 2, sample_kit 1] = [sample_kit 1, sample_kit 2] \<and>
   MergeKits sample_domain (removeDuplicates_kits [sample_kit 1, sample_kit 2, sample_kit 1]) = ([Some 7, Some 7], [(1, 1), (1, 2)], [1])"
  using removeDuplicates_stable [of "[sample_kit 1, sample_kit 2, sample_kit 1]" "[]" sample_domain]
  by (auto simp: kit_ok_def sample_kit_def sample_ref_ok find_sample_ref)

definition sample_team :: "team_kit list \<Rightarrow> team_merge" where
  "sample_team ks = \<lparr>ws_isAdded = False, ws_partitionGuid = guid_zero, ws_rootInstanceGuid = guid_zero, ws_internalId = 0, ws_wsFaction = sample_ref,
    ws_wsPlanetId = 0, ws_soldiers = ks, ws_apSoldiers = [], ws_specialSoldiers = [], ws_apSpecialSoldiers = [], ws_heroes = [], ws_apHeroes = [],
    ws_vehicles = [], ws_apVehicles = [], ws_heroVehicles = [], ws_apHeroVehicles = [], ws_allPlayerAbilities = []\<rparr>"

end
