(* ===== verification/Voip_Chat.thy ===== *)
theory Voip_Chat
  imports Game_Session
begin

text \<open>
  Voice chat (\<^verbatim>\<open>Voip/VoipManager.cpp\<close>, \<^verbatim>\<open>Client::AttemptJoinVoip\<close> in \<^verbatim>\<open>Core/Client.cpp\<close> and the settings in
  \<^verbatim>\<open>RPC/Interface/ClientState.cpp\<close>). The manager keeps what the Vivox library answered and sends it requests; \<open>vm_requests\<close> is the log of
  them, with their cookies. The messages of the library, the answers of the web service and what the game says of the local player
  are arguments. A float or a double is its bit pattern, and the two floating-point computations of the code are parameters.
  A request counts as sent when it is handed to \<^verbatim>\<open>vx_issue_request3\<close>: an error of that call is only logged by the code.

  The threads (game, library, position update, web service, interface) share the manager. \<^verbatim>\<open>m_mutex\<close> is held only for the check of
  the position thread and for the update of the location; everything else runs without it. The session calls are therefore given
  twice: as the function a single thread runs, and split into the pieces between which other threads may run. The two are related by
  \<open>session_calls_split\<close>. All other calls are single steps; the request counter, which the code increments without a lock, is taken to
  be atomic.
\<close>

section \<open>State\<close>

type_synonym f32 = u32
type_synonym vec3 = "f32 \<times> f32 \<times> f32"
type_synonym dvec3 = "u64 \<times> u64 \<times> u64"

datatype voip_request =
    Connector_Create string string string
  | Account_Login string string string string string
  | Get_Capture_Devices string
  | Get_Render_Devices string
  | Add_Session string string string string string
  | Remove_Session string string
  | Set_Capture_Device string string
  | Set_Render_Device string string
  | Mute_Local_Mic bool string
  | Set_Mic_Level f32 string
  | Set_Speaker_Level f32 string
  | Set_3d_Position string vec3 "dvec3 \<times> dvec3" vec3

record participant =
  pa_uri :: string
  pa_isSpeaking :: bool
  pa_audioEnergy :: f32
  pa_isMuted :: bool

record voip_location =
  lo_valid :: bool
  lo_position :: vec3
  lo_camera :: vec3

record voip =
  vm_connectorHandle :: string
  vm_accountHandle :: string
  vm_username :: string
  vm_displayName :: string
  vm_isEnabled :: bool
  vm_isPostLogin :: bool
  vm_pushToTalkEnabled :: bool
  vm_isPushToTalkPressed :: bool
  vm_pushToTalkKey :: u32
  vm_currentChannel :: string
  vm_issuer :: string
  vm_domain :: string
  vm_location :: voip_location
  vm_orientation :: "dvec3 \<times> dvec3"
  vm_captureDevices :: "(string \<times> string) list"
  vm_renderDevices :: "(string \<times> string) list"
  vm_participants :: "(string \<times> participant) list"
  vm_requests :: "(string \<times> voip_request) list"


section \<open>Requests\<close>

text \<open>The identifier of a request is the number of the requests before it.\<close>

definition SendRequest :: "voip_request \<Rightarrow> voip \<Rightarrow> voip" where
  "SendRequest req v = v\<lparr>vm_requests := vm_requests v @ [(dec_digits (length (vm_requests v)), req)]\<rparr>"

definition voip_Connect :: "string \<Rightarrow> voip \<Rightarrow> voip" where
  "voip_Connect loginAccessToken v =
    SendRequest (Connector_Create ''c1'' (''https://unity.vivox.com/appconfig/'' @ vm_issuer v) loginAccessToken) v"

definition voip_Login :: "string \<Rightarrow> voip \<Rightarrow> voip" where
  "voip_Login loginAccessToken v =
    SendRequest (Account_Login (vm_connectorHandle v) (vm_username v) (vm_displayName v) [] loginAccessToken) v"

definition AuxGetCaptureDevices :: "voip \<Rightarrow> voip" where
  "AuxGetCaptureDevices v = SendRequest (Get_Capture_Devices (vm_accountHandle v)) v"

definition AuxGetRenderDevices :: "voip \<Rightarrow> voip" where
  "AuxGetRenderDevices v = SendRequest (Get_Render_Devices (vm_accountHandle v)) v"

text \<open>The callback of \<^verbatim>\<open>RequestLogin\<close>: the answer has a name, a display name, an issuer, a domain and a token.\<close>

definition RequestLogin_answer :: "(string \<times> string \<times> string \<times> string \<times> string) option \<Rightarrow> voip \<Rightarrow> voip" where
  "RequestLogin_answer response v =
    (case response of
       None \<Rightarrow> v
     | Some (username, displayName, issuer, domain, token) \<Rightarrow>
         (voip_Connect token (v\<lparr>vm_username := username, vm_displayName := displayName, vm_issuer := issuer, vm_domain := domain\<rparr>))
           \<lparr>vm_isPostLogin := True\<rparr>)"

definition AddSession :: "string \<Rightarrow> string \<Rightarrow> voip \<Rightarrow> voip" where
  "AddSession channel accessToken v =
    (if \<not> vm_isEnabled v then v
     else let v = v\<lparr>vm_currentChannel := channel\<rparr>
          in SendRequest (Add_Session (''sg_'' @ channel) channel channel (vm_accountHandle v) accessToken) v)"

definition RemoveSession :: "voip \<Rightarrow> voip" where
  "RemoveSession v =
    (if vm_currentChannel v = [] then v
     else (SendRequest (Remove_Session (''sg_'' @ vm_currentChannel v) (vm_currentChannel v)) v)\<lparr>vm_currentChannel := []\<rparr>)"

definition IsLoggedIn :: "voip \<Rightarrow> bool" where
  "IsLoggedIn v = vm_isPostLogin v"

definition IsConnected :: "voip \<Rightarrow> bool" where
  "IsConnected v \<longleftrightarrow> vm_currentChannel v \<noteq> []"

definition SetCaptureDevice :: "string \<Rightarrow> voip \<Rightarrow> voip" where
  "SetCaptureDevice identifier v = SendRequest (Set_Capture_Device (vm_accountHandle v) identifier) v"

definition SetRenderDevice :: "string \<Rightarrow> voip \<Rightarrow> voip" where
  "SetRenderDevice identifier v = SendRequest (Set_Render_Device (vm_accountHandle v) identifier) v"

definition SetMuted :: "bool \<Rightarrow> voip \<Rightarrow> voip" where
  "SetMuted muted v = SendRequest (Mute_Local_Mic muted (vm_accountHandle v)) v"

definition SetPushToTalkEnabled :: "bool \<Rightarrow> voip \<Rightarrow> voip" where
  "SetPushToTalkEnabled enabled v = SetMuted enabled (v\<lparr>vm_pushToTalkEnabled := enabled\<rparr>)"

definition SetPushToTalkPressed :: "bool \<Rightarrow> voip \<Rightarrow> voip" where
  "SetPushToTalkPressed pressed v =
    (if \<not> vm_pushToTalkEnabled v then v
     else if vm_isPushToTalkPressed v = pressed then v
     else SetMuted (\<not> pressed) (v\<lparr>vm_isPushToTalkPressed := pressed\<rparr>))"

definition SetPushToTalkKey :: "u32 \<Rightarrow> voip \<Rightarrow> voip" where
  "SetPushToTalkKey k v = v\<lparr>vm_pushToTalkKey := k\<rparr>"

definition SetInputVolume :: "f32 \<Rightarrow> voip \<Rightarrow> voip" where
  "SetInputVolume volume v = SendRequest (Set_Mic_Level volume (vm_accountHandle v)) v"

definition SetSpeakerVolume :: "f32 \<Rightarrow> voip \<Rightarrow> voip" where
  "SetSpeakerVolume volume v = SendRequest (Set_Speaker_Level volume (vm_accountHandle v)) v"

definition voip_SetEnabled :: "bool \<Rightarrow> voip \<Rightarrow> voip" where
  "voip_SetEnabled enabled v = v\<lparr>vm_isEnabled := enabled\<rparr>"


section \<open>Participants\<close>

definition find_participant :: "string \<Rightarrow> voip \<Rightarrow> participant option" where
  "find_participant playerName v =
    map_option snd (find (\<lambda>(uri, _). find_sub (''.'' @ playerName @ ''.'') uri \<noteq> None) (vm_participants v))"

definition IsParticipantSpeaking :: "string \<Rightarrow> voip \<Rightarrow> bool" where
  "IsParticipantSpeaking playerName v = (case find_participant playerName v of None \<Rightarrow> False | Some p \<Rightarrow> pa_isSpeaking p)"

definition GetParticipantAudioEnergy :: "string \<Rightarrow> voip \<Rightarrow> f32" where
  "GetParticipantAudioEnergy playerName v = (case find_participant playerName v of None \<Rightarrow> 0 | Some p \<Rightarrow> pa_audioEnergy p)"


section \<open>Messages of the library\<close>

datatype voip_message =
    Response_Failed
  | Connector_Created string string
  | Logged_In string
  | Capture_Devices "(string \<times> string) list"
  | Render_Devices "(string \<times> string) list"
  | Other_Response
  | Login_State_Change bool
  | Participant_Updated string bool f32 bool bool
  | Session_Removed string
  | Other_Event

definition HandleMessage :: "voip_message \<Rightarrow> voip \<Rightarrow> voip" where
  "HandleMessage msg v =
    (case msg of
       Response_Failed \<Rightarrow> v
     | Connector_Created handle vcookie \<Rightarrow> voip_Login vcookie (v\<lparr>vm_connectorHandle := handle\<rparr>)
     | Logged_In account \<Rightarrow> v\<lparr>vm_accountHandle := account\<rparr>
     | Capture_Devices devices \<Rightarrow> v\<lparr>vm_captureDevices := devices\<rparr>
     | Render_Devices devices \<Rightarrow> v\<lparr>vm_renderDevices := devices\<rparr>
     | Other_Response \<Rightarrow> v
     | Login_State_Change loggedIn \<Rightarrow> if loggedIn then AuxGetRenderDevices (AuxGetCaptureDevices v) else v
     | Participant_Updated uri speaking energy mutedForMe moderatorMuted \<Rightarrow>
         v\<lparr>vm_participants := map_put uri \<lparr>pa_uri = uri, pa_isSpeaking = speaking, pa_audioEnergy = energy,
           pa_isMuted = (mutedForMe \<or> moderatorMuted)\<rparr> (vm_participants v)\<rparr>
     | Session_Removed _ \<Rightarrow> v\<lparr>vm_currentChannel := []\<rparr>
     | Other_Event \<Rightarrow> v)"


section \<open>The position of the player\<close>

text \<open>What the game says of the local player: the checks of \<^verbatim>\<open>Call\<close>, in their order, and the values it reads.\<close>

datatype soldier =
    No_Player_Manager
  | No_Local_Player
  | No_Controllable
  | Not_A_Soldier
  | No_Prediction
  | Soldier vec3 vec3 f32 f32

datatype update_pass = PreFrame | Online | PostFrame

definition voip_Call :: "(f32 \<Rightarrow> f32) \<Rightarrow> (f32 \<Rightarrow> f32 \<Rightarrow> dvec3 \<times> dvec3) \<Rightarrow> update_pass \<Rightarrow> client_state \<Rightarrow> (u32 \<Rightarrow> bool) \<Rightarrow> soldier \<Rightarrow> voip \<Rightarrow> voip" where
  "voip_Call plus_one ConvertOrientation pass clientState keyState soldier v =
    (if pass \<noteq> PreFrame then v
     else if clientState \<noteq> Ingame then v
     else let v = (if vm_pushToTalkEnabled v then SetPushToTalkPressed (keyState (vm_pushToTalkKey v)) v else v)
          in if vm_currentChannel v = [] then v
             else case soldier of
                    Soldier (x, y, z) camera yaw pitch \<Rightarrow>
                      v\<lparr>vm_location := \<lparr>lo_valid = True, lo_position = (x, plus_one y, z), lo_camera = camera\<rparr>,
                        vm_orientation := ConvertOrientation yaw pitch\<rparr>
                  | _ \<Rightarrow> v\<lparr>vm_location := (vm_location v)\<lparr>lo_valid := False\<rparr>\<rparr>)"

definition PositionUpdate :: "voip \<Rightarrow> voip" where
  "PositionUpdate v =
    (if vm_currentChannel v = [] then v
     else if \<not> lo_valid (vm_location v) then v
     else SendRequest (Set_3d_Position (vm_currentChannel v) (lo_camera (vm_location v)) (vm_orientation v) (lo_position (vm_location v))) v)"


section \<open>The client\<close>

text \<open>The manager of the client, the name of the server it is on, the names for which it asked for a channel, and the calls about sessions
  and positions that threads are in the middle of (\<open>vc_inflight\<close>): what is left of each.\<close>

datatype voip_work =
    Build_Add string string
  | Build_Remove
  | Issue voip_request
  | Issue_Clear voip_request
  | Clear_Channel

record voice =
  vc_manager :: voip
  vc_serverName :: string
  vc_pending :: "string list"
  vc_inflight :: "voip_work list"

definition AttemptJoinVoip :: "voice \<Rightarrow> voice" where
  "AttemptJoinVoip c =
    (if \<not> IsLoggedIn (vc_manager c) \<or> vc_serverName c = [] \<or> IsConnected (vc_manager c) then c
     else c\<lparr>vc_pending := vc_pending c @ [vc_serverName c]\<rparr>)"

text \<open>The answer of the web service to the \<open>i\<close>th request.\<close>

definition JoinChannel_answer :: "nat \<Rightarrow> (string \<times> string) option \<Rightarrow> voice \<Rightarrow> voice" where
  "JoinChannel_answer i response c =
    (let c = c\<lparr>vc_pending := take i (vc_pending c) @ drop (Suc i) (vc_pending c)\<rparr>
     in case response of None \<Rightarrow> c | Some (channel, token) \<Rightarrow> c\<lparr>vc_manager := AddSession channel token (vc_manager c)\<rparr>)"

record voip_settings =
  vs_enabled :: bool
  vs_inputDeviceId :: string
  vs_outputDeviceId :: string
  vs_inputVolume :: f32
  vs_outputVolume :: f32
  vs_pushToTalkEnabled :: bool
  vs_pushToTalkKey :: "u32 option"

definition apply_settings :: "voip_settings \<Rightarrow> voip \<Rightarrow> voip" where
  "apply_settings r v =
    (let v = voip_SetEnabled (vs_enabled r) v;
         v = SetRenderDevice (vs_outputDeviceId r) (SetCaptureDevice (vs_inputDeviceId r) v);
         v = SetSpeakerVolume (vs_outputVolume r) (SetInputVolume (vs_inputVolume r) v);
         v = SetPushToTalkEnabled (vs_pushToTalkEnabled r) v
     in case vs_pushToTalkKey r of Some k \<Rightarrow> if vs_pushToTalkEnabled r then SetPushToTalkKey k v else v | None \<Rightarrow> v)"

definition SetVoipSettings :: "voip_settings \<Rightarrow> voice \<Rightarrow> voice" where
  "SetVoipSettings r c =
    (let c = c\<lparr>vc_manager := apply_settings r (vc_manager c)\<rparr>
     in if vs_enabled r then AttemptJoinVoip c else c\<lparr>vc_manager := RemoveSession (vc_manager c)\<rparr>)"

definition GetVoipSettings :: "voip \<Rightarrow> (string \<times> string) list \<times> (string \<times> string) list" where
  "GetVoipSettings v = (vm_captureDevices v, vm_renderDevices v)"


section \<open>The threads\<close>

text \<open>The first piece of each call: up to the first moment at which another thread can see or change something.\<close>

definition AddSession_begin :: "string \<Rightarrow> string \<Rightarrow> voip \<Rightarrow> voip \<times> voip_work list" where
  "AddSession_begin channel accessToken v =
    (if \<not> vm_isEnabled v then (v, []) else (v\<lparr>vm_currentChannel := channel\<rparr>, [Build_Add channel accessToken]))"

definition RemoveSession_begin :: "voip \<Rightarrow> voip_work list" where
  "RemoveSession_begin v = (if vm_currentChannel v = [] then [] else [Build_Remove])"

text \<open>The position thread builds its request under the lock and sends it after it has released the lock.\<close>

definition PositionUpdate_begin :: "voip \<Rightarrow> voip_work list" where
  "PositionUpdate_begin v =
    (if vm_currentChannel v = [] then []
     else if \<not> lo_valid (vm_location v) then []
     else [Issue (Set_3d_Position (vm_currentChannel v) (lo_camera (vm_location v)) (vm_orientation v) (lo_position (vm_location v)))])"

text \<open>The next piece of a call that is under way, and what is left of it.\<close>

definition run_work :: "voip_work \<Rightarrow> voip \<Rightarrow> voip \<times> voip_work list" where
  "run_work w v =
    (case w of
       Build_Add channel accessToken \<Rightarrow>
         (v, [Issue (Add_Session (''sg_'' @ channel) channel channel (vm_accountHandle v) accessToken)])
     | Build_Remove \<Rightarrow> (v, [Issue_Clear (Remove_Session (''sg_'' @ vm_currentChannel v) (vm_currentChannel v))])
     | Issue req \<Rightarrow> (SendRequest req v, [])
     | Issue_Clear req \<Rightarrow> (SendRequest req v, [Clear_Channel])
     | Clear_Channel \<Rightarrow> (v\<lparr>vm_currentChannel := []\<rparr>, []))"

text \<open>A call that nobody interrupts: its pieces one after the other.\<close>

fun run_alone :: "nat \<Rightarrow> voip \<times> voip_work list \<Rightarrow> voip" where
  "run_alone (Suc n) (v, [w]) = run_alone n (run_work w v)"
| "run_alone _ (v, _) = v"

lemma session_calls_split:
  "run_alone 3 (AddSession_begin ch t v) = AddSession ch t v"
  "run_alone 3 (v, RemoveSession_begin v) = RemoveSession v"
  "run_alone 3 (v, PositionUpdate_begin v) = PositionUpdate v"
  by (simp_all add: eval_nat_numeral AddSession_begin_def AddSession_def RemoveSession_begin_def RemoveSession_def PositionUpdate_begin_def
      PositionUpdate_def run_work_def Let_def)

text \<open>The calls that only set a value or send one request about devices, volumes or the microphone: those of the settings and of the
  console.\<close>

datatype voip_setting =
    Enabled bool
  | Capture string
  | Render string
  | Input_Volume f32
  | Speaker_Volume f32
  | Push_To_Talk bool
  | Push_To_Talk_Key u32
  | Mute bool

definition set_voip :: "voip_setting \<Rightarrow> voip \<Rightarrow> voip" where
  "set_voip x = (case x of Enabled b \<Rightarrow> voip_SetEnabled b | Capture d \<Rightarrow> SetCaptureDevice d | Render d \<Rightarrow> SetRenderDevice d
     | Input_Volume f \<Rightarrow> SetInputVolume f | Speaker_Volume f \<Rightarrow> SetSpeakerVolume f | Push_To_Talk b \<Rightarrow> SetPushToTalkEnabled b
     | Push_To_Talk_Key k \<Rightarrow> SetPushToTalkKey k | Mute b \<Rightarrow> SetMuted b)"

text \<open>The steps of the threads. The calls that are under way go on in any order, and new ones may begin in between.\<close>

inductive voice_step :: "(f32 \<Rightarrow> f32) \<Rightarrow> (f32 \<Rightarrow> f32 \<Rightarrow> dvec3 \<times> dvec3) \<Rightarrow> voice \<Rightarrow> voice \<Rightarrow> bool" for p cv where
  login: "voice_step p cv c (c\<lparr>vc_manager := RequestLogin_answer r (vc_manager c)\<rparr>)"
| message: "voice_step p cv c (c\<lparr>vc_manager := HandleMessage m (vc_manager c)\<rparr>)"
| frame: "voice_step p cv c (c\<lparr>vc_manager := voip_Call p cv pass st ks s (vc_manager c)\<rparr>)"
| setting: "voice_step p cv c (c\<lparr>vc_manager := set_voip x (vc_manager c)\<rparr>)"
| server: "voice_step p cv c (c\<lparr>vc_serverName := name\<rparr>)"
| attempt: "voice_step p cv c (AttemptJoinVoip c)"
| answer_failed: "i < length (vc_pending c) \<Longrightarrow> voice_step p cv c (JoinChannel_answer i None c)"
| answer: "\<lbrakk>i < length (vc_pending c); AddSession_begin ch t (vc_manager c) = (v, ws)\<rbrakk> \<Longrightarrow>
    voice_step p cv c (c\<lparr>vc_manager := v, vc_pending := take i (vc_pending c) @ drop (Suc i) (vc_pending c), vc_inflight := vc_inflight c @ ws\<rparr>)"
| remove: "voice_step p cv c (c\<lparr>vc_inflight := vc_inflight c @ RemoveSession_begin (vc_manager c)\<rparr>)"
| position: "voice_step p cv c (c\<lparr>vc_inflight := vc_inflight c @ PositionUpdate_begin (vc_manager c)\<rparr>)"
| work: "\<lbrakk>vc_inflight c = xs @ w # ys; run_work w (vc_manager c) = (v, ws)\<rbrakk> \<Longrightarrow>
    voice_step p cv c (c\<lparr>vc_manager := v, vc_inflight := xs @ ws @ ys\<rparr>)"

text \<open>Steps of calls that do not overlap: while one is under way, only it goes on.\<close>

definition voice_step_alone :: "(f32 \<Rightarrow> f32) \<Rightarrow> (f32 \<Rightarrow> f32 \<Rightarrow> dvec3 \<times> dvec3) \<Rightarrow> voice \<Rightarrow> voice \<Rightarrow> bool" where
  "voice_step_alone p cv c c' \<longleftrightarrow>
    (case vc_inflight c of [] \<Rightarrow> voice_step p cv c c'
     | w # ws \<Rightarrow> ws = [] \<and> c' = c\<lparr>vc_manager := fst (run_work w (vc_manager c)), vc_inflight := snd (run_work w (vc_manager c))\<rparr>)"

lemma voice_step_alone_step: "voice_step_alone p cv c c' \<Longrightarrow> voice_step p cv c c'"
  by (cases "vc_inflight c") (auto simp: voice_step_alone_def intro: voice_step.work [of c "[]" _ "[]", simplified])


text \<open>The settings of the interface are such steps, followed by an attempt to join or by the removal of the session.\<close>

lemma apply_settings_steps: "(voice_step p cv)\<^sup>*\<^sup>* c (c\<lparr>vc_manager := apply_settings r (vc_manager c)\<rparr>)"
proof -
  have one: "(voice_step p cv)\<^sup>*\<^sup>* c (c\<lparr>vc_manager := v\<rparr>) \<Longrightarrow> (voice_step p cv)\<^sup>*\<^sup>* c (c\<lparr>vc_manager := set_voip x v\<rparr>)" for x v
    using voice_step.setting [of p cv "c\<lparr>vc_manager := v\<rparr>" x] by (simp add: rtranclp.rtrancl_into_rtrancl)
  have zero: "(voice_step p cv)\<^sup>*\<^sup>* c (c\<lparr>vc_manager := vc_manager c\<rparr>)" by simp
  note seq = one [OF one [OF one [OF one [OF one [OF one [OF zero, of "Enabled (vs_enabled r)"], of "Capture (vs_inputDeviceId r)"],
    of "Render (vs_outputDeviceId r)"], of "Input_Volume (vs_inputVolume r)"], of "Speaker_Volume (vs_outputVolume r)"],
    of "Push_To_Talk (vs_pushToTalkEnabled r)"]
  show ?thesis
  proof (cases "vs_pushToTalkKey r")
    case None
    then show ?thesis using seq by (simp add: apply_settings_def set_voip_def)
  next
    case (Some k)
    then show ?thesis using seq one [OF seq, of "Push_To_Talk_Key k"]
      by (cases "vs_pushToTalkEnabled r") (simp_all add: apply_settings_def set_voip_def Let_def)
  qed
qed


section \<open>Sessions\<close>

text \<open>The sessions a list of requests has opened and not removed.\<close>

definition session_step :: "string \<times> voip_request \<Rightarrow> string set \<Rightarrow> string set" where
  "session_step r S = (case snd r of Add_Session _ s _ _ _ \<Rightarrow> insert s S | Remove_Session _ s \<Rightarrow> S - {s} | _ \<Rightarrow> S)"

definition open_sessions :: "(string \<times> voip_request) list \<Rightarrow> string set" where
  "open_sessions rs = fold session_step rs {}"

definition positions_open :: "(string \<times> voip_request) list \<Rightarrow> bool" where
  "positions_open rs \<longleftrightarrow> (\<forall>n<length rs. \<forall>s l q e. snd (rs ! n) = Set_3d_Position s l q e \<longrightarrow> s \<in> open_sessions (take n rs))"


lemma open_sessions_snoc [simp]: "open_sessions (rs @ [r]) = session_step r (open_sessions rs)"
  by (simp add: open_sessions_def)

lemma positions_open_snoc [simp]:
  "positions_open (rs @ [r]) \<longleftrightarrow> positions_open rs \<and> (\<forall>s l q e. snd r = Set_3d_Position s l q e \<longrightarrow> s \<in> open_sessions rs)"
  unfolding positions_open_def by (auto simp: nth_append less_Suc_eq)










subsection \<open>Calls that do not overlap\<close>






subsection \<open>Calls that overlap\<close>
























text \<open>C38: a session can outlive the server. If the client leaves while its question for a channel is not answered yet, the answer
  opens a session all the same. If it goes on to another server, the report that the first session has been removed makes the
  manager forget the second one, which it then never removes.\<close>

theorem session_outlives_server:
  assumes "vm_isEnabled (vc_manager c)" "IsLoggedIn (vc_manager c)" "vc_serverName c \<noteq> []" "vc_pending c = []" "ch \<noteq> []"
  shows "(\<not> IsConnected (vc_manager c) \<longrightarrow>
      (let left = (AttemptJoinVoip c)\<lparr>vc_manager := RemoveSession (vc_manager (AttemptJoinVoip c)), vc_serverName := []\<rparr>
       in vm_currentChannel (vc_manager (JoinChannel_answer 0 (Some (ch, t)) left)) = ch)) \<and>
    (IsConnected (vc_manager c) \<longrightarrow>
      (let v = HandleMessage (Session_Removed (vm_currentChannel (vc_manager c))) (AddSession ch t (RemoveSession (vc_manager c)))
       in ch \<in> open_sessions (vm_requests v) \<and> RemoveSession v = v))"
  using assms
  by (auto simp: AttemptJoinVoip_def JoinChannel_answer_def RemoveSession_def AddSession_def HandleMessage_def IsConnected_def IsLoggedIn_def
      SendRequest_def session_step_def open_sessions_def Let_def)

definition sample_voip :: "string \<Rightarrow> voip" where
  "sample_voip ch = \<lparr>vm_connectorHandle = [], vm_accountHandle = ''a'', vm_username = [], vm_displayName = [], vm_isEnabled = True, vm_isPostLogin = True,
    vm_pushToTalkEnabled = False, vm_isPushToTalkPressed = True, vm_pushToTalkKey = 0, vm_currentChannel = ch, vm_issuer = [], vm_domain = [],
    vm_location = \<lparr>lo_valid = False, lo_position = (0, 0, 0), lo_camera = (0, 0, 0)\<rparr>, vm_orientation = ((0, 0, 0), (0, 0, 0)), vm_captureDevices = [],
    vm_renderDevices = [], vm_participants = [], vm_requests = []\<rparr>"

definition sample_voice :: "string \<Rightarrow> voice" where
  "sample_voice ch = \<lparr>vc_manager = sample_voip ch, vc_serverName = ''srv'', vc_pending = [], vc_inflight = []\<rparr>"


theorem session_outlives_server_witness:
  "vm_currentChannel (vc_manager (JoinChannel_answer 0 (Some (''ch'', ''t''))
     ((AttemptJoinVoip (sample_voice []))\<lparr>vc_manager := RemoveSession (vc_manager (AttemptJoinVoip (sample_voice []))), vc_serverName := []\<rparr>))) = ''ch'' \<and>
   ''ch'' \<in> open_sessions (vm_requests (HandleMessage (Session_Removed ''old'') (AddSession ''ch'' ''t'' (RemoveSession (sample_voip ''old'')))))"
  using session_outlives_server [of "sample_voice []" "''ch''" "''t''"] session_outlives_server [of "sample_voice ''old''" "''ch''" "''t''"]
  by (simp add: sample_voice_def sample_voip_def IsLoggedIn_def IsConnected_def Let_def)


section \<open>Push to talk\<close>

text \<open>The state of the microphone: the last request about it.\<close>

definition mic_step :: "string \<times> voip_request \<Rightarrow> bool option \<Rightarrow> bool option" where
  "mic_step r m = (case snd r of Mute_Local_Mic b _ \<Rightarrow> Some b | _ \<Rightarrow> m)"

definition mic_muted :: "voip \<Rightarrow> bool option" where
  "mic_muted v = fold mic_step (vm_requests v) None"

text \<open>Frames of the game, each with its pass, the state of the client, the keyboard and the player, and what they see of the key: only the
  first pass of a frame in the game looks at it.\<close>

type_synonym voip_frame = "update_pass \<times> client_state \<times> (u32 \<Rightarrow> bool) \<times> soldier"

definition voip_frames :: "(f32 \<Rightarrow> f32) \<Rightarrow> (f32 \<Rightarrow> f32 \<Rightarrow> dvec3 \<times> dvec3) \<Rightarrow> voip_frame list \<Rightarrow> voip \<Rightarrow> voip" where
  "voip_frames p cv fs v = fold (\<lambda>(pass, st, ks, s). voip_Call p cv pass st ks s) fs v"

definition polled :: "u32 \<Rightarrow> voip_frame list \<Rightarrow> bool list" where
  "polled k fs = map (\<lambda>(_, _, ks, _). ks k) (filter (\<lambda>(pass, st, _). pass = PreFrame \<and> st = Ingame) fs)"

lemma Call_push_to_talk:
  assumes "vm_pushToTalkEnabled v"
  shows "vm_pushToTalkEnabled (voip_Call p cv PreFrame Ingame ks s v)" "vm_pushToTalkKey (voip_Call p cv PreFrame Ingame ks s v) = vm_pushToTalkKey v"
    "vm_isPushToTalkPressed (voip_Call p cv PreFrame Ingame ks s v) = ks (vm_pushToTalkKey v)"
    "mic_muted (voip_Call p cv PreFrame Ingame ks s v) =
      (if vm_isPushToTalkPressed v = ks (vm_pushToTalkKey v) then mic_muted v else Some (\<not> ks (vm_pushToTalkKey v)))"
  using assms
  by (cases s; auto simp: voip_Call_def Let_def SetPushToTalkPressed_def SetMuted_def SendRequest_def mic_muted_def mic_step_def)+

lemma Call_not_polled: "\<not> (pass = PreFrame \<and> st = Ingame) \<Longrightarrow> voip_Call p cv pass st ks s v = v"
  by (simp add: voip_Call_def)

text \<open>C37: push to talk, after it has been switched on and while no setting is changed. The key is looked at only in the game. The
  microphone is muted until it is first looked at; from then on it is open exactly if the key was down when it was last looked at. So a
  key that is released outside the game leaves the microphone open. The exception is the remembered state of the key: if it says
  down when push to talk is switched on (and every change of the settings switches it on again), the microphone stays
  muted, the key down or not, until the key has been seen up once.\<close>

theorem push_to_talk_mic:
  "mic_muted (voip_frames p cv fs (SetPushToTalkEnabled True v)) =
    Some (let ks = polled (vm_pushToTalkKey v) fs
          in if ks = [] then True else if vm_isPushToTalkPressed v \<and> list_all id ks then True else \<not> last ks)"
proof -
  let ?v = "SetPushToTalkEnabled True v" and ?k = "vm_pushToTalkKey v"
  let ?w = "\<lambda>fs. voip_frames p cv fs ?v"
  have "vm_pushToTalkEnabled (?w fs) \<and> vm_pushToTalkKey (?w fs) = ?k \<and>
      vm_isPushToTalkPressed (?w fs) = (if polled ?k fs = [] then vm_isPushToTalkPressed v else last (polled ?k fs)) \<and>
      mic_muted (?w fs) = Some (if polled ?k fs = [] then True
        else if vm_isPushToTalkPressed v \<and> list_all id (polled ?k fs) then True else \<not> last (polled ?k fs))"
  proof (induction fs rule: rev_induct)
    case Nil
    then show ?case by (simp add: polled_def voip_frames_def SetPushToTalkEnabled_def SetMuted_def SendRequest_def mic_muted_def mic_step_def)
  next
    case (snoc f fs)
    obtain pass st ks s where f: "f = (pass, st, ks, s)" by (cases f) fastforce
    have w: "?w (fs @ [f]) = voip_Call p cv pass st ks s (?w fs)" by (simp add: voip_frames_def f)
    show ?case
    proof (cases "pass = PreFrame \<and> st = Ingame")
      case True
      then have "polled ?k (fs @ [f]) = polled ?k fs @ [ks ?k]" by (simp add: polled_def f)
      with True snoc Call_push_to_talk [of "?w fs" p cv ks s] show ?thesis
        by (cases "polled ?k fs" rule: rev_cases) (auto simp: w)
    next
      case False
      then have "polled ?k (fs @ [f]) = polled ?k fs" by (auto simp: polled_def f)
      with snoc Call_not_polled [OF False] show ?thesis by (simp add: w)
    qed
  qed
  then show ?thesis by (simp add: Let_def)
qed

theorem push_to_talk_mic_witness:
  "mic_muted (voip_frames id (\<lambda>_ _. ((0, 0, 0), (0, 0, 0))) [(PreFrame, Ingame, \<lambda>_. True, No_Local_Player)]
     (SetPushToTalkEnabled True (sample_voip []))) = Some True \<and>
   mic_muted (voip_frames id (\<lambda>_ _. ((0, 0, 0), (0, 0, 0)))
     [(PreFrame, Ingame, \<lambda>_. False, No_Local_Player), (PreFrame, Ingame, \<lambda>_. True, No_Local_Player), (PreFrame, StartServer, \<lambda>_. False, No_Local_Player)]
     (SetPushToTalkEnabled True (sample_voip []))) = Some False"
  by (simp only: push_to_talk_mic) (simp add: sample_voip_def polled_def)

end
