(* ===== verification/Entity_Types.thy ===== *)
theory Entity_Types
  imports Guid_Model
begin

text \<open>
  The custom data types of the entity manager (\<^verbatim>\<open>Entity/NativeEntityManager.cpp\<close> and its header). The mod declares types at
  start-up (\<open>static_data\<close>); when the game initialises its type registry, \<open>RegisterTypes\<close> turns each declaration into a
  \<^verbatim>\<open>ClassInfoAsset\<close>, links the references between them in a second pass, and lets the game's type builder make a type of each.

  A \<^verbatim>\<open>TypeInfo*\<close> is a number. The assets live as long as the manager, so a pointer to one is its position in
  \<^verbatim>\<open>m_classInfoAssets\<close>, and a pointer to a field is the pair of the asset's position and the field's. The identifiers that
  \<^verbatim>\<open>Guid::Generate\<close> returns and the type builder of the game are parameters; \<open>builder_ok\<close> says what the code relies on of the builder.
\<close>

section \<open>Declarations\<close>

record type_field =
  tf_typeName :: string
  tf_name :: string
  tf_isArray :: bool

record kyber_type_info =
  kt_name :: string
  kt_parentName :: "string option"
  kt_fields :: "type_field list"

definition KyberTypeInfo_new :: "string \<Rightarrow> string option \<Rightarrow> kyber_type_info" where
  "KyberTypeInfo_new name parent =
    \<lparr>kt_name = name,
     kt_parentName = map_option (\<lambda>p. if p = ''EntityData'' then ''dummyData'' else p) parent,
     kt_fields = []\<rparr>"

definition AddField :: "string \<Rightarrow> string \<Rightarrow> bool \<Rightarrow> kyber_type_info \<Rightarrow> kyber_type_info" where
  "AddField typeName name isArray t =
    t\<lparr>kt_fields := kt_fields t @ [\<lparr>tf_typeName = typeName, tf_name = name, tf_isArray = isArray\<rparr>]\<rparr>"

text \<open>The static registrars run before \<^verbatim>\<open>main\<close>. A creator and a registration callback are values of a parameter type.\<close>

record ('c, 'r) static_data =
  sd_registeredTypeInfo :: "kyber_type_info list"
  sd_creators :: "string \<rightharpoonup> 'c"
  sd_overrideCreators :: "string set"
  sd_registrationCallbacks :: "string \<rightharpoonup> 'r"

definition sd_RegisterType :: "kyber_type_info \<Rightarrow> ('c, 'r) static_data \<Rightarrow> ('c, 'r) static_data" where
  "sd_RegisterType typeInfo d = d\<lparr>sd_registeredTypeInfo := sd_registeredTypeInfo d @ [typeInfo]\<rparr>"

definition sd_RegisterEntity :: "string \<Rightarrow> 'c \<Rightarrow> bool \<Rightarrow> ('c, 'r) static_data \<Rightarrow> ('c, 'r) static_data" where
  "sd_RegisterEntity dataName creator over d =
    (let d = d\<lparr>sd_creators := (sd_creators d)(dataName \<mapsto> creator)\<rparr>
     in if over then d\<lparr>sd_overrideCreators := insert dataName (sd_overrideCreators d)\<rparr> else d)"

definition sd_RegisterRegistrationCallback :: "string \<Rightarrow> 'r \<Rightarrow> ('c, 'r) static_data \<Rightarrow> ('c, 'r) static_data" where
  "sd_RegisterRegistrationCallback typeName callback d =
    d\<lparr>sd_registrationCallbacks := (sd_registrationCallbacks d)(typeName \<mapsto> callback)\<rparr>"

definition sd_IsOverrideCreator :: "('c, 'r) static_data \<Rightarrow> string \<Rightarrow> bool" where
  "sd_IsOverrideCreator d dataName \<longleftrightarrow> dataName \<in> sd_overrideCreators d"

definition sd_GetCreator :: "('c, 'r) static_data \<Rightarrow> string \<Rightarrow> 'c option" where
  "sd_GetCreator d dataName = sd_creators d dataName"

definition sd_GetRegistrationCallback :: "('c, 'r) static_data \<Rightarrow> string \<Rightarrow> 'r option" where
  "sd_GetRegistrationCallback d typeName = sd_registrationCallbacks d typeName"


section \<open>Assets and the manager's tables\<close>

record field_data =
  fd_Asset :: "nat option"
  fd_TypeInfo :: "nat option"
  fd_Name :: string
  fd_IsArray :: bool
  fd_IsMeta :: bool
  fd_IsExposed :: bool
  fd_AlwaysPersist :: bool

record class_asset =
  ca_guid :: guid
  ca_Name :: string
  ca_ModuleName :: string
  ca_TypeName :: string
  ca_IsMeta :: bool
  ca_IsNative :: bool
  ca_Fields :: "field_data list"
  ca_SuperAsset :: "nat option"
  ca_SuperTypeInfo :: "nat option"
  ca_IsAbstract :: bool
  ca_IsSealed :: bool

record 'r entity_types =
  em_guids :: "guid list"
  em_builtTypes :: "guid \<rightharpoonup> nat"
  em_classInfoAssets :: "class_asset list"
  em_createdTypeInfo :: "nat list"
  em_createdTypeInfoByName :: "string \<rightharpoonup> nat"
  em_createdTypeInfoByGuid :: "guid \<rightharpoonup> nat"
  em_classesPendingParent :: "(string \<times> nat) list"
  em_fieldsPendingType :: "(string \<times> nat \<times> nat) list"
  em_nativeTypeInfo :: "string \<rightharpoonup> nat"
  em_nativeTypeInfoGuidMap :: "guid \<rightharpoonup> nat"
  em_callbackCalls :: "('r \<times> nat) list"

definition entity_types_new :: "'r entity_types" where
  "entity_types_new =
    \<lparr>em_guids = [], em_builtTypes = Map.empty, em_classInfoAssets = [], em_createdTypeInfo = [],
     em_createdTypeInfoByName = Map.empty, em_createdTypeInfoByGuid = Map.empty,
     em_classesPendingParent = [], em_fieldsPendingType = [],
     em_nativeTypeInfo = Map.empty, em_nativeTypeInfoGuidMap = Map.empty, em_callbackCalls = []\<rparr>"

definition CreateFieldData :: "string \<Rightarrow> nat option \<Rightarrow> nat option \<Rightarrow> bool \<Rightarrow> field_data" where
  "CreateFieldData name typeAsset typ isArray =
    \<lparr>fd_Asset = typeAsset, fd_TypeInfo = typ, fd_Name = name, fd_IsArray = isArray,
     fd_IsMeta = False, fd_IsExposed = False, fd_AlwaysPersist = False\<rparr>"

text \<open>The list of the game's types is linked from a fixed address; it is given as the names and addresses in its order.\<close>

definition RegisterNativeTypeInfo :: "(string \<times> nat) list \<Rightarrow> 'r entity_types \<Rightarrow> 'r entity_types" where
  "RegisterNativeTypeInfo infos m =
    m\<lparr>em_nativeTypeInfo := foldl (\<lambda>t (name, info). t(name \<mapsto> info)) (em_nativeTypeInfo m) infos\<rparr>"

text \<open>One field of the loop of \<^verbatim>\<open>CreateClassInfoAsset\<close>; \<open>i\<close> is the asset under construction.\<close>

definition create_field :: "nat \<Rightarrow> type_field \<Rightarrow> field_data list \<times> 'r entity_types \<Rightarrow> field_data list \<times> 'r entity_types" where
  "create_field i f = (\<lambda>(fields, m).
    let typeInfo = em_nativeTypeInfo m (tf_typeName f);
        dat = CreateFieldData (tf_name f) None typeInfo (tf_isArray f)
    in (fields @ [dat],
        if typeInfo = None
        then m\<lparr>em_fieldsPendingType := em_fieldsPendingType m @ [(tf_typeName f, i, length fields)]\<rparr>
        else m))"

text \<open>\<open>gen n\<close> is the identifier that the \<open>n\<close>-th call of \<^verbatim>\<open>Guid::Generate\<close> returns.\<close>

definition CreateClassInfoAsset :: "(nat \<Rightarrow> guid) \<Rightarrow> kyber_type_info \<Rightarrow> 'r entity_types \<Rightarrow> class_asset \<times> 'r entity_types" where
  "CreateClassInfoAsset gen info m =
    (let i = length (em_classInfoAssets m);
         instanceGuid = gen (length (em_guids m));
         m = m\<lparr>em_guids := em_guids m @ [instanceGuid]\<rparr>;
         (fields, m) = fold (create_field i) (kt_fields info) ([], m);
         (parentType, m) =
           (case kt_parentName info of
              None \<Rightarrow> (None, m)
            | Some parentName \<Rightarrow>
                (case em_nativeTypeInfo m parentName of
                   Some t \<Rightarrow> (Some t, m)
                 | None \<Rightarrow> (None, m\<lparr>em_classesPendingParent := em_classesPendingParent m @ [(parentName, i)]\<rparr>)))
     in (\<lparr>ca_guid = instanceGuid, ca_Name = ''test'', ca_ModuleName = ''Kyber'', ca_TypeName = kt_name info,
          ca_IsMeta = False, ca_IsNative = False, ca_Fields = fields,
          ca_SuperAsset = None, ca_SuperTypeInfo = parentType, ca_IsAbstract = False, ca_IsSealed = True\<rparr>, m))"

definition create_asset :: "(nat \<Rightarrow> guid) \<Rightarrow> kyber_type_info \<Rightarrow> 'r entity_types \<Rightarrow> 'r entity_types" where
  "create_asset gen info m =
    (let (asset, m) = CreateClassInfoAsset gen info m
     in m\<lparr>em_classInfoAssets := em_classInfoAssets m @ [asset]\<rparr>)"


section \<open>Linking\<close>

definition put_parent :: "nat \<Rightarrow> nat \<Rightarrow> class_asset list \<Rightarrow> class_asset list" where
  "put_parent i j as = as[i := (as ! i)\<lparr>ca_SuperAsset := Some j\<rparr>]"

definition put_field :: "nat \<times> nat \<Rightarrow> nat \<Rightarrow> class_asset list \<Rightarrow> class_asset list" where
  "put_field ik j as =
    (case ik of (i, k) \<Rightarrow>
       as[i := (as ! i)\<lparr>ca_Fields := (ca_Fields (as ! i))[k := (ca_Fields (as ! i) ! k)\<lparr>fd_Asset := Some j\<rparr>]\<rparr>])"

text \<open>
  The inner loop of the two passes, for a pending reference to the type named \<open>ref\<close>: every candidate whose name matches assigns, so the
  last one stays.
\<close>

definition assign_ref :: "('k \<Rightarrow> nat \<Rightarrow> class_asset list \<Rightarrow> class_asset list) \<Rightarrow> string \<times> 'k
    \<Rightarrow> class_asset list \<Rightarrow> class_asset list" where
  "assign_ref put p as =
    (case p of (ref, k) \<Rightarrow>
       fold (\<lambda>j as. if ca_TypeName (as ! j) \<noteq> ref then as else put k j as) [0..<length as] as)"


section \<open>Building\<close>

definition IsGuidUsed :: "'r entity_types \<Rightarrow> guid \<Rightarrow> bool" where
  "IsGuidUsed m g \<longleftrightarrow> 0 < count_list (em_guids m) g"

definition GetBuiltType :: "'r entity_types \<Rightarrow> guid \<Rightarrow> nat option" where
  "GetBuiltType m g = em_builtTypes m g"

definition AddBuiltType :: "guid \<Rightarrow> nat \<Rightarrow> 'r entity_types \<Rightarrow> 'r entity_types" where
  "AddBuiltType g t m = m\<lparr>em_builtTypes := (em_builtTypes m)(g \<mapsto> t)\<rparr>"

text \<open>The game's own \<^verbatim>\<open>InternalBuild\<close> and \<^verbatim>\<open>InternalBuildClassStub\<close> are the parameters \<open>orig\<close> and \<open>stub\<close>.\<close>

definition TypeBuilderInternalBuildHk ::
    "(class_asset \<Rightarrow> nat) \<Rightarrow> (class_asset \<Rightarrow> nat) \<Rightarrow> 'r entity_types \<Rightarrow> nat \<Rightarrow> nat \<times> 'r entity_types" where
  "TypeBuilderInternalBuildHk stub orig m i =
    (let asset = em_classInfoAssets m ! i
     in if IsGuidUsed m (ca_guid asset)
        then let t = stub asset in (t, AddBuiltType (ca_guid asset) t m)
        else (orig asset, m))"

type_synonym 'r builder = "'r entity_types \<Rightarrow> nat \<Rightarrow> nat \<times> 'r entity_types"

definition RegisterType :: "'r builder \<Rightarrow> nat \<Rightarrow> 'r entity_types \<Rightarrow> nat \<times> 'r entity_types" where
  "RegisterType build i m =
    (case GetBuiltType m (ca_guid (em_classInfoAssets m ! i)) of
       Some t \<Rightarrow> (t, m)
     | None \<Rightarrow> build m i)"

definition register_asset :: "'r builder \<Rightarrow> (string \<Rightarrow> 'r option) \<Rightarrow> nat \<Rightarrow> 'r entity_types \<Rightarrow> 'r entity_types" where
  "register_asset build callback i m =
    (let asset = em_classInfoAssets m ! i;
         (t, m) = RegisterType build i m;
         m = m\<lparr>em_createdTypeInfo := em_createdTypeInfo m @ [t],
               em_createdTypeInfoByName := (em_createdTypeInfoByName m)(ca_TypeName asset \<mapsto> t),
               em_createdTypeInfoByGuid := (em_createdTypeInfoByGuid m)(ca_guid asset \<mapsto> t)\<rparr>
     in case callback (ca_TypeName asset) of
          None \<Rightarrow> m
        | Some cb \<Rightarrow> m\<lparr>em_callbackCalls := em_callbackCalls m @ [(cb, t)]\<rparr>)"

definition link_assets :: "'r entity_types \<Rightarrow> 'r entity_types" where
  "link_assets m =
    m\<lparr>em_classInfoAssets :=
        fold (assign_ref put_field) (em_fieldsPendingType m) (fold (assign_ref put_parent) (em_classesPendingParent m) (em_classInfoAssets m))\<rparr>"

definition RegisterTypes :: "(string \<times> nat) list \<Rightarrow> (nat \<Rightarrow> guid) \<Rightarrow> 'r builder \<Rightarrow> ('c, 'r) static_data
    \<Rightarrow> 'r entity_types \<Rightarrow> 'r entity_types" where
  "RegisterTypes infos gen build sd m =
    (let m = RegisterNativeTypeInfo infos m;
         m = fold (create_asset gen) (sd_registeredTypeInfo sd) m;
         m = link_assets m
     in fold (register_asset build (sd_GetRegistrationCallback sd)) [0..<length (em_classInfoAssets m)] m)"


section \<open>Lookups\<close>

definition HasCustomType :: "'r entity_types \<Rightarrow> string \<Rightarrow> bool" where
  "HasCustomType m name = (find (\<lambda>a. \<not> ca_TypeName a = name) (em_classInfoAssets m) \<noteq> None)"

definition GetNativeType :: "'r entity_types \<Rightarrow> string \<Rightarrow> nat option" where
  "GetNativeType m name = em_nativeTypeInfo m name"

definition GetNativeTypeByGuid :: "'r entity_types \<Rightarrow> guid \<Rightarrow> nat option" where
  "GetNativeTypeByGuid m g = em_nativeTypeInfoGuidMap m g"

definition GetCreatedType :: "'r entity_types \<Rightarrow> guid \<Rightarrow> nat option" where
  "GetCreatedType m g = em_createdTypeInfoByGuid m g"

definition GetClassInfoAsset :: "'r entity_types \<Rightarrow> guid \<Rightarrow> nat option" where
  "GetClassInfoAsset m g = find (\<lambda>i. Guid_Equals (ca_guid (em_classInfoAssets m ! i)) g) [0..<length (em_classInfoAssets m)]"

definition CreatedTypeExists :: "'r entity_types \<Rightarrow> guid \<Rightarrow> bool" where
  "CreatedTypeExists m g = (find (\<lambda>a. Guid_Equals (ca_guid a) g) (em_classInfoAssets m) \<noteq> None)"

text \<open>The hook on the type builder's search; the trampoline is \<open>orig\<close>, and a null asset is dereferenced by the log line.\<close>

definition TypeBuilderInternalFindTypeHk ::
    "'r builder \<Rightarrow> (guid \<Rightarrow> nat option) \<Rightarrow> guid \<Rightarrow> 'r entity_types \<Rightarrow> (nat option \<times> 'r entity_types) result" where
  "TypeBuilderInternalFindTypeHk build orig g m =
    (case GetNativeTypeByGuid m g of
       Some t \<Rightarrow> Inr (Some t, m)
     | None \<Rightarrow>
       (case GetCreatedType m g of
          Some t \<Rightarrow> Inr (Some t, m)
        | None \<Rightarrow>
          if CreatedTypeExists m g
          then (case GetClassInfoAsset m g of
                  None \<Rightarrow> Inl Null_Deref
                | Some i \<Rightarrow> (case RegisterType build i m of (t, m') \<Rightarrow> Inr (Some t, m')))
          else Inr (orig g, m)))"

text \<open>\<^verbatim>\<open>createInstance\<close> of the game is the parameter \<open>create\<close>: the container it makes of a type, with its own type set afterwards.\<close>

definition InternalCreateContainer :: "(nat \<Rightarrow> 'd) \<Rightarrow> 'r entity_types \<Rightarrow> string \<Rightarrow> ('d \<times> nat) option" where
  "InternalCreateContainer create m name =
    (case em_createdTypeInfoByName m name of
       Some t \<Rightarrow> Some (create t, t)
     | None \<Rightarrow> (case em_nativeTypeInfo m name of
                  Some t \<Rightarrow> Some (create t, t)
                | None \<Rightarrow> None))"


section \<open>Class hierarchy\<close>

record class_info =
  ci_name :: string
  ci_superClass :: "nat option"

text \<open>The walk up the super classes stops at a class without one and at a class that is its own.\<close>

partial_function (option) isKindOf :: "(nat \<Rightarrow> class_info) \<Rightarrow> nat \<Rightarrow> string \<Rightarrow> bool option" where
  [code]: "isKindOf cls t name =
    (if ci_name (cls t) = name then Some True
     else case ci_superClass (cls t) of
            None \<Rightarrow> Some False
          | Some s \<Rightarrow> if s \<noteq> t then isKindOf cls s name else Some False)"


section \<open>Linking, once for parents and fields\<close>

text \<open>The position of the last name that equals \<open>ref\<close>.\<close>

definition last_named :: "string \<Rightarrow> string list \<Rightarrow> nat option" where
  "last_named ref names = find (\<lambda>j. names ! j = ref) (rev [0..<length names])"

abbreviation type_names :: "class_asset list \<Rightarrow> string list" where
  "type_names as \<equiv> map ca_TypeName as"

text \<open>
  A linker writes references of some kind into the assets. \<open>get\<close> reads the reference of the slot \<open>k\<close> and \<open>put\<close> writes it; \<open>ok\<close> says that
  the slot exists.
\<close>

locale linker =
  fixes get :: "'k \<Rightarrow> class_asset list \<Rightarrow> nat option"
    and put :: "'k \<Rightarrow> nat \<Rightarrow> class_asset list \<Rightarrow> class_asset list"
    and ok :: "'k \<Rightarrow> class_asset list \<Rightarrow> bool"
  assumes get_put: "ok k as \<Longrightarrow> get k (put k j as) = Some j"
    and get_put_other: "k' \<noteq> k \<Longrightarrow> get k' (put k j as) = get k' as"
    and put_ok: "ok k' (put k j as) = ok k' as"
    and put_names: "type_names (put k j as) = type_names as"
begin

lemma put_length: "length (put k j as) = length as"
  using arg_cong [OF put_names, of length] by simp

lemma put_name: "i < length as \<Longrightarrow> ca_TypeName (put k j as ! i) = ca_TypeName (as ! i)"
  using arg_cong [OF put_names, of "\<lambda>xs. xs ! i" k j as] by (simp add: put_length)

lemma assign_upto:
  assumes "n \<le> length as" "ok k as"
  shows "let as' = fold (\<lambda>j as. if ca_TypeName (as ! j) \<noteq> ref then as else put k j as) [0..<n] as
         in type_names as' = type_names as \<and> (\<forall>k'. ok k' as' = ok k' as)
            \<and> (\<forall>k'. get k' as' = (case find (\<lambda>j. type_names as ! j = ref) (rev [0..<n]) of
                   Some j \<Rightarrow> if k' = k then Some j else get k' as | None \<Rightarrow> get k' as))"
  using assms
proof (induction n)
  case (Suc n)
  define as' where "as' = fold (\<lambda>j as. if ca_TypeName (as ! j) \<noteq> ref then as else put k j as) [0..<n] as"
  have IH: "type_names as' = type_names as" "\<And>k'. ok k' as' = ok k' as"
    "\<And>k'. get k' as' = (case find (\<lambda>j. type_names as ! j = ref) (rev [0..<n]) of
                   Some j \<Rightarrow> if k' = k then Some j else get k' as | None \<Rightarrow> get k' as)"
    using Suc by (auto simp: as'_def Let_def)
  have nm: "ca_TypeName (as' ! n) = type_names as ! n"
    using arg_cong [OF IH(1), of "\<lambda>xs. xs ! n"] Suc.prems arg_cong [OF IH(1), of length] by simp
  show ?case
    using IH Suc.prems nm by (auto simp: as'_def [symmetric] Let_def put_names put_ok get_put get_put_other split: option.splits)
qed simp

lemma assign_names: "ok k as \<Longrightarrow> type_names (assign_ref put (ref, k) as) = type_names as"
  using assign_upto [of "length as" as k ref] by (simp add: assign_ref_def Let_def)

lemma assign_ok: "ok k as \<Longrightarrow> ok k' (assign_ref put (ref, k) as) = ok k' as"
  using assign_upto [of "length as" as k ref] by (simp add: assign_ref_def Let_def)

lemma assign_get:
  "ok k as \<Longrightarrow> get k' (assign_ref put (ref, k) as) =
     (case last_named ref (type_names as) of Some j \<Rightarrow> if k' = k then Some j else get k' as | None \<Rightarrow> get k' as)"
  using assign_upto [of "length as" as k ref] by (simp add: assign_ref_def Let_def last_named_def)

lemma assign_frame:
  assumes "\<And>k j as. obs (put k j as) = obs as"
  shows "obs (fold (assign_ref put) ps as) = obs as"
proof -
  have "obs (fold (\<lambda>j as. if ca_TypeName (as ! j) \<noteq> ref then as else put k j as) js as) = obs as" for ref k js as
    by (induction js arbitrary: as) (auto simp: assms)
  then show ?thesis by (induction ps arbitrary: as) (auto simp: assign_ref_def)
qed

lemma links:
  assumes "\<forall>(ref, k) \<in> set ps. ok k as" "distinct (map snd ps)"
  shows "get k (fold (assign_ref put) ps as) =
     (case map_of (map (\<lambda>(ref, k). (k, ref)) ps) k of
        Some ref \<Rightarrow> (case last_named ref (type_names as) of Some j \<Rightarrow> Some j | None \<Rightarrow> get k as)
      | None \<Rightarrow> get k as)"
  using assms
proof (induction ps arbitrary: as)
  case (Cons p ps)
  obtain ref k0 where p: "p = (ref, k0)" by (cases p)
  have ok0: "ok k0 as" using Cons.prems p by auto
  have IH: "get k (fold (assign_ref put) ps (assign_ref put p as)) =
     (case map_of (map (\<lambda>(ref, k). (k, ref)) ps) k of
        Some r \<Rightarrow> (case last_named r (type_names as) of Some j \<Rightarrow> Some j | None \<Rightarrow> get k (assign_ref put p as))
      | None \<Rightarrow> get k (assign_ref put p as))"
    using Cons.IH [of "assign_ref put p as"] Cons.prems p assign_ok [OF ok0]
    unfolding p assign_names [OF ok0] by auto
  have "map_of (map (\<lambda>(ref, k). (k, ref)) ps) k0 = None"
    using Cons.prems p by (auto simp: map_of_eq_None_iff image_iff Bex_def)
  then show ?case
    using IH by (auto simp: p assign_get [OF ok0] split: option.splits)
qed simp

end

definition field_slot :: "nat \<times> nat \<Rightarrow> class_asset list \<Rightarrow> bool" where
  "field_slot ik as = (case ik of (i, k) \<Rightarrow> i < length as \<and> k < length (ca_Fields (as ! i)))"

lemma map_update_same:
  "(i < length as \<Longrightarrow> f y = f (as ! i)) \<Longrightarrow> map f (as[i := y]) = map f as"
  by (metis list_update_id map_update not_le list_update_beyond)

interpretation parents: linker "\<lambda>i as. ca_SuperAsset (as ! i)" put_parent "\<lambda>i as. i < length as"
  by unfold_locales (auto simp: put_parent_def nth_list_update map_update_same)

lemma put_field_outside: "\<not> i < length as \<Longrightarrow> put_field (i, k) j as = as"
  by (simp add: put_field_def list_update_beyond)

lemma length_put_field: "length (put_field ik j as) = length as"
  by (simp add: put_field_def split: prod.split)

lemma put_field_inside:
  "i < length as \<Longrightarrow> put_field (i, k) j as ! n =
     (if n = i then (as ! i)\<lparr>ca_Fields := (ca_Fields (as ! i))[k := (ca_Fields (as ! i) ! k)\<lparr>fd_Asset := Some j\<rparr>]\<rparr> else as ! n)"
  by (simp add: put_field_def nth_list_update)

interpretation field_types: linker "\<lambda>(i, k) as. fd_Asset (ca_Fields (as ! i) ! k)" put_field field_slot
proof unfold_locales
  fix k k' :: "nat \<times> nat" and j as
  obtain i n i' n' where k: "k = (i, n)" "k' = (i', n')" by (cases k, cases k')
  show "k' \<noteq> k \<Longrightarrow> (case k' of (i, k) \<Rightarrow> \<lambda>as. fd_Asset (ca_Fields (as ! i) ! k)) (put_field k j as)
      = (case k' of (i, k) \<Rightarrow> \<lambda>as. fd_Asset (ca_Fields (as ! i) ! k)) as"
    by (cases "i < length as") (auto simp: k put_field_inside put_field_outside nth_list_update)
  show "field_slot k' (put_field k j as) = field_slot k' as"
    by (cases "i < length as") (auto simp: k field_slot_def put_field_inside put_field_outside length_put_field)
  show "field_slot k as \<Longrightarrow> (case k of (i, k) \<Rightarrow> \<lambda>as. fd_Asset (ca_Fields (as ! i) ! k)) (put_field k j as) = Some j"
    by (auto simp: k field_slot_def put_field_inside)
  show "type_names (put_field k j as) = type_names as"
    by (auto simp: k put_field_def intro: map_update_same)
qed


section \<open>The assets of a list of declarations\<close>

text \<open>What the first pass makes of a declaration, with \<open>N\<close> the table of the game's types.\<close>

definition field_of :: "(string \<rightharpoonup> nat) \<Rightarrow> type_field \<Rightarrow> field_data" where
  "field_of N f = CreateFieldData (tf_name f) None (N (tf_typeName f)) (tf_isArray f)"

definition asset_of :: "(string \<rightharpoonup> nat) \<Rightarrow> guid \<Rightarrow> kyber_type_info \<Rightarrow> class_asset" where
  "asset_of N g t =
    \<lparr>ca_guid = g, ca_Name = ''test'', ca_ModuleName = ''Kyber'', ca_TypeName = kt_name t,
     ca_IsMeta = False, ca_IsNative = False, ca_Fields = map (field_of N) (kt_fields t),
     ca_SuperAsset = None, ca_SuperTypeInfo = Option.bind (kt_parentName t) N, ca_IsAbstract = False, ca_IsSealed = True\<rparr>"

primrec pending_fields :: "(string \<rightharpoonup> nat) \<Rightarrow> nat \<Rightarrow> nat \<Rightarrow> type_field list \<Rightarrow> (string \<times> nat \<times> nat) list" where
  "pending_fields N i k [] = []"
| "pending_fields N i k (f # fs) = (if N (tf_typeName f) = None then [(tf_typeName f, i, k)] else []) @ pending_fields N i (Suc k) fs"

definition pending_parent :: "(string \<rightharpoonup> nat) \<Rightarrow> nat \<Rightarrow> kyber_type_info \<Rightarrow> (string \<times> nat) list" where
  "pending_parent N i t =
    (case kt_parentName t of None \<Rightarrow> [] | Some p \<Rightarrow> if N p = None then [(p, i)] else [])"

text \<open>What \<open>g\<close> lists of each declaration, with its position.\<close>

primrec indexed :: "(nat \<Rightarrow> 'a \<Rightarrow> 'b list) \<Rightarrow> nat \<Rightarrow> 'a list \<Rightarrow> 'b list" where
  "indexed g i [] = []"
| "indexed g i (t # ts) = g i t @ indexed g (Suc i) ts"

lemma indexed_snoc: "indexed g i (ts @ [t]) = indexed g i ts @ g (i + length ts) t"
  by (induction ts arbitrary: i) auto

lemma set_indexed: "set (indexed g i ts) = (\<Union>n < length ts. set (g (i + n) (ts ! n)))"
  by (induction ts arbitrary: i) (auto simp: lessThan_Suc_eq_insert_0)

lemma fold_create_field:
  "fold (create_field i) fs (acc, m) =
    (acc @ map (field_of (em_nativeTypeInfo m)) fs,
     m\<lparr>em_fieldsPendingType := em_fieldsPendingType m @ pending_fields (em_nativeTypeInfo m) i (length acc) fs\<rparr>)"
  by (induction fs arbitrary: acc m) (auto simp: create_field_def field_of_def Let_def)

lemma create_asset_eq:
  "create_asset gen t m =
    m\<lparr>em_guids := em_guids m @ [gen (length (em_guids m))],
      em_fieldsPendingType := em_fieldsPendingType m
        @ pending_fields (em_nativeTypeInfo m) (length (em_classInfoAssets m)) 0 (kt_fields t),
      em_classesPendingParent := em_classesPendingParent m
        @ pending_parent (em_nativeTypeInfo m) (length (em_classInfoAssets m)) t,
      em_classInfoAssets := em_classInfoAssets m @ [asset_of (em_nativeTypeInfo m) (gen (length (em_guids m))) t]\<rparr>"
  by (simp add: create_asset_def CreateClassInfoAsset_def fold_create_field Let_def asset_of_def pending_parent_def split: option.split)

definition created_assets :: "(string \<rightharpoonup> nat) \<Rightarrow> (nat \<Rightarrow> guid) \<Rightarrow> kyber_type_info list \<Rightarrow> class_asset list" where
  "created_assets N gen ts = map (\<lambda>i. asset_of N (gen i) (ts ! i)) [0..<length ts]"

lemma fold_create_asset:
  assumes "em_guids m = []" "em_classInfoAssets m = []" "em_fieldsPendingType m = []" "em_classesPendingParent m = []"
  shows "fold (create_asset gen) ts m =
    m\<lparr>em_guids := map gen [0..<length ts],
      em_fieldsPendingType := indexed (\<lambda>i t. pending_fields (em_nativeTypeInfo m) i 0 (kt_fields t)) 0 ts,
      em_classesPendingParent := indexed (pending_parent (em_nativeTypeInfo m)) 0 ts,
      em_classInfoAssets := created_assets (em_nativeTypeInfo m) gen ts\<rparr>"
  using assms
proof (induction ts rule: rev_induct)
  case (snoc t ts)
  then show ?case by (simp add: create_asset_eq indexed_snoc created_assets_def nth_append)
qed (simp add: created_assets_def)


subsection \<open>The pending references\<close>

lemma set_pending_fields:
  "set (pending_fields N i k fs) = {(tf_typeName (fs ! n), i, k + n) | n. n < length fs \<and> N (tf_typeName (fs ! n)) = None}"
  (is "?L = ?R")
proof (induction fs arbitrary: k)
  case (Cons f fs)
  have "{(tf_typeName ((f # fs) ! n), i, k + n) | n. n < Suc (length fs) \<and> N (tf_typeName ((f # fs) ! n)) = None}
      = (if N (tf_typeName f) = None then {(tf_typeName f, i, k)} else {})
        \<union> {(tf_typeName (fs ! n), i, Suc k + n) | n. n < length fs \<and> N (tf_typeName (fs ! n)) = None}"
    by (auto simp: less_Suc_eq_0_disj)
  then show ?case using Cons [of "Suc k"] by auto
qed simp

lemma distinct_pending_fields: "distinct (map snd (pending_fields N i k fs))"
  by (induction fs arbitrary: k) (auto simp: set_pending_fields image_iff)

lemma distinct_indexed:
  assumes "\<And>i t. distinct (map snd (g i t))" "\<And>i t p. p \<in> set (g i t) \<Longrightarrow> key (snd p) = i"
  shows "distinct (map snd (indexed g i ts))"
proof (induction ts arbitrary: i)
  case (Cons t ts)
  have "snd ` set (g i t) \<inter> snd ` set (indexed g (Suc i) ts) = {}"
    proof -
    have "key (snd p) = i" if "p \<in> set (g i t)" for p using assms(2) that .
    moreover have "i < key (snd p)" if "p \<in> set (indexed g (Suc i) ts)" for p
    proof -
      obtain n where "p \<in> set (g (Suc i + n) (ts ! n))" using \<open>p \<in> set (indexed g (Suc i) ts)\<close> by (auto simp: set_indexed)
      from assms(2) [OF this] show ?thesis by simp
    qed
    ultimately have "x \<noteq> y" if "x \<in> snd ` set (g i t)" "y \<in> snd ` set (indexed g (Suc i) ts)" for x y
      using that by (metis imageE less_irrefl)
    then show ?thesis by blast
  qed
  then show ?case using Cons assms(1) by simp
qed simp

lemma swapped_lookup:
  assumes "distinct (map snd ps)"
  shows "map_of (map (\<lambda>(ref, k). (k, ref)) ps) k = Some ref \<longleftrightarrow> (ref, k) \<in> set ps"
proof -
  have "distinct (map fst (map (\<lambda>(ref, k). (k, ref)) ps))"
    using assms by (simp add: comp_def case_prod_unfold)
  then show ?thesis by (force simp: map_of_eq_Some_iff image_iff)
qed


subsection \<open>After both passes\<close>

definition parent_ref :: "(string \<rightharpoonup> nat) \<Rightarrow> kyber_type_info list \<Rightarrow> kyber_type_info \<Rightarrow> nat option" where
  "parent_ref N ts t =
    (case kt_parentName t of None \<Rightarrow> None | Some p \<Rightarrow> if N p = None then last_named p (map kt_name ts) else None)"

definition field_ref :: "(string \<rightharpoonup> nat) \<Rightarrow> kyber_type_info list \<Rightarrow> type_field \<Rightarrow> nat option" where
  "field_ref N ts f = (if N (tf_typeName f) = None then last_named (tf_typeName f) (map kt_name ts) else None)"

definition linked_asset :: "(string \<rightharpoonup> nat) \<Rightarrow> kyber_type_info list \<Rightarrow> guid \<Rightarrow> kyber_type_info \<Rightarrow> class_asset" where
  "linked_asset N ts g t =
    (asset_of N g t)\<lparr>ca_SuperAsset := parent_ref N ts t,
       ca_Fields := map (\<lambda>f. (field_of N f)\<lparr>fd_Asset := field_ref N ts f\<rparr>) (kt_fields t)\<rparr>"

text \<open>Everything of the assets but the references that the passes write.\<close>

definition unlinked :: "class_asset list \<Rightarrow> class_asset list" where
  "unlinked as = map (\<lambda>a. a\<lparr>ca_SuperAsset := None, ca_Fields := map (\<lambda>f. f\<lparr>fd_Asset := None\<rparr>) (ca_Fields a)\<rparr>) as"

lemma unlinked_put_parent: "unlinked (put_parent i j as) = unlinked as"
  by (simp add: unlinked_def put_parent_def map_update_same)

lemma unlinked_put_field: "unlinked (put_field ik j as) = unlinked as"
  by (cases ik) (simp add: unlinked_def put_field_def map_update_same)

lemma unlinked_same:
  assumes "unlinked as = unlinked bs"
  shows unlinked_length: "length as = length bs"
    and unlinked_names: "type_names as = type_names bs"
    and unlinked_nth: "i < length as \<Longrightarrow>
      (as ! i)\<lparr>ca_SuperAsset := None, ca_Fields := map (\<lambda>f. f\<lparr>fd_Asset := None\<rparr>) (ca_Fields (as ! i))\<rparr> =
      (bs ! i)\<lparr>ca_SuperAsset := None, ca_Fields := map (\<lambda>f. f\<lparr>fd_Asset := None\<rparr>) (ca_Fields (bs ! i))\<rparr>"
    and unlinked_fields: "i < length as \<Longrightarrow> length (ca_Fields (as ! i)) = length (ca_Fields (bs ! i))"
proof -
  show len: "length as = length bs" using arg_cong [OF assms, of length] by (simp add: unlinked_def)
  show "type_names as = type_names bs"
    using arg_cong [OF assms, of "map ca_TypeName"] by (simp add: unlinked_def comp_def)
  show n: "(as ! i)\<lparr>ca_SuperAsset := None, ca_Fields := map (\<lambda>f. f\<lparr>fd_Asset := None\<rparr>) (ca_Fields (as ! i))\<rparr> =
      (bs ! i)\<lparr>ca_SuperAsset := None, ca_Fields := map (\<lambda>f. f\<lparr>fd_Asset := None\<rparr>) (ca_Fields (bs ! i))\<rparr>" if "i < length as"
    using arg_cong [OF assms, of "\<lambda>xs. xs ! i"] that len by (simp add: unlinked_def)
  show "length (ca_Fields (as ! i)) = length (ca_Fields (bs ! i))" if "i < length as"
    using arg_cong [OF n [OF that], of "\<lambda>a. length (ca_Fields a)"] by simp
qed

lemma asset_eqI:
  assumes u: "unlinked as = unlinked bs" and i: "i < length as"
    and "ca_SuperAsset (as ! i) = ca_SuperAsset (bs ! i)"
    and f: "\<And>k. k < length (ca_Fields (as ! i)) \<Longrightarrow> fd_Asset (ca_Fields (as ! i) ! k) = fd_Asset (ca_Fields (bs ! i) ! k)"
  shows "as ! i = bs ! i"
proof -
  have "ca_Fields (as ! i) = ca_Fields (bs ! i)"
  proof (rule nth_equalityI)
    show l: "length (ca_Fields (as ! i)) = length (ca_Fields (bs ! i))" by (rule unlinked_fields [OF u i])
    fix k assume k: "k < length (ca_Fields (as ! i))"
    have "(ca_Fields (as ! i) ! k)\<lparr>fd_Asset := None\<rparr> = (ca_Fields (bs ! i) ! k)\<lparr>fd_Asset := None\<rparr>"
      using arg_cong [OF unlinked_nth [OF u i], of "\<lambda>a. ca_Fields a ! k"] k l by simp
    then show "ca_Fields (as ! i) ! k = ca_Fields (bs ! i) ! k"
      using f [OF k] by (cases "ca_Fields (as ! i) ! k", cases "ca_Fields (bs ! i) ! k") simp
  qed
  then show ?thesis
    using unlinked_nth [OF u i] assms(3) by (cases "as ! i", cases "bs ! i") simp
qed

lemma created_assets_simps [simp]:
  "length (created_assets N gen ts) = length ts"
  "type_names (created_assets N gen ts) = map kt_name ts"
  "i < length ts \<Longrightarrow> created_assets N gen ts ! i = asset_of N (gen i) (ts ! i)"
proof -
  show "type_names (created_assets N gen ts) = map kt_name ts"
    by (rule nth_equalityI) (simp_all add: created_assets_def asset_of_def)
qed (simp_all add: created_assets_def)

lemma option_eqI: "(\<And>r. x = Some r \<longleftrightarrow> y = Some r) \<Longrightarrow> x = y"
  by (cases x; cases y) auto

lemma pending_parents:
  fixes ts :: "kyber_type_info list" and N :: "string \<rightharpoonup> nat"
  defines "ps \<equiv> indexed (pending_parent N) 0 ts"
  shows distinct_parents: "distinct (map snd ps)"
    and parents_in_range: "\<forall>(ref, i) \<in> set ps. i < length ts"
    and parents_lookup: "i < length ts \<Longrightarrow> map_of (map (\<lambda>(ref, k). (k, ref)) ps) i
      = (case kt_parentName (ts ! i) of None \<Rightarrow> None | Some p \<Rightarrow> if N p = None then Some p else None)"
proof -
  show d: "distinct (map snd ps)"
    unfolding ps_def
    by (rule distinct_indexed [where key = "\<lambda>k. k"]) (auto simp: pending_parent_def split: option.splits if_splits)
  show "\<forall>(ref, i) \<in> set ps. i < length ts"
    by (auto simp: ps_def set_indexed pending_parent_def split: option.splits if_splits)
  show "map_of (map (\<lambda>(ref, k). (k, ref)) ps) i
      = (case kt_parentName (ts ! i) of None \<Rightarrow> None | Some p \<Rightarrow> if N p = None then Some p else None)" if "i < length ts"
  proof -
    have "(ref, i) \<in> set ps \<longleftrightarrow> kt_parentName (ts ! i) = Some ref \<and> N ref = None" for ref
      using that by (auto simp: ps_def set_indexed pending_parent_def split: option.splits if_splits)
    then have "map_of (map (\<lambda>(ref, k). (k, ref)) ps) i = Some ref \<longleftrightarrow>
        (case kt_parentName (ts ! i) of None \<Rightarrow> None | Some p \<Rightarrow> if N p = None then Some p else None) = Some ref" for ref
      using swapped_lookup [OF d, of i] by (auto split: option.splits if_splits)
    then show ?thesis by (rule option_eqI)
  qed
qed

lemma pending_field_types:
  fixes ts :: "kyber_type_info list" and N :: "string \<rightharpoonup> nat"
  defines "fs \<equiv> indexed (\<lambda>i t. pending_fields N i 0 (kt_fields t)) 0 ts"
  shows distinct_field_types: "distinct (map snd fs)"
    and field_types_in_range: "\<forall>(ref, i, k) \<in> set fs. i < length ts \<and> k < length (kt_fields (ts ! i))"
    and field_types_lookup: "i < length ts \<Longrightarrow> k < length (kt_fields (ts ! i)) \<Longrightarrow>
      map_of (map (\<lambda>(ref, k). (k, ref)) fs) (i, k)
      = (if N (tf_typeName (kt_fields (ts ! i) ! k)) = None then Some (tf_typeName (kt_fields (ts ! i) ! k)) else None)"
proof -
  show d: "distinct (map snd fs)"
    unfolding fs_def
    by (rule distinct_indexed [where key = fst]) (auto simp: distinct_pending_fields set_pending_fields)
  show "\<forall>(ref, i, k) \<in> set fs. i < length ts \<and> k < length (kt_fields (ts ! i))"
    by (auto simp: fs_def set_indexed set_pending_fields)
  show "map_of (map (\<lambda>(ref, k). (k, ref)) fs) (i, k)
      = (if N (tf_typeName (kt_fields (ts ! i) ! k)) = None then Some (tf_typeName (kt_fields (ts ! i) ! k)) else None)"
    if "i < length ts" "k < length (kt_fields (ts ! i))"
  proof -
    have "(ref, i, k) \<in> set fs \<longleftrightarrow> ref = tf_typeName (kt_fields (ts ! i) ! k) \<and> N ref = None" for ref
      using that by (auto simp: fs_def set_indexed set_pending_fields)
    then show ?thesis
      using swapped_lookup [OF d, of "(i, k)"] by (cases "map_of (map (\<lambda>(ref, k). (k, ref)) fs) (i, k)") auto
  qed
qed

lemma linked_parents:
  fixes ts :: "kyber_type_info list" and N :: "string \<rightharpoonup> nat" and gen :: "nat \<Rightarrow> guid"
  defines "bs \<equiv> fold (assign_ref put_parent) (indexed (pending_parent N) 0 ts) (created_assets N gen ts)"
  shows "unlinked bs = unlinked (created_assets N gen ts)"
    and "i < length ts \<Longrightarrow> ca_SuperAsset (bs ! i) = parent_ref N ts (ts ! i)"
    and "i < length ts \<Longrightarrow> k < length (kt_fields (ts ! i)) \<Longrightarrow> fd_Asset (ca_Fields (bs ! i) ! k) = None"
proof -
  show "unlinked bs = unlinked (created_assets N gen ts)"
    by (simp add: bs_def parents.assign_frame [of unlinked] unlinked_put_parent)
  show "ca_SuperAsset (bs ! i) = parent_ref N ts (ts ! i)" if "i < length ts"
    using that parents_in_range [of N ts]
    by (simp add: bs_def parents.links distinct_parents parents_lookup parent_ref_def asset_of_def split: option.split)
  show "fd_Asset (ca_Fields (bs ! i) ! k) = None" if "i < length ts" "k < length (kt_fields (ts ! i))"
  proof -
    have len: "length bs = length ts"
      using unlinked_length [OF \<open>unlinked bs = _\<close>] by simp
    have "map ca_Fields bs = map ca_Fields (created_assets N gen ts)"
      unfolding bs_def by (rule parents.assign_frame) (simp add: put_parent_def map_update_same)
    from arg_cong [OF this, of "\<lambda>xs. xs ! i"] show ?thesis
      using that len by (simp add: asset_of_def field_of_def CreateFieldData_def)
  qed
qed

lemma linked_assets:
  "fold (assign_ref put_field) (indexed (\<lambda>i t. pending_fields N i 0 (kt_fields t)) 0 ts)
     (fold (assign_ref put_parent) (indexed (pending_parent N) 0 ts) (created_assets N gen ts))
   = map (\<lambda>i. linked_asset N ts (gen i) (ts ! i)) [0..<length ts]"
  (is "fold _ ?fs ?bs = ?spec")
proof (rule nth_equalityI)
  let ?new = "fold (assign_ref put_field) ?fs ?bs"
  have obs: "unlinked ?new = unlinked ?bs"
    by (rule field_types.assign_frame) (rule unlinked_put_field)
  have u: "unlinked ?new = unlinked ?spec"
    by (simp add: obs linked_parents(1))
      (simp add: created_assets_def unlinked_def asset_of_def linked_asset_def comp_def field_of_def CreateFieldData_def)
  show len: "length ?new = length ?spec" by (rule unlinked_length [OF u])
  have lb: "length ?bs = length ts" using unlinked_length [OF obs] len by simp
  have nf: "length (ca_Fields (?bs ! i)) = length (kt_fields (ts ! i))" if "i < length ts" for i
    using unlinked_fields [OF linked_parents(1) [of N ts gen], of i] that lb by (simp add: asset_of_def)
  have slots: "\<forall>(ref, k) \<in> set ?fs. field_slot k ?bs"
    using field_types_in_range [of N ts] by (fastforce simp: field_slot_def lb nf)
  fix i assume "i < length ?new"
  then have i: "i < length ts" using len by simp
  show "?new ! i = ?spec ! i"
  proof (rule asset_eqI [OF u])
    show "i < length ?new" using i len by simp
    have "map ca_SuperAsset ?new = map ca_SuperAsset ?bs"
      by (rule field_types.assign_frame) (simp add: put_field_def map_update_same split: prod.split)
    from arg_cong [OF this, of "\<lambda>xs. xs ! i"] have "ca_SuperAsset (?new ! i) = ca_SuperAsset (?bs ! i)"
      using \<open>i < length ?new\<close> i lb by simp
    then show "ca_SuperAsset (?new ! i) = ca_SuperAsset (?spec ! i)"
      using i by (simp add: linked_parents(2) linked_asset_def)
    fix k assume "k < length (ca_Fields (?new ! i))"
    then have k: "k < length (kt_fields (ts ! i))" using unlinked_fields [OF obs, of i] nf i len by simp
    show "fd_Asset (ca_Fields (?new ! i) ! k) = fd_Asset (ca_Fields (?spec ! i) ! k)"
      using field_types.links [OF slots distinct_field_types, of "(i, k)"] i k
      by (simp add: field_types_lookup linked_parents(3) linked_asset_def field_ref_def
          unlinked_names [OF linked_parents(1)] split: option.split)
  qed
qed


section \<open>The registered types\<close>

text \<open>
  What the code relies on of the game's builder: for an asset of the manager that has no built type it returns a type, and by then that
  type is recorded as built (the hook \<open>TypeBuilderInternalBuildHk\<close> does it), together with those of the assets it built on the way.
\<close>

definition builder_ok :: "'r builder \<Rightarrow> bool" where
  "builder_ok build \<longleftrightarrow>
    (\<forall>m i. i < length (em_classInfoAssets m) \<and> ca_guid (em_classInfoAssets m ! i) \<in> set (em_guids m)
           \<and> em_builtTypes m (ca_guid (em_classInfoAssets m ! i)) = None \<longrightarrow>
       (\<exists>t B. build m i = (t, m\<lparr>em_builtTypes := B\<rparr>) \<and> em_builtTypes m \<subseteq>\<^sub>m B
              \<and> B (ca_guid (em_classInfoAssets m ! i)) = Some t))"

lemma hook_builder_ok: "builder_ok (TypeBuilderInternalBuildHk stub orig)"
proof -
  have "\<exists>t B. TypeBuilderInternalBuildHk stub orig m i = (t, m\<lparr>em_builtTypes := B\<rparr>) \<and> em_builtTypes m \<subseteq>\<^sub>m B
      \<and> B (ca_guid (em_classInfoAssets m ! i)) = Some t"
    if "ca_guid (em_classInfoAssets m ! i) \<in> set (em_guids m)" "em_builtTypes m (ca_guid (em_classInfoAssets m ! i)) = None" for m i
    using that
    by (intro exI [of _ "stub (em_classInfoAssets m ! i)"]
        exI [of _ "(em_builtTypes m)(ca_guid (em_classInfoAssets m ! i) \<mapsto> stub (em_classInfoAssets m ! i))"])
       (auto simp: TypeBuilderInternalBuildHk_def IsGuidUsed_def AddBuiltType_def count_list_0_iff map_le_def Let_def)
  then show ?thesis by (auto simp: builder_ok_def)
qed

definition registered :: "'r entity_types \<Rightarrow> nat \<Rightarrow> 'r entity_types \<Rightarrow> bool" where
  "registered m0 n m \<longleftrightarrow>
    em_classInfoAssets m = em_classInfoAssets m0 \<and> em_guids m = em_guids m0
    \<and> em_nativeTypeInfo m = em_nativeTypeInfo m0 \<and> em_nativeTypeInfoGuidMap m = em_nativeTypeInfoGuidMap m0
    \<and> length (em_createdTypeInfo m) = n
    \<and> (\<forall>i < n. em_builtTypes m (ca_guid (em_classInfoAssets m ! i)) = Some (em_createdTypeInfo m ! i)
            \<and> em_createdTypeInfoByGuid m (ca_guid (em_classInfoAssets m ! i)) = Some (em_createdTypeInfo m ! i))
    \<and> (\<forall>name. em_createdTypeInfoByName m name =
          map_option (\<lambda>i. em_createdTypeInfo m ! i) (last_named name (type_names (take n (em_classInfoAssets m)))))"

lemma RegisterType_ok:
  assumes "builder_ok build" "i < length (em_classInfoAssets m)" "ca_guid (em_classInfoAssets m ! i) \<in> set (em_guids m)"
  obtains t B where "RegisterType build i m = (t, m\<lparr>em_builtTypes := B\<rparr>)" "em_builtTypes m \<subseteq>\<^sub>m B"
    "B (ca_guid (em_classInfoAssets m ! i)) = Some t"
proof (cases "em_builtTypes m (ca_guid (em_classInfoAssets m ! i))")
  case None
  then show ?thesis
    using assms that unfolding builder_ok_def by (fastforce simp: RegisterType_def GetBuiltType_def)
next
  case (Some t)
  then have "RegisterType build i m = (t, m\<lparr>em_builtTypes := em_builtTypes m\<rparr>)"
    by (simp add: RegisterType_def GetBuiltType_def)
  then show ?thesis by (rule that) (simp_all add: Some)
qed

lemma last_named_snoc: "last_named ref (names @ [x]) = (if x = ref then Some (length names) else last_named ref names)"
proof -
  have "find (\<lambda>j. (names @ [x]) ! j = ref) (rev [0..<length names]) = find (\<lambda>j. names ! j = ref) (rev [0..<length names])"
    by (rule find_cong) (auto simp: nth_append)
  then show ?thesis by (simp add: last_named_def)
qed

lemma last_named_bound: "last_named ref names = Some j \<Longrightarrow> j < length names \<and> names ! j = ref"
  by (auto simp: last_named_def find_Some_iff rev_nth)

lemma register_asset_step:
  assumes "builder_ok build" "registered m0 n m" "n < length (em_classInfoAssets m0)"
    "ca_guid (em_classInfoAssets m0 ! n) \<in> set (em_guids m0)"
  shows "registered m0 (Suc n) (register_asset build cb n m)"
proof -
  let ?a = "em_classInfoAssets m0 ! n"
  have m: "em_classInfoAssets m = em_classInfoAssets m0" "em_guids m = em_guids m0" "length (em_createdTypeInfo m) = n"
    using assms(2) by (auto simp: registered_def)
  obtain t B where B: "RegisterType build n m = (t, m\<lparr>em_builtTypes := B\<rparr>)" "em_builtTypes m \<subseteq>\<^sub>m B" "B (ca_guid ?a) = Some t"
    using RegisterType_ok [of build n m] assms m by auto
  have old: "B (ca_guid (em_classInfoAssets m0 ! i)) = Some (em_createdTypeInfo m ! i)" if "i < n" for i
    using assms(2) that B(2) by (auto simp: registered_def map_le_def dom_def)
  have same: "em_createdTypeInfo m ! i = t" if "i < n" "ca_guid (em_classInfoAssets m0 ! i) = ca_guid ?a" for i
    using old [OF that(1)] that(2) B(3) by simp
  have tk: "type_names (take (Suc n) (em_classInfoAssets m0)) = type_names (take n (em_classInfoAssets m0)) @ [ca_TypeName ?a]"
    using assms(3) by (simp add: take_Suc_conv_app_nth)
  have nm: "map_option (\<lambda>i. (em_createdTypeInfo m @ [t]) ! i) (last_named name (type_names (take n (em_classInfoAssets m0))))
      = map_option (\<lambda>i. em_createdTypeInfo m ! i) (last_named name (type_names (take n (em_classInfoAssets m0))))" for name
    using m(3) assms(3)
    by (cases "last_named name (type_names (take n (em_classInfoAssets m0)))") (auto dest!: last_named_bound simp: nth_append)
  show ?thesis
    using assms(2,3) old B(3) m same
    by (auto simp: registered_def register_asset_def B(1) m Let_def tk last_named_snoc nm nth_append less_Suc_eq
        simp del: take_Suc_conv_app_nth split: option.split)
qed


lemma register_assets:
  assumes "builder_ok build" "registered m0 0 m0" "\<forall>a \<in> set (em_classInfoAssets m0). ca_guid a \<in> set (em_guids m0)"
    "n \<le> length (em_classInfoAssets m0)"
  shows "registered m0 n (fold (register_asset build cb) [0..<n] m0)"
  using assms(4)
proof (induction n)
  case (Suc n)
  then show ?case using register_asset_step [OF assms(1)] assms(3) by simp
qed (simp add: assms(2))

definition native_table :: "(string \<times> nat) list \<Rightarrow> string \<rightharpoonup> nat" where
  "native_table infos = map_of (rev infos)"

lemma native_table_fold: "foldl (\<lambda>t (name, info). t(name \<mapsto> info)) M infos = M ++ native_table infos"
  by (induction infos rule: rev_induct) (auto simp: native_table_def fun_eq_iff map_add_def)

abbreviation types_of :: "(string \<times> nat) list \<Rightarrow> (nat \<Rightarrow> guid) \<Rightarrow> 'r builder \<Rightarrow> ('c, 'r) static_data \<Rightarrow> 'r entity_types" where
  "types_of infos gen build sd \<equiv> RegisterTypes infos gen build sd entity_types_new"

lemma RegisterTypes_registered:
  assumes "builder_ok build"
  shows "\<exists>m0. registered m0 (length (sd_registeredTypeInfo sd)) (types_of infos gen build sd)
     \<and> em_classInfoAssets m0 = map (\<lambda>i. linked_asset (native_table infos) (sd_registeredTypeInfo sd) (gen i) (sd_registeredTypeInfo sd ! i))
         [0..<length (sd_registeredTypeInfo sd)]
     \<and> em_nativeTypeInfo m0 = native_table infos \<and> em_nativeTypeInfoGuidMap m0 = Map.empty"
proof -
  let ?ts = "sd_registeredTypeInfo sd"
  let ?m = "RegisterNativeTypeInfo infos entity_types_new :: 'a entity_types"
  define m0 where "m0 = link_assets (fold (create_asset gen) ?ts ?m)"
  have N: "em_nativeTypeInfo ?m = native_table infos"
    by (simp add: RegisterNativeTypeInfo_def entity_types_new_def native_table_fold)
  have f: "fold (create_asset gen) ?ts ?m =
    ?m\<lparr>em_guids := map gen [0..<length ?ts],
      em_fieldsPendingType := indexed (\<lambda>i t. pending_fields (native_table infos) i 0 (kt_fields t)) 0 ?ts,
      em_classesPendingParent := indexed (pending_parent (native_table infos)) 0 ?ts,
      em_classInfoAssets := created_assets (native_table infos) gen ?ts\<rparr>"
    using fold_create_asset [of ?m gen ?ts] unfolding N by (simp add: RegisterNativeTypeInfo_def entity_types_new_def)
  have as: "em_classInfoAssets m0 = map (\<lambda>i. linked_asset (native_table infos) ?ts (gen i) (?ts ! i)) [0..<length ?ts]"
    unfolding m0_def f by (simp add: link_assets_def linked_assets)
  have "registered m0 0 m0"
    by (simp add: registered_def m0_def f link_assets_def last_named_def)
       (simp add: RegisterNativeTypeInfo_def entity_types_new_def)
  moreover have "em_guids m0 = map gen [0..<length ?ts]" by (simp add: m0_def f link_assets_def)
  then have "\<forall>a \<in> set (em_classInfoAssets m0). ca_guid a \<in> set (em_guids m0)"
    by (auto simp: as linked_asset_def asset_of_def)
  ultimately have "registered m0 (length ?ts) (fold (register_asset build (sd_GetRegistrationCallback sd)) [0..<length ?ts] m0)"
    using register_assets [OF assms, of m0 "length ?ts"] by (simp add: as)
  moreover have "types_of infos gen build sd = fold (register_asset build (sd_GetRegistrationCallback sd)) [0..<length ?ts] m0"
    by (simp add: RegisterTypes_def Let_def m0_def [symmetric] as)
  moreover have "em_nativeTypeInfo m0 = native_table infos" "em_nativeTypeInfoGuidMap m0 = Map.empty"
    by (simp_all add: m0_def f link_assets_def N) (simp add: RegisterNativeTypeInfo_def entity_types_new_def)
  ultimately show ?thesis using as by auto
qed


section \<open>Properties\<close>

text \<open>C14: When the registration is done, there is one asset per declared type in the order of the declarations, and its references are complete:
  a parent or a field type that the game knows refers to the game's type, any other one that is declared refers to the last
  declaration of that name, also when it comes later in the list or is the type itself, and only a name that neither knows is left without
  a reference.\<close>

theorem references_resolved:
  assumes "builder_ok build"
  shows "em_classInfoAssets (types_of infos gen build sd) =
    map (\<lambda>i. linked_asset (native_table infos) (sd_registeredTypeInfo sd) (gen i) (sd_registeredTypeInfo sd ! i))
      [0..<length (sd_registeredTypeInfo sd)]"
  using RegisterTypes_registered [OF assms, of sd infos gen] by (auto simp: registered_def)

text \<open>C15: Every declared type can be found after the registration, by the hook on the game's search with the identifier of its asset and by its
  name, and all tables agree on it: a type that the builder made early, for a reference, is the one that is recorded for its asset.\<close>

theorem custom_types_found:
  assumes "builder_ok build" "i < length (sd_registeredTypeInfo sd)" and m_def: "m = types_of infos gen build sd"
  shows "TypeBuilderInternalFindTypeHk build' orig (gen i) m = Inr (Some (em_createdTypeInfo m ! i), m)
     \<and> em_builtTypes m (gen i) = Some (em_createdTypeInfo m ! i)
     \<and> (\<exists>j. last_named (kt_name (sd_registeredTypeInfo sd ! i)) (map kt_name (sd_registeredTypeInfo sd)) = Some j
           \<and> InternalCreateContainer create m (kt_name (sd_registeredTypeInfo sd ! i))
             = Some (create (em_createdTypeInfo m ! j), em_createdTypeInfo m ! j))"
proof -
  let ?ts = "sd_registeredTypeInfo sd"
  obtain m0 where reg: "registered m0 (length ?ts) m"
    and as: "em_classInfoAssets m0 = map (\<lambda>i. linked_asset (native_table infos) ?ts (gen i) (?ts ! i)) [0..<length ?ts]"
    and none: "em_nativeTypeInfoGuidMap m0 = Map.empty"
    using RegisterTypes_registered [OF assms(1), of sd infos gen] by (auto simp: m_def)
  have g: "ca_guid (em_classInfoAssets m ! i) = gen i"
    using reg assms(2) by (simp add: registered_def as linked_asset_def asset_of_def)
  have names: "type_names (take (length ?ts) (em_classInfoAssets m)) = map kt_name ?ts"
    using reg by (intro nth_equalityI) (auto simp: registered_def as linked_asset_def asset_of_def)
  obtain j where j: "last_named (kt_name (?ts ! i)) (map kt_name ?ts) = Some j"
    using assms(2) by (cases "last_named (kt_name (?ts ! i)) (map kt_name ?ts)")
      (auto simp: last_named_def find_None_iff)
  have "em_createdTypeInfoByName m (kt_name (?ts ! i)) = Some (em_createdTypeInfo m ! j)"
    using reg j names by (simp add: registered_def)
  then show ?thesis
    using reg assms(2) g none j
    by (auto simp: registered_def TypeBuilderInternalFindTypeHk_def GetNativeTypeByGuid_def GetCreatedType_def InternalCreateContainer_def)
qed


text \<open>The walk of \<open>isKindOf\<close> as the closure of the step to another super class.\<close>

inductive super_step :: "(nat \<Rightarrow> class_info) \<Rightarrow> nat \<Rightarrow> nat \<Rightarrow> bool" for cls where
  super: "ci_superClass (cls t) = Some s \<Longrightarrow> s \<noteq> t \<Longrightarrow> super_step cls t s"

inductive_simps super_step_simp: "super_step cls t s"

abbreviation derived :: "(nat \<Rightarrow> class_info) \<Rightarrow> nat \<Rightarrow> nat \<Rightarrow> bool" where
  "derived cls \<equiv> (super_step cls)\<^sup>*\<^sup>*"

text \<open>When no class is reached again from its super class, \<open>isKindOf\<close> returns on every class, and its answer is whether the class or one of
  the classes it derives from has the name.\<close>

theorem isKindOf_returns:
  assumes "\<And>t s. super_step cls t s \<Longrightarrow> rank s < (rank t :: nat)"
  shows "isKindOf cls t name = Some (\<exists>u. derived cls t u \<and> ci_name (cls u) = name)"
proof (induction "rank t" arbitrary: t rule: less_induct)
  case less
  show ?case
  proof (cases "ci_name (cls t) = name")
    case False
    have step: "(\<exists>u. derived cls t u \<and> ci_name (cls u) = name) \<longleftrightarrow>
        (\<exists>s u. super_step cls t s \<and> derived cls s u \<and> ci_name (cls u) = name)"
      using False by (metis converse_rtranclpE converse_rtranclp_into_rtranclp)
    show ?thesis
    proof (cases "\<exists>s. super_step cls t s")
      case True
      then obtain s where s: "ci_superClass (cls t) = Some s" "s \<noteq> t" by (auto simp: super_step_simp)
      then have "isKindOf cls s name = Some (\<exists>u. derived cls s u \<and> ci_name (cls u) = name)"
        using less assms by (simp add: super_step_simp)
      then show ?thesis using False s step by (simp add: isKindOf.simps [of cls t] super_step_simp)
    next
      case no: False
      then have "ci_superClass (cls t) = None \<or> ci_superClass (cls t) = Some t"
        by (cases "ci_superClass (cls t)") (auto simp: super_step_simp)
      then show ?thesis using False step no by (auto simp: isKindOf.simps [of cls t])
    qed
  qed (auto simp: isKindOf.simps [of cls t])
qed


section \<open>Witnesses\<close>

text \<open>Two declarations of the mod, of which the first has a field of the second's type, and a type whose parent nobody knows.\<close>

definition sample_static :: "(unit, unit) static_data" where
  "sample_static =
    sd_RegisterType (KyberTypeInfo_new ''Orphan'' (Some ''Missing''))
     (sd_RegisterType (AddField ''CString'' ''Name'' False (KyberTypeInfo_new ''KyberVoipCaptureDeviceData'' (Some ''DataContainer'')))
      (sd_RegisterType (AddField ''KyberVoipCaptureDeviceData'' ''Devices'' True
         (KyberTypeInfo_new ''KyberVoipCaptureDevicesEntityData'' (Some ''EntityData'')))
       \<lparr>sd_registeredTypeInfo = [], sd_creators = Map.empty, sd_overrideCreators = {}, sd_registrationCallbacks = Map.empty\<rparr>))"

definition sample_natives :: "(string \<times> nat) list" where
  "sample_natives = [(''dummyData'', 1), (''CString'', 2), (''DataContainer'', 3)]"

definition sample_gen :: "nat \<Rightarrow> guid" where
  "sample_gen n = word_of_nat n # replicate 15 0"

abbreviation "sample_build \<equiv> TypeBuilderInternalBuildHk (\<lambda>a. 100 + length (ca_Fields a)) (\<lambda>_. 0)"

lemmas sample_defs = sample_static_def sample_natives_def sample_gen_def sd_RegisterType_def AddField_def KyberTypeInfo_new_def

theorem references_resolved_witness:
  "map (\<lambda>a. (ca_TypeName a, ca_SuperTypeInfo a, ca_SuperAsset a, map (\<lambda>f. (fd_TypeInfo f, fd_Asset f)) (ca_Fields a)))
     (em_classInfoAssets (types_of sample_natives sample_gen sample_build sample_static))
   = [(''KyberVoipCaptureDevicesEntityData'', Some 1, None, [(None, Some 1)]),
      (''KyberVoipCaptureDeviceData'', Some 3, None, [(Some 2, None)]),
      (''Orphan'', None, None, [])]"
  unfolding references_resolved [OF hook_builder_ok, of sample_natives sample_gen "\<lambda>a. 100 + length (ca_Fields a)" "\<lambda>_. 0" sample_static]
  by (simp add: sample_defs linked_asset_def asset_of_def parent_ref_def field_ref_def field_of_def CreateFieldData_def
      native_table_def last_named_def upt_rec)

theorem custom_types_found_witness:
  "TypeBuilderInternalFindTypeHk sample_build (\<lambda>_. None) (sample_gen 1) (types_of sample_natives sample_gen sample_build sample_static)
   = Inr (Some (em_createdTypeInfo (types_of sample_natives sample_gen sample_build sample_static) ! 1),
          types_of sample_natives sample_gen sample_build sample_static)"
  using custom_types_found [OF hook_builder_ok _ refl, of 1 sample_static sample_build "\<lambda>_. None" sample_gen
      sample_natives "\<lambda>a. 100 + length (ca_Fields a)" "\<lambda>_. 0" id]
  by (simp add: sample_static_def sd_RegisterType_def)

end
