(* ===== verification/Entity_Manager.thy ===== *)
theory Entity_Manager
  imports Entity_Types
begin

text \<open>
  The life of the entities that the mod makes or wraps (\<^verbatim>\<open>Entity/NativeEntityManager.cpp\<close>, \<^verbatim>\<open>Utilities/PlatformUtils.cpp\<close> and the
  hook on the entity factory in \<^verbatim>\<open>Core/Console.cpp\<close>). An entity of the game is an object with a pointer to a table of virtual functions that it
  shares with the other objects of its class. The manager gives an entity a table of its own, puts its four hooks into it, and keeps
  a binding from the entity to the object of the mod, which receives the calls and passes them on to the functions that were there.

  Addresses of entities, tables, data containers and objects of the mod are numbers, and a heap maps the live ones. A function of the game is a
  number too; what is called, in order, is the log \<open>es_log\<close>. The game's factory is represented by its result. A class of the mod is
  its creator: which virtual methods it replaces without calling those of the base class, and whether its constructor asks for
  updates. What its methods for events, changed properties and destruction do beyond the base class is not modelled: they are
  represented by their calls. What its \<^verbatim>\<open>Update\<close> does is an argument, because it runs inside the manager's loop over the bindings.
\<close>

section \<open>Objects\<close>

datatype vfn = Game_Fn nat | Hk_PropertyChanged | Hk_Event | Hk_OnDestroy | Hk_Deinit

datatype slot = Property_Changed | Event_Received | On_Destroy | On_Deinit

record native_entity =
  ne_vtable :: nat
  ne_isComponent :: bool
  ne_isSpatial :: bool
  ne_data :: "nat option"
  ne_spatialData :: "nat option"
  ne_realm :: nat

record kyber_class =
  kc_overrides :: "slot set"
  kc_wantUpdates :: bool

record kyber_entity =
  ke_native :: nat
  ke_data :: nat
  ke_class :: kyber_class
  ke_isSpatialEntity :: bool
  ke_isInitialized :: bool
  ke_wantUpdates :: bool
  ke_origPropertyChangedFn :: "vfn option"
  ke_origOnDestroyFn :: "vfn option"
  ke_origEventFn :: "vfn option"
  ke_origDeinitFn :: "vfn option"

datatype entity_call =
    Game_Call nat nat
  | Kyber_Call nat slot
  | Kyber_Update nat
  | Script_Event string nat

record entity_state =
  es_vtables :: "nat \<rightharpoonup> vfn list"
  es_natives :: "nat \<rightharpoonup> native_entity"
  es_kybers :: "nat \<rightharpoonup> kyber_entity"
  es_bindings :: "(nat \<times> nat) list"
  es_nextTable :: nat
  es_nextKyber :: nat
  es_log :: "entity_call list"

text \<open>What the manager reads and does not change: the declarations, the types it made, the classes and the type of each container.\<close>

record entity_world =
  ew_static :: "(kyber_class, unit) static_data"
  ew_createdTypeInfo :: "nat list"
  ew_classes :: "nat \<Rightarrow> class_info"
  ew_dataType :: "nat \<Rightarrow> nat option"
  ew_scripts :: bool

definition log_call :: "entity_call \<Rightarrow> entity_state \<Rightarrow> entity_state" where
  "log_call c s = s\<lparr>es_log := es_log s @ [c]\<rparr>"


section \<open>Tables of virtual functions\<close>

definition DuplicateVTable :: "nat \<Rightarrow> nat \<Rightarrow> entity_state \<Rightarrow> entity_state result" where
  "DuplicateVTable entity numVirtualFunctions s =
    (case es_natives s entity of
       None \<Rightarrow> Inl Freed_Access
     | Some ne \<Rightarrow>
       (case es_vtables s (ne_vtable ne) of
          None \<Rightarrow> Inl Freed_Access
        | Some fs \<Rightarrow>
            if numVirtualFunctions \<le> length fs
            then Inr (s\<lparr>es_vtables := (es_vtables s)(es_nextTable s \<mapsto> take numVirtualFunctions fs),
                        es_natives := (es_natives s)(entity \<mapsto> ne\<lparr>ne_vtable := es_nextTable s\<rparr>),
                        es_nextTable := Suc (es_nextTable s)\<rparr>)
            else Inl Out_Of_Bounds))"

definition HookVTableFunction :: "nat \<Rightarrow> vfn \<Rightarrow> nat \<Rightarrow> entity_state \<Rightarrow> (vfn \<times> entity_state) result" where
  "HookVTableFunction entity fnHookFunc offset s =
    (case es_natives s entity of
       None \<Rightarrow> Inl Freed_Access
     | Some ne \<Rightarrow>
       (case es_vtables s (ne_vtable ne) of
          None \<Rightarrow> Inl Freed_Access
        | Some fs \<Rightarrow>
            if offset < length fs
            then Inr (fs ! offset, s\<lparr>es_vtables := (es_vtables s)(ne_vtable ne \<mapsto> fs[offset := fnHookFunc])\<rparr>)
            else Inl Out_Of_Bounds))"

text \<open>The four hooks in the order in which the two functions of the manager put them in.\<close>

definition hook_entity :: "nat \<Rightarrow> entity_state \<Rightarrow> (vfn \<times> vfn \<times> vfn \<times> vfn \<times> entity_state) result" where
  "hook_entity entity s =
    (case HookVTableFunction entity Hk_PropertyChanged 5 s of Inl e \<Rightarrow> Inl e | Inr (origPropertyChangedFn, s) \<Rightarrow>
     case HookVTableFunction entity Hk_OnDestroy 9 s of Inl e \<Rightarrow> Inl e | Inr (origOnDestroyFn, s) \<Rightarrow>
     case HookVTableFunction entity Hk_Event 7 s of Inl e \<Rightarrow> Inl e | Inr (origEventFn, s) \<Rightarrow>
     case HookVTableFunction entity Hk_Deinit 20 s of Inl e \<Rightarrow> Inl e | Inr (origDeinitFn, s) \<Rightarrow>
       Inr (origPropertyChangedFn, origOnDestroyFn, origEventFn, origDeinitFn, s))"


section \<open>Bindings\<close>

definition GetKyberEntity :: "entity_state \<Rightarrow> nat \<Rightarrow> nat option" where
  "GetKyberEntity s nativeEntity = map_option snd (find (\<lambda>b. fst b = nativeEntity) (es_bindings s))"

definition RemoveEntity :: "nat \<Rightarrow> entity_state \<Rightarrow> entity_state" where
  "RemoveEntity entity s = s\<lparr>es_bindings := filter (\<lambda>b. fst b \<noteq> entity) (es_bindings s)\<rparr>"

definition KyberEntityBase_new :: "kyber_class \<Rightarrow> nat \<Rightarrow> nat \<Rightarrow> kyber_entity" where
  "KyberEntityBase_new c entity dat =
    \<lparr>ke_native = entity, ke_data = dat, ke_class = c, ke_isSpatialEntity = False, ke_isInitialized = True,
     ke_wantUpdates = kc_wantUpdates c, ke_origPropertyChangedFn = None, ke_origOnDestroyFn = None,
     ke_origEventFn = None, ke_origDeinitFn = None\<rparr>"

definition bind_entity :: "nat \<Rightarrow> kyber_entity \<Rightarrow> entity_state \<Rightarrow> entity_state" where
  "bind_entity entity ke s =
    s\<lparr>es_kybers := (es_kybers s)(es_nextKyber s \<mapsto> ke), es_nextKyber := Suc (es_nextKyber s),
      es_bindings := es_bindings s @ [(entity, es_nextKyber s)]\<rparr>"


section \<open>Creation\<close>

definition type_name :: "entity_world \<Rightarrow> nat \<Rightarrow> string" where
  "type_name w t = ci_name (ew_classes w t)"

text \<open>
  \<open>made\<close> is what the game's creator returns: null, or the address of a new object. The result is the entity, or null.
  An empty \<^verbatim>\<open>std::function\<close> that is called throws; the walk of \<open>isKindOf\<close> may not end.
\<close>

definition CreateEntity :: "entity_world \<Rightarrow> (nat \<times> native_entity) option \<Rightarrow> nat \<Rightarrow> entity_state
    \<Rightarrow> (nat option \<times> entity_state) result" where
  "CreateEntity w made dat s =
    (case ew_dataType w dat of
       None \<Rightarrow> Inr (None, s)
     | Some t \<Rightarrow>
       (let name = type_name w t;
            s = (if ew_scripts w then log_call (Script_Event (''EntityFactory:Create:'' @ name) dat) s else s);
            isOverrideCreator = sd_IsOverrideCreator (ew_static w) name
        in if \<not> isOverrideCreator \<and> t \<notin> set (ew_createdTypeInfo w) then Inr (None, s)
           else case made of
             None \<Rightarrow> Inr (None, s)
           | Some (entity, ne) \<Rightarrow>
             (case DuplicateVTable entity 106 (s\<lparr>es_natives := (es_natives s)(entity \<mapsto> ne)\<rparr>) of
                Inl e \<Rightarrow> Inl e
              | Inr s \<Rightarrow>
                (case sd_GetCreator (ew_static w) name of
                   None \<Rightarrow> Inl Null_Deref
                 | Some c \<Rightarrow>
                   (case isKindOf (ew_classes w) t ''SpatialEntityData'' of
                      None \<Rightarrow> Inl Out_Of_Fuel
                    | Some spatial \<Rightarrow>
                      (case hook_entity entity s of
                         Inl e \<Rightarrow> Inl e
                       | Inr (pc, od, ev, di, s) \<Rightarrow>
                         (let ke = (KyberEntityBase_new c entity dat)\<lparr>ke_isSpatialEntity := spatial\<rparr>;
                              ke = (if isOverrideCreator then ke
                                    else ke\<lparr>ke_origPropertyChangedFn := Some pc, ke_origOnDestroyFn := Some od,
                                            ke_origEventFn := Some ev, ke_origDeinitFn := Some di\<rparr>)
                          in Inr (Some entity, bind_entity entity ke s))))))))"

definition OnEntityCreated :: "entity_world \<Rightarrow> nat \<Rightarrow> entity_state \<Rightarrow> entity_state result" where
  "OnEntityCreated w entity s =
    (case es_natives s entity of
       None \<Rightarrow> Inl Freed_Access
     | Some ne \<Rightarrow>
       if ne_isComponent ne then Inr s
       else case (if ne_isSpatial ne then ne_spatialData ne else ne_data ne) of
         None \<Rightarrow> Inr s
       | Some dat \<Rightarrow>
         (case ew_dataType w dat of
            None \<Rightarrow> Inl Null_Deref
          | Some t \<Rightarrow>
            if t \<in> set (ew_createdTypeInfo w) then Inr s
            else case sd_GetCreator (ew_static w) (type_name w t) of
              None \<Rightarrow> Inr s
            | Some c \<Rightarrow>
              if GetKyberEntity s entity \<noteq> None then Inr s
              else case DuplicateVTable entity 106 s of
                Inl e \<Rightarrow> Inl e
              | Inr s \<Rightarrow>
                (case hook_entity entity s of
                   Inl e \<Rightarrow> Inl e
                 | Inr (pc, od, ev, di, s) \<Rightarrow>
                     Inr (bind_entity entity
                       ((KyberEntityBase_new c entity dat)\<lparr>ke_origPropertyChangedFn := Some pc, ke_origOnDestroyFn := Some od,
                          ke_origEventFn := Some ev, ke_origDeinitFn := Some di\<rparr>) s))))"

text \<open>The hook on the factory; \<open>orig\<close> is what the trampoline makes.\<close>

definition EntityFactoryInternalCreateEntityHk :: "entity_world \<Rightarrow> (nat \<times> native_entity) option \<Rightarrow> (nat \<times> native_entity) option
    \<Rightarrow> nat \<Rightarrow> entity_state \<Rightarrow> (nat option \<times> entity_state) result" where
  "EntityFactoryInternalCreateEntityHk w made orig dat s =
    (if ew_dataType w dat = None then Inl Null_Deref
     else case CreateEntity w made dat s of
       Inl e \<Rightarrow> Inl e
     | Inr (Some entity, s) \<Rightarrow> Inr (Some entity, s)
     | Inr (None, s) \<Rightarrow>
       (case orig of
          None \<Rightarrow> Inr (None, s)
        | Some (entity, ne) \<Rightarrow>
          (case OnEntityCreated w entity (s\<lparr>es_natives := (es_natives s)(entity \<mapsto> ne)\<rparr>) of
             Inl e \<Rightarrow> Inl e
           | Inr s \<Rightarrow> Inr (Some entity, s))))"

text \<open>\<^verbatim>\<open>CreateEntity\<close> with a realm goes through the factory, which is hooked; 0 is the client and 1 the server.\<close>

definition CreateEntity_realm :: "entity_world \<Rightarrow> (nat \<times> native_entity) option \<Rightarrow> (nat \<times> native_entity) option
    \<Rightarrow> nat \<Rightarrow> nat \<Rightarrow> entity_state \<Rightarrow> (nat option \<times> entity_state) result" where
  "CreateEntity_realm w made orig dat realm s =
    (if realm \<noteq> 0 \<and> realm \<noteq> 1 then Inr (None, s)
     else EntityFactoryInternalCreateEntityHk w made orig dat s)"


section \<open>Calls\<close>

text \<open>
  The methods of \<^verbatim>\<open>KyberEntityBase\<close> and the four hooks, over a parameter \<open>call\<close> that runs a function on an entity.
\<close>

definition call_orig :: "(vfn \<Rightarrow> nat \<Rightarrow> entity_state \<Rightarrow> entity_state result) \<Rightarrow> vfn option \<Rightarrow> kyber_entity \<Rightarrow> entity_state
    \<Rightarrow> entity_state result" where
  "call_orig call f ke s = (case f of None \<Rightarrow> Inr s | Some f \<Rightarrow> call f (ke_native ke) s)"

definition Base_OnDestroy where
  "Base_OnDestroy call k ke s =
    call_orig call (ke_origOnDestroyFn ke) ke (s\<lparr>es_kybers := (es_kybers s)(k \<mapsto> ke\<lparr>ke_isInitialized := False\<rparr>)\<rparr>)"

definition Base_Event where
  "Base_Event call (k :: nat) ke s = call_orig call (ke_origEventFn ke) ke s"

definition Base_PropertyChanged where
  "Base_PropertyChanged call (k :: nat) ke s = call_orig call (ke_origPropertyChangedFn ke) ke s"

definition Base_Deinit where
  "Base_Deinit call k ke s =
    call_orig call (ke_origDeinitFn ke) ke (s\<lparr>es_kybers := (es_kybers s)(k \<mapsto> ke\<lparr>ke_isInitialized := False\<rparr>)\<rparr>)"

text \<open>A virtual call of a method of the mod's object.\<close>

definition kyber_method ::
    "(vfn \<Rightarrow> nat \<Rightarrow> entity_state \<Rightarrow> entity_state result) \<Rightarrow> slot \<Rightarrow> nat \<Rightarrow> entity_state \<Rightarrow> entity_state result" where
  "kyber_method call sl k s =
    (case es_kybers s k of
       None \<Rightarrow> Inl Freed_Access
     | Some ke \<Rightarrow>
       (let s = log_call (Kyber_Call k sl) s
        in if sl \<in> kc_overrides (ke_class ke) then Inr s
           else (case sl of
                   Property_Changed \<Rightarrow> Base_PropertyChanged call k ke s
                 | Event_Received \<Rightarrow> Base_Event call k ke s
                 | On_Destroy \<Rightarrow> Base_OnDestroy call k ke s
                 | On_Deinit \<Rightarrow> Base_Deinit call k ke s)))"

definition EntityManagerOnDestroyHk where
  "EntityManagerOnDestroyHk call entity s =
    (case GetKyberEntity s entity of
       None \<Rightarrow> Inr s
     | Some k \<Rightarrow>
       (case kyber_method call On_Destroy k s of
          Inl e \<Rightarrow> Inl e
        | Inr s \<Rightarrow> (let s = RemoveEntity entity s in Inr (s\<lparr>es_kybers := (es_kybers s)(k := None)\<rparr>))))"

definition EntityManagerEventHk where
  "EntityManagerEventHk call entity s =
    (case GetKyberEntity s entity of None \<Rightarrow> Inr s | Some k \<Rightarrow> kyber_method call Event_Received k s)"

definition EntityManagerDeinitHk where
  "EntityManagerDeinitHk call entity s =
    (case GetKyberEntity s entity of None \<Rightarrow> Inr s | Some k \<Rightarrow> kyber_method call On_Deinit k s)"

definition EntityManagerPropertyChangedHk where
  "EntityManagerPropertyChangedHk call entity s =
    (case GetKyberEntity s entity of None \<Rightarrow> Inr s | Some k \<Rightarrow> kyber_method call Property_Changed k s)"

text \<open>A hook may call a function that is a hook again; \<open>n\<close> bounds the depth of the calls, as the stack does.\<close>

primrec call_fn :: "nat \<Rightarrow> vfn \<Rightarrow> nat \<Rightarrow> entity_state \<Rightarrow> entity_state result" where
  "call_fn 0 = (\<lambda>f e s. Inl Out_Of_Fuel)"
| "call_fn (Suc n) = (\<lambda>f e s.
    (case f of
       Game_Fn g \<Rightarrow> Inr (log_call (Game_Call g e) s)
     | Hk_PropertyChanged \<Rightarrow> EntityManagerPropertyChangedHk (call_fn n) e s
     | Hk_Event \<Rightarrow> EntityManagerEventHk (call_fn n) e s
     | Hk_OnDestroy \<Rightarrow> EntityManagerOnDestroyHk (call_fn n) e s
     | Hk_Deinit \<Rightarrow> EntityManagerDeinitHk (call_fn n) e s))"

text \<open>The game calls the virtual function \<open>i\<close> of an entity.\<close>

definition virtual_call :: "nat \<Rightarrow> nat \<Rightarrow> nat \<Rightarrow> entity_state \<Rightarrow> entity_state result" where
  "virtual_call n i e s =
    (case es_natives s e of
       None \<Rightarrow> Inl Freed_Access
     | Some ne \<Rightarrow>
       (case es_vtables s (ne_vtable ne) of
          None \<Rightarrow> Inl Freed_Access
        | Some fs \<Rightarrow> if i < length fs then call_fn n (fs ! i) e s else Inl Out_Of_Bounds))"

text \<open>
  The loop over the bindings. \<open>upd k\<close> is what \<^verbatim>\<open>Update\<close> of the object \<open>k\<close> does; the lock is recursive and does not keep it from creating or
  destroying entities on the same thread. A vector that has changed leaves the loop with an invalid end, so the loop ends in error. The vector has
  changed exactly if its elements or the number of objects made so far have.
\<close>

definition update_binding :: "(nat \<Rightarrow> entity_state \<Rightarrow> entity_state result) \<Rightarrow> nat \<Rightarrow> nat \<times> nat \<Rightarrow> entity_state result \<Rightarrow> entity_state result" where
  "update_binding upd realm b r =
    (case r of
       Inl e \<Rightarrow> Inl e
     | Inr s \<Rightarrow>
       (case es_kybers s (snd b) of
          None \<Rightarrow> Inl Freed_Access
        | Some ke \<Rightarrow>
          if \<not> ke_wantUpdates ke \<or> \<not> ke_isInitialized ke then Inr s
          else case es_natives s (fst b) of
            None \<Rightarrow> Inl Freed_Access
          | Some ne \<Rightarrow>
              if ne_realm ne \<noteq> realm then Inr s
              else case upd (snd b) (log_call (Kyber_Update (snd b)) s) of
                Inl e \<Rightarrow> Inl e
              | Inr s' \<Rightarrow> if es_bindings s' = es_bindings s \<and> es_nextKyber s' = es_nextKyber s then Inr s' else Inl Freed_Access))"

definition UpdateEntities :: "(nat \<Rightarrow> entity_state \<Rightarrow> entity_state result) \<Rightarrow> nat \<Rightarrow> entity_state \<Rightarrow> entity_state result" where
  "UpdateEntities upd realm s = fold (update_binding upd realm) (es_bindings s) (Inr s)"


section \<open>Runs\<close>

text \<open>
  \<open>C\<close> gives the game's tables of virtual functions, one per class. A new object of the game lies at an address where no live one is and has the
  table of its class. What is assumed of the game: it frees an entity only when it is not bound, so one that was wrapped only after it has
  called its \<^verbatim>\<open>onDestroy\<close>, which is function 9 and removes the binding. Between the two the entity lives on without a binding.
  A step may also be something that touches none of the manager's state (\<open>other\<close>). The updates of the mod's objects may do whatever is a sequence
  of such steps.
\<close>

type_synonym class_tables = "nat \<rightharpoonup> nat list"

definition new_object :: "class_tables \<Rightarrow> entity_state \<Rightarrow> (nat \<times> native_entity) option \<Rightarrow> bool" where
  "new_object C s r = (case r of None \<Rightarrow> True | Some (a, ne) \<Rightarrow> es_natives s a = None \<and> C (ne_vtable ne) \<noteq> None)"

definition entity_start :: "class_tables \<Rightarrow> nat \<Rightarrow> entity_state" where
  "entity_start C n =
    \<lparr>es_vtables = (\<lambda>v. map_option (map Game_Fn) (C v)), es_natives = Map.empty, es_kybers = Map.empty, es_bindings = [],
     es_nextTable = n, es_nextKyber = 0, es_log = []\<rparr>"

inductive entity_step :: "entity_world \<Rightarrow> class_tables \<Rightarrow> entity_state \<Rightarrow> entity_state \<Rightarrow> bool" for w C where
  created: "\<lbrakk>new_object C s made; new_object C s orig; EntityFactoryInternalCreateEntityHk w made orig dat s = Inr (r, s')\<rbrakk> \<Longrightarrow> entity_step w C s s'"
| called: "virtual_call n i e s = Inr s' \<Longrightarrow> entity_step w C s s'"
| freed: "GetKyberEntity s e = None \<Longrightarrow> entity_step w C s (s\<lparr>es_natives := (es_natives s)(e := None)\<rparr>)"
| other: "entity_step w C s (log_call c s)"
| updated: "\<lbrakk>\<forall>k s1 s2. upd k s1 = Inr s2 \<longrightarrow> (entity_step w C)\<^sup>*\<^sup>* s1 s2; UpdateEntities upd realm s = Inr s'\<rbrakk> \<Longrightarrow> entity_step w C s s'"

inductive entity_run :: "entity_world \<Rightarrow> class_tables \<Rightarrow> entity_state \<Rightarrow> bool" for w C where
  start: "\<forall>v \<in> dom C. v < n \<Longrightarrow> entity_run w C (entity_start C n)"
| step: "entity_run w C s \<Longrightarrow> entity_step w C s s' \<Longrightarrow> entity_run w C s'"


section \<open>The invariant\<close>

definition hooked_table :: "nat list \<Rightarrow> vfn list" where
  "hooked_table fs =
    (take 106 (map Game_Fn fs))[5 := Hk_PropertyChanged, 9 := Hk_OnDestroy, 7 := Hk_Event, 20 := Hk_Deinit]"

definition origs_ok :: "nat list \<Rightarrow> kyber_entity \<Rightarrow> bool" where
  "origs_ok fs ke \<longleftrightarrow>
    (ke_origPropertyChangedFn ke = None \<and> ke_origOnDestroyFn ke = None \<and> ke_origEventFn ke = None \<and> ke_origDeinitFn ke = None)
    \<or> (ke_origPropertyChangedFn ke = Some (Game_Fn (fs ! 5)) \<and> ke_origOnDestroyFn ke = Some (Game_Fn (fs ! 9))
       \<and> ke_origEventFn ke = Some (Game_Fn (fs ! 7)) \<and> ke_origDeinitFn ke = Some (Game_Fn (fs ! 20)))"

text \<open>A bound entity is alive, has a table of its own, and its object passes calls on to functions of its class or nowhere.\<close>

definition bound_ok :: "class_tables \<Rightarrow> entity_state \<Rightarrow> nat \<Rightarrow> nat \<Rightarrow> bool" where
  "bound_ok C s e k \<longleftrightarrow>
    (\<exists>ne ke v fs. es_natives s e = Some ne \<and> es_kybers s k = Some ke \<and> ke_native ke = e \<and> k < es_nextKyber s
       \<and> C v = Some fs \<and> 106 \<le> length fs \<and> es_vtables s (ne_vtable ne) = Some (hooked_table fs)
       \<and> ne_vtable ne < es_nextTable s \<and> origs_ok fs ke)"

text \<open>An entity without a binding has the table of its class, or its own one if it was bound before.\<close>

definition unbound_ok :: "class_tables \<Rightarrow> entity_state \<Rightarrow> native_entity \<Rightarrow> bool" where
  "unbound_ok C s ne \<longleftrightarrow> C (ne_vtable ne) \<noteq> None \<or>
    (ne_vtable ne < es_nextTable s \<and> (\<exists>v fs. C v = Some fs \<and> 106 \<le> length fs \<and> es_vtables s (ne_vtable ne) = Some (hooked_table fs)))"

definition ent_inv :: "class_tables \<Rightarrow> entity_state \<Rightarrow> bool" where
  "ent_inv C s \<longleftrightarrow>
    (\<forall>v fs. C v = Some fs \<longrightarrow> es_vtables s v = Some (map Game_Fn fs) \<and> v < es_nextTable s)
    \<and> distinct (map fst (es_bindings s)) \<and> distinct (map snd (es_bindings s))
    \<and> dom (es_kybers s) = snd ` set (es_bindings s)
    \<and> (\<forall>(e, k) \<in> set (es_bindings s). bound_ok C s e k)
    \<and> (\<forall>e ne. es_natives s e = Some ne \<and> e \<notin> fst ` set (es_bindings s) \<longrightarrow> unbound_ok C s ne)"

lemma ent_inv_log [simp]: "ent_inv C (log_call c s) = ent_inv C s"
  by (simp add: ent_inv_def bound_ok_def unbound_ok_def log_call_def)

lemma log_call_simps [simp]:
  "es_natives (log_call c s) = es_natives s" "es_vtables (log_call c s) = es_vtables s" "es_kybers (log_call c s) = es_kybers s"
  "es_bindings (log_call c s) = es_bindings s" "GetKyberEntity (log_call c s) e = GetKyberEntity s e"
  by (simp_all add: log_call_def GetKyberEntity_def)

lemma length_hooked_table [simp]: "106 \<le> length fs \<Longrightarrow> length (hooked_table fs) = 106"
  by (simp add: hooked_table_def)

lemma hooked_table_nth:
  assumes "106 \<le> length fs" "i < 106"
  shows "hooked_table fs ! i =
    (if i = 5 then Hk_PropertyChanged else if i = 7 then Hk_Event else if i = 9 then Hk_OnDestroy else if i = 20 then Hk_Deinit
     else Game_Fn (fs ! i))"
  using assms by (auto simp: hooked_table_def nth_list_update)

lemma GetKyberEntity_None: "GetKyberEntity s e = None \<longleftrightarrow> e \<notin> fst ` set (es_bindings s)"
  by (auto simp: GetKyberEntity_def find_None_iff image_iff)

lemma GetKyberEntity_Some: "GetKyberEntity s e = Some k \<Longrightarrow> (e, k) \<in> set (es_bindings s)"
  by (auto simp: GetKyberEntity_def find_Some_iff) (metis fst_conv nth_mem)


subsection \<open>Creation\<close>

text \<open>The state after an entity with the table \<open>fs\<close> of its class has been given a table of its own with the hooks in it.\<close>

definition wrapped :: "nat \<Rightarrow> native_entity \<Rightarrow> nat list \<Rightarrow> entity_state \<Rightarrow> entity_state" where
  "wrapped e ne fs s =
    s\<lparr>es_vtables := (es_vtables s)(es_nextTable s \<mapsto> hooked_table fs),
      es_natives := (es_natives s)(e \<mapsto> ne\<lparr>ne_vtable := es_nextTable s\<rparr>),
      es_nextTable := Suc (es_nextTable s)\<rparr>"

lemma hook_duplicate:
  assumes "es_natives s e = Some ne" "es_vtables s (ne_vtable ne) = Some (map Game_Fn fs)"
    "DuplicateVTable e 106 s = Inr s1" "hook_entity e s1 = Inr (pc, od, ev, di, s2)"
  shows "106 \<le> length fs \<and> s2 = wrapped e ne fs s
    \<and> pc = Game_Fn (fs ! 5) \<and> od = Game_Fn (fs ! 9) \<and> ev = Game_Fn (fs ! 7) \<and> di = Game_Fn (fs ! 20)"
  using assms
  by (auto simp: DuplicateVTable_def hook_entity_def HookVTableFunction_def wrapped_def hooked_table_def
      split: if_splits sum.splits)

text \<open>What a binding needs of the object of the mod does not depend on whether the object is initialised.\<close>

abbreviation uninit :: "kyber_entity \<Rightarrow> kyber_entity" where
  "uninit ke \<equiv> ke\<lparr>ke_isInitialized := False\<rparr>"

lemma origs_ok_uninit [simp]: "origs_ok fs (uninit ke) = origs_ok fs ke"
  by (simp add: origs_ok_def)

lemma bound_ok_frame:
  assumes "bound_ok C s e k" "es_natives s' e = es_natives s e"
    "map_option uninit (es_kybers s' k) = map_option uninit (es_kybers s k)"
    "\<And>v. v < es_nextTable s \<Longrightarrow> es_vtables s' v = es_vtables s v"
    "es_nextTable s \<le> es_nextTable s'" "es_nextKyber s \<le> es_nextKyber s'"
  shows "bound_ok C s' e k"
proof -
  obtain ne ke v fs where *: "es_natives s e = Some ne" "es_kybers s k = Some ke" "ke_native ke = e" "k < es_nextKyber s"
    "C v = Some fs" "106 \<le> length fs" "es_vtables s (ne_vtable ne) = Some (hooked_table fs)"
    "ne_vtable ne < es_nextTable s" "origs_ok fs ke"
    using assms(1) unfolding bound_ok_def by blast
  obtain ke' where ke': "es_kybers s' k = Some ke'" "uninit ke' = uninit ke" using assms(3) * by auto
  have "ke_native ke' = ke_native ke" using arg_cong [OF ke'(2), of ke_native] by simp
  moreover have "origs_ok fs ke' = origs_ok fs ke" using arg_cong [OF ke'(2), of "origs_ok fs"] by simp
  ultimately have "ke_native ke' = e" "origs_ok fs ke'" using * by simp_all
  then show ?thesis
    unfolding bound_ok_def using assms(2,4-) * ke'(1)
    by (intro exI [of _ ne] exI [of _ ke'] exI [of _ v] exI [of _ fs]) auto
qed

lemma unbound_ok_frame:
  "\<lbrakk>unbound_ok C s ne; \<And>v. v < es_nextTable s \<Longrightarrow> es_vtables s' v = es_vtables s v; es_nextTable s \<le> es_nextTable s'\<rbrakk> \<Longrightarrow> unbound_ok C s' ne"
  by (fastforce simp: unbound_ok_def)

lemma invD: "ent_inv C s \<Longrightarrow> (e, k) \<in> set (es_bindings s) \<Longrightarrow> bound_ok C s e k"
  by (auto simp: ent_inv_def)

lemma bound_alive: "ent_inv C s \<Longrightarrow> e \<in> fst ` set (es_bindings s) \<Longrightarrow> es_natives s e \<noteq> None"
  by (fastforce simp: ent_inv_def bound_ok_def)

lemma inv_bind:
  assumes "ent_inv C s" "es_natives s e = None" "C v = Some fs" "106 \<le> length fs" "ke_native ke = e" "origs_ok fs ke"
  shows "ent_inv C (bind_entity e ke (wrapped e ne fs s))"
proof -
  have unbound: "e \<notin> fst ` set (es_bindings s)" using bound_alive [OF assms(1), of e] assms(2) by auto
  have fresh: "k < es_nextKyber s" if "k \<in> snd ` set (es_bindings s)" for k
    using assms(1) that by (fastforce simp: ent_inv_def bound_ok_def)
  have old: "bound_ok C (bind_entity e ke (wrapped e ne fs s)) e' k" if "(e', k) \<in> set (es_bindings s)" for e' k
  proof -
    have "e' \<noteq> e" "k \<noteq> es_nextKyber s" using unbound fresh that by force+
    then show ?thesis
      by (intro bound_ok_frame [OF invD [OF assms(1) that]]) (simp_all add: bind_entity_def wrapped_def)
  qed
  have new: "bound_ok C (bind_entity e ke (wrapped e ne fs s)) e (es_nextKyber s)"
    using assms unfolding bound_ok_def
    by (intro exI [of _ "ne\<lparr>ne_vtable := es_nextTable s\<rparr>"] exI [of _ ke] exI [of _ v] exI [of _ fs]) (auto simp: bind_entity_def wrapped_def)
  let ?t = "bind_entity e ke (wrapped e ne fs s)"
  have b: "es_bindings ?t = es_bindings s @ [(e, es_nextKyber s)]" by (simp add: bind_entity_def wrapped_def)
  have "unbound_ok C ?t ne'" if "es_natives ?t e' = Some ne'" "e' \<notin> fst ` set (es_bindings ?t)" for e' ne'
  proof -
    have "e' \<noteq> e" "e' \<notin> fst ` set (es_bindings s)" using that(2) by (simp_all add: b)
    then have "unbound_ok C s ne'" using assms(1) that(1) by (simp add: ent_inv_def bind_entity_def wrapped_def)
    then show ?thesis by (rule unbound_ok_frame) (simp_all add: bind_entity_def wrapped_def)
  qed
  moreover have "distinct (map fst (es_bindings ?t))" "distinct (map snd (es_bindings ?t))"
    using assms(1) unbound fresh by (auto simp: b ent_inv_def)
  moreover have "dom (es_kybers ?t) = snd ` set (es_bindings ?t)"
    using assms(1) by (simp add: b ent_inv_def bind_entity_def wrapped_def)
  moreover have "\<forall>v fs. C v = Some fs \<longrightarrow> es_vtables ?t v = Some (map Game_Fn fs) \<and> v < es_nextTable ?t"
    using assms(1) by (fastforce simp: ent_inv_def bind_entity_def wrapped_def)
  moreover have "\<forall>(e', k) \<in> set (es_bindings ?t). bound_ok C ?t e' k" using old new by (auto simp: b)
  ultimately show ?thesis unfolding ent_inv_def by blast
qed

lemma inv_alloc:
  assumes "ent_inv C s" "es_natives s e = None" "C (ne_vtable ne) \<noteq> None"
  shows "ent_inv C (s\<lparr>es_natives := (es_natives s)(e \<mapsto> ne)\<rparr>)"
proof -
  have unbound: "e \<notin> fst ` set (es_bindings s)" using bound_alive [OF assms(1), of e] assms(2) by auto
  have "bound_ok C (s\<lparr>es_natives := (es_natives s)(e \<mapsto> ne)\<rparr>) e' k" if "(e', k) \<in> set (es_bindings s)" for e' k
  proof -
    have "e' \<noteq> e" using unbound that by force
    then show ?thesis by (intro bound_ok_frame [OF invD [OF assms(1) that]]) simp_all
  qed
  then show ?thesis using assms(1,3) by (auto simp: ent_inv_def unbound_ok_def)
qed

lemma inv_CreateEntity:
  assumes "ent_inv C s" "new_object C s made" "CreateEntity w made dat s = Inr (r, s')"
  shows "ent_inv C s' \<and> (r = None \<longrightarrow> es_natives s' = es_natives s)"
proof -
  define s0 where "s0 = (case ew_dataType w dat of Some t \<Rightarrow>
      if ew_scripts w then log_call (Script_Event (''EntityFactory:Create:'' @ type_name w t) dat) s else s | None \<Rightarrow> s)"
  have s0: "ent_inv C s0" "es_natives s0 = es_natives s" using assms(1) by (auto simp: s0_def split: option.split)
  show ?thesis
  proof (cases "r")
    case None
    then have "s' = s0"
      using assms(3) by (auto simp: CreateEntity_def s0_def Let_def split: option.splits if_splits sum.splits)
    then show ?thesis using s0 by simp
  next
    case (Some e)
    then obtain ne s1 s2 pc od ev di ke where made: "made = Some (e, ne)"
      and dup: "DuplicateVTable e 106 (s0\<lparr>es_natives := (es_natives s0)(e \<mapsto> ne)\<rparr>) = Inr s1"
      and hk: "hook_entity e s1 = Inr (pc, od, ev, di, s2)"
      and s': "s' = bind_entity e ke s2" and ke: "ke_native ke = e"
        "(ke_origPropertyChangedFn ke = None \<and> ke_origOnDestroyFn ke = None \<and> ke_origEventFn ke = None \<and> ke_origDeinitFn ke = None)
         \<or> (ke_origPropertyChangedFn ke = Some pc \<and> ke_origOnDestroyFn ke = Some od \<and> ke_origEventFn ke = Some ev \<and> ke_origDeinitFn ke = Some di)"
      using assms(3)
      by (auto simp: CreateEntity_def s0_def Let_def KyberEntityBase_new_def split: option.splits if_splits sum.splits)
    obtain fs where fs: "C (ne_vtable ne) = Some fs" "es_natives s e = None"
      using assms(2) made by (auto simp: new_object_def)
    then have "es_vtables s0 (ne_vtable ne) = Some (map Game_Fn fs)" using s0 by (auto simp: ent_inv_def)
    from hook_duplicate [OF _ _ dup hk, of ne fs] this
    have "106 \<le> length fs" "s2 = wrapped e ne fs (s0\<lparr>es_natives := (es_natives s0)(e \<mapsto> ne)\<rparr>)" "origs_ok fs ke"
      using ke by (auto simp: origs_ok_def)
    moreover have "wrapped e ne fs (s0\<lparr>es_natives := (es_natives s0)(e \<mapsto> ne)\<rparr>) = wrapped e ne fs s0" by (simp add: wrapped_def)
    ultimately show ?thesis
      using inv_bind [OF s0(1), of e "ne_vtable ne" fs ke ne] s0(2) fs ke Some by (simp add: s')
  qed
qed

lemma inv_OnEntityCreated:
  assumes "ent_inv C s" "es_natives s e = None" "C (ne_vtable ne) = Some fs"
    "OnEntityCreated w e (s\<lparr>es_natives := (es_natives s)(e \<mapsto> ne)\<rparr>) = Inr s'"
  shows "ent_inv C s'"
proof (cases "s' = s\<lparr>es_natives := (es_natives s)(e \<mapsto> ne)\<rparr>")
  case True
  then show ?thesis using inv_alloc assms by simp
next
  case False
  then obtain s1 s2 pc od ev di ke where dup: "DuplicateVTable e 106 (s\<lparr>es_natives := (es_natives s)(e \<mapsto> ne)\<rparr>) = Inr s1"
    and hk: "hook_entity e s1 = Inr (pc, od, ev, di, s2)" and s': "s' = bind_entity e ke s2"
    and ke: "ke_native ke = e" "ke_origPropertyChangedFn ke = Some pc" "ke_origOnDestroyFn ke = Some od" "ke_origEventFn ke = Some ev"
      "ke_origDeinitFn ke = Some di"
    using assms(4) by (auto simp: OnEntityCreated_def KyberEntityBase_new_def split: option.splits if_splits sum.splits)
  have "es_vtables s (ne_vtable ne) = Some (map Game_Fn fs)" using assms(1,3) by (auto simp: ent_inv_def)
  from hook_duplicate [OF _ _ dup hk, of ne fs] this
  have "106 \<le> length fs" "s2 = wrapped e ne fs (s\<lparr>es_natives := (es_natives s)(e \<mapsto> ne)\<rparr>)" "origs_ok fs ke"
    using ke by (auto simp: origs_ok_def)
  moreover have "wrapped e ne fs (s\<lparr>es_natives := (es_natives s)(e \<mapsto> ne)\<rparr>) = wrapped e ne fs s" by (simp add: wrapped_def)
  ultimately show ?thesis using inv_bind [of C s e "ne_vtable ne" fs ke ne] assms ke by (simp add: s')
qed

lemma inv_factory:
  assumes "ent_inv C s" "new_object C s made" "new_object C s orig"
    "EntityFactoryInternalCreateEntityHk w made orig dat s = Inr (r, s')"
  shows "ent_inv C s'"
proof -
  obtain r1 s1 where ce: "CreateEntity w made dat s = Inr (r1, s1)"
    using assms(4) by (auto simp: EntityFactoryInternalCreateEntityHk_def split: if_splits sum.splits)
  note inv = inv_CreateEntity [OF assms(1,2) ce]
  show ?thesis
  proof (cases "r1 = None \<and> orig \<noteq> None")
    case True
    then obtain e ne where "orig = Some (e, ne)" "OnEntityCreated w e (s1\<lparr>es_natives := (es_natives s1)(e \<mapsto> ne)\<rparr>) = Inr s'"
      using assms(4) ce by (auto simp: EntityFactoryInternalCreateEntityHk_def split: if_splits sum.splits)
    then show ?thesis
      using inv_OnEntityCreated [of C s1 e ne] inv True assms(3) by (auto simp: new_object_def)
  next
    case False
    then have "s' = s1"
      using assms(4) ce by (auto simp: EntityFactoryInternalCreateEntityHk_def split: if_splits option.splits)
    then show ?thesis using inv by simp
  qed
qed


subsection \<open>Calls and destruction\<close>

lemma inv_uninit:
  assumes "ent_inv C s" "es_kybers s k = Some ke"
  shows "ent_inv C (s\<lparr>es_kybers := (es_kybers s)(k \<mapsto> uninit ke)\<rparr>)"
proof -
  have "bound_ok C (s\<lparr>es_kybers := (es_kybers s)(k \<mapsto> uninit ke)\<rparr>) e' k'" if "(e', k') \<in> set (es_bindings s)" for e' k'
    using assms(2) by (intro bound_ok_frame [OF invD [OF assms(1) that]]) simp_all
  moreover have "k \<in> dom (es_kybers s)" using assms(2) by blast
  ultimately show ?thesis using assms(1) by (simp add: ent_inv_def insert_absorb unbound_ok_def) blast
qed

lemma bindings_rest:
  assumes "ent_inv C s" "(e, k) \<in> set (es_bindings s)"
  shows "{b \<in> set (es_bindings s). fst b \<noteq> e} = {b \<in> set (es_bindings s). snd b \<noteq> k}"
proof -
  have d: "distinct (map fst (es_bindings s))" "distinct (map snd (es_bindings s))" using assms(1) by (simp_all add: ent_inv_def)
  then have "inj_on fst (set (es_bindings s))" "inj_on snd (set (es_bindings s))" by (simp_all add: distinct_map)
  then have "fst b \<noteq> e \<longleftrightarrow> snd b \<noteq> k" if "b \<in> set (es_bindings s)" for b
    using assms(2) that by (metis fst_conv inj_on_def snd_conv)
  then show ?thesis by blast
qed

lemma inv_remove:
  assumes "ent_inv C s" "(e, k) \<in> set (es_bindings s)"
  shows "ent_inv C (RemoveEntity e s\<lparr>es_kybers := (es_kybers s)(k := None)\<rparr>)"
    (is "ent_inv C ?t")
proof -
  note rest = bindings_rest [OF assms]
  have b: "set (es_bindings ?t) = {b \<in> set (es_bindings s). snd b \<noteq> k}"
    by (simp add: RemoveEntity_def rest [symmetric] set_eq_iff)
  have "bound_ok C ?t e' k'" if "(e', k') \<in> set (es_bindings ?t)" for e' k'
  proof -
    have "(e', k') \<in> set (es_bindings s)" using that by (simp add: RemoveEntity_def)
    moreover have "k' \<noteq> k" using that unfolding b by simp
    ultimately show ?thesis
      by (intro bound_ok_frame [OF invD [OF assms(1), of e' k']]) (simp_all add: RemoveEntity_def)
  qed
  moreover have "distinct (map fst (es_bindings ?t))" "distinct (map snd (es_bindings ?t))"
    using assms(1) by (simp_all add: RemoveEntity_def ent_inv_def distinct_map_filter)
  moreover have "dom (es_kybers ?t) = snd ` set (es_bindings ?t)"
    using assms(1) unfolding b by (auto simp: ent_inv_def)
  moreover have "unbound_ok C ?t ne" if "es_natives ?t e' = Some ne" "e' \<notin> fst ` set (es_bindings ?t)" for e' ne
  proof (cases "e' = e")
    case True
    then show ?thesis using invD [OF assms] that(1) by (auto simp: bound_ok_def unbound_ok_def RemoveEntity_def)
  next
    case False
    then have "e' \<notin> fst ` set (es_bindings s)" "es_natives s e' = Some ne" using that by (force simp: RemoveEntity_def)+
    then have "unbound_ok C s ne" using assms(1) by (auto simp: ent_inv_def)
    then show ?thesis by (simp add: unbound_ok_def RemoveEntity_def)
  qed
  moreover have "\<forall>v fs. C v = Some fs \<longrightarrow> es_vtables ?t v = Some (map Game_Fn fs) \<and> v < es_nextTable ?t"
    using assms(1) by (simp add: ent_inv_def RemoveEntity_def)
  ultimately show ?thesis unfolding ent_inv_def by blast
qed

text \<open>What is known of the objects behind a binding.\<close>

lemma boundE:
  assumes "ent_inv C s" "GetKyberEntity s e = Some k"
  obtains ne ke v fs where "es_natives s e = Some ne" "es_kybers s k = Some ke" "ke_native ke = e" "C v = Some fs" "106 \<le> length fs"
    "es_vtables s (ne_vtable ne) = Some (hooked_table fs)" "origs_ok fs ke" "(e, k) \<in> set (es_bindings s)"
  using invD [OF assms(1) GetKyberEntity_Some [OF assms(2)]] GetKyberEntity_Some [OF assms(2)] unfolding bound_ok_def by blast


text \<open>The result of a method call of the mod's object, with the function that the base class passes the call on to.\<close>

definition orig_of :: "slot \<Rightarrow> kyber_entity \<Rightarrow> vfn option" where
  "orig_of sl ke =
    (if sl \<in> kc_overrides (ke_class ke) then None
     else case sl of Property_Changed \<Rightarrow> ke_origPropertyChangedFn ke | Event_Received \<Rightarrow> ke_origEventFn ke
        | On_Destroy \<Rightarrow> ke_origOnDestroyFn ke | On_Deinit \<Rightarrow> ke_origDeinitFn ke)"

definition slot_index :: "slot \<Rightarrow> nat" where
  "slot_index sl = (case sl of Property_Changed \<Rightarrow> 5 | Event_Received \<Rightarrow> 7 | On_Destroy \<Rightarrow> 9 | On_Deinit \<Rightarrow> 20)"

definition method_calls :: "nat list \<Rightarrow> nat \<Rightarrow> slot \<Rightarrow> kyber_entity \<Rightarrow> entity_call list" where
  "method_calls fs k sl ke =
    Kyber_Call k sl # (if orig_of sl ke = None then [] else [Game_Call (fs ! slot_index sl) (ke_native ke)])"

definition after_method :: "slot \<Rightarrow> nat \<Rightarrow> kyber_entity \<Rightarrow> entity_state \<Rightarrow> entity_state" where
  "after_method sl k ke s =
    (if sl \<in> {On_Destroy, On_Deinit} \<and> sl \<notin> kc_overrides (ke_class ke)
     then s\<lparr>es_kybers := (es_kybers s)(k \<mapsto> uninit ke)\<rparr> else s)"

lemma kyber_method_result:
  assumes "es_kybers s k = Some ke" "origs_ok fs ke"
  shows "kyber_method (call_fn (Suc n)) sl k s =
    Inr (after_method sl k ke s\<lparr>es_log := es_log s @ method_calls fs k sl ke\<rparr>)"
  using assms
  by (cases sl) (auto simp: kyber_method_def Base_PropertyChanged_def Base_Event_def Base_OnDestroy_def Base_Deinit_def call_orig_def
      orig_of_def origs_ok_def method_calls_def after_method_def slot_index_def log_call_def Let_def)

lemma kyber_method_cases:
  assumes "es_kybers s k = Some ke" "origs_ok fs ke" "kyber_method (call_fn n) sl k s = Inr s'"
  shows "s' = after_method sl k ke s\<lparr>es_log := es_log s @ method_calls fs k sl ke\<rparr>"
  using assms
  by (cases n; cases sl) (auto simp: kyber_method_def Base_PropertyChanged_def Base_Event_def Base_OnDestroy_def Base_Deinit_def call_orig_def
      orig_of_def origs_ok_def method_calls_def after_method_def slot_index_def log_call_def Let_def split: if_splits)

lemma inv_any_log [simp]: "ent_inv C (s\<lparr>es_log := l\<rparr>) = ent_inv C s"
  by (simp add: ent_inv_def bound_ok_def unbound_ok_def)

lemma inv_after_method: "ent_inv C s \<Longrightarrow> es_kybers s k = Some ke \<Longrightarrow> ent_inv C (after_method sl k ke s)"
  by (simp add: after_method_def inv_uninit)

lemma after_method_simps [simp]:
  "es_bindings (after_method sl k ke s) = es_bindings s" "es_natives (after_method sl k ke s) = es_natives s"
  "es_vtables (after_method sl k ke s) = es_vtables s" "es_log (after_method sl k ke s) = es_log s"
  by (simp_all add: after_method_def)

lemma virtual_call_bound:
  assumes "es_natives s e = Some ne" "es_vtables s (ne_vtable ne) = Some (hooked_table fs)" "106 \<le> length fs"
    "GetKyberEntity s e = Some k"
  shows "virtual_call (Suc n) i e s =
    (if i \<ge> 106 then Inl Out_Of_Bounds
     else if i = 5 then kyber_method (call_fn n) Property_Changed k s
     else if i = 7 then kyber_method (call_fn n) Event_Received k s
     else if i = 9 then
       (case kyber_method (call_fn n) On_Destroy k s of
          Inl x \<Rightarrow> Inl x
        | Inr s \<Rightarrow> Inr (RemoveEntity e s\<lparr>es_kybers := (es_kybers s)(k := None)\<rparr>))
     else if i = 20 then kyber_method (call_fn n) On_Deinit k s
     else Inr (log_call (Game_Call (fs ! i) e) s))"
  using assms
  by (simp add: virtual_call_def hooked_table_nth EntityManagerPropertyChangedHk_def EntityManagerEventHk_def EntityManagerOnDestroyHk_def
      EntityManagerDeinitHk_def Let_def RemoveEntity_def split: sum.split)

lemma virtual_call_class:
  assumes "ent_inv C s" "es_natives s e = Some ne" "C (ne_vtable ne) = Some fs"
  shows "virtual_call (Suc n) i e s = (if i < length fs then Inr (log_call (Game_Call (fs ! i) e) s) else Inl Out_Of_Bounds)"
  using assms by (auto simp: virtual_call_def ent_inv_def)

text \<open>An entity that was bound before and lives on: its hooks find no binding and do nothing.\<close>

lemma virtual_call_after_destroy:
  assumes "es_natives s e = Some ne" "es_vtables s (ne_vtable ne) = Some (hooked_table fs)" "106 \<le> length fs" "GetKyberEntity s e = None"
  shows "virtual_call (Suc n) i e s =
    (if i \<ge> 106 then Inl Out_Of_Bounds else if i \<in> {5, 7, 9, 20} then Inr s else Inr (log_call (Game_Call (fs ! i) e) s))"
  using assms
  by (simp add: virtual_call_def hooked_table_nth EntityManagerPropertyChangedHk_def EntityManagerEventHk_def EntityManagerOnDestroyHk_def
      EntityManagerDeinitHk_def)

lemma virtual_call_unbound:
  assumes "ent_inv C s" "GetKyberEntity s e = None" "es_natives s e = Some ne" "virtual_call (Suc n) i e s = Inr s'"
  shows "\<exists>l. s' = s\<lparr>es_log := l\<rparr>"
proof -
  have "unbound_ok C s ne" using assms(1-3) unfolding ent_inv_def GetKyberEntity_None by blast
  then consider fs where "C (ne_vtable ne) = Some fs"
    | fs where "106 \<le> length fs" "es_vtables s (ne_vtable ne) = Some (hooked_table fs)" by (auto simp: unbound_ok_def)
  then show ?thesis
  proof cases
    case 1
    then show ?thesis using virtual_call_class [OF assms(1,3), of fs n i] assms(4) by (auto simp: log_call_def split: if_splits)
  next
    case 2
    have "s' = s \<or> s' = log_call (Game_Call (fs ! i) e) s"
      using virtual_call_after_destroy [OF assms(3) 2(2,1) assms(2), of n i] assms(4) by (auto split: if_splits)
    moreover have "s = s\<lparr>es_log := es_log s\<rparr>" by simp
    ultimately show ?thesis unfolding log_call_def by blast
  qed
qed


lemma inv_free_unbound:
  assumes "ent_inv C s" "e \<notin> fst ` set (es_bindings s)"
  shows "ent_inv C (s\<lparr>es_natives := (es_natives s)(e := None)\<rparr>)"
proof -
  have "bound_ok C (s\<lparr>es_natives := (es_natives s)(e := None)\<rparr>) e' k" if "(e', k) \<in> set (es_bindings s)" for e' k
  proof -
    have "e' \<noteq> e" using assms(2) that by force
    then show ?thesis by (intro bound_ok_frame [OF invD [OF assms(1) that]]) simp_all
  qed
  then show ?thesis using assms(1) by (auto simp: ent_inv_def unbound_ok_def split: if_splits)
qed

text \<open>A call that returns keeps the invariant.\<close>

lemma inv_call:
  assumes "ent_inv C s" "virtual_call n i e s = Inr s'"
  shows "ent_inv C s'"
proof -
  obtain m ne where n: "n = Suc m" and ne: "es_natives s e = Some ne"
    using assms(2) by (cases n) (auto simp: virtual_call_def split: option.splits if_splits)
  show ?thesis
  proof (cases "GetKyberEntity s e")
    case None
    then show ?thesis using virtual_call_unbound [OF assms(1) None ne, of m i s'] assms n by auto
  next
    case (Some k)
    obtain ne ke v fs where b: "es_natives s e = Some ne" "es_kybers s k = Some ke" "ke_native ke = e" "C v = Some fs" "106 \<le> length fs"
      "es_vtables s (ne_vtable ne) = Some (hooked_table fs)" "origs_ok fs ke" "(e, k) \<in> set (es_bindings s)"
      using boundE [OF assms(1) Some] by blast
    have slots: "ent_inv C s1 \<and> es_bindings s1 = es_bindings s" if "kyber_method (call_fn m) sl k s = Inr s1" for sl s1
      using kyber_method_cases [OF b(2,7) that] inv_after_method [OF assms(1) b(2)] by simp
    note vc = virtual_call_bound [OF b(1,6,5) Some, of m i]
    show ?thesis
    proof (cases "i = 9")
      case True
      obtain s1 where s1: "kyber_method (call_fn m) On_Destroy k s = Inr s1" "s' = RemoveEntity e s1\<lparr>es_kybers := (es_kybers s1)(k := None)\<rparr>"
        using assms(2) n vc True by (auto split: sum.splits)
      then show ?thesis using inv_remove [of C s1 e k] slots [OF s1(1)] b(8) by simp
    next
      case False
      then have "(\<exists>sl. kyber_method (call_fn m) sl k s = Inr s') \<or> s' = log_call (Game_Call (fs ! i) e) s"
        using assms(2) n vc by (auto split: if_splits)
      then show ?thesis using slots assms(1) by auto
    qed
  qed
qed

text \<open>The turns of the loop over the bindings.\<close>

definition wants_update :: "nat \<Rightarrow> entity_state \<Rightarrow> nat \<times> nat \<Rightarrow> bool" where
  "wants_update realm s b \<longleftrightarrow> (\<exists>ke ne. es_kybers s (snd b) = Some ke \<and> es_natives s (fst b) = Some ne \<and>
    ke_wantUpdates ke \<and> ke_isInitialized ke \<and> ne_realm ne = realm)"

definition bindings_kept :: "entity_state \<Rightarrow> entity_state \<Rightarrow> bool" where
  "bindings_kept s s' \<longleftrightarrow> es_bindings s' = es_bindings s \<and> es_nextKyber s' = es_nextKyber s"

lemma bindings_kept_log [simp]: "bindings_kept (log_call c s) s' = bindings_kept s s'"
  by (simp add: bindings_kept_def log_call_def)

lemma update_binding_live:
  assumes "ent_inv C s" "b \<in> set (es_bindings s)"
  shows "update_binding upd realm b (Inr s) =
    (if wants_update realm s b
     then case upd (snd b) (log_call (Kyber_Update (snd b)) s) of
            Inl e \<Rightarrow> Inl e
          | Inr s' \<Rightarrow> if bindings_kept s s' then Inr s' else Inl Freed_Access
     else Inr s)"
proof -
  have "bound_ok C s (fst b) (snd b)" using invD [OF assms(1), of "fst b" "snd b"] assms(2) by simp
  then obtain ne ke where "es_natives s (fst b) = Some ne" "es_kybers s (snd b) = Some ke" by (auto simp: bound_ok_def)
  then show ?thesis by (auto simp: update_binding_def wants_update_def bindings_kept_def split: sum.split)
qed

lemma update_error [simp]: "fold (update_binding upd realm) bs (Inl e) = Inl e"
  by (induction bs) (simp_all add: update_binding_def)

lemma update_loop_inv:
  assumes "\<And>k s1 s2. upd k s1 = Inr s2 \<Longrightarrow> ent_inv C s1 \<Longrightarrow> ent_inv C s2"
    "ent_inv C s" "set bs \<subseteq> set (es_bindings s)" "fold (update_binding upd realm) bs (Inr s) = Inr s'"
  shows "ent_inv C s' \<and> bindings_kept s s'"
  using assms(2-)
proof (induction bs arbitrary: s)
  case (Cons b bs)
  obtain s1 where s1: "update_binding upd realm b (Inr s) = Inr s1"
    using Cons.prems(3) by (cases "update_binding upd realm b (Inr s)") simp_all
  have "ent_inv C s1" "bindings_kept s s1"
    using s1 Cons.prems(1,2) assms(1) [of "snd b" "log_call (Kyber_Update (snd b)) s" s1] update_binding_live [OF Cons.prems(1), of b upd realm]
    by (auto simp: bindings_kept_def split: if_splits sum.splits)
  then show ?case using Cons.IH [of s1] Cons.prems s1 by (simp add: bindings_kept_def)
qed (simp add: bindings_kept_def)

lemma inv_start: "\<forall>v \<in> dom C. v < n \<Longrightarrow> ent_inv C (entity_start C n)"
  by (auto simp: ent_inv_def entity_start_def)

lemma step_inv: "entity_step w C s s' \<Longrightarrow> ent_inv C s \<Longrightarrow> ent_inv C s'"
proof (induction rule: entity_step.induct)
  case (created s made orig dat r s')
  then show ?case by (blast intro: inv_factory)
next
  case (called n i e s s')
  then show ?case by (blast intro: inv_call)
next
  case (freed s e)
  then show ?case by (blast intro: inv_free_unbound dest: GetKyberEntity_None [THEN iffD1])
next
  case (other s c)
  then show ?case by simp
next
  case (updated upd realm s s')
  have "ent_inv C s2" if "upd k s1 = Inr s2" "ent_inv C s1" for k s1 s2
  proof -
    have "(\<lambda>x y. entity_step w C x y \<and> (ent_inv C x \<longrightarrow> ent_inv C y))\<^sup>*\<^sup>* s1 s2" using updated.IH that(1) by blast
    then show ?thesis using that(2) by (induction rule: rtranclp_induct) auto
  qed
  then show ?case using update_loop_inv [of upd C s "es_bindings s" realm s'] updated by (simp add: UpdateEntities_def)
qed

lemma run_inv: "entity_run w C s \<Longrightarrow> ent_inv C s"
  by (induction rule: entity_run.induct) (auto intro: inv_start step_inv)

lemma steps_inv: "(entity_step w C)\<^sup>*\<^sup>* s s' \<Longrightarrow> ent_inv C s \<Longrightarrow> ent_inv C s'"
  by (induction rule: rtranclp_induct) (auto intro: step_inv)


section \<open>Properties\<close>

text \<open>In every reachable state the game can call any of the first 106 virtual functions of any live entity, bound or not: the call returns with a call
  depth of at most two, no freed object is read and no hook calls itself. The tables that the classes share are never changed. The methods of the mod's
  classes are represented by their calls here.\<close>

lemma entity_calls_return:
  assumes "entity_run w C s" "\<forall>fs \<in> ran C. 106 \<le> length fs" "es_natives s e = Some ne" "i < 106"
  shows "(\<exists>s'. virtual_call (Suc (Suc n)) i e s = Inr s') \<and> (\<forall>v fs. C v = Some fs \<longrightarrow> es_vtables s v = Some (map Game_Fn fs))"
proof -
  have inv: "ent_inv C s" by (rule run_inv [OF assms(1)])
  have "\<exists>s'. virtual_call (Suc (Suc n)) i e s = Inr s'"
  proof (cases "GetKyberEntity s e")
    case None
    then have "unbound_ok C s ne" using inv assms(3) unfolding ent_inv_def GetKyberEntity_None by blast
    then show ?thesis
      using virtual_call_class [OF inv assms(3), of _ "Suc n" i] virtual_call_after_destroy [OF assms(3) _ _ None, of _ "Suc n" i] assms(2,4)
      by (fastforce simp: unbound_ok_def ran_def simp del: call_fn.simps)
  next
    case (Some k)
    obtain ne ke v fs where b: "es_natives s e = Some ne" "es_kybers s k = Some ke" "106 \<le> length fs"
      "es_vtables s (ne_vtable ne) = Some (hooked_table fs)" "origs_ok fs ke"
      using boundE [OF inv Some] by blast
    show ?thesis
      using assms(4) unfolding virtual_call_bound [OF b(1,4,3) Some] kyber_method_result [OF b(2,5)] by simp
  qed
  then show ?thesis using inv by (auto simp: ent_inv_def)
qed

text \<open>The objects whose \<^verbatim>\<open>Update\<close> has been called by the manager, in order.\<close>

definition update_log :: "entity_state \<Rightarrow> nat list" where
  "update_log s = concat (map (\<lambda>c. case c of Kyber_Update k \<Rightarrow> [k] | _ \<Rightarrow> []) (es_log s))"

lemma update_log_call [simp]: "update_log (log_call (Kyber_Update k) s) = update_log s @ [k]"
  by (simp add: update_log_def log_call_def)

text \<open>An update that returns and touches none of what the loop reads.\<close>

definition local_update :: "(nat \<Rightarrow> entity_state \<Rightarrow> entity_state result) \<Rightarrow> bool" where
  "local_update upd \<longleftrightarrow> (\<forall>k s. \<exists>s'. upd k s = Inr s' \<and> bindings_kept s s' \<and> es_kybers s' = es_kybers s \<and> es_natives s' = es_natives s \<and>
    update_log s' = update_log s)"

lemma update_loop_local:
  assumes "local_update upd" "\<And>k s1 s2. upd k s1 = Inr s2 \<Longrightarrow> ent_inv C s1 \<Longrightarrow> ent_inv C s2" "ent_inv C s" "set bs \<subseteq> set (es_bindings s)"
  shows "\<exists>s'. fold (update_binding upd realm) bs (Inr s) = Inr s' \<and> update_log s' = update_log s @ map snd (filter (wants_update realm s) bs)"
  using assms(3,4)
proof (induction bs arbitrary: s)
  case (Cons b bs)
  note live = update_binding_live [OF Cons.prems(1), of b upd realm]
  show ?case
  proof (cases "wants_update realm s b")
    case False
    then show ?thesis using Cons.IH [of s] Cons.prems live by simp
  next
    case True
    obtain s1 where s1: "upd (snd b) (log_call (Kyber_Update (snd b)) s) = Inr s1" "bindings_kept s s1" "es_kybers s1 = es_kybers s"
      "es_natives s1 = es_natives s" "update_log s1 = update_log s @ [snd b]"
      using assms(1) unfolding local_update_def by (metis bindings_kept_log log_call_simps(1,3) update_log_call)
    have "ent_inv C s1" using assms(2) [OF s1(1)] Cons.prems(1) by simp
    moreover have "set bs \<subseteq> set (es_bindings s1)" using Cons.prems(2) s1(2) by (simp add: bindings_kept_def)
    moreover have "wants_update realm s1 = wants_update realm s" by (simp add: wants_update_def fun_eq_iff s1(3,4))
    ultimately show ?thesis using Cons.IH [of s1] Cons.prems(2) live True s1 by auto
  qed
qed simp

lemma update_loop_error:
  assumes "\<And>k s1 s2. upd k s1 = Inr s2 \<Longrightarrow> ent_inv C s1 \<Longrightarrow> ent_inv C s2" "ent_inv C s" "set bs \<subseteq> set (es_bindings s)"
    "fold (update_binding upd realm) bs (Inr s) = Inl x"
  shows "\<exists>b\<in>set bs. \<exists>s1. wants_update realm s1 b \<and> (case upd (snd b) (log_call (Kyber_Update (snd b)) s1) of
    Inl y \<Rightarrow> x = y | Inr s2 \<Rightarrow> x = Freed_Access \<and> \<not> bindings_kept s1 s2)"
  using assms(2-)
proof (induction bs arbitrary: s)
  case (Cons b bs)
  note live = update_binding_live [OF Cons.prems(1), of b upd realm]
  show ?case
  proof (cases "update_binding upd realm b (Inr s)")
    case (Inl y)
    then have "y = x" using Cons.prems(3) by simp
    then show ?thesis using Inl live Cons.prems(2)
      by (intro bexI [of _ b] exI [of _ s]) (auto split: if_splits sum.splits)
  next
    case (Inr s1)
    have "ent_inv C s1" "bindings_kept s s1"
      using update_loop_inv [OF assms(1) Cons.prems(1), where bs = "[b]" and realm = realm and s' = s1] Inr Cons.prems(2) by auto
    then show ?thesis using Cons.IH [of s1] Cons.prems(2,3) Inr by (auto simp: bindings_kept_def)
  qed
qed simp

text \<open>C12: the manager's update of its entities, in every reachable state and for all updates of the mod's objects that are sequences of calls of the game and the
  manager. The loop fails only through an update: because one fails, or because one has changed the bindings, as when the event it fires makes the game
  create or destroy a wrapped entity; and if an update does that, the loop goes on over a changed vector. If the updates leave the bindings and the
  entities alone, every object of the realm that is initialised and asks for updates is updated exactly once, in the order of the bindings.\<close>

theorem updates_in_order:
  assumes "entity_run w C s" "\<forall>k s1 s2. upd k s1 = Inr s2 \<longrightarrow> (entity_step w C)\<^sup>*\<^sup>* s1 s2"
  shows "(\<forall>x. UpdateEntities upd realm s = Inl x \<longrightarrow> (\<exists>b\<in>set (es_bindings s). \<exists>s1. wants_update realm s1 b \<and>
      (case upd (snd b) (log_call (Kyber_Update (snd b)) s1) of Inl y \<Rightarrow> x = y | Inr s2 \<Rightarrow> x = Freed_Access \<and> \<not> bindings_kept s1 s2))) \<and>
    (\<forall>xs b ys s1 s2. es_bindings s = xs @ b # ys \<and> fold (update_binding upd realm) xs (Inr s) = Inr s1 \<and> wants_update realm s1 b \<and>
       upd (snd b) (log_call (Kyber_Update (snd b)) s1) = Inr s2 \<and> \<not> bindings_kept s1 s2 \<longrightarrow> UpdateEntities upd realm s = Inl Freed_Access) \<and>
    (local_update upd \<longrightarrow> (\<exists>s'. UpdateEntities upd realm s = Inr s' \<and>
       update_log s' = update_log s @ map snd (filter (wants_update realm s) (es_bindings s))))"
proof (intro conjI allI impI)
  note inv = run_inv [OF assms(1)]
  have upd: "ent_inv C s2" if "upd k s1 = Inr s2" "ent_inv C s1" for k s1 s2 using assms(2) that steps_inv by blast
  show "\<exists>b\<in>set (es_bindings s). \<exists>s1. wants_update realm s1 b \<and>
      (case upd (snd b) (log_call (Kyber_Update (snd b)) s1) of Inl y \<Rightarrow> x = y | Inr s2 \<Rightarrow> x = Freed_Access \<and> \<not> bindings_kept s1 s2)"
    if "UpdateEntities upd realm s = Inl x" for x
    using update_loop_error [OF upd inv order_refl, where realm = realm and x = x] that by (simp add: UpdateEntities_def)
  show "UpdateEntities upd realm s = Inl Freed_Access"
    if changed: "es_bindings s = xs @ b # ys \<and> fold (update_binding upd realm) xs (Inr s) = Inr s1 \<and> wants_update realm s1 b \<and>
      upd (snd b) (log_call (Kyber_Update (snd b)) s1) = Inr s2 \<and> \<not> bindings_kept s1 s2" for xs b ys s1 s2
  proof -
    have "ent_inv C s1 \<and> bindings_kept s s1" by (rule update_loop_inv [of upd C s xs realm s1]) (use upd inv changed in auto)
    then have s1: "ent_inv C s1" "bindings_kept s s1" by simp_all
    then have "b \<in> set (es_bindings s1)" using changed by (simp add: bindings_kept_def)
    then show ?thesis using update_binding_live [OF s1(1)] changed by (simp add: UpdateEntities_def)
  qed
  show "\<exists>s'. UpdateEntities upd realm s = Inr s' \<and> update_log s' = update_log s @ map snd (filter (wants_update realm s) (es_bindings s))"
    if "local_update upd"
    using update_loop_local [OF that upd inv order_refl, where realm = realm] by (simp add: UpdateEntities_def)
qed

text \<open>C16: An event of a bound entity reaches the object of the mod, and after it, exactly once, the function that the class of the entity has at
  that place, unless the class of the mod replaces the method or stands for an entity without a base.\<close>

theorem events_delivered:
  assumes "entity_run w C s" "GetKyberEntity s e = Some k"
  shows "\<exists>ne ke v fs. es_natives s e = Some ne \<and> es_kybers s k = Some ke \<and> C v = Some fs
    \<and> es_vtables s (ne_vtable ne) = Some (hooked_table fs)
    \<and> virtual_call (Suc (Suc n)) 7 e s = Inr (s\<lparr>es_log := es_log s @ Kyber_Call k Event_Received #
         (if Event_Received \<in> kc_overrides (ke_class ke) \<or> ke_origEventFn ke = None then [] else [Game_Call (fs ! 7) e])\<rparr>)"
proof -
  obtain ne ke v fs where b: "es_natives s e = Some ne" "es_kybers s k = Some ke" "ke_native ke = e" "C v = Some fs" "106 \<le> length fs"
    "es_vtables s (ne_vtable ne) = Some (hooked_table fs)" "origs_ok fs ke" "(e, k) \<in> set (es_bindings s)"
    by (rule boundE [OF run_inv [OF assms(1)] assms(2)])
  have "virtual_call (Suc (Suc n)) 7 e s = Inr (s\<lparr>es_log := es_log s @ Kyber_Call k Event_Received #
         (if Event_Received \<in> kc_overrides (ke_class ke) \<or> ke_origEventFn ke = None then [] else [Game_Call (fs ! 7) e])\<rparr>)"
    by (simp add: virtual_call_bound [OF b(1,6,5) assms(2)] kyber_method_result [OF b(2,7)] b(3)
        after_method_def method_calls_def orig_of_def slot_index_def del: call_fn.simps)
  then show ?thesis using b(1,2,4,6) by blast
qed

text \<open>When the game destroys a bound entity, the binding and the object of the mod are gone afterwards, and every other binding is as
  before: no object is left behind, and no binding to a freed one.\<close>

theorem destroy_unbinds:
  assumes "entity_run w C s" "GetKyberEntity s e = Some k"
  shows "\<exists>s'. virtual_call (Suc (Suc n)) 9 e s = Inr s' \<and> GetKyberEntity s' e = None \<and> es_kybers s' k = None
    \<and> (\<forall>e'. e' \<noteq> e \<longrightarrow> GetKyberEntity s' e' = GetKyberEntity s e') \<and> dom (es_kybers s') = snd ` set (es_bindings s')"
proof -
  note inv = run_inv [OF assms(1)]
  obtain ne ke v fs where b: "es_natives s e = Some ne" "es_kybers s k = Some ke" "106 \<le> length fs"
    "es_vtables s (ne_vtable ne) = Some (hooked_table fs)" "origs_ok fs ke" "(e, k) \<in> set (es_bindings s)"
    using boundE [OF inv assms(2)] by blast
  let ?s1 = "after_method On_Destroy k ke s\<lparr>es_log := es_log s @ method_calls fs k On_Destroy ke\<rparr>"
  let ?s' = "RemoveEntity e ?s1\<lparr>es_kybers := (es_kybers ?s1)(k := None)\<rparr>"
  have call: "virtual_call (Suc (Suc n)) 9 e s = Inr ?s'"
    unfolding virtual_call_bound [OF b(1,4,3) assms(2)] kyber_method_result [OF b(2,5)] by simp
  have "ent_inv C ?s'"
    by (rule inv_remove) (use inv_after_method [OF inv b(2)] b(6) in simp_all)
  then have "dom (es_kybers ?s') = snd ` set (es_bindings ?s')" by (simp add: ent_inv_def)
  moreover have "find (\<lambda>b. fst b = e') (filter (\<lambda>b. fst b \<noteq> e) bs) = find (\<lambda>b. fst b = e') bs" if "e' \<noteq> e" for e' and bs :: "(nat \<times> nat) list"
    using that by (induction bs) auto
  ultimately show ?thesis
    using call by (intro exI [of _ ?s']) (auto simp: RemoveEntity_def GetKyberEntity_def find_None_iff)
qed

text \<open>C39: The table that the manager gives an entity has 106 functions, whatever the table of its class has. A virtual call beyond them,
  which a class with more functions (the comment in the code counts 148 for spatial entities) answers before the entity is wrapped, reads
  outside the copy afterwards.\<close>

theorem wrapped_table_short:
  assumes "entity_run w C s" "GetKyberEntity s e = Some k" "106 \<le> i"
  shows "virtual_call (Suc n) i e s = Inl Out_Of_Bounds
    \<and> (\<forall>e' ne fs. es_natives s e' = Some ne \<and> GetKyberEntity s e' = None \<and> C (ne_vtable ne) = Some fs \<and> i < length fs \<longrightarrow>
         virtual_call (Suc n) i e' s = Inr (log_call (Game_Call (fs ! i) e') s))"
proof -
  note inv = run_inv [OF assms(1)]
  obtain ne fs where b: "es_natives s e = Some ne" "106 \<le> length fs" "es_vtables s (ne_vtable ne) = Some (hooked_table fs)"
    using boundE [OF inv assms(2)] by blast
  have "virtual_call (Suc n) i e s = Inl Out_Of_Bounds"
    using assms(3) by (simp add: virtual_call_bound [OF b(1,3,2) assms(2)])
  moreover have "virtual_call (Suc n) i e' s = Inr (log_call (Game_Call (fs ! i) e') s)"
    if "es_natives s e' = Some ne" "GetKyberEntity s e' = None" "C (ne_vtable ne) = Some fs" "i < length fs" for e' ne fs
    using virtual_call_class [OF inv that(1,3), of n i] that(4) by simp
  ultimately show ?thesis by blast
qed


section \<open>Witnesses\<close>

text \<open>A class with 148 functions; the first entity is of a type that the mod wraps, the second is not.\<close>

definition sample_world :: entity_world where
  "sample_world =
    \<lparr>ew_static = \<lparr>sd_registeredTypeInfo = [], sd_creators = [''ReleaseVersionEntityData'' \<mapsto> \<lparr>kc_overrides = {}, kc_wantUpdates = True\<rparr>],
                  sd_overrideCreators = {}, sd_registrationCallbacks = Map.empty\<rparr>,
     ew_createdTypeInfo = [],
     ew_classes = (\<lambda>t. \<lparr>ci_name = (if t = 1 then ''ReleaseVersionEntityData'' else ''EntityData''), ci_superClass = None\<rparr>),
     ew_dataType = (\<lambda>d. Some d), ew_scripts = False\<rparr>"

definition sample_tables :: class_tables where
  "sample_tables = [0 \<mapsto> [0..<148]]"

definition sample_native :: "nat \<Rightarrow> native_entity" where
  "sample_native d = \<lparr>ne_vtable = 0, ne_isComponent = False, ne_isSpatial = True, ne_data = None, ne_spatialData = Some d, ne_realm = 1\<rparr>"

definition sample_wrapped :: entity_state where
  "sample_wrapped =
    (let s = entity_start sample_tables 1;
         s = bind_entity 10 ((KyberEntityBase_new \<lparr>kc_overrides = {}, kc_wantUpdates = True\<rparr> 10 1)
               \<lparr>ke_origPropertyChangedFn := Some (Game_Fn 5), ke_origOnDestroyFn := Some (Game_Fn 9),
                ke_origEventFn := Some (Game_Fn 7), ke_origDeinitFn := Some (Game_Fn 20)\<rparr>)
               (wrapped 10 (sample_native 1) [0..<148] s)
     in s\<lparr>es_natives := (es_natives s)(20 \<mapsto> sample_native 2)\<rparr>)"


lemma sample_OnEntityCreated:
  "OnEntityCreated sample_world 10 (entity_start sample_tables 1\<lparr>es_natives := [10 \<mapsto> sample_native 1]\<rparr>) =
    Inr (bind_entity 10 ((KyberEntityBase_new \<lparr>kc_overrides = {}, kc_wantUpdates = True\<rparr> 10 1)
               \<lparr>ke_origPropertyChangedFn := Some (Game_Fn 5), ke_origOnDestroyFn := Some (Game_Fn 9),
                ke_origEventFn := Some (Game_Fn 7), ke_origDeinitFn := Some (Game_Fn 20)\<rparr>)
          (wrapped 10 (sample_native 1) [0..<148] (entity_start sample_tables 1)))"
  by (simp add: OnEntityCreated_def sample_native_def sample_world_def sd_GetCreator_def type_name_def GetKyberEntity_def
      DuplicateVTable_def hook_entity_def HookVTableFunction_def entity_start_def sample_tables_def wrapped_def hooked_table_def
      del: upt_Suc upt_rec_numeral)


lemma sample_run: "entity_run sample_world sample_tables sample_wrapped"
proof -
  let ?s0 = "entity_start sample_tables 1"
  let ?s1 = "bind_entity 10 ((KyberEntityBase_new \<lparr>kc_overrides = {}, kc_wantUpdates = True\<rparr> 10 1)
               \<lparr>ke_origPropertyChangedFn := Some (Game_Fn 5), ke_origOnDestroyFn := Some (Game_Fn 9),
                ke_origEventFn := Some (Game_Fn 7), ke_origDeinitFn := Some (Game_Fn 20)\<rparr>) (wrapped 10 (sample_native 1) [0..<148] ?s0)"
  have r0: "entity_run sample_world sample_tables ?s0" by (rule start) (simp add: sample_tables_def)
  have n0: "es_natives ?s0 = Map.empty" by (simp add: entity_start_def)
  have new: "new_object sample_tables s None" "new_object sample_tables s (Some (a, sample_native d)) \<longleftrightarrow> es_natives s a = None" for s a d
    by (simp_all add: new_object_def sample_native_def sample_tables_def)
  have dt: "ew_dataType sample_world d = Some d" for d by (simp add: sample_world_def)
  have ce: "CreateEntity sample_world None d s = Inr (None, s)" for d s
    by (simp add: CreateEntity_def sample_world_def sd_IsOverrideCreator_def)
  have "EntityFactoryInternalCreateEntityHk sample_world None (Some (10, sample_native 1)) 1 ?s0 = Inr (Some 10, ?s1)"
    by (simp add: EntityFactoryInternalCreateEntityHk_def ce dt sample_OnEntityCreated n0 del: One_nat_def)
  from entity_run.step [OF r0 created [OF new(1) _ this]] have r1: "entity_run sample_world sample_tables ?s1" by (simp only: new(2) n0)
  have n1: "es_natives ?s1 20 = None" by (simp add: bind_entity_def wrapped_def entity_start_def)
  have "EntityFactoryInternalCreateEntityHk sample_world None (Some (20, sample_native 2)) 2 ?s1 = Inr (Some 20, sample_wrapped)"
    by (simp add: EntityFactoryInternalCreateEntityHk_def CreateEntity_def sample_world_def sd_IsOverrideCreator_def sd_GetCreator_def
        OnEntityCreated_def sample_native_def type_name_def sample_wrapped_def Let_def)
  from entity_run.step [OF r1 created [OF new(1) _ this]] n1 show ?thesis by (simp only: new(2))
qed

lemma sample_bound: "GetKyberEntity sample_wrapped 10 = Some 0" "GetKyberEntity sample_wrapped 20 = None"
  "es_natives sample_wrapped 10 \<noteq> None" "es_natives sample_wrapped 20 = Some (sample_native 2)"
  by (simp_all add: sample_wrapped_def Let_def bind_entity_def wrapped_def entity_start_def GetKyberEntity_def)

theorem updates_in_order_witness:
  "\<exists>s'. UpdateEntities (\<lambda>k s. Inr (log_call (Script_Event ''OnCommand'' k) s)) 1 sample_wrapped = Inr s' \<and> update_log s' = [0]"
proof -
  let ?upd = "\<lambda>k s. Inr (log_call (Script_Event ''OnCommand'' k) s) :: entity_state result"
  have "local_update ?upd" by (simp add: local_update_def bindings_kept_def update_log_def log_call_def)
  moreover have "update_log sample_wrapped = []" "filter (wants_update 1 sample_wrapped) (es_bindings sample_wrapped) = [(10, 0)]"
    by (simp_all add: update_log_def wants_update_def sample_wrapped_def Let_def bind_entity_def wrapped_def entity_start_def
        KyberEntityBase_new_def sample_native_def)
  moreover have "(entity_step sample_world sample_tables)\<^sup>*\<^sup>* s1 (log_call c s1)" for c s1 by (rule r_into_rtranclp) (rule other)
  ultimately show ?thesis
    using updates_in_order [OF sample_run, of ?upd 1] by simp
qed

theorem events_delivered_witness:
  "\<exists>ke fs. es_kybers sample_wrapped 0 = Some ke \<and> sample_tables 0 = Some fs
    \<and> virtual_call 2 7 10 sample_wrapped = Inr (sample_wrapped\<lparr>es_log := [Kyber_Call 0 Event_Received, Game_Call 7 10]\<rparr>)"
proof -
  have ke: "es_kybers sample_wrapped 0 = Some ke \<Longrightarrow> kc_overrides (ke_class ke) = {} \<and> ke_origEventFn ke \<noteq> None" for ke
    by (auto simp: sample_wrapped_def Let_def bind_entity_def wrapped_def entity_start_def KyberEntityBase_new_def)
  have "es_log sample_wrapped = []"
    by (simp add: sample_wrapped_def Let_def bind_entity_def wrapped_def entity_start_def)
  then show ?thesis
    using events_delivered [OF sample_run sample_bound(1), of 0] ke
    by (auto simp: sample_tables_def numeral_2_eq_2 split: if_splits simp del: call_fn.simps)
qed

theorem wrapped_table_short_witness:
  "virtual_call 1 120 10 sample_wrapped = Inl Out_Of_Bounds
   \<and> virtual_call 1 120 20 sample_wrapped = Inr (log_call (Game_Call 120 20) sample_wrapped)"
proof -
  have "sample_tables (ne_vtable (sample_native 2)) = Some [0..<148]" by (simp add: sample_tables_def sample_native_def)
  moreover have "(106 :: nat) \<le> 120" by simp
  note w = wrapped_table_short [OF sample_run sample_bound(1) this, of 0]
  ultimately have "virtual_call (Suc 0) 120 20 sample_wrapped = Inr (log_call (Game_Call ([0..<148] ! 120) 20) sample_wrapped)"
    using sample_bound(2,4) by (intro conjunct2 [OF w, rule_format]) simp
  then show ?thesis using w by simp
qed

end
