(* ===== verification/Persistence.thy ===== *)
theory Persistence
  imports Console_Commands Guid_Model
begin

text \<open>
  The stored statistics and the unlocks of players on a server (\<^verbatim>\<open>Persistence/PersistenceManager.cpp\<close>,
  \<^verbatim>\<open>Persistence/PersistenceDatabase.cpp\<close>, \<^verbatim>\<open>RPC/API/Statistics.cpp\<close>). When a player joins, the values that the web service has are asked for and
  written into the game's storage when the answer comes; when the player leaves, the values that differ from those the game started with
  are sent.

  A float is its bit pattern, and the comparison with its tolerance is the parameter \<open>changed\<close>. The template of the storage,
  which names its values, and the table of unlocks are functions of the game. Players are objects on a heap, because the answer of the
  service comes later and holds a pointer to the player.
\<close>

unbundle bit_operations_syntax

section \<open>Statistics\<close>

record stat_value =
  stv_current :: u32
  stv_reference :: u32
  stv_original :: u32

record storage_template =
  tp_GetCount :: nat
  tp_GetName :: "nat \<Rightarrow> string"
  tp_GetOffset :: "string \<Rightarrow> u32"

record stat_storage =
  ss_values :: "stat_value list"
  ss_template :: storage_template

type_synonym stats_map = "(string \<times> u32) list"

definition stat_at :: "stat_storage \<Rightarrow> u32 \<Rightarrow> stat_value result" where
  "stat_at st off = (if unat off < length (ss_values st) then Inr (ss_values st ! unat off) else Inl Out_Of_Bounds)"

definition extract_stat :: "(u32 \<Rightarrow> u32 \<Rightarrow> bool) \<Rightarrow> stat_storage \<Rightarrow> nat \<Rightarrow> stats_map result \<Rightarrow> stats_map result" where
  "extract_stat changed st i r =
    (case r of
       Inl e \<Rightarrow> Inl e
     | Inr stats \<Rightarrow>
       (let name = tp_GetName (ss_template st) i
        in case stat_at st (tp_GetOffset (ss_template st) name) of
             Inl e \<Rightarrow> Inl e
           | Inr v \<Rightarrow> if \<not> changed (stv_current v) (stv_reference v) then Inr stats
                      else Inr (map_put name (stv_current v) stats)))"

definition ExtractPlayerStats :: "(u32 \<Rightarrow> u32 \<Rightarrow> bool) \<Rightarrow> server_player \<Rightarrow> stat_storage option \<Rightarrow> stats_map result" where
  "ExtractPlayerStats changed player storage =
    (if IsAIPlayer player \<or> pl_isSpectator player then Inr []
     else case storage of
       None \<Rightarrow> Inl Null_Deref
     | Some st \<Rightarrow> fold (extract_stat changed st) [0..<tp_GetCount (ss_template st)] (Inr []))"

definition apply_stat :: "string \<times> u32 \<Rightarrow> stat_storage result \<Rightarrow> stat_storage result" where
  "apply_stat entry r =
    (case r of
       Inl e \<Rightarrow> Inl e
     | Inr st \<Rightarrow>
       (let off = tp_GetOffset (ss_template st) (fst entry)
        in if off = 0xFFFFFFFF then Inr st
           else case stat_at st off of
             Inl e \<Rightarrow> Inl e
           | Inr v \<Rightarrow> Inr (st\<lparr>ss_values := (ss_values st)[unat off := v\<lparr>stv_current := snd entry\<rparr>]\<rparr>)))"

text \<open>The second component says whether the game is told to replicate the values.\<close>

definition ApplyPlayerStats :: "stats_map \<Rightarrow> stat_storage option \<Rightarrow> (stat_storage option \<times> bool) result" where
  "ApplyPlayerStats stats storage =
    (case storage of
       None \<Rightarrow> Inr (None, False)
     | Some st \<Rightarrow> (case fold apply_stat stats (Inr st) of Inl e \<Rightarrow> Inl e | Inr st \<Rightarrow> Inr (Some st, True)))"


section \<open>Players and the service\<close>

record persistence =
  pr_players :: "nat \<rightharpoonup> server_player \<times> stat_storage option"
  pr_pendingLoads :: "(string \<times> nat) list"
  pr_saved :: "(string \<times> stats_map) list"
  pr_replicated :: "nat list"

definition LoadPlayerStats :: "nat \<Rightarrow> server_player \<Rightarrow> persistence \<Rightarrow> persistence" where
  "LoadPlayerStats a player s =
    s\<lparr>pr_pendingLoads := pr_pendingLoads s @ [(dec_digits (unat (pl_nativeData player)), a)]\<rparr>"

text \<open>The hook on the game's own load, after the trampoline; the loaded values are those of the storage.\<close>

definition LoadPlayerPersistenceHk :: "program \<Rightarrow> nat \<Rightarrow> persistence \<Rightarrow> persistence result" where
  "LoadPlayerPersistenceHk p a s =
    (if \<not> IsRunning p then Inr s
     else case pr_players s a of
       None \<Rightarrow> Inl Freed_Access
     | Some (player, _) \<Rightarrow>
         if IsAIPlayer player \<or> pl_isSpectator player \<or> \<not> pg_isDedicatedServer p then Inr s
         else Inr (LoadPlayerStats a player s))"

text \<open>
  The answer for the player at \<open>a\<close>. Its callbacks hold the pointer to the player and a reference to the player's identity, which the log
  line of the failure reads.
\<close>

definition stats_answer :: "nat \<Rightarrow> stats_map option \<Rightarrow> persistence \<Rightarrow> persistence result" where
  "stats_answer a answer s =
    (case pr_players s a of
       None \<Rightarrow> Inl Freed_Access
     | Some (player, storage) \<Rightarrow>
       (case answer of
          None \<Rightarrow> Inr s
        | Some stats \<Rightarrow>
          (case ApplyPlayerStats stats storage of
             Inl e \<Rightarrow> Inl e
           | Inr (storage, replicated) \<Rightarrow>
               Inr (s\<lparr>pr_players := (pr_players s)(a \<mapsto> (player, storage)),
                      pr_replicated := pr_replicated s @ (if replicated then [a] else [])\<rparr>))))"

definition SavePlayerStats_stats :: "server_player \<Rightarrow> stats_map \<Rightarrow> persistence \<Rightarrow> persistence" where
  "SavePlayerStats_stats player stats s = s\<lparr>pr_saved := pr_saved s @ [(dec_digits (unat (pl_nativeData player)), stats)]\<rparr>"

definition SavePlayerStats :: "(u32 \<Rightarrow> u32 \<Rightarrow> bool) \<Rightarrow> nat \<Rightarrow> persistence \<Rightarrow> persistence result" where
  "SavePlayerStats changed a s =
    (case pr_players s a of
       None \<Rightarrow> Inl Freed_Access
     | Some (player, storage) \<Rightarrow>
         if IsAIPlayer player \<or> pl_isSpectator player then Inr s
         else case ExtractPlayerStats changed player storage of
           Inl e \<Rightarrow> Inl e
         | Inr stats \<Rightarrow> Inr (SavePlayerStats_stats player stats s))"

text \<open>The save of the message \<^verbatim>\<open>ServerPlayerDisconnectMessage\<close>; the game frees the player after it.\<close>

definition player_disconnect :: "(u32 \<Rightarrow> u32 \<Rightarrow> bool) \<Rightarrow> program \<Rightarrow> nat \<Rightarrow> persistence \<Rightarrow> persistence result" where
  "player_disconnect changed p a s =
    (case (if IsRunning p then SavePlayerStats changed a s else Inr s) of
       Inl e \<Rightarrow> Inl e
     | Inr s \<Rightarrow> Inr (s\<lparr>pr_players := (pr_players s)(a := None)\<rparr>))"

text \<open>\<open>search\<close> is the search of the player manager by name.\<close>

definition SavePlayerDataCommand :: "(string \<Rightarrow> nat option) \<Rightarrow> (u32 \<Rightarrow> u32 \<Rightarrow> bool) \<Rightarrow> string \<Rightarrow> persistence \<Rightarrow> persistence result" where
  "SavePlayerDataCommand search changed args s =
    (case search (fst (read_string args)) of
       None \<Rightarrow> Inr s
     | Some a \<Rightarrow>
       (case pr_players s a of
          None \<Rightarrow> Inl Freed_Access
        | Some (player, storage) \<Rightarrow>
          (case ExtractPlayerStats changed player storage of
             Inl e \<Rightarrow> Inl e
           | Inr stats \<Rightarrow> Inr (SavePlayerStats_stats player stats s))))"


section \<open>Unlocks\<close>

text \<open>
  The unlocks of a player are 1217 bits in 32-bit words. \<open>sz\<close> is the size of the class \<^verbatim>\<open>ServerGamePlayerExtent\<close> and \<open>mem\<close> the words in
  memory by byte address; \<^verbatim>\<open>extent + 0xE60\<close> is pointer arithmetic, so it counts in objects of that size. \<open>words\<close> is the
  number of words that the game's \<^verbatim>\<open>Init\<close> gives an array of 1217 bits, and the result is what \<^verbatim>\<open>SetUnlocks\<close> gets.
\<close>

definition set_unlock_bit :: "u32 \<Rightarrow> bool \<Rightarrow> u32 list \<Rightarrow> u32 list result" where
  "set_unlock_bit index value bits =
    (let elementIndex = unat (index div 32);
         bitMask = push_bit (unat (index mod 32)) (1 :: u32)
     in if elementIndex < length bits
        then Inr (bits[elementIndex := bits ! elementIndex XOR
               ((bits ! elementIndex XOR (if value then - 1 else 0)) AND bitMask)])
        else Inl Out_Of_Bounds)"

definition ServerPlayerSetUnlock :: "nat \<Rightarrow> (nat \<Rightarrow> u32) \<Rightarrow> nat \<Rightarrow> (guid \<Rightarrow> u32) \<Rightarrow> nat \<Rightarrow> guid \<Rightarrow> bool \<Rightarrow> u32 list result" where
  "ServerPlayerSetUnlock sz mem words GetBitIndex extent g value =
    set_unlock_bit (GetBitIndex g) value (map (\<lambda>i. mem (extent + 0xE60 * sz + 4 * i)) [0..<words])"

definition SetUnlockCommand where
  "SetUnlockCommand search setUnlock args grant =
    (case read_string args of (playerName, r) \<Rightarrow> case read_string r of (assetGuid, _) \<Rightarrow>
       (case search playerName of
          None \<Rightarrow> None
        | Some extent \<Rightarrow> Some (setUnlock extent (Guid_FromString assetGuid) grant)))"

definition GrantUnlockCommand where
  "GrantUnlockCommand search setUnlock args = SetUnlockCommand search setUnlock args True"

definition RevokeUnlockCommand where
  "RevokeUnlockCommand search setUnlock args = SetUnlockCommand search setUnlock args False"

text \<open>The hook unlocks everything for the players of a running server; otherwise the game's own function runs.\<close>

definition InitUnlockArrayHk :: "program \<Rightarrow> server_player \<Rightarrow> nat \<Rightarrow> u32 list option" where
  "InitUnlockArrayHk p player words =
    (if \<not> IsRunning p \<or> IsAIPlayer player then None else Some (replicate words 0xFFFFFFFF))"


section \<open>What is saved is what is loaded\<close>

text \<open>What the code relies on of the game's template: every name it lists has a place in the storage, and no two share one.\<close>

definition template_ok :: "stat_storage \<Rightarrow> bool" where
  "template_ok st \<longleftrightarrow>
    length (ss_values st) \<le> 0xFFFFFFFF
    \<and> (\<forall>i < tp_GetCount (ss_template st). unat (tp_GetOffset (ss_template st) (tp_GetName (ss_template st) i)) < length (ss_values st))
    \<and> (\<forall>i < tp_GetCount (ss_template st). \<forall>j < tp_GetCount (ss_template st).
         tp_GetOffset (ss_template st) (tp_GetName (ss_template st) i) = tp_GetOffset (ss_template st) (tp_GetName (ss_template st) j) \<longrightarrow>
         tp_GetName (ss_template st) i = tp_GetName (ss_template st) j)"

abbreviation stat_names :: "stat_storage \<Rightarrow> string set" where
  "stat_names st \<equiv> tp_GetName (ss_template st) ` {..<tp_GetCount (ss_template st)}"

abbreviation stat_of :: "stat_storage \<Rightarrow> string \<Rightarrow> stat_value" where
  "stat_of st name \<equiv> ss_values st ! unat (tp_GetOffset (ss_template st) name)"

lemma template_okD:
  assumes "template_ok st" "name \<in> stat_names st"
  shows "unat (tp_GetOffset (ss_template st) name) < length (ss_values st)"
    and "tp_GetOffset (ss_template st) name \<noteq> 0xFFFFFFFF"
proof -
  show *: "unat (tp_GetOffset (ss_template st) name) < length (ss_values st)" using assms by (auto simp: template_ok_def)
  show "tp_GetOffset (ss_template st) name \<noteq> 0xFFFFFFFF"
  proof
    assume "tp_GetOffset (ss_template st) name = 0xFFFFFFFF"
    then show False using * assms(1) by (simp add: template_ok_def)
  qed
qed

lemma template_ok_inj:
  assumes "template_ok st" "a \<in> stat_names st" "b \<in> stat_names st" "a \<noteq> b"
  shows "unat (tp_GetOffset (ss_template st) a) \<noteq> unat (tp_GetOffset (ss_template st) b)"
  using assms by (auto simp: template_ok_def word_unat_eq_iff)

lemma extract_upto:
  assumes "template_ok st" "n \<le> tp_GetCount (ss_template st)"
  shows "\<exists>stats. fold (extract_stat changed st) [0..<n] (Inr []) = Inr stats \<and> ordered stats
    \<and> (\<forall>name. map_of stats name =
        (if name \<in> tp_GetName (ss_template st) ` {..<n} \<and> changed (stv_current (stat_of st name)) (stv_reference (stat_of st name))
         then Some (stv_current (stat_of st name)) else None))"
  using assms(2)
proof (induction n)
  case (Suc n)
  then obtain stats where IH: "fold (extract_stat changed st) [0..<n] (Inr []) = Inr stats" "ordered stats"
    "\<forall>name. map_of stats name =
        (if name \<in> tp_GetName (ss_template st) ` {..<n} \<and> changed (stv_current (stat_of st name)) (stv_reference (stat_of st name))
         then Some (stv_current (stat_of st name)) else None)"
    by auto
  let ?name = "tp_GetName (ss_template st) n"
  have "unat (tp_GetOffset (ss_template st) ?name) < length (ss_values st)"
    using Suc.prems by (intro template_okD(1) [OF assms(1)]) auto
  then have "extract_stat changed st n (Inr stats) =
      Inr (if changed (stv_current (stat_of st ?name)) (stv_reference (stat_of st ?name))
           then map_put ?name (stv_current (stat_of st ?name)) stats else stats)"
    by (simp add: extract_stat_def stat_at_def Let_def)
  then show ?case using IH by (auto simp: lessThan_Suc)
qed simp

lemma apply_stats:
  assumes "template_ok st" "set (keys stats) \<subseteq> stat_names st" "distinct (keys stats)"
  shows "\<exists>st'. fold apply_stat stats (Inr st) = Inr st' \<and> ss_template st' = ss_template st \<and> length (ss_values st') = length (ss_values st)
    \<and> (\<forall>name \<in> stat_names st. stat_of st' name =
        (case map_of stats name of Some x \<Rightarrow> (stat_of st name)\<lparr>stv_current := x\<rparr> | None \<Rightarrow> stat_of st name))"
  using assms
proof (induction stats arbitrary: st)
  case (Cons e stats)
  obtain name x where e: "e = (name, x)" by (cases e)
  have nm: "name \<in> stat_names st" using Cons.prems e by auto
  define st1 where "st1 = st\<lparr>ss_values := (ss_values st)[unat (tp_GetOffset (ss_template st) name) := (stat_of st name)\<lparr>stv_current := x\<rparr>]\<rparr>"
  have step: "apply_stat e (Inr st) = Inr st1"
    using template_okD [OF Cons.prems(1) nm] by (simp add: apply_stat_def e st1_def stat_at_def Let_def)
  have "template_ok st1" using Cons.prems(1) by (simp add: template_ok_def st1_def)
  with Cons.IH [of st1] Cons.prems obtain st' where
    st': "fold apply_stat stats (Inr st1) = Inr st'" "ss_template st' = ss_template st" "length (ss_values st') = length (ss_values st)"
      "\<forall>n \<in> stat_names st. stat_of st' n = (case map_of stats n of Some x \<Rightarrow> (stat_of st1 n)\<lparr>stv_current := x\<rparr> | None \<Rightarrow> stat_of st1 n)"
    by (auto simp: st1_def)
  have "map_of stats name = None" using Cons.prems(3) e by (simp add: map_of_eq_None_iff)
  moreover have "stat_of st1 n = (if n = name then (stat_of st name)\<lparr>stv_current := x\<rparr> else stat_of st n)" if "n \<in> stat_names st" for n
    using template_okD [OF Cons.prems(1) nm] template_ok_inj [OF Cons.prems(1) nm that] by (auto simp: st1_def)
  ultimately show ?case using st' step by (auto simp: e split: option.splits)
qed simp

lemma ordered_distinct: "ordered m \<Longrightarrow> distinct (keys m)"
  by (simp add: strict_sorted_iff)


section \<open>Properties\<close>

text \<open>C13: The statistics of a player that are saved when the player leaves are loaded again by a later session: both calls return, a value that had changed
  has its saved value, and every other value and all the values the game started with stay as they are in the new session.\<close>

theorem stats_round_trip:
  assumes "template_ok st" "template_ok st0" "ss_template st0 = ss_template st" "\<not> IsAIPlayer player" "\<not> pl_isSpectator player"
  shows "\<exists>stats st1. ExtractPlayerStats changed player (Some st) = Inr stats \<and> ApplyPlayerStats stats (Some st0) = Inr (Some st1, True)
    \<and> (\<forall>name \<in> stat_names st. stat_of st1 name =
         (if changed (stv_current (stat_of st name)) (stv_reference (stat_of st name))
          then (stat_of st0 name)\<lparr>stv_current := stv_current (stat_of st name)\<rparr> else stat_of st0 name))"
proof -
  obtain stats where stats: "ExtractPlayerStats changed player (Some st) = Inr stats" "ordered stats"
    "\<forall>name. map_of stats name = (if name \<in> stat_names st \<and> changed (stv_current (stat_of st name)) (stv_reference (stat_of st name))
         then Some (stv_current (stat_of st name)) else None)"
    using extract_upto [OF assms(1) order_refl, of changed] assms(4,5) by (auto simp: ExtractPlayerStats_def)
  have "set (keys stats) \<subseteq> stat_names st0"
  proof
    fix name assume "name \<in> set (keys stats)"
    then have "map_of stats name \<noteq> None" by (simp add: map_of_eq_None_iff)
    then show "name \<in> stat_names st0" using stats(3) assms(3) by (auto split: if_splits)
  qed
  from apply_stats [OF assms(2) this ordered_distinct [OF stats(2)]] obtain st1 where
    "fold apply_stat stats (Inr st0) = Inr st1" "ss_template st1 = ss_template st0"
    "\<forall>name \<in> stat_names st0. stat_of st1 name =
        (case map_of stats name of Some x \<Rightarrow> (stat_of st0 name)\<lparr>stv_current := x\<rparr> | None \<Rightarrow> stat_of st0 name)"
    by blast
  then show ?thesis
    using stats assms(3) by (intro exI [of _ stats] exI [of _ st1]) (auto simp: ApplyPlayerStats_def)
qed

text \<open>The last part of the function, on the copied words: the update of one bit.\<close>

lemma set_unlock_bit_exact:
  "(unat index < 32 * length bits \<longrightarrow>
     (\<exists>bits'. set_unlock_bit index value bits = Inr bits' \<and> length bits' = length bits
       \<and> (\<forall>k < 32 * length bits. bit (bits' ! (k div 32)) (k mod 32) = (if k = unat index then value else bit (bits ! (k div 32)) (k mod 32)))))
   \<and> (32 * length bits \<le> unat index \<longrightarrow> set_unlock_bit index value bits = Inl Out_Of_Bounds)"
proof -
  have div: "unat (index div 32) = unat index div 32" "unat (index mod 32) = unat index mod 32"
    by (simp_all add: unat_div unat_mod)
  have word: "bit (b XOR ((b XOR (if value then - 1 else 0)) AND push_bit (unat index mod 32) 1)) j
      = (if j = unat index mod 32 then value else bit b j)" if "j < 32" for b :: u32 and j
    using that by (auto simp: bit_simps)
  have "\<exists>bits'. set_unlock_bit index value bits = Inr bits' \<and> length bits' = length bits
       \<and> (\<forall>k < 32 * length bits. bit (bits' ! (k div 32)) (k mod 32) = (if k = unat index then value else bit (bits ! (k div 32)) (k mod 32)))"
    if "unat index < 32 * length bits"
  proof -
    have i: "unat index div 32 < length bits" using that by (simp add: less_mult_imp_div_less mult.commute)
    define b' where "b' = bits ! (unat index div 32) XOR
        ((bits ! (unat index div 32) XOR (if value then - 1 else 0)) AND push_bit (unat index mod 32) 1)"
    have s: "set_unlock_bit index value bits = Inr (bits[unat index div 32 := b'])"
      using i by (simp add: set_unlock_bit_def div b'_def Let_def)
    have "bit (bits[unat index div 32 := b'] ! (k div 32)) (k mod 32) = (if k = unat index then value else bit (bits ! (k div 32)) (k mod 32))"
      for k
    proof (cases "k div 32 = unat index div 32")
      case True
      then have "k = unat index \<longleftrightarrow> k mod 32 = unat index mod 32" using div_mult_mod_eq [of k 32] div_mult_mod_eq [of "unat index" 32] by linarith
      then show ?thesis using True i word [of "k mod 32"] by (simp add: b'_def)
    next
      case False
      then show ?thesis by auto
    qed
    then show ?thesis using s by auto
  qed
  moreover have "set_unlock_bit index value bits = Inl Out_Of_Bounds" if "32 * length bits \<le> unat index"
    using that by (auto simp: set_unlock_bit_def div Let_def)
  ultimately show ?thesis by blast
qed

text \<open>The bits of an array of unlocks at an address.\<close>

definition unlock_at :: "(nat \<Rightarrow> u32) \<Rightarrow> nat \<Rightarrow> nat \<Rightarrow> bool" where
  "unlock_at mem base k = bit (mem (base + 4 * (k div 32))) (k mod 32)"

text \<open>C40: what granting or revoking an unlock stores. An unlock that is not among the bits of the array, such as the index -1 of an
  unknown identifier, is written outside the array. Otherwise the stored array has the new value at the bit of the unlock, and every
  other bit is what was found at \<^verbatim>\<open>0xE60\<close> objects, not bytes, behind the extent. So the call is the update of the one unlock of the
  player, whose unlocks are \<^verbatim>\<open>0xE60\<close> bytes behind the start of the extent, exactly if the two places agree on all the other bits.\<close>

theorem set_unlock_stored:
  "let i = unat (GetBitIndex g); r = ServerPlayerSetUnlock sz mem words GetBitIndex extent g v
   in if 32 * words \<le> i then r = Inl Out_Of_Bounds
      else \<exists>bits. r = Inr bits \<and> length bits = words \<and>
        (\<forall>k < 32 * words. bit (bits ! (k div 32)) (k mod 32) = (if k = i then v else unlock_at mem (extent + 0xE60 * sz) k)) \<and>
        ((\<forall>k < 32 * words. bit (bits ! (k div 32)) (k mod 32) = (if k = i then v else unlock_at mem (extent + 0xE60) k)) \<longleftrightarrow>
         (\<forall>k < 32 * words. k \<noteq> i \<longrightarrow> unlock_at mem (extent + 0xE60 * sz) k = unlock_at mem (extent + 0xE60) k))"
proof -
  let ?bits = "map (\<lambda>i. mem (extent + 0xE60 * sz + 4 * i)) [0..<words]"
  have copied: "bit (?bits ! (k div 32)) (k mod 32) = unlock_at mem (extent + 0xE60 * sz) k" if "k < 32 * words" for k
    using that by (simp add: unlock_at_def less_mult_imp_div_less mult.commute)
  have stored: "(unat (GetBitIndex g) < 32 * words \<longrightarrow>
      (\<exists>bits. ServerPlayerSetUnlock sz mem words GetBitIndex extent g v = Inr bits \<and> length bits = words \<and>
        (\<forall>k < 32 * words. bit (bits ! (k div 32)) (k mod 32) =
          (if k = unat (GetBitIndex g) then v else bit (?bits ! (k div 32)) (k mod 32))))) \<and>
      (32 * words \<le> unat (GetBitIndex g) \<longrightarrow> ServerPlayerSetUnlock sz mem words GetBitIndex extent g v = Inl Out_Of_Bounds)"
    using set_unlock_bit_exact [of "GetBitIndex g" ?bits v] by (simp only: ServerPlayerSetUnlock_def length_map length_upt diff_zero)
  show ?thesis
  proof (cases "32 * words \<le> unat (GetBitIndex g)")
    case True
    then show ?thesis using stored by simp
  next
    case False
    then obtain bits where r: "ServerPlayerSetUnlock sz mem words GetBitIndex extent g v = Inr bits" "length bits = words"
      and b: "\<forall>k < 32 * words. bit (bits ! (k div 32)) (k mod 32) =
        (if k = unat (GetBitIndex g) then v else bit (?bits ! (k div 32)) (k mod 32))"
      using stored by auto
    have b': "bit (bits ! (k div 32)) (k mod 32) = (if k = unat (GetBitIndex g) then v else unlock_at mem (extent + 0xE60 * sz) k)"
      if "k < 32 * words" for k using b [rule_format, OF that] copied [OF that] by simp
    show ?thesis unfolding Let_def using False r b' by auto
  qed
qed


text \<open>An answer of the service that comes after the player has left reads the freed player, whatever it says.\<close>

lemma late_stats_answer:
  assumes "player_disconnect changed p a s = Inr s'"
  shows "stats_answer a answer s' = Inl Freed_Access"
  using assms by (auto simp: player_disconnect_def stats_answer_def split: sum.splits)

text \<open>When the load failed, the save still sends the values of the session, which the game counted from its own start values.\<close>

lemma save_after_failed_load:
  assumes "stats_answer a None s = Inr s'" "pr_players s a = Some (player, Some st)" "template_ok st"
    "\<not> IsAIPlayer player" "\<not> pl_isSpectator player" "name \<in> stat_names st"
    "changed (stv_current (stat_of st name)) (stv_reference (stat_of st name))"
  shows "\<exists>stats. SavePlayerStats changed a s' = Inr (SavePlayerStats_stats player stats s) \<and> map_of stats name = Some (stv_current (stat_of st name))"
  using assms extract_upto [OF assms(3) order_refl, of changed]
  by (auto simp: stats_answer_def SavePlayerStats_def ExtractPlayerStats_def)


section \<open>Witnesses\<close>

definition sample_stats :: "u32 \<Rightarrow> u32 \<Rightarrow> stat_storage" where
  "sample_stats a b =
    \<lparr>ss_values = [\<lparr>stv_current = a, stv_reference = 0, stv_original = 0\<rparr>, \<lparr>stv_current = b, stv_reference = 0, stv_original = 0\<rparr>],
     ss_template = \<lparr>tp_GetCount = 2, tp_GetName = (\<lambda>i. if i = 0 then ''c_kills'' else ''c_deaths''),
                    tp_GetOffset = (\<lambda>n. if n = ''c_kills'' then 1 else if n = ''c_deaths'' then 0 else 0xFFFFFFFF)\<rparr>\<rparr>"

lemma sample_template_ok: "template_ok (sample_stats a b)"
  by (auto simp: template_ok_def sample_stats_def less_2_cases_iff)

theorem stats_round_trip_witness:
  "\<exists>stats st1. ExtractPlayerStats (\<noteq>) \<lparr>pl_name = ''a'', pl_localPlayerId = 0, pl_teamId = 1, pl_nativeData = 7, pl_id = [], pl_isSpectator = False\<rparr>
       (Some (sample_stats 0 5)) = Inr stats
     \<and> ApplyPlayerStats stats (Some (sample_stats 0 0)) = Inr (Some st1, True) \<and> stv_current (stat_of st1 ''c_kills'') = 5"
proof -
  have "''c_kills'' \<in> stat_names (sample_stats 0 5)" by (simp add: sample_stats_def image_iff Bex_def)
  then show ?thesis
    using stats_round_trip [OF sample_template_ok [of 0 5] sample_template_ok [of 0 0],
        of "\<lparr>pl_name = ''a'', pl_localPlayerId = 0, pl_teamId = 1, pl_nativeData = 7, pl_id = [], pl_isSpectator = False\<rparr>" "(\<noteq>)"]
    by (fastforce simp: sample_stats_def IsAIPlayer_def)
qed

theorem set_unlock_stored_witness:
  "ServerPlayerSetUnlock 0xBE0 (\<lambda>_. 0) 39 (\<lambda>_. 0xFFFFFFFF) 0 (Guid_FromString []) True = Inl Out_Of_Bounds \<and>
   (\<exists>bits. ServerPlayerSetUnlock 0xBE0 (\<lambda>a. if a < 0x2000 then 0xFFFFFFFF else 0) 39 (\<lambda>_. 33) 0 (Guid_FromString []) True = Inr bits \<and>
      bit (bits ! 1) 1 \<and> \<not> bit (bits ! 1) 0)"
proof -
  have "ServerPlayerSetUnlock 0xBE0 (\<lambda>_. 0) 39 (\<lambda>_. 0xFFFFFFFF) 0 (Guid_FromString []) True = Inl Out_Of_Bounds"
    using set_unlock_stored [of "\<lambda>_. 0xFFFFFFFF" "Guid_FromString []" "0xBE0" "\<lambda>_. 0" 39 0 True] by simp
  moreover obtain bits where r: "ServerPlayerSetUnlock 0xBE0 (\<lambda>a. if a < 0x2000 then 0xFFFFFFFF else 0) 39 (\<lambda>_. 33) 0 (Guid_FromString []) True = Inr bits"
    and b: "\<forall>k < 32 * 39. bit (bits ! (k div 32)) (k mod 32) =
      (if k = 33 then True else unlock_at (\<lambda>a. if a < 0x2000 then 0xFFFFFFFF else 0) (0 + 0xE60 * 0xBE0) k)"
    using set_unlock_stored [of "\<lambda>_. 33" "Guid_FromString []" "0xBE0" "\<lambda>a. if a < 0x2000 then 0xFFFFFFFF else 0" 39 0 True] by (auto simp: Let_def)
  have "bit (bits ! 1) 1" using b [rule_format, of 33] by simp
  moreover have "\<not> bit (bits ! 1) 0" using b [rule_format, of 32] by (simp add: unlock_at_def)
  ultimately show ?thesis using r by blast
qed

end
